(* ===== verification/Prelude.thy ===== *)
theory Prelude
  imports "HOL-Library.Word" "HOL-Library.Monad_Syntax"
begin

text \<open>
  Shared vocabulary of the development: machine words, Go's slices, big-endian byte strings, and
  the generic facts about them that the component theories use.

  Conventions.
  A Go byte slice is a \<open>byte list\<close> whose length is also its capacity (the buffers the driver reads
  from are cut with a full slice expression or freshly made, so the two agree).
  A Go \<open>int\<close> is an \<open>int\<close>; positions and lengths stay far below \<open>2 ^ 63\<close>, and where a Go
  integer can overflow the model uses a word of its width.
  A run-time panic of Go (an index or slice out of range) is \<open>None\<close>; a returned Go error is the
  left component of a sum.
\<close>

section \<open>Types\<close>

type_synonym byte = "8 word"
type_synonym u16 = "16 word"
type_synonym u32 = "32 word"
type_synonym u64 = "64 word"

named_theorems slice_simps \<open>facts that decide slice expressions\<close>
named_theorems go_arith \<open>conversions between Go integers and natural numbers\<close>

section \<open>Slices\<close>

text \<open>\<open>slice b lo hi\<close> is Go's \<open>b[lo:hi]\<close>, with its bounds check.\<close>

definition slice :: "'a list \<Rightarrow> int \<Rightarrow> int \<Rightarrow> 'a list option" where
  "slice b lo hi =
     (if 0 \<le> lo \<and> lo \<le> hi \<and> hi \<le> int (length b)
      then Some (take (nat (hi - lo)) (drop (nat lo) b)) else None)"

text \<open>\<open>index b i\<close> is Go's \<open>b[i]\<close>.\<close>

definition index :: "'a list \<Rightarrow> int \<Rightarrow> 'a option" where
  "index b i = (if 0 \<le> i \<and> i < int (length b) then Some (b ! nat i) else None)"

lemma slice_SomeD:
  "slice b lo hi = Some s \<Longrightarrow>
     0 \<le> lo \<and> lo \<le> hi \<and> hi \<le> int (length b) \<and> length s = nat (hi - lo)"
  by (auto simp: slice_def split: if_splits)

lemma slice_append_mid:
  "slice (xs @ ys @ zs) (int (length xs)) (int (length xs) + int (length ys)) = Some ys"
  by (simp add: slice_def)

lemma slice_mid:
  assumes "lo = int (length xs)" "hi = int (length xs) + int (length ys)"
  shows "slice (xs @ ys @ zs) lo hi = Some ys"
  using assms by (simp add: slice_append_mid)

lemma slice_None_iff:
  "slice b lo hi = None \<longleftrightarrow> \<not> (0 \<le> lo \<and> lo \<le> hi \<and> hi \<le> int (length b))"
  by (simp add: slice_def)

lemma index_append_mid: "index (xs @ y # zs) (int (length xs)) = Some y"
  by (simp add: index_def nth_append)

section \<open>Big-endian byte strings\<close>

text \<open>
  \<open>be_val\<close> reads a byte string as an unsigned big-endian number (Go's \<open>BigEndian.UintN\<close> and
  \<open>big.Int.SetBytes\<close>); \<open>be_enc n v\<close> is the \<open>n\<close>-byte big-endian form of \<open>v\<close> modulo
  \<open>256 ^ n\<close> (Go's \<open>BigEndian.PutUintN\<close>, \<open>big.Int.FillBytes\<close>).
\<close>

definition be_val :: "byte list \<Rightarrow> nat" where
  "be_val bs = foldl (\<lambda>a b. a * 256 + unat b) 0 bs"

fun be_enc :: "nat \<Rightarrow> nat \<Rightarrow> byte list" where
  "be_enc 0 v = []"
| "be_enc (Suc n) v = be_enc n (v div 256) @ [word_of_nat v]"

lemma be_val_foldl: "foldl (\<lambda>a b. a * 256 + unat b) a bs = a * 256 ^ length bs + be_val bs"
proof (induction bs arbitrary: a)
  case Nil
  then show ?case by (simp add: be_val_def)
next
  case (Cons b bs)
  have "foldl (\<lambda>a b. a * 256 + unat b) a (b # bs) = (a * 256 + unat b) * 256 ^ length bs + be_val bs"
    by (simp add: Cons.IH)
  moreover have "be_val (b # bs) = unat b * 256 ^ length bs + be_val bs"
    by (simp add: be_val_def Cons.IH [of "unat b", unfolded be_val_def])
  ultimately show ?case by (simp add: algebra_simps)
qed

lemma be_val_Nil [simp]: "be_val [] = 0"
  by (simp add: be_val_def)

lemma be_val_Cons: "be_val (b # bs) = unat b * 256 ^ length bs + be_val bs"
proof -
  have "be_val (b # bs) = foldl (\<lambda>a b. a * 256 + unat b) (unat b) bs"
    by (simp add: be_val_def)
  then show ?thesis by (simp add: be_val_foldl)
qed

lemma be_val_append: "be_val (xs @ ys) = be_val xs * 256 ^ length ys + be_val ys"
  by (induction xs) (auto simp: be_val_Cons algebra_simps power_add)

lemma be_val_snoc: "be_val (xs @ [b]) = be_val xs * 256 + unat b"
  by (simp add: be_val_append be_val_Cons)

lemma be_val_replicate_0 [simp]: "be_val (replicate n 0) = 0"
  by (induction n) (auto simp: be_val_Cons)

lemma unat_byte_less: "unat (b :: byte) < 256"
  using unsigned_less [of b, where ?'a = nat] by simp

lemma be_val_less: "be_val bs < 256 ^ length bs"
proof (induction bs)
  case Nil
  then show ?case by simp
next
  case (Cons b bs)
  have "unat b * 256 ^ length bs + be_val bs < (unat b + 1) * 256 ^ length bs"
    using Cons.IH by simp
  also have "\<dots> \<le> 256 * 256 ^ length bs"
    using unat_byte_less [of b] by (intro mult_le_mono1) simp
  finally show ?case by (simp add: be_val_Cons)
qed

lemma length_be_enc [simp]: "length (be_enc n v) = n"
  by (induction n arbitrary: v) auto

lemma be_val_be_enc: "be_val (be_enc n v) = v mod 256 ^ n"
proof (induction n arbitrary: v)
  case 0
  then show ?case by simp
next
  case (Suc n)
  have "be_val (be_enc (Suc n) v) = (v div 256) mod 256 ^ n * 256 + v mod 256"
    using Suc.IH by (simp add: be_val_snoc unat_of_nat)
  also have "\<dots> = v mod (256 * 256 ^ n)"
    by (simp add: mod_mult2_eq mult.commute)
  finally show ?case by simp
qed

lemma be_enc_be_val: "be_enc (length bs) (be_val bs) = bs"
proof (induction bs rule: rev_induct)
  case Nil
  then show ?case by simp
next
  case (snoc b bs)
  have "(be_val bs * 256 + unat b) div 256 = be_val bs"
    using unat_byte_less [of b] by simp
  moreover have "word_of_nat (be_val bs * 256 + unat b) = b"
    by (simp only: word_unat_eq_iff unat_of_nat) (use unat_byte_less [of b] in simp)
  ultimately show ?case
    using snoc.IH by (simp add: be_val_snoc)
qed

lemma be_enc_mod: "be_enc n (v mod 256 ^ n) = be_enc n v"
  by (metis be_enc_be_val be_val_be_enc length_be_enc)

lemma be_enc_inject: "be_enc n v = be_enc n w \<longleftrightarrow> v mod 256 ^ n = w mod 256 ^ n"
  by (metis be_val_be_enc be_enc_mod)

lemma be_enc_2: "be_enc 2 v = [word_of_nat (v div 256), word_of_nat v]"
  by (simp add: numeral_2_eq_2)

lemma be_enc_4:
  "be_enc 4 v = [word_of_nat (v div 16777216), word_of_nat (v div 65536), word_of_nat (v div 256),
     word_of_nat v]"
proof -
  have "(4 :: nat) = Suc (Suc (Suc (Suc 0)))" by simp
  then have "be_enc 4 v = be_enc (Suc (Suc (Suc (Suc 0)))) v" by (rule arg_cong)
  then show ?thesis by (simp del: div_mult2_eq add: div_mult2_eq [symmetric])
qed

lemma be_enc_add: "be_enc (n + k) v = be_enc n (v div 256 ^ k) @ be_enc k v"
  by (induction k arbitrary: v) (auto simp: div_mult2_eq)

lemma be_enc_8: "be_enc 8 v = be_enc 4 (v div 4294967296) @ be_enc 4 v"
  using be_enc_add [of 4 4 v] by simp

lemma be_enc_0 [simp]: "be_enc n 0 = replicate n 0"
  by (induction n) (auto simp flip: replicate_append_same)

lemma replicate_4: "replicate 4 x = [x, x, x, x]"
  by (simp add: numeral_eq_Suc)

lemma drop_bit_int_nat: "drop_bit k (int m) = int (m div 2 ^ k)"
  by (simp add: drop_bit_eq_div zdiv_int)

text \<open>The fixed widths of the protocol.\<close>

definition u16_of :: "byte list \<Rightarrow> u16" where "u16_of bs = word_of_nat (be_val bs)"
definition u32_of :: "byte list \<Rightarrow> u32" where "u32_of bs = word_of_nat (be_val bs)"
definition u64_of :: "byte list \<Rightarrow> u64" where "u64_of bs = word_of_nat (be_val bs)"

lemma u16_of_be_enc [simp]: "u16_of (be_enc 2 (unat v)) = v"
  using unsigned_less [of v, where ?'a = nat] by (simp add: u16_of_def be_val_be_enc)

lemma u32_of_be_enc [simp]: "u32_of (be_enc 4 (unat v)) = v"
  using unsigned_less [of v, where ?'a = nat] by (simp add: u32_of_def be_val_be_enc)

lemma u64_of_be_enc [simp]: "u64_of (be_enc 8 (unat v)) = v"
  using unsigned_less [of v, where ?'a = nat] by (simp add: u64_of_def be_val_be_enc)

lemma be_enc_u16_of [simp]: "length bs = 2 \<Longrightarrow> be_enc 2 (unat (u16_of bs)) = bs"
  using be_enc_be_val [of bs] be_val_less [of bs]
  by (simp add: u16_of_def unat_of_nat)

lemma be_enc_u32_of [simp]: "length bs = 4 \<Longrightarrow> be_enc 4 (unat (u32_of bs)) = bs"
  using be_enc_be_val [of bs] be_val_less [of bs]
  by (simp add: u32_of_def unat_of_nat)

lemma be_enc_u64_of [simp]: "length bs = 8 \<Longrightarrow> be_enc 8 (unat (u64_of bs)) = bs"
  using be_enc_be_val [of bs] be_val_less [of bs]
  by (simp add: u64_of_def unat_of_nat)

section \<open>Strings\<close>

text \<open>
  A Go string is a sequence of bytes, and so is Isabelle's \<open>string\<close> (a \<open>char\<close> has 256 values).
  \<open>str_bytes\<close> and \<open>bytes_str\<close> are Go's conversions \<open>[]byte(s)\<close> and \<open>string(b)\<close>.
\<close>

definition str_bytes :: "string \<Rightarrow> byte list" where "str_bytes s = map of_char s"
definition bytes_str :: "byte list \<Rightarrow> string" where "bytes_str b = map (\<lambda>x. char_of (unat x)) b"

lemma length_str_bytes [simp]: "length (str_bytes s) = length s"
  by (simp add: str_bytes_def)

lemma length_bytes_str [simp]: "length (bytes_str b) = length b"
  by (simp add: bytes_str_def)

lemma unat_of_char_byte: "unat (of_char c :: byte) = (of_char c :: nat)"
proof -
  have "unat (of_nat (of_char c) :: byte) = of_char c"
    by (simp only: unat_of_nat) simp
  then show ?thesis by (simp only: of_nat_of_char)
qed

lemma bytes_str_bytes [simp]: "bytes_str (str_bytes s) = s"
  by (simp add: bytes_str_def str_bytes_def unat_of_char_byte comp_def)

lemma str_bytes_append [simp]: "str_bytes (s @ t) = str_bytes s @ str_bytes t"
  by (simp add: str_bytes_def)

section \<open>Option monad\<close>

lemma bind_SomeE:
  assumes "Option.bind m f = Some y"
  obtains x where "m = Some x" "f x = Some y"
  using assms by (cases m) auto

end
