(* ===== verification/Errors.thy ===== *)
theory Errors
  imports Prelude
begin

text \<open>
  The error values of the driver (src/errors.go) and of the packages it reports errors of.
  \<open>Errorf s ws\<close> stands for an error made by \<open>fmt.Errorf\<close> or \<open>errors.Join\<close>: its format string and
  the errors it wraps. \<open>NetTimeout\<close> is a \<open>net.Error\<close> whose \<open>Timeout()\<close> is true, \<open>NetErr\<close> any
  other transport error, \<open>CtxErr\<close> the error of a finished context.
\<close>

datatype goerror =
    ErrInvalidConn | ErrShortRead | ErrReadFail | ErrInternal | ErrInvalidResponse
  | ErrNoSupportAuth | ErrNoSecureChannel | ErrNotImplemented | ErrInvalidRead
  | ErrInvalidMetadata | ErrInvalidParamIndex | ErrTransactionInProgress | ErrTlsUpgradeFail
  | ErrTlsCaFail | ErrTlsHostFail | ErrInvalidLobSize | ErrTd2InvalidAlg
  | ErrFastConnectFailed | ErrFastLoadNotClosed | ErrFastLoadNoColumns
  | ErrFastLoadUnsupported | ErrFastLoadFinished
  | TeradataError u16 string
  | TeradataConnectionError string
  | ErrBadConn
  | EOF | ErrUnexpectedEOF | ErrShortWrite
  | NetTimeout | NetErr string
  | CtxErr
  | Errorf string "goerror list"

text \<open>\<open>errors.Is\<close> and \<open>errors.AsType\<close> look through wrapped errors, a type assertion does not.\<close>

fun errorsIs :: "goerror \<Rightarrow> goerror \<Rightarrow> bool" where
  "errorsIs (Errorf s ws) t = (Errorf s ws = t \<or> list_ex (\<lambda>w. errorsIs w t) ws)"
| "errorsIs e t = (e = t)"

fun wrapsTeradataError :: "goerror \<Rightarrow> bool" where
  "wrapsTeradataError (TeradataError c m) = True"
| "wrapsTeradataError (Errorf s ws) = list_ex wrapsTeradataError ws"
| "wrapsTeradataError _ = False"

definition isConnectionError :: "goerror \<Rightarrow> bool" where
  "isConnectionError err = (\<not> wrapsTeradataError err)"

fun isTeradataErrorCode :: "goerror \<Rightarrow> int \<Rightarrow> bool" where
  "isTeradataErrorCode (TeradataError c m) code = (uint c = code)"
| "isTeradataErrorCode _ code = False"

definition isTeradataError :: "goerror \<Rightarrow> bool" where
  "isTeradataError err = wrapsTeradataError err"

fun isDeadlineErr :: "goerror \<Rightarrow> bool" where
  "isDeadlineErr NetTimeout = True"
| "isDeadlineErr _ = False"

lemma isTeradataErrorCode_imp: "isTeradataErrorCode e c \<Longrightarrow> isTeradataError e"
  by (cases e) (auto simp: isTeradataError_def)

lemma isConnectionError_iff: "isConnectionError e \<longleftrightarrow> \<not> isTeradataError e"
  by (simp add: isConnectionError_def isTeradataError_def)

end
