(* ===== verification/BufferReader.thy ===== *)
theory BufferReader
  imports Prelude
begin

unbundle bit_operations_syntax

text \<open>
  The cursor over a received message, src/buffer_reader.go. Each operation returns the value and
  the moved reader, or \<open>None\<close> where Go panics.
\<close>

record bufferReader =
  r_buff :: "byte list"
  r_indx :: int
  r_len :: int

definition newBufferReader :: "byte list \<Rightarrow> int \<Rightarrow> int \<Rightarrow> bufferReader" where
  "newBufferReader buff start ln = \<lparr>r_buff = buff, r_indx = start, r_len = ln\<rparr>"

definition isDone :: "bufferReader \<Rightarrow> bool" where
  "isDone r = (r_len r \<le> r_indx r)"

definition peekU16 :: "bufferReader \<Rightarrow> u16 option" where
  "peekU16 r = map_option u16_of (slice (r_buff r) (r_indx r) (r_indx r + 2))"

definition rd_u16 :: "bufferReader \<Rightarrow> (u16 \<times> bufferReader) option" where
  "rd_u16 r = do {
     d \<leftarrow> slice (r_buff r) (r_indx r) (r_indx r + 2);
     Some (u16_of d, r\<lparr>r_indx := r_indx r + 2\<rparr>) }"

definition rd_u32 :: "bufferReader \<Rightarrow> (u32 \<times> bufferReader) option" where
  "rd_u32 r = do {
     d \<leftarrow> slice (r_buff r) (r_indx r) (r_indx r + 4);
     Some (u32_of d, r\<lparr>r_indx := r_indx r + 4\<rparr>) }"

definition rd_u64 :: "bufferReader \<Rightarrow> (u64 \<times> bufferReader) option" where
  "rd_u64 r = do {
     d \<leftarrow> slice (r_buff r) (r_indx r) (r_indx r + 8);
     Some (u64_of d, r\<lparr>r_indx := r_indx r + 8\<rparr>) }"

definition rd_bytes :: "int \<Rightarrow> bufferReader \<Rightarrow> (byte list \<times> bufferReader) option" where
  "rd_bytes n r = do {
     d \<leftarrow> slice (r_buff r) (r_indx r) (r_indx r + n);
     Some (d, r\<lparr>r_indx := r_indx r + n\<rparr>) }"

definition rd_skip :: "int \<Rightarrow> bufferReader \<Rightarrow> bufferReader" where
  "rd_skip n r = r\<lparr>r_indx := r_indx r + n\<rparr>"

definition rd_position :: "bufferReader \<Rightarrow> int" where
  "rd_position r = r_indx r"

definition rd_seek :: "int \<Rightarrow> bufferReader \<Rightarrow> bufferReader" where
  "rd_seek pos r = r\<lparr>r_indx := pos\<rparr>"

definition rd_u8 :: "bufferReader \<Rightarrow> (byte \<times> bufferReader) option" where
  "rd_u8 r = do {
     d \<leftarrow> index (r_buff r) (r_indx r);
     Some (d, r\<lparr>r_indx := r_indx r + 1\<rparr>) }"

text \<open>A \<open>float64\<close> is represented by its IEEE bits, so \<open>f64\<close> is \<open>u64\<close>.\<close>

definition rd_f64 :: "bufferReader \<Rightarrow> (u64 \<times> bufferReader) option" where
  "rd_f64 r = rd_u64 r"

definition rd_bigIntN :: "int \<Rightarrow> bufferReader \<Rightarrow> (int \<times> bufferReader) option" where
  "rd_bigIntN n r = do {
     (b, r) \<leftarrow> rd_bytes n r;
     let v = int (be_val b);
     Some (if n > 0 \<and> (b ! 0) AND 0x80 \<noteq> 0 then v - 2 ^ nat (n * 8) else v, r) }"

definition rd_bigInt16 :: "bufferReader \<Rightarrow> (int \<times> bufferReader) option" where
  "rd_bigInt16 r = rd_bigIntN 16 r"

definition byteAt :: "bufferReader \<Rightarrow> int \<Rightarrow> byte option" where
  "byteAt r pos = index (r_buff r) pos"

definition u16At :: "bufferReader \<Rightarrow> int \<Rightarrow> u16 option" where
  "u16At r pos = map_option u16_of (slice (r_buff r) pos (pos + 2))"

definition u32At :: "bufferReader \<Rightarrow> int \<Rightarrow> u32 option" where
  "u32At r pos = map_option u32_of (slice (r_buff r) pos (pos + 4))"

definition u64At :: "bufferReader \<Rightarrow> int \<Rightarrow> u64 option" where
  "u64At r pos = map_option u64_of (slice (r_buff r) pos (pos + 8))"

definition asciiString :: "int \<Rightarrow> bufferReader \<Rightarrow> (string \<times> bufferReader) option" where
  "asciiString n r = do { (d, r) \<leftarrow> rd_bytes n r; Some (bytes_str d, r) }"

definition asciiStringAt :: "bufferReader \<Rightarrow> int \<Rightarrow> int \<Rightarrow> string option" where
  "asciiStringAt r pos n = map_option bytes_str (slice (r_buff r) pos (pos + n))"

section \<open>Readers placed before known bytes\<close>

text \<open>
  \<open>rdr pre suf l\<close> is a reader that has consumed \<open>pre\<close> and has \<open>suf\<close> ahead of it. The rules below
  move it over a known prefix of \<open>suf\<close>; simplification with them runs a parser symbolically.
\<close>

definition rdr :: "byte list \<Rightarrow> byte list \<Rightarrow> int \<Rightarrow> bufferReader" where
  "rdr pre suf l = \<lparr>r_buff = pre @ suf, r_indx = int (length pre), r_len = l\<rparr>"

named_theorems rdr_simps \<open>symbolic execution of reader operations\<close>

lemma rdr_fields [simp]:
  "r_buff (rdr pre suf l) = pre @ suf" "r_indx (rdr pre suf l) = int (length pre)"
  "r_len (rdr pre suf l) = l"
  by (simp_all add: rdr_def)

lemma rdr_advance:
  "(rdr pre (d @ s) l)\<lparr>r_indx := int (length pre) + int (length d)\<rparr> = rdr (pre @ d) s l"
  by (simp add: rdr_def)

lemma rd_bytes_rdr [rdr_simps]:
  "n = int (length d) \<Longrightarrow> rd_bytes n (rdr pre (d @ s) l) = Some (d, rdr (pre @ d) s l)"
  by (simp add: rd_bytes_def slice_mid rdr_advance)

lemma rd_u8_rdr [rdr_simps]: "rd_u8 (rdr pre (b # s) l) = Some (b, rdr (pre @ [b]) s l)"
  using rdr_advance [of pre "[b]" s l] by (simp add: rd_u8_def index_append_mid)

lemma rd_u16_bytes:
  "length d = 2 \<Longrightarrow> rd_u16 (rdr pre (d @ s) l) = Some (u16_of d, rdr (pre @ d) s l)"
  using rdr_advance [of pre d s l] by (simp add: rd_u16_def slice_mid)

lemma rd_u32_bytes:
  "length d = 4 \<Longrightarrow> rd_u32 (rdr pre (d @ s) l) = Some (u32_of d, rdr (pre @ d) s l)"
  using rdr_advance [of pre d s l] by (simp add: rd_u32_def slice_mid)

lemma rd_u64_bytes:
  "length d = 8 \<Longrightarrow> rd_u64 (rdr pre (d @ s) l) = Some (u64_of d, rdr (pre @ d) s l)"
  using rdr_advance [of pre d s l] by (simp add: rd_u64_def slice_mid)

lemma rd_u16_rdr [rdr_simps]:
  "rd_u16 (rdr pre (be_enc 2 (unat v) @ s) l) = Some (v, rdr (pre @ be_enc 2 (unat v)) s l)"
  by (simp add: rd_u16_bytes)

lemma rd_u32_rdr [rdr_simps]:
  "rd_u32 (rdr pre (be_enc 4 (unat v) @ s) l) = Some (v, rdr (pre @ be_enc 4 (unat v)) s l)"
  by (simp add: rd_u32_bytes)

lemma rd_u64_rdr [rdr_simps]:
  "rd_u64 (rdr pre (be_enc 8 (unat v) @ s) l) = Some (v, rdr (pre @ be_enc 8 (unat v)) s l)"
  by (simp add: rd_u64_bytes)

lemma asciiString_rdr [rdr_simps]:
  "n = int (length t) \<Longrightarrow>
     asciiString n (rdr pre (str_bytes t @ s) l) = Some (t, rdr (pre @ str_bytes t) s l)"
  by (simp add: asciiString_def rd_bytes_rdr)

lemma rd_seek_rdr [rdr_simps]:
  "pos = int (length pre) + int (length d) \<Longrightarrow> rd_seek pos (rdr pre (d @ s) l) = rdr (pre @ d) s l"
  by (simp add: rd_seek_def rdr_advance)

lemma rd_skip_rdr [rdr_simps]:
  "n = int (length d) \<Longrightarrow> rd_skip n (rdr pre (d @ s) l) = rdr (pre @ d) s l"
  by (simp add: rd_skip_def rdr_advance)

lemma rd_position_rdr [simp]: "rd_position (rdr pre s l) = int (length pre)"
  by (simp add: rd_position_def)

lemma isDone_rdr [simp]: "isDone (rdr pre s l) \<longleftrightarrow> l \<le> int (length pre)"
  by (simp add: isDone_def)

lemma rdr_exists:
  assumes "0 \<le> r_indx r" "r_indx r \<le> int (length (r_buff r))"
  shows "r = rdr (take (nat (r_indx r)) (r_buff r)) (drop (nat (r_indx r)) (r_buff r)) (r_len r)"
  using assms by (simp add: rdr_def)

section \<open>What a read can change\<close>

text \<open>Reads never write: the buffer and the limit stay, only the position moves.\<close>

lemma rd_bytes_frame:
  "rd_bytes n r = Some (d, r') \<Longrightarrow> r' = r\<lparr>r_indx := r_indx r + n\<rparr> \<and> int (length d) = n"
  by (auto simp: rd_bytes_def bind_eq_Some_conv dest: slice_SomeD)

lemma rd_u8_frame: "rd_u8 r = Some (d, r') \<Longrightarrow> r' = r\<lparr>r_indx := r_indx r + 1\<rparr>"
  by (auto simp: rd_u8_def bind_eq_Some_conv)

lemma rd_u16_frame: "rd_u16 r = Some (d, r') \<Longrightarrow> r' = r\<lparr>r_indx := r_indx r + 2\<rparr>"
  by (auto simp: rd_u16_def bind_eq_Some_conv)

lemma rd_u32_frame: "rd_u32 r = Some (d, r') \<Longrightarrow> r' = r\<lparr>r_indx := r_indx r + 4\<rparr>"
  by (auto simp: rd_u32_def bind_eq_Some_conv)

lemma rd_u64_frame: "rd_u64 r = Some (d, r') \<Longrightarrow> r' = r\<lparr>r_indx := r_indx r + 8\<rparr>"
  by (auto simp: rd_u64_def bind_eq_Some_conv)

lemmas rd_frames = rd_bytes_frame rd_u8_frame rd_u16_frame rd_u32_frame rd_u64_frame

section \<open>Two's complement numbers\<close>

text \<open>The number a big-endian two's complement string denotes.\<close>

definition twos_val :: "byte list \<Rightarrow> int" where
  "twos_val b = (if b \<noteq> [] \<and> 128 \<le> unat (hd b)
                 then int (be_val b) - 256 ^ length b else int (be_val b))"

lemma byte_and_128: "(b :: byte) AND 128 \<noteq> 0 \<longleftrightarrow> 128 \<le> unat b"
proof -
  have "b AND 128 \<noteq> 0 \<longleftrightarrow> bit b 7"
    using and_exp_eq_0_iff_not_bit [of b 7] by simp
  also have "\<dots> \<longleftrightarrow> bit (unat b) 7"
    by (simp add: bit_unsigned_iff)
  also have "\<dots> \<longleftrightarrow> odd (unat b div 128)"
    by (simp add: bit_iff_odd)
  also have "\<dots> \<longleftrightarrow> 128 \<le> unat b"
  proof -
    have "unat b div 128 = (if 128 \<le> unat b then 1 else 0)"
      using unat_byte_less [of b] by (auto intro: div_nat_eqI)
    then show ?thesis by simp
  qed
  finally show ?thesis .
qed

lemma pow2_bytes: "(2 :: int) ^ (n * 8) = 256 ^ n" "(2 :: int) ^ (8 * n) = 256 ^ n"
  using power_mult [of "2 :: int" 8 n] by (simp_all add: mult.commute)

lemma rd_bigIntN_rdr:
  assumes "n = int (length d)"
  shows "rd_bigIntN n (rdr pre (d @ s) l) = Some (twos_val d, rdr (pre @ d) s l)"
proof -
  have "rd_bytes n (rdr pre (d @ s) l) = Some (d, rdr (pre @ d) s l)"
    using assms by (rule rd_bytes_rdr)
  then show ?thesis
    using assms
    by (cases "d = []")
      (auto simp: rd_bigIntN_def twos_val_def byte_and_128 hd_conv_nth pow2_bytes
        nat_mult_distrib Let_def)
qed

end
