(* ===== verification/BufferWriter.thy ===== *)
theory BufferWriter
  imports BufferReader
begin

text \<open>
  The cursor over an outgoing message, src/buffer_writer.go, and its abstract contract: every
  write is an \<open>emit\<close> of a byte string at the current position, which leaves the rest of the buffer
  alone and moves the position by the string's length.
\<close>

record bufferWriter =
  w_buff :: "byte list"
  w_indx :: int

definition newBufferWriter :: "byte list \<Rightarrow> bufferWriter" where
  "newBufferWriter buff = \<lparr>w_buff = buff, w_indx = 0\<rparr>"

definition room :: "bufferWriter \<Rightarrow> int \<Rightarrow> bool" where
  "room w n \<longleftrightarrow> 0 \<le> w_indx w \<and> w_indx w + n \<le> int (length (w_buff w))"

text \<open>\<open>copy(w.buff[w.indx:], bs)\<close> with room for all of \<open>bs\<close>, then \<open>w.indx += len(bs)\<close>.\<close>

definition emit :: "byte list \<Rightarrow> bufferWriter \<Rightarrow> bufferWriter option" where
  "emit bs w =
     (if room w (int (length bs))
      then Some \<lparr>w_buff = take (nat (w_indx w)) (w_buff w) @ bs
                         @ drop (nat (w_indx w) + length bs) (w_buff w),
                 w_indx = w_indx w + int (length bs)\<rparr>
      else None)"

definition wr_byte :: "byte \<Rightarrow> bufferWriter \<Rightarrow> bufferWriter option" where
  "wr_byte v w = do { _ \<leftarrow> index (w_buff w) (w_indx w); emit [v] w }"

definition wr_u8 :: "byte \<Rightarrow> bufferWriter \<Rightarrow> bufferWriter option" where
  "wr_u8 v w = wr_byte v w"

definition wr_u16 :: "u16 \<Rightarrow> bufferWriter \<Rightarrow> bufferWriter option" where
  "wr_u16 v w = do { _ \<leftarrow> index (w_buff w) (w_indx w + 1); emit (be_enc 2 (unat v)) w }"

definition wr_u32 :: "u32 \<Rightarrow> bufferWriter \<Rightarrow> bufferWriter option" where
  "wr_u32 v w = do { _ \<leftarrow> index (w_buff w) (w_indx w + 3); emit (be_enc 4 (unat v)) w }"

definition wr_u64 :: "u64 \<Rightarrow> bufferWriter \<Rightarrow> bufferWriter option" where
  "wr_u64 v w = do { _ \<leftarrow> index (w_buff w) (w_indx w + 7); emit (be_enc 8 (unat v)) w }"

text \<open>
  \<open>bytes\<close> probes \<open>w.buff[w.indx+len(v)-1]\<close> first, so an empty slice written at position 0
  panics; \<open>str\<close> returns early on the empty string.
\<close>

definition wr_bytes :: "byte list \<Rightarrow> bufferWriter \<Rightarrow> bufferWriter option" where
  "wr_bytes v w = do { _ \<leftarrow> index (w_buff w) (w_indx w + int (length v) - 1); emit v w }"

definition wr_str :: "string \<Rightarrow> bufferWriter \<Rightarrow> bufferWriter option" where
  "wr_str v w =
     (if length v = 0 then Some w
      else do { _ \<leftarrow> index (w_buff w) (w_indx w + int (length v) - 1); emit (str_bytes v) w })"

definition wr_tlv16 :: "u16 \<Rightarrow> byte list \<Rightarrow> bufferWriter \<Rightarrow> bufferWriter option" where
  "wr_tlv16 tag v w = do {
     w \<leftarrow> wr_u16 tag w;
     w \<leftarrow> wr_u16 (word_of_nat (length v)) w;
     wr_bytes v w }"

definition wr_tz16 :: "u16 \<Rightarrow> bufferWriter \<Rightarrow> bufferWriter option" where
  "wr_tz16 tag w = do { w \<leftarrow> wr_u16 tag w; wr_u16 0 w }"

text \<open>\<open>skip\<close> zeroes the bytes it passes; for a length that is not positive its loop does nothing.\<close>

definition wr_skip :: "int \<Rightarrow> bufferWriter \<Rightarrow> bufferWriter option" where
  "wr_skip n w = (if n \<le> 0 then Some w else emit (replicate (nat n) 0) w)"

definition wr_setPosition :: "int \<Rightarrow> bufferWriter \<Rightarrow> bufferWriter" where
  "wr_setPosition pos w = w\<lparr>w_indx := pos\<rparr>"

definition wr_position :: "bufferWriter \<Rightarrow> int" where
  "wr_position w = w_indx w"

section \<open>The laws of \<open>emit\<close>\<close>

named_theorems emit_simps \<open>every write is an emit, and emits compose\<close>

lemma emit_Some_iff:
  "emit bs w = Some w' \<longleftrightarrow>
     room w (int (length bs)) \<and>
     w_buff w' = take (nat (w_indx w)) (w_buff w) @ bs @ drop (nat (w_indx w) + length bs) (w_buff w) \<and>
     w_indx w' = w_indx w + int (length bs)"
  by (auto simp: emit_def)

lemma emit_None_iff: "emit bs w = None \<longleftrightarrow> \<not> room w (int (length bs))"
  by (simp add: emit_def)

lemma emit_defined: "room w (int (length bs)) \<Longrightarrow> \<exists>w'. emit bs w = Some w'"
  by (simp add: emit_def)

lemma emit_frame:
  assumes "emit bs w = Some w'"
  shows "w_indx w' = w_indx w + int (length bs)"
    and "length (w_buff w') = length (w_buff w)"
    and "take (nat (w_indx w)) (w_buff w') = take (nat (w_indx w)) (w_buff w)"
    and "drop (nat (w_indx w')) (w_buff w') = drop (nat (w_indx w')) (w_buff w)"
    and "slice (w_buff w') (w_indx w) (w_indx w') = Some bs"
proof -
  let ?i = "nat (w_indx w)"
  have r: "0 \<le> w_indx w" "?i + length bs \<le> length (w_buff w)"
    using assms by (auto simp: emit_Some_iff room_def)
  have b: "w_buff w' = take ?i (w_buff w) @ bs @ drop (?i + length bs) (w_buff w)"
    and x: "w_indx w' = w_indx w + int (length bs)"
    using assms by (auto simp: emit_Some_iff)
  show "w_indx w' = w_indx w + int (length bs)" by (rule x)
  show "length (w_buff w') = length (w_buff w)" using r by (simp add: b)
  show "take ?i (w_buff w') = take ?i (w_buff w)" using r by (simp add: b)
  show "drop (nat (w_indx w')) (w_buff w') = drop (nat (w_indx w')) (w_buff w)"
    using r by (simp add: b x nat_add_distrib)
  show "slice (w_buff w') (w_indx w) (w_indx w') = Some bs"
    using r by (simp add: b x slice_def)
qed

lemma room_emit:
  "emit bs w = Some w' \<Longrightarrow> 0 \<le> n \<Longrightarrow> room w' n \<longleftrightarrow> room w (int (length bs) + n)"
  using emit_frame(1,2) [of bs w w'] by (auto simp: room_def emit_Some_iff)

lemma emit_append [emit_simps]: "Option.bind (emit xs w) (emit ys) = emit (xs @ ys) w"
proof (cases "room w (int (length xs))")
  case False
  then show ?thesis by (auto simp: emit_def room_def)
next
  case True
  then obtain w1 where w1: "emit xs w = Some w1" using emit_defined by blast
  let ?i = "nat (w_indx w)"
  have r: "0 \<le> w_indx w" "?i + length xs \<le> length (w_buff w)"
    using True by (auto simp: room_def)
  have "nat (w_indx w + int (length xs)) = ?i + length xs"
    using r by (simp add: nat_add_distrib)
  then show ?thesis
    using r w1 room_emit [OF w1, of "int (length ys)"]
    by (auto simp: emit_def room_def ac_simps)
qed

lemma emit_bind_append [emit_simps]:
  "Option.bind (emit xs w) (\<lambda>v. Option.bind (emit ys v) f) = Option.bind (emit (xs @ ys) w) f"
  by (simp flip: emit_append)

lemma emit_return [emit_simps]: "Option.bind (emit xs w) Some = emit xs w"
  by (cases "emit xs w") auto

lemma emit_if [emit_simps]: "(if c then emit xs w else emit ys w) = emit (if c then xs else ys) w"
  by simp

section \<open>Every write is an emit\<close>

lemma wr_byte_emit [emit_simps]: "wr_byte v w = emit [v] w"
  by (auto simp: wr_byte_def index_def emit_def room_def)

lemma wr_u8_emit [emit_simps]: "wr_u8 v w = emit [v] w"
  by (simp add: wr_u8_def wr_byte_emit)

lemma wr_u16_emit [emit_simps]: "wr_u16 v w = emit (be_enc 2 (unat v)) w"
  by (auto simp: wr_u16_def index_def emit_def room_def)

lemma wr_u32_emit [emit_simps]: "wr_u32 v w = emit (be_enc 4 (unat v)) w"
  by (auto simp: wr_u32_def index_def emit_def room_def)

lemma wr_u64_emit [emit_simps]: "wr_u64 v w = emit (be_enc 8 (unat v)) w"
  by (auto simp: wr_u64_def index_def emit_def room_def)

lemma wr_bytes_emit: "v \<noteq> [] \<Longrightarrow> wr_bytes v w = emit v w"
  by (cases v) (auto simp: wr_bytes_def index_def emit_def room_def)

lemma wr_bytes_emit_pos:
  "0 < w_indx w \<Longrightarrow> w_indx w \<le> int (length (w_buff w)) \<Longrightarrow> wr_bytes v w = emit v w"
  by (cases "v = []") (simp add: wr_bytes_def index_def, rule wr_bytes_emit)

lemma wr_bytes_after_emit [emit_simps]:
  "xs \<noteq> [] \<Longrightarrow> Option.bind (emit xs w) (wr_bytes v) = emit (xs @ v) w"
proof (cases "emit xs w")
  case (Some w1)
  moreover assume "xs \<noteq> []"
  ultimately have "wr_bytes v w1 = emit v w1"
    by (cases xs; intro wr_bytes_emit_pos) (auto simp: emit_Some_iff room_def)
  then show ?thesis using Some emit_append [of xs w v] by simp
next
  case None
  then show ?thesis using emit_append [of xs w v] by simp
qed

lemma wr_bytes_after_emit_bind [emit_simps]:
  "xs \<noteq> [] \<Longrightarrow>
     Option.bind (emit xs w) (\<lambda>u. Option.bind (wr_bytes v u) f) = Option.bind (emit (xs @ v) w) f"
  using wr_bytes_after_emit [of xs w v]
  by (cases "emit xs w") (auto split: bind_split)

lemma wr_str_emit: "v \<noteq> [] \<Longrightarrow> wr_str v w = emit (str_bytes v) w"
  using wr_bytes_emit [of "str_bytes v" w]
  by (auto simp: wr_str_def wr_bytes_def str_bytes_def)

lemma wr_skip_emit: "0 < n \<Longrightarrow> wr_skip n w = emit (replicate (nat n) 0) w"
  by (simp add: wr_skip_def)

lemma wr_skip_room: "0 \<le> n \<Longrightarrow> room w 0 \<Longrightarrow> wr_skip n w = emit (replicate (nat n) 0) w"
  by (cases w) (auto simp: wr_skip_def emit_def)

section \<open>The interface of a fixed-width field\<close>

text \<open>
  What a reader and a writer of one field promise each other: the writer emits the encoding, whose
  width is fixed, and the reader takes exactly that encoding back. Round trip, frame and panic
  conditions follow from these laws alone.
\<close>

locale wire_field =
  fixes enc :: "'a \<Rightarrow> byte list"
    and wr :: "'a \<Rightarrow> bufferWriter \<Rightarrow> bufferWriter option"
    and rd :: "bufferReader \<Rightarrow> ('a \<times> bufferReader) option"
    and width :: nat
  assumes length_enc: "length (enc v) = width"
    and wr_enc: "wr v w = emit (enc v) w"
    and rd_enc: "rd (rdr pre (enc v @ s) l) = Some (v, rdr (pre @ enc v) s l)"
begin

lemma wr_panics_iff: "wr v w = None \<longleftrightarrow> \<not> room w (int width)"
  by (simp add: wr_enc emit_None_iff length_enc)

lemma wr_frame:
  assumes "wr v w = Some w'"
  shows "w_indx w' = w_indx w + int width
    \<and> length (w_buff w') = length (w_buff w)
    \<and> take (nat (w_indx w)) (w_buff w') = take (nat (w_indx w)) (w_buff w)
    \<and> drop (nat (w_indx w')) (w_buff w') = drop (nat (w_indx w')) (w_buff w)"
  using emit_frame [OF assms [unfolded wr_enc]] by (simp add: length_enc)

lemma write_read:
  assumes "wr v w = Some w'"
  shows "rd (newBufferReader (w_buff w') (w_indx w) l) =
           Some (v, newBufferReader (w_buff w') (w_indx w') l)"
proof -
  let ?i = "nat (w_indx w)" and ?s = "drop (nat (w_indx w) + width) (w_buff w)"
  have r: "0 \<le> w_indx w" "?i + width \<le> length (w_buff w)"
    and b: "w_buff w' = take ?i (w_buff w) @ enc v @ ?s"
    and x: "w_indx w' = w_indx w + int width"
    using assms by (auto simp: wr_enc emit_Some_iff room_def length_enc)
  have "newBufferReader (w_buff w') (w_indx w) l = rdr (take ?i (w_buff w)) (enc v @ ?s) l"
    and "newBufferReader (w_buff w') (w_indx w') l = rdr (take ?i (w_buff w) @ enc v) ?s l"
    using r b x by (simp_all add: newBufferReader_def rdr_def length_enc)
  then show ?thesis by (simp add: rd_enc)
qed

end

definition enc_u8 :: "byte \<Rightarrow> byte list" where "enc_u8 v = [v]"
definition enc_u16 :: "u16 \<Rightarrow> byte list" where "enc_u16 v = be_enc 2 (unat v)"
definition enc_u32 :: "u32 \<Rightarrow> byte list" where "enc_u32 v = be_enc 4 (unat v)"
definition enc_u64 :: "u64 \<Rightarrow> byte list" where "enc_u64 v = be_enc 8 (unat v)"

interpretation field_u8: wire_field enc_u8 wr_u8 rd_u8 1
  by unfold_locales (simp_all add: enc_u8_def emit_simps rdr_simps)

interpretation field_u16: wire_field enc_u16 wr_u16 rd_u16 2
  by unfold_locales (simp_all add: enc_u16_def emit_simps rdr_simps)

interpretation field_u32: wire_field enc_u32 wr_u32 rd_u32 4
  by unfold_locales (simp_all add: enc_u32_def emit_simps rdr_simps)

interpretation field_u64: wire_field enc_u64 wr_u64 rd_u64 8
  by unfold_locales (simp_all add: enc_u64_def emit_simps rdr_simps)

end
