(* ===== verification/ReadBuffer.thy ===== *)
theory ReadBuffer
  imports Errors BufferReader
begin

text \<open>
  The buffers a connection keeps for its socket, src/buffer.go: \<open>readBuffer\<close> accumulates incoming
  bytes until a caller's need is met, \<open>writeBuffer\<close> hands out zeroed space for an outgoing message.

  The socket's read side is a script: the chunks the transport will deliver, each with the error
  reported with it. A read takes at most as many bytes as it is asked for and leaves the rest of
  the chunk for the next read; after the script the connection is at end of file. The bytes of
  \<open>readBuffer.store\<close> that are not pending are never read, so the model keeps the array's length only.
\<close>

definition defaultBufSize :: int where "defaultBufSize = 4096"
definition maxCachedBufSize :: int where "maxCachedBufSize = 2 * 1024 * 1024 + 1"

type_synonym read_script = "(byte list \<times> goerror option) list"

fun conn_read :: "read_script \<Rightarrow> int \<Rightarrow> byte list \<times> goerror option \<times> read_script" where
  "conn_read [] m = ([], Some EOF, [])"
| "conn_read ((c, e) # cs) m =
     (if int (length c) \<le> m then (c, e, cs)
      else (take (nat m) c, None, (drop (nat m) c, e) # cs))"

definition script_bytes :: "read_script \<Rightarrow> byte list" where
  "script_bytes cs = concat (map fst cs)"

record readBuffer =
  rb_pending :: "byte list"
  rb_store :: int

definition newReadBuffer :: readBuffer where
  "newReadBuffer = \<lparr>rb_pending = [], rb_store = defaultBufSize\<rparr>"

definition rb_len :: "readBuffer \<Rightarrow> int" where
  "rb_len b = int (length (rb_pending b))"

text \<open>
  The loop of \<open>fill\<close> over the destination array of length \<open>dest\<close>, of which the bytes \<open>have\<close> are
  filled. A transport that keeps returning no bytes and no error would keep it running, so the loop
  is partial: \<open>None\<close> is "does not return".
\<close>

partial_function (option) fill_loop ::
    "int \<Rightarrow> int \<Rightarrow> byte list \<Rightarrow> read_script \<Rightarrow> (byte list \<times> goerror option \<times> read_script) option"
where
  "fill_loop need dest have cs =
     (let (d, err, cs') = conn_read cs (dest - int (length have));
          have' = have @ d
      in case err of
           Some e \<Rightarrow>
             if errorsIs e EOF
             then Some (have', if int (length have') < need then Some ErrUnexpectedEOF else None, cs')
             else Some (have', Some e, cs')
         | None \<Rightarrow>
             if int (length have') \<ge> need then Some (have', None, cs')
             else fill_loop need dest have' cs')"

text \<open>The length of the destination array, grown when the need exceeds the stored one.\<close>

definition fill_dest_len :: "readBuffer \<Rightarrow> int \<Rightarrow> int" where
  "fill_dest_len b need =
     (if need > rb_store b then (need div defaultBufSize + 1) * defaultBufSize else rb_store b)"

definition fill ::
    "readBuffer \<Rightarrow> int \<Rightarrow> read_script \<Rightarrow> (goerror option \<times> readBuffer \<times> read_script) option" where
  "fill b need cs =
     (if need \<le> int (length (rb_pending b)) then Some (None, b, cs)
      else
        let dest = fill_dest_len b need;
            store = (if need > rb_store b \<and> dest \<le> maxCachedBufSize then dest else rb_store b)
        in do {
          (have, err, cs') \<leftarrow> fill_loop need dest (take (nat dest) (rb_pending b)) cs;
          Some (err, \<lparr>rb_pending = have, rb_store = store\<rparr>, cs') })"

text \<open>\<open>peek\<close> and \<open>next\<close>: the outer \<open>option\<close> is a panic or a read that never returns.\<close>

definition peek ::
    "readBuffer \<Rightarrow> int \<Rightarrow> read_script \<Rightarrow> ((goerror + byte list) \<times> readBuffer \<times> read_script) option"
where
  "peek b need cs = do {
     (err, b, cs) \<leftarrow> fill b need cs;
     case err of
       Some e \<Rightarrow> Some (Inl e, b, cs)
     | None \<Rightarrow> do { d \<leftarrow> slice (rb_pending b) 0 need; Some (Inr d, b, cs) } }"

definition rb_next :: "readBuffer \<Rightarrow> int \<Rightarrow> (byte list \<times> readBuffer) option" where
  "rb_next b need = do {
     d \<leftarrow> slice (rb_pending b) 0 need;
     p \<leftarrow> slice (rb_pending b) need (int (length (rb_pending b)));
     Some (d, b\<lparr>rb_pending := p\<rparr>) }"

text \<open>\<open>teradataConnection.readNext\<close>, on the connection's read buffer and socket.\<close>

definition readNext ::
    "readBuffer \<Rightarrow> int \<Rightarrow> read_script \<Rightarrow> ((goerror + byte list) \<times> readBuffer \<times> read_script) option"
where
  "readNext b n cs = do {
     (err, b, cs) \<leftarrow> fill b n cs;
     case err of
       Some e \<Rightarrow> Some (Inl e, b, cs)
     | None \<Rightarrow> do { (d, b) \<leftarrow> rb_next b n; Some (Inr d, b, cs) } }"

record writeBuffer =
  wb_store :: "byte list"

definition newWriteBuffer :: writeBuffer where
  "newWriteBuffer = \<lparr>wb_store = replicate (nat defaultBufSize) 0\<rparr>"

definition wb_take :: "writeBuffer \<Rightarrow> int \<Rightarrow> (byte list \<times> writeBuffer) option" where
  "wb_take b n =
     (if n \<le> int (length (wb_store b)) then do {
        old \<leftarrow> slice (wb_store b) 0 n;
        let buf = replicate (length old) 0;
        Some (buf, b\<lparr>wb_store := buf @ drop (length buf) (wb_store b)\<rparr>) }
      else
        let buf = replicate (nat n) 0
        in Some (buf, if n \<le> maxCachedBufSize then b\<lparr>wb_store := buf\<rparr> else b))"

section \<open>The incoming byte stream\<close>

text \<open>
  The abstract state of a read buffer and its socket: the bytes still to be consumed, in order.
\<close>

definition incoming :: "readBuffer \<Rightarrow> read_script \<Rightarrow> byte list" where
  "incoming b cs = rb_pending b @ script_bytes cs"

text \<open>The loop's measure: bytes not yet delivered and chunks not yet finished.\<close>

definition script_size :: "read_script \<Rightarrow> nat" where
  "script_size cs = length (script_bytes cs) + length cs"

lemma conn_read_bytes:
  "conn_read cs m = (d, err, cs') \<Longrightarrow> d @ script_bytes cs' = script_bytes cs"
  by (cases "(cs, m)" rule: conn_read.cases) (auto simp: script_bytes_def split: if_splits)

lemma conn_read_progress:
  "conn_read cs m = (d, None, cs') \<Longrightarrow> 0 < m \<Longrightarrow> script_size cs' < script_size cs"
  by (cases "(cs, m)" rule: conn_read.cases)
    (auto simp: script_bytes_def script_size_def split: if_splits)

text \<open>A transport that reports no error before its end.\<close>

definition healthy :: "read_script \<Rightarrow> bool" where
  "healthy cs = list_all (\<lambda>(c, e). e = None) cs"

lemma conn_read_healthy:
  "conn_read cs m = (d, e, cs') \<Longrightarrow> healthy cs \<Longrightarrow> healthy cs' \<and> (cs \<noteq> [] \<longrightarrow> e = None)"
  by (cases "(cs, m)" rule: conn_read.cases) (auto simp: healthy_def split: if_splits)

lemma fill_loop_returns:
  assumes "need \<le> dest"
  shows "\<exists>h err cs'. fill_loop need dest have cs = Some (h, err, cs')"
proof (induction "script_size cs" arbitrary: "have" cs rule: less_induct)
  case less
  obtain d e cs' where rd: "conn_read cs (dest - int (length have)) = (d, e, cs')"
    by (cases "conn_read cs (dest - int (length have))") auto
  show ?case
  proof (cases "e = None \<and> int (length (have @ d)) < need")
    case True
    then have "script_size cs' < script_size cs"
      using rd assms by (intro conn_read_progress [of cs "dest - int (length have)" d]) auto
    then obtain h err cs'' where "fill_loop need dest (have @ d) cs' = Some (h, err, cs'')"
      using less by blast
    then show ?thesis using rd True by (subst fill_loop.simps) simp
  next
    case False
    then show ?thesis using rd by (subst fill_loop.simps) (auto simp: Let_def split: option.splits)
  qed
qed

lemma fill_loop_sound:
  assumes "fill_loop need dest have cs = Some (h, err, cs')"
  shows "h @ script_bytes cs' = have @ script_bytes cs
    \<and> (err = None \<longrightarrow> need \<le> int (length h))"
proof (rule fill_loop.raw_induct [where P = "\<lambda>need dest have cs r.
    fst r @ script_bytes (snd (snd r)) = have @ script_bytes cs
    \<and> (fst (snd r) = None \<longrightarrow> need \<le> int (length (fst r)))", OF _ assms, simplified fst_conv snd_conv])
  fix f need dest "have" cs r
  assume IH: "\<And>need dest have cs r. f need dest have cs = Some r \<Longrightarrow>
      fst r @ script_bytes (snd (snd r)) = have @ script_bytes cs
      \<and> (fst (snd r) = None \<longrightarrow> need \<le> int (length (fst r)))"
    and eq: "(let (d, err, cs') = conn_read cs (dest - int (length have)); have' = have @ d
      in case err of
           None \<Rightarrow> if need \<le> int (length have') then Some (have', None, cs') else f need dest have' cs'
         | Some e \<Rightarrow>
             if errorsIs e EOF
             then Some (have', if int (length have') < need then Some ErrUnexpectedEOF else None, cs')
             else Some (have', Some e, cs')) = Some r"
  obtain d e cs' where rd: "conn_read cs (dest - int (length have)) = (d, e, cs')"
    by (cases "conn_read cs (dest - int (length have))") auto
  note bytes = conn_read_bytes [OF rd]
  show "fst r @ script_bytes (snd (snd r)) = have @ script_bytes cs
      \<and> (fst (snd r) = None \<longrightarrow> need \<le> int (length (fst r)))"
    using eq rd bytes IH [of need dest "have @ d" cs' r]
    by (auto simp: Let_def split: option.splits if_splits)
qed

lemma fill_loop_enough:
  assumes "need \<le> dest" "healthy cs"
    and "need \<le> int (length have) + int (length (script_bytes cs))"
    and "int (length have) < need"
  shows "\<exists>h cs'. fill_loop need dest have cs = Some (h, None, cs') \<and> healthy cs'"
  using assms
proof (induction "script_size cs" arbitrary: "have" cs rule: less_induct)
  case less
  obtain d e cs' where rd: "conn_read cs (dest - int (length have)) = (d, e, cs')"
    by (cases "conn_read cs (dest - int (length have))") auto
  have "cs \<noteq> []" using less.prems by (auto simp: script_bytes_def)
  then have e: "e = None" and errs: "healthy cs'"
    using conn_read_healthy [OF rd less.prems(2)] by auto
  have len: "length d + length (script_bytes cs') = length (script_bytes cs)"
    using conn_read_bytes [OF rd] by (metis length_append)
  show ?case
  proof (cases "need \<le> int (length (have @ d))")
    case True
    then show ?thesis using rd e errs by (subst fill_loop.simps) (auto simp: Let_def)
  next
    case False
    then have "script_size cs' < script_size cs"
      using rd e less.prems(1,4) by (intro conn_read_progress [of cs "dest - int (length have)" d]) auto
    then have "\<exists>h cs''. fill_loop need dest (have @ d) cs' = Some (h, None, cs'')
        \<and> healthy cs''"
      using less.prems(1,3) len errs False by (intro less.hyps) auto
    then show ?thesis using rd e False by (subst fill_loop.simps) (auto simp: Let_def)
  qed
qed

lemma fill_loop_short:
  assumes "need \<le> dest" "healthy cs" "int (length have) + int (length (script_bytes cs)) < need"
  shows "fill_loop need dest have cs = Some (have @ script_bytes cs, Some ErrUnexpectedEOF, [])"
  using assms
proof (induction "script_size cs" arbitrary: "have" cs rule: less_induct)
  case less
  show ?case
  proof (cases "cs = []")
    case True
    then show ?thesis
      using less.prems by (subst fill_loop.simps) (simp add: script_bytes_def Let_def)
  next
    case False
    obtain d e cs' where rd: "conn_read cs (dest - int (length have)) = (d, e, cs')"
      by (cases "conn_read cs (dest - int (length have))") auto
    have h: "e = None" "healthy cs'" using conn_read_healthy [OF rd less.prems(2)] False by auto
    have b: "script_bytes cs = d @ script_bytes cs'" using conn_read_bytes [OF rd] by simp
    have "script_size cs' < script_size cs"
      using rd h less.prems(1,3) by (intro conn_read_progress [of cs "dest - int (length have)" d]) auto
    then have "fill_loop need dest (have @ d) cs' =
        Some ((have @ d) @ script_bytes cs', Some ErrUnexpectedEOF, [])"
      using less.prems h b by (intro less.hyps) auto
    then show ?thesis using rd h b less.prems(3) by (subst fill_loop.simps) (simp add: Let_def)
  qed
qed

lemma fill_dest:
  assumes "int (length (rb_pending b)) < need"
  shows "need \<le> fill_dest_len b need"
  using assms by (auto simp: fill_dest_len_def defaultBufSize_def)

lemma fill_returns:
  "\<exists>err b' cs'. fill b need cs = Some (err, b', cs')"
proof (cases "need \<le> int (length (rb_pending b))")
  case True
  then show ?thesis by (simp add: fill_def)
next
  case False
  then have "int (length (rb_pending b)) < need" by simp
  from fill_loop_returns [OF fill_dest [OF this]] obtain h err cs' where
    "fill_loop need (fill_dest_len b need) (take (nat (fill_dest_len b need)) (rb_pending b)) cs
       = Some (h, err, cs')" by blast
  then show ?thesis using False by (simp add: fill_def Let_def)
qed

lemma fill_sound:
  assumes "fill b need cs = Some (err, b', cs')"
  shows "incoming b' cs' = incoming b cs"
    and "err = None \<Longrightarrow> need \<le> int (length (rb_pending b'))"
    and "rb_store b \<le> rb_store b'"
proof -
  have "incoming b' cs' = incoming b cs \<and>
      (err = None \<longrightarrow> need \<le> int (length (rb_pending b'))) \<and> rb_store b \<le> rb_store b'"
  proof (cases "need \<le> int (length (rb_pending b))")
    case True
    then show ?thesis using assms by (auto simp: fill_def)
  next
    case False
    then have d: "need \<le> fill_dest_len b need" (is "_ \<le> ?dest")
      by (intro fill_dest) auto
    then have t: "take (nat ?dest) (rb_pending b) = rb_pending b"
      using False by simp
    obtain h where "fill_loop need ?dest (rb_pending b) cs = Some (h, err, cs')"
      and "rb_pending b' = h" and "rb_store b \<le> rb_store b'"
      using assms(1) False t d by (auto simp: fill_def Let_def bind_eq_Some_conv split: if_splits)
    then show ?thesis
      using fill_loop_sound [of need ?dest "rb_pending b" cs h err cs'] by (simp add: incoming_def)
  qed
  then show "incoming b' cs' = incoming b cs"
    and "err = None \<Longrightarrow> need \<le> int (length (rb_pending b'))"
    and "rb_store b \<le> rb_store b'" by auto
qed

lemma fill_enough:
  assumes "healthy cs" "need \<le> int (length (incoming b cs))"
  shows "\<exists>b' cs'. fill b need cs = Some (None, b', cs') \<and> healthy cs'"
proof (cases "need \<le> int (length (rb_pending b))")
  case True
  then show ?thesis using assms by (simp add: fill_def)
next
  case False
  then have d: "need \<le> fill_dest_len b need"
    by (intro fill_dest) auto
  from False d have "take (nat (fill_dest_len b need)) (rb_pending b) = rb_pending b" by simp
  then show ?thesis
    using fill_loop_enough [OF d assms(1), of "rb_pending b"] False assms(2)
    by (fastforce simp: fill_def incoming_def Let_def)
qed

section \<open>The interface of a message source\<close>

text \<open>
  What the message layer relies on: taking \<open>n\<close> bytes returns, consumes exactly the next \<open>n\<close> bytes of
  the stream on success and nothing on failure, and succeeds while a healthy source holds enough.
\<close>

fun read_seq ::
    "('s \<Rightarrow> int \<Rightarrow> ((goerror + byte list) \<times> 's) option) \<Rightarrow> int list \<Rightarrow> 's \<Rightarrow>
       ((goerror + byte list list) \<times> 's) option"
where
  "read_seq rd [] s = Some (Inr [], s)"
| "read_seq rd (n # ns) s = do {
     (r, s) \<leftarrow> rd s n;
     case r of
       Inl e \<Rightarrow> Some (Inl e, s)
     | Inr d \<Rightarrow> do {
         (rs, s) \<leftarrow> read_seq rd ns s;
         Some (map_sum id (\<lambda>ds. d # ds) rs, s) } }"

lemma map_sum_Inr_iff: "map_sum id f r = Inr x \<longleftrightarrow> (\<exists>y. r = Inr y \<and> x = f y)"
  by (cases r) auto

locale byte_source =
  fixes contents :: "'s \<Rightarrow> byte list"
    and ok :: "'s \<Rightarrow> bool"
    and rd :: "'s \<Rightarrow> int \<Rightarrow> ((goerror + byte list) \<times> 's) option"
  assumes rd_success:
      "0 \<le> n \<Longrightarrow> rd s n = Some (Inr d, s') \<Longrightarrow> int (length d) = n \<and> contents s = d @ contents s'"
    and rd_failure: "rd s n = Some (Inl e, s') \<Longrightarrow> contents s' = contents s"
    and rd_enough:
      "ok s \<Longrightarrow> 0 \<le> n \<Longrightarrow> n \<le> int (length (contents s)) \<Longrightarrow> \<exists>d s'. rd s n = Some (Inr d, s') \<and> ok s'"
begin

lemma rd_exact:
  assumes "ok s" "contents s = d @ rest"
  shows "\<exists>s'. rd s (int (length d)) = Some (Inr d, s') \<and> ok s' \<and> contents s' = rest"
proof -
  obtain d' s' where r: "rd s (int (length d)) = Some (Inr d', s')" "ok s'"
    using rd_enough [of s "int (length d)"] assms by auto
  have "length d' = length d" "contents s = d' @ contents s'"
    using rd_success [OF _ r(1)] by auto
  with assms(2) r show ?thesis by auto
qed

lemma rd_messages:
  assumes "ok s" "contents s = concat ms @ rest"
  shows "\<exists>s'. read_seq rd (map (\<lambda>m. int (length m)) ms) s = Some (Inr ms, s')
    \<and> ok s' \<and> contents s' = rest"
  using assms
proof (induction ms arbitrary: s)
  case Nil
  then show ?case by simp
next
  case (Cons m ms)
  then obtain s1 where s1: "rd s (int (length m)) = Some (Inr m, s1)" "ok s1"
      "contents s1 = concat ms @ rest"
    using rd_exact [of s m "concat ms @ rest"] by auto
  then obtain s2 where "read_seq rd (map (\<lambda>m. int (length m)) ms) s1 = Some (Inr ms, s2)"
      "ok s2" "contents s2 = rest"
    using Cons.IH by blast
  with s1 show ?case by simp
qed

lemma rd_messages_conservative:
  assumes "\<forall>n \<in> set ns. 0 \<le> n" "read_seq rd ns s = Some (Inr ms, s')"
  shows "contents s = concat ms @ contents s' \<and> map (\<lambda>m. int (length m)) ms = ns"
  using assms
proof (induction ns arbitrary: s ms)
  case Nil
  then show ?case by simp
next
  case (Cons n ns)
  then obtain r s1 where r: "rd s n = Some (r, s1)"
    by (auto simp: bind_eq_Some_conv)
  with Cons.prems(2) obtain d ds where d: "r = Inr d" "read_seq rd ns s1 = Some (Inr ds, s')"
      "ms = d # ds"
    by (cases r) (auto simp: bind_eq_Some_conv map_sum_Inr_iff)
  then show ?case
    using Cons.IH [of s1 ds] Cons.prems(1) rd_success [of n s d s1] r by auto
qed

end

text \<open>The connection's buffer and socket are such a source.\<close>

definition conn_contents :: "readBuffer \<times> read_script \<Rightarrow> byte list" where
  "conn_contents s = incoming (fst s) (snd s)"

definition conn_ok :: "readBuffer \<times> read_script \<Rightarrow> bool" where
  "conn_ok s \<longleftrightarrow> healthy (snd s)"

definition conn_take ::
    "readBuffer \<times> read_script \<Rightarrow> int \<Rightarrow> ((goerror + byte list) \<times> readBuffer \<times> read_script) option"
where
  "conn_take s n = readNext (fst s) n (snd s)"

lemma readNext_cases:
  assumes "readNext b n cs = Some (r, b', cs')"
  obtains (err) e where "fill b n cs = Some (Some e, b', cs')" "r = Inl e"
  | (ok) b1 d where "fill b n cs = Some (None, b1, cs')" "rb_next b1 n = Some (d, b')" "r = Inr d"
  using assms by (auto simp: readNext_def bind_eq_Some_conv split: option.splits)

lemma rb_next_spec:
  assumes "rb_next b n = Some (d, b')"
  shows "int (length d) = n \<and> rb_pending b = d @ rb_pending b'"
proof -
  have "0 \<le> n" "n \<le> int (length (rb_pending b))"
    and "d = take (nat n) (rb_pending b)" and "rb_pending b' = drop (nat n) (rb_pending b)"
    using assms by (auto simp: rb_next_def slice_def bind_eq_Some_conv split: if_splits)
  then show ?thesis by auto
qed

lemma rb_next_defined:
  "0 \<le> n \<Longrightarrow> n \<le> int (length (rb_pending b)) \<Longrightarrow> \<exists>d b'. rb_next b n = Some (d, b')"
  by (simp add: rb_next_def slice_def)

interpretation conn_source: byte_source conn_contents conn_ok conn_take
proof unfold_locales
  fix n s d s' assume "0 \<le> n" "conn_take s n = Some (Inr d, s')"
  then show "int (length d) = n \<and> conn_contents s = d @ conn_contents s'"
    by (cases s; cases s')
      (auto simp: conn_take_def conn_contents_def incoming_def
        elim!: readNext_cases dest!: rb_next_spec fill_sound(1))
next
  fix s n e s' assume "conn_take s n = Some (Inl e, s')"
  then show "conn_contents s' = conn_contents s"
    by (cases s; cases s')
      (auto simp: conn_take_def conn_contents_def elim!: readNext_cases dest!: fill_sound(1))
next
  fix s n assume "conn_ok s" "0 \<le> n" "n \<le> int (length (conn_contents s))"
  then obtain b' cs' where f: "fill (fst s) n (snd s) = Some (None, b', cs')" and h: "healthy cs'"
    using fill_enough [of "snd s" n "fst s"] by (auto simp: conn_ok_def conn_contents_def)
  with \<open>0 \<le> n\<close> fill_sound(2) [OF f] obtain d b'' where "rb_next b' n = Some (d, b'')"
    using rb_next_defined by blast
  with f h show "\<exists>d s'. conn_take s n = Some (Inr d, s') \<and> conn_ok s'"
    by (auto simp: conn_take_def conn_ok_def readNext_def)
qed

section \<open>Properties\<close>

text \<open>C18: Whatever chunks the transport delivers, a sequence of \<open>readNext\<close> calls returns the messages
  of the byte stream one after another, each byte exactly once and in order, and leaves the rest of
  the stream for the next call.\<close>

theorem readNext_cuts_stream:
  assumes "healthy cs" "incoming b cs = concat ms @ rest"
  shows "\<exists>b' cs'. read_seq conn_take (map (\<lambda>m. int (length m)) ms) (b, cs) = Some (Inr ms, b', cs')
    \<and> incoming b' cs' = rest"
  using conn_source.rd_messages [of "(b, cs)" ms rest] assms
  by (auto simp: conn_ok_def conn_contents_def)

theorem readNext_cuts_stream_witness:
  "\<exists>b' cs'. read_seq conn_take [2, 3] (newReadBuffer, [([1], None), ([2, 3], None), ([4, 5, 6], None)])
     = Some (Inr [[1, 2], [3, 4, 5]], b', cs') \<and> incoming b' cs' = [6]"
  using readNext_cuts_stream [of "[([1], None), ([2, 3], None), ([4, 5, 6], None)]" newReadBuffer
      "[[1, 2], [3, 4, 5]]" "[6]"]
  by (simp add: healthy_def incoming_def newReadBuffer_def script_bytes_def)

text \<open>C31: \<open>fill\<close> always returns: for every need and every finite script of the transport, its loop
  ends, and no byte of the stream is lost, duplicated or reordered, whether it reports an error or
  not; without an error at least \<open>need\<close> bytes are pending.\<close>

theorem fill_total:
  "\<exists>err b' cs'. fill b need cs = Some (err, b', cs') \<and> incoming b' cs' = incoming b cs
     \<and> (case err of None \<Rightarrow> need \<le> int (length (rb_pending b')) | Some e \<Rightarrow> True)"
proof -
  obtain err b' cs' where f: "fill b need cs = Some (err, b', cs')"
    using fill_returns by blast
  then show ?thesis using fill_sound [OF f] by (cases err) auto
qed

text \<open>A stream that ends before the bytes a message needs is reported as a truncation,
  \<open>ErrUnexpectedEOF\<close>, by \<open>readNext\<close>, which keeps the bytes it has.\<close>

theorem readNext_truncated:
  assumes "healthy cs" "int (length (incoming b cs)) < n"
  shows "\<exists>b'. readNext b n cs = Some (Inl ErrUnexpectedEOF, b', []) \<and> rb_pending b' = incoming b cs"
proof -
  have p: "int (length (rb_pending b)) < n" using assms(2) by (simp add: incoming_def)
  note d = fill_dest [OF p]
  then have "fill_loop n (fill_dest_len b n) (rb_pending b) cs =
      Some (incoming b cs, Some ErrUnexpectedEOF, [])"
    unfolding incoming_def using assms by (intro fill_loop_short) (auto simp: incoming_def)
  moreover have "take (nat (fill_dest_len b n)) (rb_pending b) = rb_pending b" using p d by simp
  ultimately show ?thesis using p by (simp add: readNext_def fill_def Let_def)
qed

theorem readNext_truncated_witness:
  "\<exists>b'. readNext newReadBuffer 50 [([7, 8], None), ([9], None)] = Some (Inl ErrUnexpectedEOF, b', [])
     \<and> rb_pending b' = [7, 8, 9]"
  using readNext_truncated [of "[([7, 8], None), ([9], None)]" newReadBuffer 50]
  by (simp add: healthy_def incoming_def newReadBuffer_def script_bytes_def)

text \<open>Space taken from the write buffer is all zero and of the requested length, whatever an
  earlier message left in it, and the buffer never keeps more than \<open>maxCachedBufSize\<close> bytes, however
  large a message was.\<close>

theorem wb_take_zeroed:
  assumes "0 \<le> n" "int (length (wb_store b)) \<le> maxCachedBufSize"
  shows "\<exists>b'. wb_take b n = Some (replicate (nat n) 0, b') \<and> int (length (wb_store b')) \<le> maxCachedBufSize
    \<and> (n \<le> maxCachedBufSize \<longrightarrow> take (nat n) (wb_store b') = replicate (nat n) 0)"
  using assms by (auto simp: wb_take_def slice_def Let_def min_def)

theorem wb_take_zeroed_witness:
  "\<exists>b'. wb_take \<lparr>wb_store = [255, 255, 255]\<rparr> 2 = Some ([0, 0], b')
     \<and> int (length (wb_store b')) \<le> maxCachedBufSize
     \<and> (2 \<le> maxCachedBufSize \<longrightarrow> take 2 (wb_store b') = [0, 0])"
  using wb_take_zeroed [of 2 "\<lparr>wb_store = [255, 255, 255]\<rparr>"]
  by (simp add: maxCachedBufSize_def numeral_2_eq_2)

end
