(* ===== verification/LanHeader.thy ===== *)
theory LanHeader
  imports BufferWriter ReadBuffer
begin

unbundle bit_operations_syntax

text \<open>
  The 52-byte LAN message header (src/packet_header.go) and the WebSocket frame header that carries
  it on a TLS connection (src/tls.go).
\<close>

section \<open>The LAN header\<close>

definition lanHeaderLen :: int where "lanHeaderLen = 52"

definition copVersion :: byte where "copVersion = 3"
definition copClassRequest :: byte where "copClassRequest = 1"
definition copEncryptFlag :: byte where "copEncryptFlag = 0x80"

definition lanHeaderTypeAssign :: byte where "lanHeaderTypeAssign = 1"
definition lanHeaderTypeConnect :: byte where "lanHeaderTypeConnect = 3"
definition lanHeaderTypeStart :: byte where "lanHeaderTypeStart = 5"
definition lanHeaderTypeContinue :: byte where "lanHeaderTypeContinue = 6"
definition lanHeaderTypeLogoff :: byte where "lanHeaderTypeLogoff = 8"
definition lanHeaderTypeCfg :: byte where "lanHeaderTypeCfg = 10"
definition lanHeaderTypeSSOReq :: byte where "lanHeaderTypeSSOReq = 12"

text \<open>\<open>authNonce\<close> is an array of 8 bytes in the code; \<open>wf_lanHeader\<close> states its length.\<close>

record lanHeader =
  lh_kind :: byte
  lh_byteVar :: byte
  lh_sessionNo :: u32
  lh_authNonce :: "byte list"
  lh_requestNo :: u32
  lh_hostCharSet :: byte
  lh_encrypted :: bool
  lh_version :: byte
  lh_msgType :: byte
  lh_bodyLen :: int
  lh_msgLen :: int
  lh_wordVar :: u16
  lh_correlationTag :: u32
  lh_authentication :: "byte list"
  lh_unionGTW :: byte
  lh_controlDataLength :: u32

definition zeroLanHeader :: lanHeader where
  "zeroLanHeader = \<lparr>lh_kind = 0, lh_byteVar = 0, lh_sessionNo = 0, lh_authNonce = replicate 8 0, lh_requestNo = 0,
     lh_hostCharSet = 0, lh_encrypted = False, lh_version = 0, lh_msgType = 0, lh_bodyLen = 0, lh_msgLen = 0,
     lh_wordVar = 0, lh_correlationTag = 0, lh_authentication = [], lh_unionGTW = 0, lh_controlDataLength = 0\<rparr>"

definition newLanHeader :: lanHeader where
  "newLanHeader = zeroLanHeader\<lparr>lh_version := 3, lh_msgType := 1, lh_hostCharSet := 0xFF\<rparr>"

definition wf_lanHeader :: "lanHeader \<Rightarrow> bool" where
  "wf_lanHeader h \<longleftrightarrow> length (lh_authNonce h) = 8"

definition lanHeader_write :: "lanHeader \<Rightarrow> bufferWriter \<Rightarrow> int \<Rightarrow> int \<Rightarrow> bufferWriter option" where
  "lanHeader_write h w offset bodyLen = do {
     w \<leftarrow> wr_byte copVersion w;
     w \<leftarrow> (if lh_encrypted h then wr_byte (copClassRequest OR copEncryptFlag) w
           else wr_byte copClassRequest w);
     w \<leftarrow> wr_byte (lh_kind h) w;
     w \<leftarrow> wr_u16 (word_of_int (drop_bit 16 bodyLen)) w;
     w \<leftarrow> wr_byte (lh_byteVar h) w;
     w \<leftarrow> wr_u16 (lh_wordVar h) w;
     w \<leftarrow> wr_u16 (word_of_int (bodyLen AND 0xFFFF)) w;
     w \<leftarrow> wr_skip 6 w;
     w \<leftarrow> wr_u32 (lh_correlationTag h) w;
     w \<leftarrow> wr_u32 (lh_sessionNo h) w;
     w \<leftarrow> wr_bytes (lh_authNonce h) w;
     w \<leftarrow> wr_u32 (lh_requestNo h) w;
     w \<leftarrow> wr_byte (lh_unionGTW h) w;
     w \<leftarrow> wr_byte (lh_hostCharSet h) w;
     w \<leftarrow> wr_skip (offset + lanHeaderLen - wr_position w) w;
     Some (wr_setPosition (lanHeaderLen + offset) w) }"

definition lanHeaderFromBuffer :: "byte list \<Rightarrow> goerror + lanHeader" where
  "lanHeaderFromBuffer data =
     (if int (length data) \<noteq> lanHeaderLen then Inl ErrInternal
      else
        let hdr = zeroLanHeader\<lparr>
              lh_version := data ! 0,
              lh_msgType := data ! 1,
              lh_kind := data ! 2,
              lh_byteVar := data ! 5,
              lh_wordVar := u16_of (take 2 (drop 6 data)),
              lh_correlationTag := u32_of (take 4 (drop 16 data)),
              lh_sessionNo := u32_of (take 4 (drop 20 data)),
              lh_authentication := take 8 (drop 24 data),
              lh_requestNo := u32_of (take 4 (drop 32 data)),
              lh_unionGTW := data ! 36,
              lh_hostCharSet := data ! 37,
              lh_controlDataLength := u32_of (take 4 (drop 40 data)),
              lh_bodyLen := push_bit 16 (uint (u16_of (take 2 (drop 3 data))))
                         OR uint (u16_of (take 2 (drop 8 data)))\<rparr>
        in Inr (hdr\<lparr>lh_msgLen := lh_bodyLen hdr + lanHeaderLen\<rparr>))"

subsection \<open>The wire image of a header\<close>

text \<open>The 52 bytes a header denotes: the specification of \<open>write\<close>.\<close>

definition lan_image :: "lanHeader \<Rightarrow> int \<Rightarrow> byte list" where
  "lan_image h n =
     [copVersion, if lh_encrypted h then copClassRequest OR copEncryptFlag else copClassRequest, lh_kind h]
     @ be_enc 2 (unat (word_of_int (drop_bit 16 n) :: u16)) @ [lh_byteVar h]
     @ be_enc 2 (unat (lh_wordVar h)) @ be_enc 2 (unat (word_of_int (n AND 0xFFFF) :: u16))
     @ replicate 6 0 @ be_enc 4 (unat (lh_correlationTag h)) @ be_enc 4 (unat (lh_sessionNo h))
     @ lh_authNonce h @ be_enc 4 (unat (lh_requestNo h)) @ [lh_unionGTW h, lh_hostCharSet h] @ replicate 14 0"

lemma length_lan_image: "wf_lanHeader h \<Longrightarrow> length (lan_image h n) = 52"
  by (simp add: lan_image_def wf_lanHeader_def)

lemma lanHeader_write_image:
  assumes "wf_lanHeader h" "w_indx w = offset"
  shows "lanHeader_write h w offset n = emit (lan_image h n) w"
proof -
  let ?p = "take 38 (lan_image h n)"
  have p: "?p = [copVersion, if lh_encrypted h then copClassRequest OR copEncryptFlag else copClassRequest, lh_kind h]
     @ be_enc 2 (unat (word_of_int (drop_bit 16 n) :: u16)) @ [lh_byteVar h]
     @ be_enc 2 (unat (lh_wordVar h)) @ be_enc 2 (unat (word_of_int (n AND 0xFFFF) :: u16))
     @ replicate 6 0 @ be_enc 4 (unat (lh_correlationTag h)) @ be_enc 4 (unat (lh_sessionNo h))
     @ lh_authNonce h @ be_enc 4 (unat (lh_requestNo h)) @ [lh_unionGTW h, lh_hostCharSet h]"
    using assms(1) by (simp add: lan_image_def wf_lanHeader_def)
  have i: "lan_image h n = ?p @ replicate 14 0"
    unfolding p by (simp add: lan_image_def)
  have len: "length ?p = 38" using length_lan_image [OF assms(1), of n] by simp
  have "lanHeader_write h w offset n =
      do { w \<leftarrow> emit ?p w; w \<leftarrow> wr_skip (offset + lanHeaderLen - wr_position w) w;
           Some (wr_setPosition (lanHeaderLen + offset) w) }"
    unfolding lanHeader_write_def p by (simp add: emit_simps wr_skip_emit)
  also have "\<dots> = emit (lan_image h n) w"
  proof (cases "emit ?p w")
    case None
    then show ?thesis by (subst i) (simp flip: emit_append)
  next
    case (Some w1)
    then have x: "w_indx w1 = offset + 38" using emit_frame(1) [OF Some] len assms(2) by simp
    then have s: "wr_skip (offset + lanHeaderLen - wr_position w1) w1 = emit (replicate 14 0) w1"
      by (simp add: wr_skip_emit wr_position_def lanHeaderLen_def)
    have "do { w \<leftarrow> emit (replicate 14 0) w1; Some (wr_setPosition (lanHeaderLen + offset) w) } =
        emit (replicate 14 0) w1"
      using x by (cases "emit (replicate 14 0) w1")
        (auto simp: wr_setPosition_def lanHeaderLen_def dest: emit_frame(1))
    then show ?thesis using Some s by (subst i) (simp flip: emit_append)
  qed
  finally show ?thesis .
qed

lemma or_eq_push: "push_bit 16 (drop_bit 16 n) OR take_bit 16 n = (n :: int)"
  by (rule bit_eqI) (auto simp: bit_simps)

lemma uint_halves:
  assumes "0 \<le> n" "n < 2 ^ 32"
  shows "push_bit 16 (uint (word_of_int (drop_bit 16 n) :: u16)) OR uint (word_of_int (n AND 0xFFFF) :: u16) = n"
proof -
  have "uint (word_of_int (drop_bit 16 n) :: u16) = drop_bit 16 n"
    using assms by (simp add: unsigned_of_int take_bit_eq_mod drop_bit_eq_div)
  moreover have "n AND 0xFFFF = take_bit 16 n"
    by (simp add: take_bit_eq_mask mask_eq_exp_minus_1)
  moreover have "uint (word_of_int (take_bit 16 n) :: u16) = take_bit 16 n"
    by (simp add: unsigned_of_int)
  ultimately show ?thesis
    by (simp add: or_eq_push)
qed

lemma lanHeaderFromBuffer_image:
  assumes "wf_lanHeader h" "0 \<le> n" "n < 2 ^ 32"
  shows "lanHeaderFromBuffer (lan_image h n) = Inr (zeroLanHeader\<lparr>
    lh_version := 3, lh_msgType := (if lh_encrypted h then 0x81 else 1), lh_kind := lh_kind h,
    lh_byteVar := lh_byteVar h, lh_wordVar := lh_wordVar h, lh_correlationTag := lh_correlationTag h,
    lh_sessionNo := lh_sessionNo h, lh_authentication := lh_authNonce h,
    lh_requestNo := lh_requestNo h, lh_unionGTW := lh_unionGTW h,
    lh_hostCharSet := lh_hostCharSet h, lh_controlDataLength := 0,
    lh_bodyLen := n, lh_msgLen := n + 52\<rparr>)"
proof -
  have a: "length (lh_authNonce h) = 8" using assms(1) by (simp add: wf_lanHeader_def)
  have z: "u32_of (replicate 4 0) = 0" by (simp add: u32_of_def)
  show ?thesis
    using a uint_halves [OF assms(2,3)]
    by (simp add: lanHeaderFromBuffer_def length_lan_image [OF assms(1)] lanHeaderLen_def Let_def)
      (simp add: lan_image_def nth_append z copVersion_def copClassRequest_def copEncryptFlag_def)
qed

section \<open>WebSocket frames\<close>

text \<open>
  On a TLS connection every LAN message travels as one binary, unmasked WebSocket frame. The first
  argument of these functions is the connection's \<open>isTlsConn\<close>.
\<close>

definition getWsFrameLength :: "bool \<Rightarrow> int \<Rightarrow> int" where
  "getWsFrameLength isTlsConn packetLen =
     (if \<not> isTlsConn then 0
      else if packetLen \<le> 125 then 2
      else if packetLen \<le> 65535 then 4
      else 10)"

definition writeWsFrameHeader ::
    "bool \<Rightarrow> bufferWriter \<Rightarrow> int \<Rightarrow> (int \<times> bufferWriter) option" where
  "writeWsFrameHeader isTlsConn w packetLen =
     (if \<not> isTlsConn then Some (0, w)
      else if packetLen \<le> 125 then do {
        w \<leftarrow> wr_byte 0x82 w;
        w \<leftarrow> wr_byte (word_of_int packetLen) w;
        Some (2, w) }
      else if packetLen \<le> 65535 then do {
        w \<leftarrow> wr_byte 0x82 w;
        w \<leftarrow> wr_byte 126 w;
        w \<leftarrow> wr_byte (word_of_int (drop_bit 8 packetLen)) w;
        w \<leftarrow> wr_byte (word_of_int packetLen) w;
        Some (4, w) }
      else do {
        w \<leftarrow> wr_byte 0x82 w;
        w \<leftarrow> wr_byte 127 w;
        w \<leftarrow> wr_bytes [0, 0, 0, 0] w;
        w \<leftarrow> wr_byte (word_of_int (drop_bit 24 packetLen)) w;
        w \<leftarrow> wr_byte (word_of_int (drop_bit 16 packetLen)) w;
        w \<leftarrow> wr_byte (word_of_int (drop_bit 8 packetLen)) w;
        w \<leftarrow> wr_byte (word_of_int packetLen) w;
        Some (10, w) })"

definition readWsFrameHeader ::
    "readBuffer \<Rightarrow> read_script \<Rightarrow> ((goerror + u64) \<times> readBuffer \<times> read_script) option" where
  "readWsFrameHeader b cs = do {
     (r, b, cs) \<leftarrow> readNext b 2 cs;
     case r of
       Inl e \<Rightarrow> Some (Inl e, b, cs)
     | Inr wshdr \<Rightarrow>
         let fin = (wshdr ! 0) AND 0x80 \<noteq> 0;
             opcode = (wshdr ! 0) AND 0x0F;
             len = (ucast ((wshdr ! 1) AND 0x7F) :: u64)
         in if \<not> fin \<or> opcode \<noteq> 0x02
            then Some (Inl (Errorf ''teradatasql: unexpected websocket frame'' []), b, cs)
            else if len = 126 then do {
              (r, b, cs) \<leftarrow> readNext b 2 cs;
              case r of
                Inl e \<Rightarrow> Some (Inl e, b, cs)
              | Inr d \<Rightarrow> Some (Inr (push_bit 8 (ucast (d ! 0)) OR ucast (d ! 1)), b, cs) }
            else if len = 127 then do {
              (r, b, cs) \<leftarrow> readNext b 8 cs;
              case r of
                Inl e \<Rightarrow> Some (Inl e, b, cs)
              | Inr d \<Rightarrow> Some (Inr (u64_of d), b, cs) }
            else Some (Inr len, b, cs) }"

definition ws_image :: "int \<Rightarrow> byte list" where
  "ws_image n =
     (if n \<le> 125 then [0x82, word_of_int n]
      else if n \<le> 65535 then [0x82, 126] @ be_enc 2 (nat n)
      else [0x82, 127] @ be_enc 8 (nat n))"

lemma length_ws_image: "int (length (ws_image n)) = getWsFrameLength True n"
  by (simp add: ws_image_def getWsFrameLength_def)

lemma writeWsFrameHeader_image:
  assumes "0 \<le> n" "n < 2 ^ 32"
  shows "writeWsFrameHeader True w n =
    map_option (Pair (getWsFrameLength True n)) (emit (ws_image n) w)"
proof -
  obtain m where n: "n = int m" using assms(1) nonneg_int_cases by blast
  have z: "m div 4294967296 = 0" using assms(2) n by simp
  have "be_enc 8 m = [0, 0, 0, 0] @ be_enc 4 m"
    using z by (simp add: be_enc_8 replicate_4)
  then show ?thesis
    unfolding writeWsFrameHeader_def ws_image_def getWsFrameLength_def n
    by (simp add: emit_simps be_enc_2 be_enc_4 drop_bit_int_nat map_conv_bind_option comp_def)
qed

text \<open>Reading a frame header back from the stream that carries it.\<close>

lemma byte_ws_small: "n \<le> 125 \<Longrightarrow> (ucast ((word_of_nat n :: byte) AND 0x7F) :: u64) = word_of_nat n"
proof -
  assume n: "n \<le> 125"
  have "(word_of_nat n :: byte) AND 0x7F = take_bit 7 (word_of_nat n)"
    by (simp add: take_bit_eq_mask mask_eq_exp_minus_1)
  then have "unat ((word_of_nat n :: byte) AND 0x7F) = take_bit 7 (unat (word_of_nat n :: byte))"
    by (simp add: unsigned_take_bit_eq)
  then have "unat ((word_of_nat n :: byte) AND 0x7F) = n"
    using n by (simp add: unat_of_nat take_bit_eq_mod)
  then show ?thesis
    using n by (simp add: word_unat_eq_iff unat_of_nat unsigned_ucast_eq take_bit_eq_mod)
qed

lemma u16_from_bytes:
  assumes "n < 65536"
  shows "(push_bit 8 (ucast (word_of_nat (n div 256) :: byte)) OR ucast (word_of_nat n :: byte) :: u64)
    = word_of_nat n"
proof -
  have "unat (push_bit 8 (ucast (word_of_nat (n div 256) :: byte)) OR ucast (word_of_nat n :: byte) :: u64)
      = push_bit 8 (n div 256) OR (n mod 256)"
  proof -
    have "take_bit 64 (push_bit 8 (n div 256 mod 256)) = push_bit 8 (n div 256)"
      using assms by (simp add: take_bit_eq_mod push_bit_eq_mult)
    moreover have "take_bit 64 (n mod 256) = n mod 256"
      by (simp add: take_bit_eq_mod)
    ultimately show ?thesis
      using assms by (simp only: unsigned_or_eq unsigned_push_bit_eq unsigned_ucast_eq unat_of_nat)
        (simp add: take_bit_eq_mod)
  qed
  also have "\<dots> = push_bit 8 (drop_bit 8 n) OR take_bit 8 n"
    by (simp add: drop_bit_eq_div take_bit_eq_mod)
  also have "\<dots> = n"
    by (rule bit_eqI) (auto simp: bit_simps)
  finally show ?thesis
    using assms by (simp add: word_unat_eq_iff unat_of_nat)
qed

lemma readNext_exact:
  assumes "healthy cs" "incoming b cs = d @ rest" "n = int (length d)"
  shows "\<exists>b' cs'. readNext b n cs = Some (Inr d, b', cs') \<and> healthy cs' \<and> incoming b' cs' = rest"
  using conn_source.rd_exact [of "(b, cs)" d rest] assms
  by (auto simp: conn_ok_def conn_contents_def conn_take_def)

lemma readWsFrameHeader_image:
  assumes "healthy cs" "incoming b cs = ws_image n @ rest" "0 \<le> n" "n < 2 ^ 32"
  shows "\<exists>b' cs'. readWsFrameHeader b cs = Some (Inr (word_of_int n), b', cs')
    \<and> healthy cs' \<and> incoming b' cs' = rest"
proof -
  obtain m where n: "n = int m" using assms(3) nonneg_int_cases by blast
  consider (small) "m \<le> 125" | (medium) "125 < m" "m \<le> 65535" | (large) "65535 < m" by linarith
  then show ?thesis
  proof cases
    case small
    then have "(word_of_nat m :: u64) \<noteq> 126" "(word_of_nat m :: u64) \<noteq> 127"
      by (simp_all add: word_unat_eq_iff unat_of_nat)
    moreover obtain b1 cs1 where "readNext b 2 cs = Some (Inr [0x82, word_of_nat m], b1, cs1)"
        "healthy cs1" "incoming b1 cs1 = rest"
      using readNext_exact [OF assms(1), of b "[0x82, word_of_nat m]" rest 2] assms(2) small n
      by (auto simp: ws_image_def)
    ultimately show ?thesis
      using small by (simp add: readWsFrameHeader_def n byte_ws_small)
  next
    case medium
    obtain b1 cs1 where r1: "readNext b 2 cs = Some (Inr [0x82, 126], b1, cs1)"
        "healthy cs1" "incoming b1 cs1 = be_enc 2 m @ rest"
      using readNext_exact [OF assms(1), of b "[0x82, 126]" "be_enc 2 m @ rest" 2] assms(2) medium n
      by (auto simp: ws_image_def)
    obtain b2 cs2 where "readNext b1 2 cs1 = Some (Inr (be_enc 2 m), b2, cs2)"
        "healthy cs2" "incoming b2 cs2 = rest"
      using readNext_exact [OF r1(2,3), of 2] by auto
    then show ?thesis
      using r1 medium u16_from_bytes [of m] by (simp add: readWsFrameHeader_def n be_enc_2)
  next
    case large
    obtain b1 cs1 where r1: "readNext b 2 cs = Some (Inr [0x82, 127], b1, cs1)"
        "healthy cs1" "incoming b1 cs1 = be_enc 8 m @ rest"
      using readNext_exact [OF assms(1), of b "[0x82, 127]" "be_enc 8 m @ rest" 2] assms(2) large n
      by (auto simp: ws_image_def)
    obtain b2 cs2 where "readNext b1 8 cs1 = Some (Inr (be_enc 8 m), b2, cs2)"
        "healthy cs2" "incoming b2 cs2 = rest"
      using readNext_exact [OF r1(2,3), of 8] by auto
    then show ?thesis
      using r1 assms(4) n
      by (simp add: readWsFrameHeader_def u64_of_def be_val_be_enc)
  qed
qed

section \<open>Properties\<close>

text \<open>C28: A LAN header written where 52 bytes are free takes exactly those 52 bytes, and the bytes it
  leaves parse back to a header with the same kind, session, request, nonce and flags, and with the
  body length that was written.\<close>

theorem lanHeader_write_parse:
  assumes "wf_lanHeader h" "0 \<le> n" "n < 2 ^ 32" "room w lanHeaderLen"
  shows "\<exists>w' img h'. lanHeader_write h w (w_indx w) n = Some w'
    \<and> w_indx w' = w_indx w + lanHeaderLen
    \<and> slice (w_buff w') (w_indx w) (w_indx w') = Some img
    \<and> lanHeaderFromBuffer img = Inr h'
    \<and> lh_kind h' = lh_kind h \<and> lh_byteVar h' = lh_byteVar h \<and> lh_wordVar h' = lh_wordVar h
    \<and> lh_correlationTag h' = lh_correlationTag h \<and> lh_sessionNo h' = lh_sessionNo h
    \<and> lh_authentication h' = lh_authNonce h \<and> lh_requestNo h' = lh_requestNo h
    \<and> lh_unionGTW h' = lh_unionGTW h \<and> lh_hostCharSet h' = lh_hostCharSet h
    \<and> (lh_msgType h' AND 0x80 \<noteq> 0 \<longleftrightarrow> lh_encrypted h)
    \<and> lh_bodyLen h' = n \<and> lh_msgLen h' = n + lanHeaderLen"
proof -
  have "room w (int (length (lan_image h n)))"
    using assms(1,4) by (simp add: length_lan_image lanHeaderLen_def)
  then obtain w' where w': "emit (lan_image h n) w = Some w'"
    using emit_defined by blast
  note f = emit_frame [OF w']
  have "lanHeader_write h w (w_indx w) n = Some w'"
    using w' by (simp add: lanHeader_write_image [OF assms(1) refl])
  then show ?thesis
    using f(1,5) length_lan_image [OF assms(1), of n] lanHeaderFromBuffer_image [OF assms(1-3)]
    by (auto simp: lanHeaderLen_def)
qed

theorem lanHeader_write_parse_witness:
  "\<exists>w' img h'. lanHeader_write (newLanHeader\<lparr>lh_kind := 5\<rparr>) (newBufferWriter (replicate 60 0)) 0 70000
      = Some w' \<and> slice (w_buff w') 0 52 = Some img \<and> lanHeaderFromBuffer img = Inr h'
      \<and> lh_kind h' = 5 \<and> lh_bodyLen h' = 70000"
  using lanHeader_write_parse [of "newLanHeader\<lparr>lh_kind := 5\<rparr>" 70000 "newBufferWriter (replicate 60 0)"]
  by (auto simp: wf_lanHeader_def newLanHeader_def zeroLanHeader_def room_def newBufferWriter_def
      lanHeaderLen_def)

text \<open>C29: The WebSocket header written for a packet shorter than 4 GiB is as long as
  \<open>getWsFrameLength\<close> reserved for it, and \<open>readWsFrameHeader\<close> reads the packet's length back from
  any stream that carries the frame, consuming the header and nothing of the packet.\<close>

theorem wsFrame_roundtrip:
  assumes "0 \<le> n" "n < 2 ^ 32" "room w (getWsFrameLength True n)"
  shows "\<exists>w' hdr. writeWsFrameHeader True w n = Some (getWsFrameLength True n, w')
    \<and> w_indx w' = w_indx w + getWsFrameLength True n
    \<and> slice (w_buff w') (w_indx w) (w_indx w') = Some hdr
    \<and> (\<forall>b cs rest. healthy cs \<longrightarrow> incoming b cs = hdr @ rest \<longrightarrow>
         (\<exists>b' cs'. readWsFrameHeader b cs = Some (Inr (word_of_int n), b', cs')
            \<and> incoming b' cs' = rest))"
proof -
  obtain w' where w': "emit (ws_image n) w = Some w'"
    using assms(3) emit_defined [of w "ws_image n"] by (auto simp: length_ws_image)
  have "\<exists>b' cs'. readWsFrameHeader b cs = Some (Inr (word_of_int n), b', cs') \<and> incoming b' cs' = rest"
    if "healthy cs" "incoming b cs = ws_image n @ rest" for b cs rest
    using readWsFrameHeader_image [OF that assms(1,2)] by blast
  then show ?thesis
    using emit_frame(1,5) [OF w'] by (auto simp: writeWsFrameHeader_image [OF assms(1,2)] w' length_ws_image)
qed

theorem wsFrame_roundtrip_witness:
  "\<exists>w' hdr. writeWsFrameHeader True (newBufferWriter (replicate 8 0)) 300 = Some (4, w')
    \<and> slice (w_buff w') 0 4 = Some hdr
    \<and> (\<forall>b cs rest. healthy cs \<longrightarrow> incoming b cs = hdr @ rest \<longrightarrow>
         (\<exists>b' cs'. readWsFrameHeader b cs = Some (Inr 300, b', cs') \<and> incoming b' cs' = rest))"
  using wsFrame_roundtrip [of 300 "newBufferWriter (replicate 8 0)"]
  by (auto simp: room_def newBufferWriter_def getWsFrameLength_def)

end
