(* ===== verification/GoStrings.thy ===== *)
theory GoStrings
  imports Errors
begin

text \<open>
  The parts of Go's \<open>strings\<close>, \<open>strconv\<close> and \<open>math/big\<close> packages the driver calls, on byte strings:
  prefix and cut operations, trimming of white space, decimal printing and parsing.
\<close>

section \<open>strings\<close>

definition hasPrefix :: "string \<Rightarrow> string \<Rightarrow> bool" where
  "hasPrefix s p \<longleftrightarrow> take (length p) s = p"

definition trimPrefix :: "string \<Rightarrow> string \<Rightarrow> string" where
  "trimPrefix s p = (if hasPrefix s p then drop (length p) s else s)"

text \<open>\<open>strings.Cut(s, c)\<close> for a one-character separator.\<close>

definition cut :: "string \<Rightarrow> char \<Rightarrow> string \<times> string \<times> bool" where
  "cut s c = (takeWhile (\<lambda>x. x \<noteq> c) s, drop 1 (dropWhile (\<lambda>x. x \<noteq> c) s), c \<in> set s)"

definition repeat_str :: "string \<Rightarrow> nat \<Rightarrow> string" where
  "repeat_str s n = concat (replicate n s)"

text \<open>\<open>strings.TrimRight(s, c)\<close> for a one-character cut set.\<close>

definition trimRight :: "string \<Rightarrow> char \<Rightarrow> string" where
  "trimRight s c = rev (dropWhile (\<lambda>x. x = c) (rev s))"

text \<open>\<open>strings.IndexAny(s, cs)\<close>, \<open>None\<close> for -1.\<close>

fun indexAny :: "string \<Rightarrow> string \<Rightarrow> nat option" where
  "indexAny [] cs = None"
| "indexAny (x # xs) cs = (if x \<in> set cs then Some 0 else map_option Suc (indexAny xs cs))"

text \<open>
  \<open>strings.TrimSpace\<close> trims the UTF-8 encodings of the Unicode white space characters. No encoding is a
  proper suffix or prefix of another character's encoding, so matching byte strings is exact.
\<close>

definition white_space :: "string list" where
  "white_space =
     [[CHR 0x20], [CHR 0x09], [CHR 0x0A], [CHR 0x0B], [CHR 0x0C], [CHR 0x0D],
      [CHR 0xC2, CHR 0x85], [CHR 0xC2, CHR 0xA0], [CHR 0xE1, CHR 0x9A, CHR 0x80],
      [CHR 0xE2, CHR 0x80, CHR 0x80], [CHR 0xE2, CHR 0x80, CHR 0x81], [CHR 0xE2, CHR 0x80, CHR 0x82],
      [CHR 0xE2, CHR 0x80, CHR 0x83], [CHR 0xE2, CHR 0x80, CHR 0x84], [CHR 0xE2, CHR 0x80, CHR 0x85],
      [CHR 0xE2, CHR 0x80, CHR 0x86], [CHR 0xE2, CHR 0x80, CHR 0x87], [CHR 0xE2, CHR 0x80, CHR 0x88],
      [CHR 0xE2, CHR 0x80, CHR 0x89], [CHR 0xE2, CHR 0x80, CHR 0x8A], [CHR 0xE2, CHR 0x80, CHR 0xA8],
      [CHR 0xE2, CHR 0x80, CHR 0xA9], [CHR 0xE2, CHR 0x80, CHR 0xAF], [CHR 0xE2, CHR 0x81, CHR 0x9F],
      [CHR 0xE3, CHR 0x80, CHR 0x80]]"

lemma white_space_nonempty: "[] \<notin> set white_space"
  by (simp add: white_space_def)

lemma find_Some_props: "find P xs = Some x \<Longrightarrow> P x \<and> x \<in> set xs"
  by (induction xs) (auto split: if_splits)

function trimLeftSpace :: "string \<Rightarrow> string" where
  "trimLeftSpace s =
     (case find (hasPrefix s) white_space of
        None \<Rightarrow> s
      | Some w \<Rightarrow> trimLeftSpace (drop (length w) s))"
  by pat_completeness auto
termination
proof (relation "measure length")
  fix s w assume "find (hasPrefix s) white_space = Some w"
  then have "hasPrefix s w" "w \<noteq> []"
    using white_space_nonempty by (auto dest: find_Some_props)
  then show "(drop (length w) s, s) \<in> measure length"
    by (cases s) (auto simp: hasPrefix_def)
qed simp

function trimRightSpace :: "string \<Rightarrow> string" where
  "trimRightSpace s =
     (case find (\<lambda>w. hasPrefix (rev s) (rev w)) white_space of
        None \<Rightarrow> s
      | Some w \<Rightarrow> trimRightSpace (take (length s - length w) s))"
  by pat_completeness auto
termination
proof (relation "measure length")
  fix s w assume "find (\<lambda>w. hasPrefix (rev s) (rev w)) white_space = Some w"
  then have "hasPrefix (rev s) (rev w)" "w \<noteq> []"
    using white_space_nonempty by (auto dest: find_Some_props)
  then show "(take (length s - length w) s, s) \<in> measure length"
    by (cases s) (auto simp: hasPrefix_def)
qed simp

declare trimLeftSpace.simps [simp del] trimRightSpace.simps [simp del]

definition trimSpace :: "string \<Rightarrow> string" where
  "trimSpace s = trimRightSpace (trimLeftSpace s)"

section \<open>Decimal numerals\<close>

definition is_digit :: "char \<Rightarrow> bool" where
  "is_digit c \<longleftrightarrow> 48 \<le> (of_char c :: nat) \<and> (of_char c :: nat) \<le> 57"

definition digit_char :: "nat \<Rightarrow> char" where
  "digit_char d = char_of (48 + d)"

definition digits_val :: "string \<Rightarrow> nat" where
  "digits_val s = foldl (\<lambda>a c. a * 10 + (of_char c - 48)) 0 s"

fun nat_str :: "nat \<Rightarrow> string" where
  "nat_str n = (if n < 10 then [digit_char n] else nat_str (n div 10) @ [digit_char (n mod 10)])"

declare nat_str.simps [simp del]

text \<open>\<open>strconv.Itoa\<close>, \<open>strconv.FormatInt(_, 10)\<close>, \<open>big.Int.String\<close>.\<close>

definition int_str :: "int \<Rightarrow> string" where
  "int_str i = (if i < 0 then ''-'' @ nat_str (nat (- i)) else nat_str (nat i))"

text \<open>\<open>big.Int.SetString(s, 10)\<close>: an optional sign and at least one digit, nothing else.\<close>

definition parse_nat :: "string \<Rightarrow> nat option" where
  "parse_nat s = (if s \<noteq> [] \<and> list_all is_digit s then Some (digits_val s) else None)"

fun parse_int :: "string \<Rightarrow> int option" where
  "parse_int [] = None"
| "parse_int (c # s) =
     (if c = CHR ''-'' then map_option (\<lambda>n. - int n) (parse_nat s)
      else if c = CHR ''+'' then map_option int (parse_nat s)
      else map_option int (parse_nat (c # s)))"

text \<open>\<open>strconv.Atoi\<close> and \<open>strconv.ParseInt(_, 10, 64)\<close>: the same syntax, in the range of \<open>int64\<close>.\<close>

definition int64_range :: "int \<Rightarrow> bool" where
  "int64_range i \<longleftrightarrow> - (2 ^ 63) \<le> i \<and> i < 2 ^ 63"

definition atoi :: "string \<Rightarrow> int option" where
  "atoi s = (case parse_int s of None \<Rightarrow> None | Some i \<Rightarrow> if int64_range i then Some i else None)"

lemma is_digit_digit_char [simp]: "d < 10 \<Longrightarrow> is_digit (digit_char d)"
  by (simp add: is_digit_def digit_char_def)

lemma of_char_digit_char [simp]: "d < 10 \<Longrightarrow> (of_char (digit_char d) :: nat) = 48 + d"
  by (simp add: digit_char_def)

lemma digits_val_foldl: "foldl (\<lambda>a c. a * 10 + (of_char c - 48)) a s = a * 10 ^ length s + digits_val s"
proof (induction s arbitrary: a)
  case Nil
  then show ?case by (simp add: digits_val_def)
next
  case (Cons c s)
  show ?case
    using Cons.IH [of "a * 10 + (of_char c - 48)"] Cons.IH [of "of_char c - 48"]
    by (simp add: digits_val_def algebra_simps)
qed

lemma digits_val_Nil [simp]: "digits_val [] = 0"
  by (simp add: digits_val_def)

lemma digits_val_append: "digits_val (s @ t) = digits_val s * 10 ^ length t + digits_val t"
proof -
  have "digits_val (s @ t) = foldl (\<lambda>a c. a * 10 + (of_char c - 48)) (digits_val s) t"
    by (simp add: digits_val_def)
  then show ?thesis by (simp only: digits_val_foldl)
qed

lemma digits_val_single: "digits_val [c] = of_char c - 48"
  by (simp add: digits_val_def)

lemma digits_val_Cons: "digits_val (c # s) = (of_char c - 48) * 10 ^ length s + digits_val s"
  using digits_val_append [of "[c]" s] by (simp add: digits_val_single)

lemma nat_str_digits: "list_all is_digit (nat_str n)"
  by (induction n rule: nat_str.induct) (subst nat_str.simps, simp)

lemma nat_str_nonempty [simp]: "nat_str n \<noteq> []"
  by (subst nat_str.simps) simp

lemma digits_val_nat_str [simp]: "digits_val (nat_str n) = n"
proof (induction n rule: nat_str.induct)
  case (1 n)
  show ?case
    using "1.IH" by (subst nat_str.simps) (simp add: digits_val_append digits_val_single)
qed

lemma parse_nat_nat_str [simp]: "parse_nat (nat_str n) = Some n"
  by (simp add: parse_nat_def nat_str_digits)

lemma not_digit_sign [simp]: "\<not> is_digit CHR ''-''" "\<not> is_digit CHR ''+''"
  by (simp_all add: is_digit_def)

lemma parse_int_int_str [simp]: "parse_int (int_str i) = Some i"
proof (cases "i < 0")
  case True
  then show ?thesis by (simp add: int_str_def)
next
  case False
  obtain c s where cs: "nat_str (nat i) = c # s"
    using nat_str_nonempty by (metis list.exhaust)
  then have "is_digit c" using nat_str_digits [of "nat i"] by simp
  then have "c \<noteq> CHR ''-''" "c \<noteq> CHR ''+''" by auto
  then show ?thesis
    using False cs parse_nat_nat_str [of "nat i"] by (simp add: int_str_def)
qed

lemma atoi_int_str: "int64_range i \<Longrightarrow> atoi (int_str i) = Some i"
  by (simp add: atoi_def)

lemma digits_val_less: "list_all is_digit s \<Longrightarrow> digits_val s < 10 ^ length s"
proof (induction s)
  case Nil
  then show ?case by simp
next
  case (Cons c s)
  then have "digits_val (c # s) < (of_char c - 48 + 1) * 10 ^ length s"
    by (simp add: digits_val_Cons)
  also have "\<dots> \<le> 10 * 10 ^ length s"
    using Cons.prems by (intro mult_le_mono1) (auto simp: is_digit_def)
  finally show ?case by simp
qed

lemma nat_str_length_less: "n < 10 ^ length (nat_str n)"
  using digits_val_less [OF nat_str_digits, of n] by simp

lemma nat_str_length_ge: "0 < n \<Longrightarrow> 10 ^ (length (nat_str n) - 1) \<le> n"
proof (induction n rule: nat_str.induct)
  case (1 n)
  show ?case
  proof (cases "n < 10")
    case True
    then show ?thesis using 1 by (subst nat_str.simps) simp
  next
    case False
    then have "10 ^ (length (nat_str (n div 10)) - 1) \<le> n div 10" using 1 by simp
    moreover have "length (nat_str n) = length (nat_str (n div 10)) + 1"
      using False by (subst nat_str.simps) simp
    moreover have "length (nat_str (n div 10)) = Suc (length (nat_str (n div 10)) - 1)"
      by (simp add: Suc_leI)
    ultimately show ?thesis by (metis add_diff_cancel_right' less_eq_div_iff_mult_less_eq
          mult.commute power_Suc zero_less_numeral)
  qed
qed

end
