(* ===== verification/GoValues.thy ===== *)
theory GoValues
  imports Errors
begin

text \<open>
  \<open>driver.Value\<close>: the dynamic types that reach or leave the driver. Integers are words of their Go
  width, a \<open>float64\<close> is its IEEE bits. A LOB handle (src/lob.go) is a value of its own; the driver
  holds the only reference to it while it fills it, so it is passed by value, with \<open>lb_conn\<close> saying
  whether its connection pointer is set.
\<close>

record gotime =
  t_year :: int
  t_month :: int
  t_day :: int
  t_hour :: int
  t_min :: int
  t_sec :: int
  t_nsec :: int
  t_offset :: int

record terataBaseLob =
  lb_length :: u64
  lb_data :: "byte list option"
  lb_started :: bool
  lb_done :: bool
  lb_dataIndex :: int
  lb_dataType :: u16
  lb_locatorData :: "byte list"
  lb_conn :: bool
  lb_requestNo :: u32
  lb_nullIndicatorRead :: bool
  lb_lengthRead :: bool

datatype gvalue =
    V_nil
  | V_int64 "64 word"
  | V_int "64 word"
  | V_int32 "32 word"
  | V_int16 "16 word"
  | V_int8 "8 word"
  | V_float64 u64
  | V_float32 u32
  | V_bool bool
  | V_string string
  | V_bytes "byte list"
  | V_time gotime
  | V_bigInt int
  | V_clob terataBaseLob
  | V_blob terataBaseLob

end
