(* ===== verification/Numbers.thy ===== *)
theory Numbers
  imports GoStrings GoValues BufferReader
begin

text \<open>
  Decimal arithmetic: src/number.go, the decimal helpers of src/datatype.go and src/rows.go and the
  rescaling of src/fastload_encode.go. \<open>big.Int\<close> is \<open>int\<close>.
\<close>

definition numberMaxDigits :: int where "numberMaxDigits = 40"
definition numberMaxByteLength :: int where "numberMaxByteLength = 19"
definition numberSipScaleAndPrec :: int where "numberSipScaleAndPrec = -128"

section \<open>big.Int\<close>

text \<open>\<open>Quo\<close> truncates towards zero; \<open>BitLen\<close> is the length of the absolute value in bits.\<close>

definition quo :: "int \<Rightarrow> int \<Rightarrow> int" where
  "quo x y = sgn x * sgn y * (\<bar>x\<bar> div \<bar>y\<bar>)"

fun bit_length :: "nat \<Rightarrow> nat" where
  "bit_length n = (if n = 0 then 0 else Suc (bit_length (n div 2)))"

declare bit_length.simps [simp del]

text \<open>\<open>FillBytes\<close> panics when the number does not fit.\<close>

definition fillBytes :: "nat \<Rightarrow> nat \<Rightarrow> byte list option" where
  "fillBytes v n = (if v < 256 ^ n then Some (be_enc n v) else None)"

section \<open>The operations\<close>

definition parseNumberString :: "string \<Rightarrow> goerror + int \<times> int" where
  "parseNumberString orig =
     (let s = trimSpace orig;
          invalid = Inl (Errorf ''invalid number value: %q'' []);
          body = (\<lambda>s exp.
            let neg = hasPrefix s ''-'';
                s = (if hasPrefix s ''-'' then drop 1 s else if hasPrefix s ''+'' then drop 1 s else s);
                (intPart, fracPart, _) = cut s (CHR ''.'');
                digits = intPart @ fracPart
            in if digits = [] \<or> \<not> list_all is_digit digits then invalid
               else let unscaled = int (digits_val digits)
                    in Inr (if neg then - unscaled else unscaled, int (length fracPart) - exp))
      in case indexAny s ''eE'' of
           Some i \<Rightarrow> (case atoi (drop (i + 1) s) of
                        None \<Rightarrow> invalid
                      | Some e \<Rightarrow> body (take i s) e)
         | None \<Rightarrow> body s 0)"

text \<open>
  \<open>formatFloat\<close> is \<open>strconv.FormatFloat(v, 'e', -1, 64)\<close>; its digits are not modelled. A float is not
  a number when its exponent bits are all ones.
\<close>

definition float_not_finite :: "u64 \<Rightarrow> bool" where
  "float_not_finite v = (unat v div 2 ^ 52 mod 2 ^ 11 = 2047)"

fun numberFromValue :: "(u64 \<Rightarrow> string) \<Rightarrow> gvalue \<Rightarrow> goerror + int \<times> int" where
  "numberFromValue formatFloat (V_int64 v) = Inr (sint v, 0)"
| "numberFromValue formatFloat (V_float64 v) =
     (if float_not_finite v then Inl (Errorf ''NUMBER param cannot be %v'' [])
      else parseNumberString (formatFloat v))"
| "numberFromValue formatFloat (V_string v) = parseNumberString v"
| "numberFromValue formatFloat (V_bytes v) = parseNumberString (bytes_str v)"
| "numberFromValue formatFloat _ =
     Inl (Errorf ''param expecting number data type but provided value is %T'' [])"

definition quoRoundHalfUp :: "int \<Rightarrow> int \<Rightarrow> int" where
  "quoRoundHalfUp x y =
     (let q = quo x y; r = x - q * y
      in if 2 * \<bar>r\<bar> \<ge> y then (if x < 0 then q - 1 else q + 1) else q)"

definition bigIntToTwosComplement :: "int \<Rightarrow> byte list option" where
  "bigIntToTwosComplement val =
     (let bitLen = (if val < 0 then bit_length (nat (- val - 1)) else bit_length (nat val));
          n = bitLen div 8 + 1
      in if val \<ge> 0 then fillBytes (nat val) n
         else fillBytes (nat (val + 256 ^ n)) n)"

text \<open>
  \<open>SetString\<close> of the trimmed digits cannot fail: a nonzero number keeps a leading digit. Its failure
  branch is 0 here.
\<close>

definition stripTrailingZeros :: "int \<Rightarrow> int \<Rightarrow> int \<times> int" where
  "stripTrailingZeros u scale =
     (let digits = int_str u; trimmed = trimRight digits (CHR ''0'')
      in if length trimmed < length digits
         then ((case parse_int trimmed of Some v \<Rightarrow> v | None \<Rightarrow> 0),
               scale - (int (length digits) - int (length trimmed)))
         else (u, scale))"

text \<open>The first step of \<open>encodeNumber\<close>: at most 40 digits are kept.\<close>

definition number_round :: "int \<Rightarrow> int \<Rightarrow> int \<times> int" where
  "number_round u s =
     (let nDigits = int (length (nat_str (nat \<bar>u\<bar>))) in
      if nDigits > numberMaxDigits then
        let drop = nDigits - numberMaxDigits; dv = 10 ^ nat drop
        in (if nDigits - numberMaxDigits - s > 0 then quo u dv else quoRoundHalfUp u dv, s - drop)
      else (u, s))"

definition encodeNumber :: "int \<Rightarrow> int \<Rightarrow> (goerror + byte list) option" where
  "encodeNumber unscaled scale =
     (if unscaled = 0 then Some (Inr [0])
      else
        let (u, scale) = number_round unscaled scale;
            (u, scale) = stripTrailingZeros u scale
        in if scale < - 32768 \<or> scale > 32767
           then Some (Inl (Errorf ''NUMBER scale %d out of range'' []))
           else do {
             tc \<leftarrow> bigIntToTwosComplement u;
             Some (Inr (word_of_nat (length tc + 2)
                        # be_enc 2 (unat (word_of_int scale :: u16)) @ tc)) })"

definition decimalToScaledInt :: "string \<Rightarrow> int \<Rightarrow> (goerror + int) option" where
  "decimalToScaledInt s0 scale =
     (let neg = hasPrefix s0 ''-'';
          s = (if hasPrefix s0 ''-'' then drop 1 s0 else if hasPrefix s0 ''+'' then drop 1 s0 else s0);
          (intPart, fracPart, _) = cut s (CHR ''.'')
      in do {
        fracPart \<leftarrow> (if int (length fracPart) > scale then slice fracPart 0 scale else Some fracPart);
        let fracPart = fracPart @ replicate (nat (scale - int (length fracPart))) (CHR ''0'');
        let digits = (if intPart @ fracPart = [] then ''0'' else intPart @ fracPart);
        Some (case parse_int digits of
                None \<Rightarrow> Inl (Errorf ''invalid decimal value: %q'' [])
              | Some raw \<Rightarrow> Inr (if neg then - raw else raw)) })"

definition decimalString :: "int \<Rightarrow> int \<Rightarrow> string" where
  "decimalString raw scale =
     (if scale = 0 then int_str raw
      else if scale < 0 then
        (if raw = 0 then ''0'' else int_str raw @ replicate (nat (- scale)) (CHR ''0''))
      else
        let digits0 = nat_str (nat \<bar>raw\<bar>);
            digits = (if int (length digits0) \<le> scale
                      then replicate (nat (scale - int (length digits0) + 1)) (CHR ''0'') @ digits0
                      else digits0);
            k = length digits - nat scale
        in (if raw < 0 then ''-'' else []) @ take k digits @ ''.'' @ drop k digits)"

definition pow10 :: "int \<Rightarrow> int" where
  "pow10 n = (if n < 0 then 1 else 10 ^ nat n)"

definition rescaleHalfUp :: "int \<Rightarrow> int \<Rightarrow> int \<Rightarrow> int" where
  "rescaleHalfUp unscaled from to =
     (if to \<ge> from then unscaled * pow10 (to - from) else quoRoundHalfUp unscaled (pow10 (from - to)))"

definition rescaleTruncate :: "int \<Rightarrow> int \<Rightarrow> int \<Rightarrow> int" where
  "rescaleTruncate unscaled from to =
     (if to \<ge> from then unscaled * pow10 (to - from) else quo unscaled (pow10 (from - to)))"

section \<open>Division and rounding\<close>

lemma quo_nonneg: "0 \<le> x \<Longrightarrow> 0 < y \<Longrightarrow> quo x y = x div y"
  by (cases "x = 0") (simp_all add: quo_def)

lemma quo_neg: "x < 0 \<Longrightarrow> 0 < y \<Longrightarrow> quo x y = - ((- x) div y)"
  by (simp add: quo_def)

text \<open>The remainder of a truncating division has the sign of the dividend and is below the divisor.\<close>

lemma quo_rem_nonneg:
  assumes "0 \<le> x" "0 < y"
  obtains p where "quo x y * y = p" "0 \<le> p" "p \<le> x" "x - p < y"
proof -
  have "x div y * y = x - x mod y" by (rule minus_mod_eq_div_mult [symmetric])
  moreover have "0 \<le> x div y * y"
    using assms by (simp add: pos_imp_zdiv_nonneg_iff)
  ultimately show ?thesis
    using that [of "x - x mod y"] assms pos_mod_bound [of y x] pos_mod_sign [of y x]
    by (simp add: quo_nonneg)
qed

lemma quo_rem_neg:
  assumes "x < 0" "0 < y"
  obtains p where "quo x y * y = - p" "0 \<le> p" "p \<le> - x" "- x - p < y"
proof -
  obtain p where "quo (- x) y * y = p" "0 \<le> p" "p \<le> - x" "- x - p < y"
    using assms by (elim quo_rem_nonneg [of "- x" y, rotated 2]) auto
  then show ?thesis
    using that [of p] assms by (simp add: quo_neg quo_nonneg)
qed

lemma quoRoundHalfUp_nearest:
  assumes "0 < y"
  shows "2 * \<bar>x - quoRoundHalfUp x y * y\<bar> \<le> y
    \<and> (2 * \<bar>x - quoRoundHalfUp x y * y\<bar> = y \<longrightarrow> \<bar>x\<bar> < \<bar>quoRoundHalfUp x y * y\<bar>)"
proof (cases "x < 0")
  case True
  obtain p where p: "quo x y * y = - p" "0 \<le> p" "p \<le> - x" "- x - p < y"
    using quo_rem_neg [OF True assms] .
  have e: "quoRoundHalfUp x y * y = (if y \<le> 2 * \<bar>x + p\<bar> then - p - y else - p)"
    using True p(1) by (simp add: quoRoundHalfUp_def Let_def left_diff_distrib)
  show ?thesis unfolding e using p True assms by (auto simp: abs_if split: if_splits)
next
  case False
  then obtain p where p: "quo x y * y = p" "0 \<le> p" "p \<le> x" "x - p < y"
    using quo_rem_nonneg [of x y] assms by auto
  have e: "quoRoundHalfUp x y * y = (if y \<le> 2 * \<bar>x - p\<bar> then p + y else p)"
    using False p(1) by (simp add: quoRoundHalfUp_def Let_def distrib_right)
  show ?thesis unfolding e using p False assms by (auto simp: abs_if split: if_splits)
qed

section \<open>Two's complement\<close>

lemma bit_length_upper: "n < 2 ^ bit_length n"
proof (induction n rule: bit_length.induct)
  case (1 n)
  then show ?case by (subst bit_length.simps) auto
qed

lemma bit_length_lower: "0 < n \<Longrightarrow> 2 ^ (bit_length n - 1) \<le> n"
proof (induction n rule: bit_length.induct)
  case (1 n)
  have b: "bit_length n = Suc (bit_length (n div 2))"
    using 1 by (subst bit_length.simps) simp
  show ?case
  proof (cases "n div 2 = 0")
    case True
    then show ?thesis using 1 b by (simp add: bit_length.simps [of 0])
  next
    case False
    then have "2 ^ (bit_length (n div 2) - 1) \<le> n div 2" using 1 by simp
    moreover have "bit_length (n div 2) = Suc (bit_length (n div 2) - 1)"
      using False bit_length.simps [of "n div 2"] by simp
    ultimately have "2 ^ bit_length (n div 2) \<le> 2 * (n div 2)" by (metis mult_le_mono2 power_Suc)
    then show ?thesis by (simp add: b)
  qed
qed

lemma bit_length_le: "n < 2 ^ k \<Longrightarrow> bit_length n \<le> k"
proof (cases "n = 0")
  case False
  assume "n < 2 ^ k"
  then have "(2 :: nat) ^ (bit_length n - 1) < 2 ^ k"
    using bit_length_lower [of n] False by linarith
  then show ?thesis using power_less_imp_less_exp [of "2 :: nat" "bit_length n - 1" k] by simp
qed (simp add: bit_length.simps)

lemma hd_be_enc: "unat (hd (be_enc (Suc k) w)) = w div 256 ^ k mod 256"
  using be_enc_add [of 1 k w] by (simp add: unat_of_nat)

lemma twos_val_be_enc:
  assumes "w < 256 ^ Suc k"
  shows "twos_val (be_enc (Suc k) w) = (if 128 * 256 ^ k \<le> w then int w - 256 ^ Suc k else int w)"
proof -
  have "be_enc (Suc k) w \<noteq> []" by (metis length_be_enc list.size(3) nat.distinct(1))
  moreover have "w div 256 ^ k mod 256 = w div 256 ^ k"
    using assms by (simp add: less_mult_imp_div_less)
  moreover have "128 \<le> w div 256 ^ k \<longleftrightarrow> 128 * 256 ^ k \<le> w"
    by (simp add: less_eq_div_iff_mult_less_eq)
  moreover have "be_val (be_enc (Suc k) w) = w" using assms by (simp only: be_val_be_enc mod_less)
  ultimately show ?thesis
    by (simp add: twos_val_def hd_be_enc del: be_enc.simps)
qed

text \<open>The magnitude whose bit length decides the number of bytes.\<close>

definition twos_mag :: "int \<Rightarrow> nat" where
  "twos_mag v = (if v < 0 then nat (- v - 1) else nat v)"

lemma int_pow256_le: "(128 * 256 ^ j :: int) \<le> int m \<longleftrightarrow> 128 * 256 ^ j \<le> m"
proof -
  have "(128 * 256 ^ j :: int) = int (128 * 256 ^ j)" by simp
  then show ?thesis by (simp only: of_nat_le_iff)
qed

lemma int_less_pow256: "int m < 256 ^ j \<longleftrightarrow> m < 256 ^ j"
proof -
  have "(256 ^ j :: int) = int (256 ^ j)" by simp
  then show ?thesis by (simp only: of_nat_less_iff)
qed

lemma bigIntToTwosComplement_shape:
  fixes v :: int
  defines "k \<equiv> bit_length (twos_mag v) div 8"
  shows "bigIntToTwosComplement v
    = Some (be_enc (Suc k) (if v < 0 then nat (v + 256 ^ Suc k) else nat v))"
    and "- (128 * 256 ^ k) \<le> v" and "v < 128 * 256 ^ k"
    and "0 < k \<Longrightarrow> \<not> (- (128 * 256 ^ (k - 1)) \<le> v \<and> v < 128 * 256 ^ (k - 1))"
proof -
  let ?m = "twos_mag v"
  have pw: "(2 :: nat) ^ (8 * j) = 256 ^ j" for j by (simp add: power_mult)
  have "?m < 2 ^ bit_length ?m" by (rule bit_length_upper)
  also have "\<dots> \<le> 2 ^ (8 * k + 7)"
  proof (rule power_increasing)
    show "bit_length ?m \<le> 8 * k + 7" unfolding k_def by presburger
  qed simp
  finally have m: "?m < 128 * 256 ^ k" by (simp add: power_add pw)
  then have mi: "int ?m < 128 * 256 ^ k"
    using int_pow256_le [of k ?m] by linarith
  then show lo: "- (128 * 256 ^ k) \<le> v" and hi: "v < 128 * 256 ^ k"
    by (auto simp: twos_mag_def split: if_splits)
  have "(128 * 256 ^ k :: int) < 256 ^ Suc k" by simp
  then have "nat v < 256 ^ Suc k" if "0 \<le> v"
    using hi that int_less_pow256 [of "nat v" "Suc k"] by linarith
  moreover have "nat (v + 256 ^ Suc k) < 256 ^ Suc k" if "v < 0"
  proof -
    have "0 < (256 :: int) ^ Suc k" by simp
    then have "nat (v + 256 ^ Suc k) < nat (256 ^ Suc k)" using that by linarith
    then show ?thesis by (simp add: nat_power_eq del: power_Suc)
  qed
  ultimately show "bigIntToTwosComplement v
    = Some (be_enc (Suc k) (if v < 0 then nat (v + 256 ^ Suc k) else nat v))"
    by (auto simp: bigIntToTwosComplement_def fillBytes_def k_def twos_mag_def Let_def
        simp del: be_enc.simps power_Suc)
  show "\<not> (- (128 * 256 ^ (k - 1)) \<le> v \<and> v < 128 * 256 ^ (k - 1))" if "0 < k"
  proof -
    have "8 * k \<le> bit_length ?m" by (simp add: k_def)
    moreover have "0 < ?m" using that by (intro gr0I) (simp add: k_def bit_length.simps)
    ultimately have "2 ^ (8 * k - 1) \<le> ?m"
      using bit_length_lower [of ?m] power_increasing [of "8 * k - 1" "bit_length ?m - 1" "2 :: nat"]
      by linarith
    moreover have "8 * k - 1 = 8 * (k - 1) + 7" using that by simp
    ultimately have "128 * 256 ^ (k - 1) \<le> ?m" by (simp add: power_add pw)
    then have "128 * 256 ^ (k - 1) \<le> int ?m" by (simp only: int_pow256_le)
    then show ?thesis by (auto simp: twos_mag_def split: if_splits)
  qed
qed

lemma bigIntToTwosComplement_val:
  obtains b where "bigIntToTwosComplement v = Some b" "twos_val b = v" "b \<noteq> []"
    "length b = Suc (bit_length (twos_mag v) div 8)"
proof -
  define k where "k = bit_length (twos_mag v) div 8"
  note s = bigIntToTwosComplement_shape [of v, folded k_def]
  let ?w = "if v < 0 then nat (v + 256 ^ Suc k) else nat v"
  have p: "(256 :: int) ^ Suc k = 256 * 256 ^ k" "(0 :: int) < 256 ^ k" by simp_all
  have w: "int ?w = (if v < 0 then v + 256 ^ Suc k else v)" using s(2) p by auto
  then have "int ?w < 256 ^ Suc k" using s(2,3) p by auto
  then have wl: "?w < 256 ^ Suc k" by (simp only: int_less_pow256)
  have "128 * 256 ^ k \<le> ?w \<longleftrightarrow> 128 * 256 ^ k \<le> int ?w"
    by (simp only: int_pow256_le)
  also have "\<dots> \<longleftrightarrow> v < 0" using w s(2,3) p by (auto simp del: power_Suc split: if_splits)
  finally have "twos_val (be_enc (Suc k) ?w) = v"
    using twos_val_be_enc [OF wl] w by (simp del: power_Suc be_enc.simps split: if_splits)
  then show ?thesis
    using that [of "be_enc (Suc k) ?w"] s(1) length_be_enc [of "Suc k" ?w]
    by (simp add: k_def del: be_enc.simps) (metis length_be_enc length_0_conv nat.distinct(1))
qed

section \<open>Trailing zeros\<close>

lemma trimRight_split: "s = trimRight s c @ replicate (length s - length (trimRight s c)) c"
proof -
  let ?t = "takeWhile (\<lambda>x. x = c) (rev s)" and ?d = "dropWhile (\<lambda>x. x = c) (rev s)"
  have "?t = replicate (length ?t) c"
    by (intro replicate_eqI) (auto dest: set_takeWhileD)
  moreover have "s = rev ?d @ rev ?t" by (metis rev_append rev_rev_ident takeWhile_dropWhile_id)
  moreover have "length s = length ?d + length ?t"
    by (metis add.commute length_append length_rev takeWhile_dropWhile_id)
  ultimately show ?thesis by (simp add: trimRight_def) (metis rev_replicate)
qed

lemma trimRight_last: "trimRight s c \<noteq> [] \<Longrightarrow> last (trimRight s c) \<noteq> c"
  using hd_dropWhile [of "\<lambda>x. x = c" "rev s"] by (simp add: trimRight_def last_rev)

lemma digits_val_replicate_0: "digits_val (s @ replicate k CHR ''0'') = digits_val s * 10 ^ k"
proof (induction k)
  case (Suc k)
  have "digits_val (s @ replicate (Suc k) CHR ''0'') = digits_val ((s @ replicate k CHR ''0'') @ [CHR ''0''])"
    by (simp flip: replicate_append_same)
  then show ?case using Suc by (simp only: digits_val_append [of _ "[_]"]) (simp add: digits_val_single)
qed simp

lemma list_all_replicate_digit: "list_all is_digit (s @ replicate k c) \<longleftrightarrow>
    list_all is_digit s \<and> (k = 0 \<or> is_digit c)"
  by (auto simp: list_all_iff)

lemma parse_nat_append_zeros:
  assumes "parse_nat (s @ replicate k CHR ''0'') = Some n" "n \<noteq> 0"
  shows "\<exists>m. parse_nat s = Some m \<and> n = m * 10 ^ k"
proof -
  have n: "n = digits_val s * 10 ^ k" "list_all is_digit s"
    using assms(1) by (auto simp: parse_nat_def digits_val_replicate_0 list_all_replicate_digit
        split: if_splits)
  then have "s \<noteq> []" using assms(2) by auto
  then show ?thesis using n by (simp add: parse_nat_def)
qed

lemma parse_int_append_zeros:
  assumes "parse_int (s @ replicate k CHR ''0'') = Some v" "v \<noteq> 0"
  shows "\<exists>w. parse_int s = Some w \<and> v = w * 10 ^ k"
proof (cases s)
  case Nil
  then have "v = int (digits_val ([] @ replicate k CHR ''0''))"
    using assms by (cases k) (auto simp: parse_nat_def split: if_splits)
  then show ?thesis using assms(2) by (simp only: digits_val_replicate_0) simp
next
  case (Cons c s')
  consider (neg) "c = CHR ''-''" | (pos) "c = CHR ''+''" | (none) "c \<noteq> CHR ''-''" "c \<noteq> CHR ''+''"
    by blast
  then show ?thesis
  proof cases
    case neg
    then obtain n where "parse_nat (s' @ replicate k CHR ''0'') = Some n" "v = - int n" "n \<noteq> 0"
      using assms Cons by auto
    with parse_nat_append_zeros [OF this(1)] show ?thesis using Cons neg by auto
  next
    case pos
    then obtain n where "parse_nat (s' @ replicate k CHR ''0'') = Some n" "v = int n" "n \<noteq> 0"
      using assms Cons by auto
    with parse_nat_append_zeros [OF this(1)] show ?thesis using Cons pos by auto
  next
    case none
    then obtain n where "parse_nat (s @ replicate k CHR ''0'') = Some n" "v = int n" "n \<noteq> 0"
      using assms Cons by auto
    with parse_nat_append_zeros [OF this(1)] show ?thesis using Cons none by auto
  qed
qed

lemma stripTrailingZeros_value:
  assumes "u \<noteq> 0" "stripTrailingZeros u s = (u', s')"
  shows "\<exists>k. u = u' * 10 ^ k \<and> s' = s - int k" "u' \<noteq> 0"
proof -
  let ?d = "int_str u" let ?t = "trimRight ?d CHR ''0''" let ?k = "length ?d - length ?t"
  have d: "?d = ?t @ replicate ?k CHR ''0''" by (rule trimRight_split)
  then have "parse_int (?t @ replicate ?k CHR ''0'') = Some u" by (metis parse_int_int_str)
  then obtain w where w: "parse_int ?t = Some w" "u = w * 10 ^ ?k"
    using parse_int_append_zeros assms(1) by blast
  have len: "length ?t \<le> length ?d" by (subst (2) d) simp
  show "\<exists>k. u = u' * 10 ^ k \<and> s' = s - int k"
  proof (cases "length ?t < length ?d")
    case True
    then show ?thesis using assms(2) w len
      by (intro exI [of _ ?k]) (auto simp: stripTrailingZeros_def Let_def of_nat_diff)
  next
    case False
    then show ?thesis using assms(2)
      by (intro exI [of _ 0]) (auto simp: stripTrailingZeros_def Let_def)
  qed
  then show "u' \<noteq> 0" using assms(1) by auto
qed

section \<open>The NUMBER encoding\<close>

text \<open>What a NUMBER image denotes: scale and two's complement digits.\<close>

definition number_image :: "int \<Rightarrow> int \<Rightarrow> byte list \<Rightarrow> byte list" where
  "number_image u s tc = word_of_nat (length tc + 2) # be_enc 2 (unat (word_of_int s :: u16)) @ tc"

lemma digits_len_pow: "int (length (nat_str (nat \<bar>u\<bar>))) \<le> int n \<Longrightarrow> \<bar>u\<bar> < 10 ^ n"
proof -
  assume "int (length (nat_str (nat \<bar>u\<bar>))) \<le> int n"
  then have "(10 :: nat) ^ length (nat_str (nat \<bar>u\<bar>)) \<le> 10 ^ n"
    by (intro power_increasing) auto
  then have "nat \<bar>u\<bar> < 10 ^ n" using nat_str_length_less [of "nat \<bar>u\<bar>"] by linarith
  then show ?thesis by (simp add: nat_less_iff)
qed

text \<open>Every branch leaves at most \<open>10 ^ 40\<close> in absolute value before the zeros are stripped.\<close>

lemma quo_bound:
  assumes "\<bar>x\<bar> < b * y" "0 < y"
  shows "\<bar>quo x y\<bar> < b" "\<bar>quoRoundHalfUp x y\<bar> \<le> b"
proof -
  have "\<bar>quo x y\<bar> = \<bar>x\<bar> div y"
    using assms(2) by (cases "x < 0") (auto simp: quo_nonneg quo_neg pos_imp_zdiv_nonneg_iff)
  then show q: "\<bar>quo x y\<bar> < b"
  proof -
    have "\<bar>x\<bar> div y * y \<le> \<bar>x\<bar>"
      using pos_mod_sign [OF assms(2), of "\<bar>x\<bar>"] by (simp add: minus_mod_eq_div_mult [symmetric])
    then have "\<bar>x\<bar> div y * y < b * y" using assms(1) by linarith
    then show ?thesis using assms(2) \<open>\<bar>quo x y\<bar> = _\<close> by (simp only: mult_less_cancel_right_pos)
  qed
  then show "\<bar>quoRoundHalfUp x y\<bar> \<le> b" by (auto simp: quoRoundHalfUp_def Let_def)
qed

lemma bit_length_17_bytes: "\<bar>u\<bar> \<le> 10 ^ 40 \<Longrightarrow> bit_length (twos_mag u) div 8 \<le> 16"
proof -
  assume "\<bar>u\<bar> \<le> 10 ^ 40"
  then have "twos_mag u < 2 ^ 133" by (auto simp: twos_mag_def nat_less_iff)
  then have "bit_length (twos_mag u) \<le> 133" by (rule bit_length_le)
  then show ?thesis by simp
qed

lemma quo_nonzero: "0 < y \<Longrightarrow> y \<le> \<bar>x\<bar> \<Longrightarrow> 1 \<le> sgn x * quo x y \<and> quoRoundHalfUp x y \<noteq> 0"
proof -
  assume y: "0 < y" "y \<le> \<bar>x\<bar>"
  then have "1 \<le> \<bar>x\<bar> div y" by (metis div_self less_irrefl zdiv_mono1)
  then show ?thesis using y
    by (cases "x < 0") (auto simp: quoRoundHalfUp_def Let_def quo_nonneg quo_neg sgn_if)
qed

lemma quo_error: "0 < y \<Longrightarrow> \<bar>x - quo x y * y\<bar> < y"
proof (cases "x < 0")
  case True
  assume "0 < y"
  then obtain p where "quo x y * y = - p" "0 \<le> p" "p \<le> - x" "- x - p < y"
    using quo_rem_neg [OF True] by blast
  then show ?thesis by simp
next
  case False
  assume "0 < y"
  then obtain p where "quo x y * y = p" "0 \<le> p" "p \<le> x" "x - p < y"
    using False by (elim quo_rem_nonneg [of x y, rotated 2]) auto
  then show ?thesis by simp
qed

lemma quoRoundHalfUp_error:
  assumes "0 < y"
  shows "\<bar>x - quoRoundHalfUp x y * y\<bar> < y"
proof -
  define d where "d = \<bar>x - quoRoundHalfUp x y * y\<bar>"
  have "2 * d \<le> y" using quoRoundHalfUp_nearest [OF assms, of x] by (simp add: d_def)
  then have "d < y" using assms by linarith
  then show ?thesis by (simp add: d_def)
qed

lemma number_round_props:
  assumes "u \<noteq> 0" "number_round u s = (u', s')"
  shows "u' \<noteq> 0" "\<bar>u'\<bar> \<le> 10 ^ 40"
    "\<exists>k. s' = s - int k \<and> \<bar>u - u' * 10 ^ k\<bar> < 10 ^ (length (nat_str (nat \<bar>u\<bar>)) - 40)"
proof -
  define nd where "nd = length (nat_str (nat \<bar>u\<bar>))"
  have "u' \<noteq> 0 \<and> \<bar>u'\<bar> \<le> 10 ^ 40 \<and> (\<exists>k. s' = s - int k \<and> \<bar>u - u' * 10 ^ k\<bar> < 10 ^ (nd - 40))"
  proof (cases "40 < nd")
    case False
    then have "u' = u" "s' = s"
      using assms(2) by (auto simp: number_round_def numberMaxDigits_def nd_def)
    moreover have "\<bar>u\<bar> < 10 ^ 40" using False by (intro digits_len_pow) (simp add: nd_def)
    ultimately show ?thesis using assms(1) False by (intro conjI exI [of _ 0]) auto
  next
    case True
    define k where "k = nd - 40"
    have nd: "nd = 40 + k" "0 < k" using True by (simp_all add: k_def)
    have u': "u' = quo u (10 ^ k) \<or> u' = quoRoundHalfUp u (10 ^ k)" and s': "s' = s - int k"
      using assms(2) True
      by (auto simp: number_round_def numberMaxDigits_def nd_def [symmetric] k_def Let_def
          nat_diff_distrib split: if_splits)
    have up: "\<bar>u\<bar> < 10 ^ 40 * 10 ^ k"
      using digits_len_pow [of u nd] by (simp add: nd_def [symmetric] nd(1) power_add)
    have "0 < nat \<bar>u\<bar>" using assms(1) by simp
    then have "(10 :: nat) ^ (nd - 1) \<le> nat \<bar>u\<bar>" unfolding nd_def by (rule nat_str_length_ge)
    moreover have "(10 :: nat) ^ k \<le> 10 ^ (nd - 1)" using nd by (intro power_increasing) auto
    ultimately have "10 ^ k \<le> nat \<bar>u\<bar>" by linarith
    then have lo: "10 ^ k \<le> \<bar>u\<bar>" by (simp add: le_nat_iff)
    have "(0 :: int) < 10 ^ k" by simp
    note y = quo_nonzero [OF this lo] quo_bound [OF up this] quo_error [OF this, of u]
      quoRoundHalfUp_error [OF this, of u]
    have "u' \<noteq> 0 \<and> \<bar>u'\<bar> \<le> 10 ^ 40 \<and> \<bar>u - u' * 10 ^ k\<bar> < 10 ^ k" using u' y by auto
    then show ?thesis using s' by (auto simp: k_def)
  qed
  then show "u' \<noteq> 0" "\<bar>u'\<bar> \<le> 10 ^ 40"
    "\<exists>k. s' = s - int k \<and> \<bar>u - u' * 10 ^ k\<bar> < 10 ^ (length (nat_str (nat \<bar>u\<bar>)) - 40)"
    by (auto simp: nd_def)
qed

lemma encodeNumber_cases:
  assumes "u \<noteq> 0"
  obtains u' s' k tc where "u' \<noteq> 0" "\<bar>u'\<bar> \<le> 10 ^ 40" "s' = s - int k"
    "\<bar>u - u' * 10 ^ k\<bar> < 10 ^ (length (nat_str (nat \<bar>u\<bar>)) - 40)"
    "bigIntToTwosComplement u' = Some tc" "twos_val tc = u'" "tc \<noteq> []" "length tc \<le> 17"
    "encodeNumber u s = Some (if s' < - 32768 \<or> 32767 < s'
       then Inl (Errorf ''NUMBER scale %d out of range'' []) else Inr (number_image u' s' tc))"
proof -
  obtain u1 s1 where r: "number_round u s = (u1, s1)" by (cases "number_round u s") auto
  obtain u' s' where t: "stripTrailingZeros u1 s1 = (u', s')" by (cases "stripTrailingZeros u1 s1") auto
  note p = number_round_props [OF assms r]
  note q = stripTrailingZeros_value [OF p(1) t]
  obtain k1 where k1: "s1 = s - int k1"
    "\<bar>u - u1 * 10 ^ k1\<bar> < 10 ^ (length (nat_str (nat \<bar>u\<bar>)) - 40)" using p(3) by blast
  obtain k2 where k2: "u1 = u' * 10 ^ k2" "s' = s1 - int k2" using q(1) by blast
  have "\<bar>u'\<bar> * 1 \<le> \<bar>u'\<bar> * 10 ^ k2" by (intro mult_left_mono) auto
  then have b: "\<bar>u'\<bar> \<le> 10 ^ 40" using p(2) k2(1) by (simp add: abs_mult)
  obtain tc where tc: "bigIntToTwosComplement u' = Some tc" "twos_val tc = u'" "tc \<noteq> []"
    "length tc = Suc (bit_length (twos_mag u') div 8)" using bigIntToTwosComplement_val .
  have "length tc \<le> 17" using tc(4) bit_length_17_bytes [OF b] by simp
  moreover have "encodeNumber u s = Some (if s' < - 32768 \<or> 32767 < s'
       then Inl (Errorf ''NUMBER scale %d out of range'' []) else Inr (number_image u' s' tc))"
    using assms tc(1) r t
    by (auto simp: encodeNumber_def number_image_def)
  moreover have "u' * 10 ^ (k1 + k2) = u1 * 10 ^ k1" by (simp add: k2(1) power_add)
  moreover have "s' = s - int (k1 + k2)" by (simp add: k1(1) k2(2))
  ultimately show ?thesis
    using q(2) b k1(2) tc by (intro that [of u' s' "k1 + k2" tc]) simp_all
qed

text \<open>C33: Encoding a NUMBER parameter never panics. It fails only for a scale outside 16 bits; otherwise
  the image is one length byte followed by that many bytes, at most 20 bytes in all, so it fits the
  19 bytes NUMBER columns allow after the length byte.\<close>

theorem encodeNumber_bounded:
  "\<exists>r. encodeNumber u s = Some r
    \<and> (case r of Inl e \<Rightarrow> e = Errorf ''NUMBER scale %d out of range'' []
        | Inr b \<Rightarrow> b \<noteq> [] \<and> unat (hd b) = length b - 1
            \<and> int (length b) - 1 \<le> numberMaxByteLength)"
proof (cases "u = 0")
  case True
  then show ?thesis by (simp add: encodeNumber_def numberMaxByteLength_def)
next
  case False
  then obtain u' s' k tc where "length tc \<le> 17"
    "encodeNumber u s = Some (if s' < - 32768 \<or> 32767 < s'
       then Inl (Errorf ''NUMBER scale %d out of range'' []) else Inr (number_image u' s' tc))"
    by (rule encodeNumber_cases)
  moreover from this(1) have "unat (word_of_nat (length tc + 2) :: byte) = length tc + 2"
    by (subst unat_of_nat) simp
  ultimately show ?thesis by (auto simp: number_image_def numberMaxByteLength_def)
qed

text \<open>C32: A NUMBER image read the way the driver reads a NUMBER column (length byte, 16-bit scale, two's
  complement digits) denotes the number that was encoded: exactly when it has at most 40 digits, and
  within one unit of the 40th digit when it has more.\<close>

theorem encodeNumber_value:
  assumes "encodeNumber u s = Some (Inr b)" "u \<noteq> 0"
  shows "\<exists>s' u' k. rd_u8 (rdr pre (b @ suf) l) = Some (hd b, rdr (pre @ [hd b]) (tl b @ suf) l)
    \<and> (\<exists>r'. rd_u16 (rdr (pre @ [hd b]) (tl b @ suf) l) = Some (s', r')
         \<and> rd_bigIntN (int (unat (hd b)) - 2) r' = Some (u', rdr (pre @ b) suf l))
    \<and> sint s' = s - int k
    \<and> \<bar>u - u' * 10 ^ k\<bar> < 10 ^ (length (nat_str (nat \<bar>u\<bar>)) - 40)"
proof -
  obtain u' s' k tc where e: "s' = s - int k" "length tc \<le> 17" "twos_val tc = u'"
    "\<bar>u - u' * 10 ^ k\<bar> < 10 ^ (length (nat_str (nat \<bar>u\<bar>)) - 40)"
    "encodeNumber u s = Some (if s' < - 32768 \<or> 32767 < s'
       then Inl (Errorf ''NUMBER scale %d out of range'' []) else Inr (number_image u' s' tc))"
    using encodeNumber_cases [OF assms(2)] by metis
  then have r: "- 32768 \<le> s'" "s' \<le> 32767" and b: "b = number_image u' s' tc"
    using assms(1) by (auto split: if_splits)
  have n: "unat (word_of_nat (length tc + 2) :: byte) = length tc + 2"
    using e(2) by (subst unat_of_nat) simp
  have "sint (word_of_int s' :: u16) = s'"
    using r by (simp add: signed_of_int signed_take_bit_int_eq_self)
  then show ?thesis
    using e(1,3,4) n
    by (intro exI [of _ "word_of_int s'"] exI [of _ u'] exI [of _ k])
      (simp add: b number_image_def rdr_simps rd_bigIntN_rdr)
qed

theorem encodeNumber_value_witness:
  "encodeNumber (- 12345) 2 = Some (Inr [4, 0, 2, 0xCF, 0xC7])
    \<and> (\<exists>s' u' k. sint (s' :: u16) = 2 - int k \<and> \<bar>- 12345 - u' * 10 ^ k\<bar> < (1 :: int)
         \<and> rd_u8 (rdr [] [4, 0, 2, 0xCF, 0xC7] 5) = Some (4, rdr [4] [0, 2, 0xCF, 0xC7] 5))"
proof -
  have d: "nat_str 12345 = ''12345''" by (simp add: nat_str.simps digit_char_def char_of_def bit_iff_odd)
  have t: "stripTrailingZeros (- 12345) 2 = (- 12345, 2)"
    by (simp add: stripTrailingZeros_def int_str_def d trimRight_def)
  have c: "bigIntToTwosComplement (- 12345) = Some [0xCF, 0xC7]"
    by (simp add: bigIntToTwosComplement_def bit_length.simps fillBytes_def be_enc_2)
  have e: "encodeNumber (- 12345) 2 = Some (Inr [4, 0, 2, 0xCF, 0xC7])"
    by (simp add: encodeNumber_def number_round_def numberMaxDigits_def d t c be_enc_2)
  have l: "length (nat_str 12345) = 5" by (simp add: d)
  show ?thesis using encodeNumber_value [OF e, of "[]" "[]" 5] e l by auto
qed

section \<open>Decimal strings\<close>

text \<open>A nonnegative scale: sign, integer digits, and a point with \<open>scale\<close> digits behind it.\<close>

lemma digits_val_pad: "digits_val (replicate k CHR ''0'' @ s) = digits_val s"
  using digits_val_replicate_0 [of "[]" k] by (simp add: digits_val_append)

lemma decimalString_shape:
  assumes "0 \<le> scale"
  obtains i f where "decimalString raw scale = (if raw < 0 then ''-'' else []) @ i
      @ (if scale = 0 then [] else CHR ''.'' # f)"
    "i \<noteq> []" "list_all is_digit (i @ f)" "int (length f) = scale" "digits_val (i @ f) = nat \<bar>raw\<bar>"
proof (cases "scale = 0")
  case True
  show ?thesis
    using that [of "nat_str (nat \<bar>raw\<bar>)" "[]"] True
    by (auto simp: decimalString_def int_str_def nat_str_digits)
next
  case False
  let ?d0 = "nat_str (nat \<bar>raw\<bar>)"
  define d where "d = (if int (length ?d0) \<le> scale
    then replicate (nat (scale - int (length ?d0) + 1)) CHR ''0'' @ ?d0 else ?d0)"
  define k where "k = length d - nat scale"
  have s: "0 < scale" using assms False by simp
  then have len: "nat scale < length d" by (auto simp: d_def)
  have "digits_val (take k d @ drop k d) = nat \<bar>raw\<bar>"
    by (simp add: d_def digits_val_pad)
  moreover have "list_all is_digit (take k d @ drop k d)"
    by (simp add: d_def nat_str_digits) (simp add: list_all_iff is_digit_def)
  moreover have "take k d \<noteq> []" "length (drop k d) = nat scale" using len by (auto simp: k_def)
  moreover have "decimalString raw scale = (if raw < 0 then ''-'' else []) @ take k d @ ''.'' @ drop k d"
    using s by (simp add: decimalString_def d_def [symmetric] k_def Let_def)
  ultimately show ?thesis using that [of "take k d" "drop k d"] s by simp
qed

lemma is_digit_not_sep [simp]: "\<not> is_digit CHR ''.''" "\<not> is_digit CHR ''e''" "\<not> is_digit CHR ''E''"
  by (simp_all add: is_digit_def)

lemma cut_digits:
  assumes "list_all is_digit i"
  shows "cut (i @ (if c then [] else CHR ''.'' # f)) CHR ''.'' = (i, if c then [] else f, \<not> c)"
proof -
  have "\<forall>x\<in>set i. x \<noteq> CHR ''.''" using assms by (auto simp: list_all_iff)
  then have "takeWhile (\<lambda>x. x \<noteq> CHR ''.'') (i @ t) = i @ takeWhile (\<lambda>x. x \<noteq> CHR ''.'') t"
    "dropWhile (\<lambda>x. x \<noteq> CHR ''.'') (i @ t) = dropWhile (\<lambda>x. x \<noteq> CHR ''.'') t"
    "CHR ''.'' \<notin> set i" for t
    by (auto intro: takeWhile_append2 dropWhile_append2)
  from this(3) this(1,2) [of "[]"] this(1,2) [of "CHR ''.'' # f"] show ?thesis
    by (cases c) (simp_all add: cut_def del: takeWhile_eq_all_conv dropWhile_eq_Nil_conv)
qed

lemma parse_int_digits:
  assumes "s \<noteq> []" "list_all is_digit s"
  shows "parse_int s = Some (int (digits_val s))"
proof -
  obtain c t where "s = c # t" "is_digit c" using assms by (cases s) auto
  then show ?thesis using assms by (auto simp: parse_nat_def)
qed

lemma hasPrefix_sign:
  assumes "i \<noteq> []" "list_all is_digit i"
  shows "\<not> hasPrefix (i @ t) ''-''" "\<not> hasPrefix (i @ t) ''+''"
  using assms by (cases i; auto simp: hasPrefix_def)+

text \<open>C34: The text of a DECIMAL value, as rows return it, given back as a parameter of the same scale
  is encoded as the same scaled integer.\<close>

theorem decimalString_roundtrip:
  assumes "0 \<le> scale"
  shows "decimalToScaledInt (decimalString raw scale) scale = Some (Inr raw)"
proof -
  obtain i f where d: "decimalString raw scale = (if raw < 0 then ''-'' else []) @ i
      @ (if scale = 0 then [] else CHR ''.'' # f)"
    "i \<noteq> []" "list_all is_digit (i @ f)" "int (length f) = scale" "digits_val (i @ f) = nat \<bar>raw\<bar>"
    using decimalString_shape [OF assms] by metis
  let ?b = "i @ (if scale = 0 then [] else CHR ''.'' # f)"
  have f: "(if scale = 0 then [] else f) = f" using d(4) by auto
  have "list_all is_digit i" using d(3) by simp
  note c = cut_digits [OF this, of "scale = 0" f, unfolded f] and h = hasPrefix_sign [OF d(2) this]
  have p: "parse_int (i @ f) = Some \<bar>raw\<bar>"
    using parse_int_digits [of "i @ f"] d(2,3,5) by simp
  show ?thesis
  proof (cases "raw < 0")
    case True
    then have "decimalString raw scale = CHR ''-'' # ?b" by (simp add: d(1))
    moreover have "hasPrefix (CHR ''-'' # ?b) ''-''" by (simp add: hasPrefix_def)
    ultimately show ?thesis
      using True c p d(2,4) by (simp add: decimalToScaledInt_def split del: if_split)
  next
    case False
    then have "decimalString raw scale = ?b" by (simp add: d(1))
    then show ?thesis
      using False c p h d(2,4) by (simp add: decimalToScaledInt_def split del: if_split)
  qed
qed

theorem decimalString_roundtrip_witness:
  "decimalToScaledInt (decimalString (- 5) 2) 2 = Some (Inr (- 5))"
  using decimalString_roundtrip [of 2 "- 5"] by simp

section \<open>Number text\<close>

lemma printable_no_space:
  assumes "\<forall>c\<in>set s. 33 \<le> (of_char c :: nat) \<and> (of_char c :: nat) < 127"
  shows "trimSpace s = s"
proof -
  have w: "\<forall>w\<in>set white_space. \<exists>c\<in>set w. \<not> (33 \<le> (of_char c :: nat) \<and> (of_char c :: nat) < 127)"
    by (simp add: white_space_def)
  have "\<not> hasPrefix s w \<and> \<not> hasPrefix (rev s) (rev w)" if "w \<in> set white_space" for w
  proof -
    obtain c where "c \<in> set w" "\<not> (33 \<le> (of_char c :: nat) \<and> (of_char c :: nat) < 127)"
      using w \<open>w \<in> set white_space\<close> by blast
    moreover have "hasPrefix t v \<Longrightarrow> set v \<subseteq> set t" for t v :: string
      by (metis hasPrefix_def set_take_subset)
    ultimately show ?thesis using assms by (metis set_rev subsetD)
  qed
  then have "find (hasPrefix s) white_space = None" "find (\<lambda>w. hasPrefix (rev s) (rev w)) white_space = None"
    by (auto simp: find_None_iff)
  then show ?thesis by (simp add: trimSpace_def trimLeftSpace.simps trimRightSpace.simps)
qed

lemma digit_printable: "is_digit c \<Longrightarrow> 33 \<le> (of_char c :: nat) \<and> (of_char c :: nat) < 127"
  by (simp add: is_digit_def)

lemma indexAny_None: "(\<forall>x\<in>set s. x \<notin> set cs) \<Longrightarrow> indexAny s cs = None"
  by (induction s) auto

text \<open>The same text read as a NUMBER is the same unscaled integer with the same scale.\<close>

theorem parseNumberString_decimalString:
  assumes "0 \<le> scale"
  shows "parseNumberString (decimalString raw scale) = Inr (raw, scale)"
proof -
  obtain i f where d: "decimalString raw scale = (if raw < 0 then ''-'' else []) @ i
      @ (if scale = 0 then [] else CHR ''.'' # f)"
    "i \<noteq> []" "list_all is_digit (i @ f)" "int (length f) = scale" "digits_val (i @ f) = nat \<bar>raw\<bar>"
    using decimalString_shape [OF assms] by metis
  let ?s = "decimalString raw scale" let ?b = "i @ (if scale = 0 then [] else CHR ''.'' # f)"
  have f: "(if scale = 0 then [] else f) = f" using d(4) by auto
  have i: "list_all is_digit i" using d(3) by simp
  note c = cut_digits [OF this, of "scale = 0" f, unfolded f] and h = hasPrefix_sign [OF d(2) this]
  have chars: "x = CHR ''-'' \<or> x = CHR ''.'' \<or> is_digit x" if "x \<in> set ?s" for x
    using that d(3) by (auto simp: d(1) list_all_iff split: if_splits)
  have trim: "trimSpace ?s = ?s"
    using chars digit_printable by (intro printable_no_space) force
  have no_e: "indexAny ?s ''eE'' = None"
    using chars by (intro indexAny_None) force
  have neg: "hasPrefix ?s ''-'' = (raw < 0)" "\<not> hasPrefix ?s ''+''"
    using h by (auto simp: d(1) hasPrefix_def)
  have drop: "(if raw < 0 then drop 1 ?s else ?s) = ?b" by (simp add: d(1))
  show ?thesis
    using c d(2-5) trim no_e neg drop
    by (simp add: parseNumberString_def Let_def split del: if_split) (auto simp: list_all_iff)
qed

theorem parseNumberString_decimalString_witness:
  "parseNumberString (decimalString 1234 3) = Inr (1234, 3)"
  by (rule parseNumberString_decimalString) simp

end
