(* ===== verification/DataTypes.thy ===== *)
theory DataTypes
  imports Numbers
begin

text \<open>
  Teradata data type codes and Go's view of them, src/datatype.go. A data type code is a family's
  base code, or the base plus 1 (nullable), 500, 501 or 502 (parameter of mode IN, INOUT, OUT).
\<close>

section \<open>Codes\<close>

abbreviation paramModeUnknown :: int where "paramModeUnknown \<equiv> 0"
abbreviation paramModeIn :: int where "paramModeIn \<equiv> 1"
abbreviation paramModeInOut :: int where "paramModeInOut \<equiv> 2"
abbreviation paramModeOut :: int where "paramModeOut \<equiv> 4"

abbreviation tdBlob :: u16 where "tdBlob \<equiv> 400"
abbreviation tdBlobDeferred :: u16 where "tdBlobDeferred \<equiv> 404"
abbreviation tdBlobLocator :: u16 where "tdBlobLocator \<equiv> 408"
abbreviation tdClob :: u16 where "tdClob \<equiv> 416"
abbreviation tdClobDeferred :: u16 where "tdClobDeferred \<equiv> 420"
abbreviation tdClobLocator :: u16 where "tdClobLocator \<equiv> 424"
abbreviation tdStruct :: u16 where "tdStruct \<equiv> 440"
abbreviation tdVarchar :: u16 where "tdVarchar \<equiv> 448"
abbreviation tdChar :: u16 where "tdChar \<equiv> 452"
abbreviation tdLongVarchar :: u16 where "tdLongVarchar \<equiv> 456"
abbreviation tdVarGraphic :: u16 where "tdVarGraphic \<equiv> 464"
abbreviation tdGraphic :: u16 where "tdGraphic \<equiv> 468"
abbreviation tdLongVarGraphic :: u16 where "tdLongVarGraphic \<equiv> 472"
abbreviation tdFloat :: u16 where "tdFloat \<equiv> 480"
abbreviation tdDecimal :: u16 where "tdDecimal \<equiv> 484"
abbreviation tdInteger :: u16 where "tdInteger \<equiv> 496"
abbreviation tdSmallInt :: u16 where "tdSmallInt \<equiv> 500"
abbreviation tdArray :: u16 where "tdArray \<equiv> 504"
abbreviation tdArrayND :: u16 where "tdArrayND \<equiv> 508"
abbreviation tdDatasetAvro :: u16 where "tdDatasetAvro \<equiv> 512"
abbreviation tdDatasetCsv :: u16 where "tdDatasetCsv \<equiv> 516"
abbreviation tdBigInt :: u16 where "tdBigInt \<equiv> 600"
abbreviation tdNumber :: u16 where "tdNumber \<equiv> 604"
abbreviation tdVarByte :: u16 where "tdVarByte \<equiv> 688"
abbreviation tdByte :: u16 where "tdByte \<equiv> 692"
abbreviation tdLongVarByte :: u16 where "tdLongVarByte \<equiv> 696"
abbreviation tdDateAnsi :: u16 where "tdDateAnsi \<equiv> 748"
abbreviation tdDateInteger :: u16 where "tdDateInteger \<equiv> 752"
abbreviation tdByteInt :: u16 where "tdByteInt \<equiv> 756"
abbreviation tdTime :: u16 where "tdTime \<equiv> 760"
abbreviation tdTimestamp :: u16 where "tdTimestamp \<equiv> 764"
abbreviation tdTimeTZ :: u16 where "tdTimeTZ \<equiv> 768"
abbreviation tdTimestampTZ :: u16 where "tdTimestampTZ \<equiv> 772"
abbreviation tdIntervalYear :: u16 where "tdIntervalYear \<equiv> 776"
abbreviation tdIntervalYearToMo :: u16 where "tdIntervalYearToMo \<equiv> 780"
abbreviation tdIntervalMonth :: u16 where "tdIntervalMonth \<equiv> 784"
abbreviation tdIntervalDay :: u16 where "tdIntervalDay \<equiv> 788"
abbreviation tdIntervalDayToHr :: u16 where "tdIntervalDayToHr \<equiv> 792"
abbreviation tdIntervalDayToMin :: u16 where "tdIntervalDayToMin \<equiv> 796"
abbreviation tdIntervalDayToSec :: u16 where "tdIntervalDayToSec \<equiv> 800"
abbreviation tdIntervalHour :: u16 where "tdIntervalHour \<equiv> 804"
abbreviation tdIntervalHrToMin :: u16 where "tdIntervalHrToMin \<equiv> 808"
abbreviation tdIntervalHrToSec :: u16 where "tdIntervalHrToSec \<equiv> 812"
abbreviation tdIntervalMinute :: u16 where "tdIntervalMinute \<equiv> 816"
abbreviation tdIntervalMinToSec :: u16 where "tdIntervalMinToSec \<equiv> 820"
abbreviation tdIntervalSecond :: u16 where "tdIntervalSecond \<equiv> 824"
abbreviation tdPeriodDate :: u16 where "tdPeriodDate \<equiv> 832"
abbreviation tdPeriodTime :: u16 where "tdPeriodTime \<equiv> 836"
abbreviation tdPeriodTimeTZ :: u16 where "tdPeriodTimeTZ \<equiv> 840"
abbreviation tdPeriodTimestamp :: u16 where "tdPeriodTimestamp \<equiv> 844"
abbreviation tdPeriodTimestampT :: u16 where "tdPeriodTimestampT \<equiv> 848"
abbreviation tdXmlText :: u16 where "tdXmlText \<equiv> 852"
abbreviation tdXmlTextDeferred :: u16 where "tdXmlTextDeferred \<equiv> 856"
abbreviation tdXmlTextLocator :: u16 where "tdXmlTextLocator \<equiv> 860"
abbreviation tdXmlBinary :: u16 where "tdXmlBinary \<equiv> 864"
abbreviation tdXmlBinaryDeferre :: u16 where "tdXmlBinaryDeferre \<equiv> 868"
abbreviation tdXmlBinaryLocator :: u16 where "tdXmlBinaryLocator \<equiv> 872"
abbreviation tdJsonInline :: u16 where "tdJsonInline \<equiv> 880"
abbreviation tdJsonLocator :: u16 where "tdJsonLocator \<equiv> 884"
abbreviation tdJsonDeferred :: u16 where "tdJsonDeferred \<equiv> 888"

definition tdTypeFamilyBases :: "u16 list" where
  "tdTypeFamilyBases = [
     tdBlob, tdBlobDeferred, tdBlobLocator, tdClob, tdClobDeferred, tdClobLocator, tdStruct,
     tdVarchar, tdChar, tdLongVarchar, tdVarGraphic, tdGraphic, tdLongVarGraphic, tdFloat,
     tdDecimal, tdInteger, tdSmallInt, tdArray, tdArrayND, tdDatasetAvro, tdDatasetCsv, tdBigInt,
     tdNumber, tdVarByte, tdByte, tdLongVarByte, tdDateAnsi, tdDateInteger, tdByteInt, tdTime,
     tdTimestamp, tdTimeTZ, tdTimestampTZ, tdIntervalYear, tdIntervalYearToMo, tdIntervalMonth,
     tdIntervalDay, tdIntervalDayToHr, tdIntervalDayToMin, tdIntervalDayToSec, tdIntervalHour,
     tdIntervalHrToMin, tdIntervalHrToSec, tdIntervalMinute, tdIntervalMinToSec, tdIntervalSecond,
     tdPeriodDate, tdPeriodTime, tdPeriodTimeTZ, tdPeriodTimestamp, tdPeriodTimestampT, tdXmlText,
     tdXmlTextDeferred, tdXmlTextLocator, tdXmlBinary, tdXmlBinaryDeferre, tdXmlBinaryLocator,
     tdJsonInline, tdJsonLocator, tdJsonDeferred]"

section \<open>Families\<close>

definition tdDataTypeInFamily :: "u16 \<Rightarrow> u16 \<Rightarrow> bool" where
  "tdDataTypeInFamily dataType base \<longleftrightarrow>
     dataType = base \<or> dataType = base + 1 \<or> dataType = base + 500 \<or> dataType = base + 501
     \<or> dataType = base + 502"

definition getTdBasicType :: "u16 \<Rightarrow> u16" where
  "getTdBasicType dataType =
     (case find (tdDataTypeInFamily dataType) tdTypeFamilyBases of None \<Rightarrow> 0 | Some base \<Rightarrow> base)"

fun parameterModeIn :: "u16 \<Rightarrow> u16 list \<Rightarrow> int" where
  "parameterModeIn dataType [] = paramModeUnknown"
| "parameterModeIn dataType (base # bases) =
     (if dataType = base \<or> dataType = base + 1 then paramModeUnknown
      else if dataType = base + 500 then paramModeIn
      else if dataType = base + 501 then paramModeInOut
      else if dataType = base + 502 then paramModeOut
      else parameterModeIn dataType bases)"

definition getTdParameterMode :: "u16 \<Rightarrow> int" where
  "getTdParameterMode dataType = parameterModeIn dataType tdTypeFamilyBases"

section \<open>Conversions\<close>

text \<open>\<open>big.Int.Int64\<close> is the number modulo \<open>2 ^ 64\<close>.\<close>

fun toInt64 :: "gvalue \<Rightarrow> u64 option" where
  "toInt64 (V_int64 v) = Some v"
| "toInt64 (V_int v) = Some v"
| "toInt64 (V_bigInt v) = Some (word_of_int v)"
| "toInt64 _ = None"

definition fixedWidthBytes :: "byte list \<Rightarrow> int \<Rightarrow> byte \<Rightarrow> byte list" where
  "fixedWidthBytes d width fill =
     (if width \<le> 0 \<or> int (length d) = width then d
      else if int (length d) > width then take (nat width) d
      else d @ replicate (nat (width - int (length d))) fill)"

section \<open>Names and scan types\<close>

definition dbNames :: "(u16 \<times> string) list" where
  "dbNames = [
     (tdBlob, ''BLOB''), (tdBlobDeferred, ''BLOB DEFERRED''), (tdBlobLocator, ''BLOB LOCATOR''),
     (tdClob, ''CLOB''), (tdClobDeferred, ''CLOB DEFERRED''), (tdClobLocator, ''CLOB LOCATOR''),
     (tdStruct, ''STRUCT''), (tdVarchar, ''VARCHAR''), (tdChar, ''CHAR''),
     (tdLongVarchar, ''LONG VARCHAR''), (tdVarGraphic, ''VARGRAPHIC''), (tdGraphic, ''GRAPHIC''),
     (tdLongVarGraphic, ''LONG VARGRAPHIC''), (tdFloat, ''FLOAT''), (tdDecimal, ''DECIMAL''),
     (tdInteger, ''INTEGER''), (tdSmallInt, ''SMALLINT''), (tdArray, ''ARRAY (1-dimensional)''),
     (tdArrayND, ''ARRAY (N-dimensional)''), (tdDatasetAvro, ''DATASET STORAGE FORMAT AVRO''),
     (tdDatasetCsv, ''DATASET STORAGE FORMAT CSV''), (tdBigInt, ''BIGINT''),
     (tdNumber, ''NUMBER''), (tdVarByte, ''VARBYTE''), (tdByte, ''BYTE''),
     (tdLongVarByte, ''LONG VARBYTE''), (tdDateAnsi, ''DATE (ANSI)''),
     (tdDateInteger, ''DATE (integer format)''), (tdByteInt, ''BYTEINT''), (tdTime, ''TIME''),
     (tdTimestamp, ''TIMESTAMP''), (tdTimeTZ, ''TIME WITH TIME ZONE''),
     (tdTimestampTZ, ''TIMESTAMP WITH TIME ZONE''), (tdIntervalYear, ''INTERVAL YEAR''),
     (tdIntervalYearToMo, ''INTERVAL YEAR TO MONTH''), (tdIntervalMonth, ''INTERVAL MONTH''),
     (tdIntervalDay, ''INTERVAL DAY''), (tdIntervalDayToHr, ''INTERVAL DAY TO HOUR''),
     (tdIntervalDayToMin, ''INTERVAL DAY TO MINUTE''),
     (tdIntervalDayToSec, ''INTERVAL DAY TO SECOND''), (tdIntervalHour, ''INTERVAL HOUR''),
     (tdIntervalHrToMin, ''INTERVAL HOUR TO MINUTE''),
     (tdIntervalHrToSec, ''INTERVAL HOUR TO SECOND''), (tdIntervalMinute, ''INTERVAL MINUTE''),
     (tdIntervalMinToSec, ''INTERVAL MINUTE TO SECOND''), (tdIntervalSecond, ''INTERVAL SECOND''),
     (tdPeriodDate, ''PERIOD(DATE)''), (tdPeriodTime, ''PERIOD(TIME)''),
     (tdPeriodTimeTZ, ''PERIOD(TIME WITH TIME ZONE)''),
     (tdPeriodTimestamp, ''PERIOD(TIMESTAMP)''),
     (tdPeriodTimestampT, ''PERIOD(TIMESTAMP WITH TIME ZONE)''), (tdXmlText, ''XML TEXT''),
     (tdXmlTextDeferred, ''XML TEXT DEFERRED''), (tdXmlTextLocator, ''XML TEXT LOCATOR''),
     (tdXmlBinary, ''XML BINARY''), (tdXmlBinaryDeferre, ''XML BINARY DEFERRED''),
     (tdXmlBinaryLocator, ''XML BINARY LOCATOR''), (tdJsonInline, ''JSON INLINE''),
     (tdJsonLocator, ''JSON LOCATOR''), (tdJsonDeferred, ''JSON DEFERRED'')]"

definition dbNameForDataType :: "u16 \<Rightarrow> string" where
  "dbNameForDataType dataType =
     (case map_of dbNames (getTdBasicType dataType) of Some n \<Rightarrow> n | None \<Rightarrow> [])"

datatype scanType =
    scanTypeFloat64 | scanTypeInt8 | scanTypeInt16 | scanTypeInt32 | scanTypeInt64
  | scanTypeNullFloat | scanTypeNullInt8 | scanTypeNullInt16 | scanTypeNullInt32 | scanTypeNullInt64
  | scanTypeString | scanTypeNullString | scanTypeBytes | scanTypeUnknown

definition scanTypeForDataType :: "u16 \<Rightarrow> bool \<Rightarrow> scanType" where
  "scanTypeForDataType dataType nullable =
     (let t = getTdBasicType dataType in
      if t = tdInteger then (if nullable then scanTypeNullInt32 else scanTypeInt32)
      else if t = tdBigInt then (if nullable then scanTypeNullInt64 else scanTypeInt64)
      else if t = tdSmallInt then (if nullable then scanTypeNullInt16 else scanTypeInt16)
      else if t = tdByteInt then (if nullable then scanTypeNullInt8 else scanTypeInt8)
      else if t \<in> set [tdVarchar, tdLongVarchar, tdVarGraphic, tdLongVarGraphic, tdChar, tdGraphic]
        then (if nullable then scanTypeNullString else scanTypeString)
      else if t = tdFloat then (if nullable then scanTypeNullFloat else scanTypeFloat64)
      else if t \<in> set [tdDecimal, tdNumber]
        then (if nullable then scanTypeNullString else scanTypeString)
      else if t \<in> set [tdVarByte, tdLongVarByte, tdByte] then scanTypeBytes
      else if t \<in> set [tdIntervalYear, tdIntervalYearToMo, tdIntervalMonth, tdIntervalDay,
          tdIntervalDayToHr, tdIntervalDayToMin, tdIntervalDayToSec, tdIntervalHour,
          tdIntervalHrToMin, tdIntervalHrToSec, tdIntervalMinute, tdIntervalSecond,
          tdDateAnsi, tdDateInteger, tdTime, tdTimeTZ, tdTimestamp, tdTimestampTZ]
        then (if nullable then scanTypeNullString else scanTypeString)
      else scanTypeUnknown)"

section \<open>Facts\<close>

lemma length_fixedWidthBytes: "0 < width \<Longrightarrow> length (fixedWidthBytes d width fill) = nat width"
  by (auto simp: fixedWidthBytes_def)

lemma fixedWidthBytes_same: "length d = nat width \<Longrightarrow> fixedWidthBytes d width fill = d"
  by (auto simp: fixedWidthBytes_def)

text \<open>Codes are multiples of four between 400 and 888, so the families do not overlap.\<close>

definition family_offset :: "u16 \<Rightarrow> int option" where
  "family_offset k = map_of [(0, paramModeUnknown), (1, paramModeUnknown), (500, paramModeIn),
     (501, paramModeInOut), (502, paramModeOut)] k"

definition code_base :: "u16 \<Rightarrow> bool" where
  "code_base b \<longleftrightarrow> 400 \<le> unat b \<and> unat b \<le> 888 \<and> unat b mod 4 = 0"

lemma tdTypeFamilyBases_code: "\<forall>b\<in>set tdTypeFamilyBases. code_base b"
  by (simp add: tdTypeFamilyBases_def code_base_def)

lemma unat_base_offset:
  assumes "code_base b"
  shows "unat (b + 1) = unat b + 1" "unat (b + 500) = unat b + 500" "unat (b + 501) = unat b + 501"
    "unat (b + 502) = unat b + 502"
  using assms by (simp_all add: code_base_def unat_word_ariths)

lemma code_base_offset:
  assumes "code_base b" "code_base c" "family_offset k = Some m"
  shows "tdDataTypeInFamily (b + k) c \<longleftrightarrow> b = c"
    "b \<noteq> c \<Longrightarrow> b + k \<noteq> c \<and> b + k \<noteq> c + 1 \<and> b + k \<noteq> c + 500 \<and> b + k \<noteq> c + 501 \<and> b + k \<noteq> c + 502"
proof -
  note u = unat_base_offset [OF assms(1)] unat_base_offset [OF assms(2)]
  have w: "x = y \<longleftrightarrow> unat x = unat y" for x y :: u16 by (rule word_unat_eq_iff)
  have k: "k \<in> {0, 1, 500, 501, 502}" using assms(3) by (auto simp: family_offset_def split: if_splits)
  have m: "400 \<le> unat b" "unat b \<le> 888" "unat b mod 4 = 0" "400 \<le> unat c" "unat c \<le> 888" "unat c mod 4 = 0"
    using assms(1,2) by (auto simp: code_base_def)
  show ne: "b + k \<noteq> c \<and> b + k \<noteq> c + 1 \<and> b + k \<noteq> c + 500 \<and> b + k \<noteq> c + 501 \<and> b + k \<noteq> c + 502" if "b \<noteq> c"
    using k m that unfolding w by (elim insertE emptyE; simp add: u; presburger)
  show "tdDataTypeInFamily (b + k) c \<longleftrightarrow> b = c"
    using ne k by (auto simp: tdDataTypeInFamily_def)
qed

lemma find_unique: "x \<in> set xs \<Longrightarrow> \<forall>y\<in>set xs. P y \<longleftrightarrow> x = y \<Longrightarrow> find P xs = Some x"
  by (induction xs) auto

lemma parameterModeIn_base:
  assumes "\<forall>c\<in>set bs. code_base c" "b \<in> set bs" "family_offset k = Some m"
  shows "parameterModeIn (b + k) bs = m"
  using assms(1,2)
proof (induction bs)
  case (Cons c bs)
  show ?case
  proof (cases "b = c")
    case True
    then show ?thesis using assms(3)
      by (auto simp: family_offset_def split: if_splits)
  next
    case False
    then show ?thesis
      using code_base_offset(2) [of b c k m] Cons assms(3) by auto
  qed
qed simp

lemma getTdBasicType_base:
  assumes "b \<in> set tdTypeFamilyBases" "family_offset k = Some m"
  shows "getTdBasicType (b + k) = b"
proof -
  have "find (tdDataTypeInFamily (b + k)) tdTypeFamilyBases = Some b"
    using assms tdTypeFamilyBases_code code_base_offset(1) [of b _ k m]
    by (intro find_unique) auto
  then show ?thesis by (simp add: getTdBasicType_def)
qed

text \<open>The code of a family's base, nullable or parameter variant is mapped back to that family's
  base and to the variant's parameter mode: no two families share a code.\<close>

theorem data_type_families:
  assumes "base \<in> set tdTypeFamilyBases" "family_offset k = Some m"
  shows "getTdBasicType (base + k) = base \<and> getTdParameterMode (base + k) = m
    \<and> dbNameForDataType (base + k) = dbNameForDataType base"
  using getTdBasicType_base [OF assms] getTdBasicType_base [OF assms(1), of 0 paramModeUnknown]
    parameterModeIn_base [OF tdTypeFamilyBases_code assms]
  by (simp add: dbNameForDataType_def getTdParameterMode_def family_offset_def)

theorem data_type_families_witness:
  "getTdBasicType (tdDecimal + 501) = tdDecimal \<and> getTdParameterMode (tdDecimal + 501) = paramModeInOut"
  using data_type_families [of tdDecimal 501 paramModeInOut]
  by (simp add: tdTypeFamilyBases_def family_offset_def)

end
