(* ===== verification/Dsn.thy ===== *)
theory Dsn
  imports GoStrings
begin

text \<open>
  Configuration and data source names, src/dsn.go, with the TLS mode table of src/tls.go.

  A \<open>time.Duration\<close> is its nanoseconds. \<open>url.Parse\<close> is a parameter; the query string it hands over
  is parsed here as \<open>url.ParseQuery\<close> does. The logger is not part of the state.
\<close>

section \<open>The configuration\<close>

record Config =
  cfg_Host :: string
  cfg_Port :: int
  cfg_Database :: string
  cfg_User :: string
  cfg_Password :: string
  cfg_TMode :: string
  cfg_CopMode :: bool
  cfg_CopLast :: bool
  cfg_Timeout :: int
  cfg_Partition :: string
  cfg_ConnectFunction :: int
  cfg_MaxMessageSize :: int
  cfg_EncryptData :: bool
  cfg_SSLMode :: string
  cfg_SSLProtocol :: string
  cfg_SSLCipher :: string
  cfg_SSLServerName :: string
  cfg_SSLCA :: string
  cfg_SSLCAPath :: string
  cfg_SSLBase64 :: string
  cfg_SSLPort :: int
  cfg_LOBSupport :: bool
  cfg_LOBRecieveThreshold :: int
  cfg_LOBPrefetch :: bool
  cfg_MaxFastLoadSessions :: int
  cfg_redriveLevel :: int
  cfg_sslLevel :: int

definition seconds :: "int \<Rightarrow> int" where "seconds n = n * 1000000000"

definition emptyConfig :: Config where
  "emptyConfig = \<lparr>cfg_Host = [], cfg_Port = 0, cfg_Database = [], cfg_User = [], cfg_Password = [],
     cfg_TMode = [], cfg_CopMode = False, cfg_CopLast = False, cfg_Timeout = 0, cfg_Partition = [],
     cfg_ConnectFunction = 0, cfg_MaxMessageSize = 0, cfg_EncryptData = False, cfg_SSLMode = [],
     cfg_SSLProtocol = [], cfg_SSLCipher = [], cfg_SSLServerName = [], cfg_SSLCA = [],
     cfg_SSLCAPath = [], cfg_SSLBase64 = [], cfg_SSLPort = 0, cfg_LOBSupport = False,
     cfg_LOBRecieveThreshold = 0, cfg_LOBPrefetch = False, cfg_MaxFastLoadSessions = 0,
     cfg_redriveLevel = 0, cfg_sslLevel = 0\<rparr>"

section \<open>TLS modes\<close>

abbreviation sslLevelDisable :: int where "sslLevelDisable \<equiv> 0"
abbreviation sslLevelAllow :: int where "sslLevelAllow \<equiv> 1"
abbreviation sslLevelPrefer :: int where "sslLevelPrefer \<equiv> 2"
abbreviation sslLevelRequire :: int where "sslLevelRequire \<equiv> 3"
abbreviation sslLevelVerifyCA :: int where "sslLevelVerifyCA \<equiv> 4"
abbreviation sslLevelVerifyFull :: int where "sslLevelVerifyFull \<equiv> 5"

definition decodeSslMode :: "string \<Rightarrow> int" where
  "decodeSslMode mode =
     (if mode = ''VERIFY-FULL'' then sslLevelVerifyFull
      else if mode = ''VERIFY-CA'' then sslLevelVerifyCA
      else if mode = ''REQUIRE'' then sslLevelRequire
      else if mode = ''PREFER'' then sslLevelPrefer
      else if mode = ''ALLOW'' then sslLevelAllow
      else if mode = ''DISABLE'' then sslLevelDisable
      else sslLevelPrefer)"

section \<open>Defaults\<close>

text \<open>\<open>c.Timeout.Seconds() == 0\<close> holds of the zero duration only.\<close>

definition normalize :: "Config \<Rightarrow> Config" where
  "normalize c0 =
     (let c = (if cfg_redriveLevel c0 < 1 \<or> cfg_redriveLevel c0 > 3
               then c0\<lparr>cfg_redriveLevel := 3\<rparr> else c0);
          c = (if cfg_Port c = 0 then c\<lparr>cfg_Port := 1025\<rparr> else c);
          c = (if cfg_SSLPort c = 0 then c\<lparr>cfg_SSLPort := 443\<rparr> else c);
          c = (if cfg_TMode c = [] then c\<lparr>cfg_TMode := ''DEFAULT''\<rparr> else c);
          c = (if cfg_Timeout c = 0 then c\<lparr>cfg_Timeout := seconds 60\<rparr> else c);
          c = (if cfg_SSLProtocol c = [] then c\<lparr>cfg_SSLProtocol := ''TLSv1.3''\<rparr> else c);
          c = (if cfg_SSLMode c = [] then c\<lparr>cfg_SSLMode := ''PREFER''\<rparr> else c);
          c = (if cfg_MaxMessageSize c = 0 then c\<lparr>cfg_MaxMessageSize := 2097152\<rparr> else c);
          c = (if cfg_LOBRecieveThreshold c = 0 then c\<lparr>cfg_LOBRecieveThreshold := 1000\<rparr> else c);
          c = (if cfg_Partition c = [] then c\<lparr>cfg_Partition := ''DBC/SQL''\<rparr> else c);
          c = (if cfg_MaxFastLoadSessions c < 1 then c\<lparr>cfg_MaxFastLoadSessions := 8\<rparr> else c)
      in c\<lparr>cfg_sslLevel := decodeSslMode (cfg_SSLMode c)\<rparr>)"

definition NewConfig :: Config where
  "NewConfig = normalize (emptyConfig\<lparr>cfg_Port := 1025, cfg_CopMode := True, cfg_CopLast := True,
     cfg_SSLMode := ''PREFER'', cfg_SSLProtocol := ''TLSv1.3'', cfg_Timeout := seconds 60,
     cfg_TMode := ''DEFAULT'', cfg_SSLPort := 443, cfg_redriveLevel := 3, cfg_LOBSupport := True,
     cfg_LOBRecieveThreshold := 1000, cfg_LOBPrefetch := False, cfg_Partition := ''DBC/SQL'',
     cfg_ConnectFunction := 0, cfg_MaxFastLoadSessions := 8\<rparr>)"

definition NewTeradataConfig :: "string \<Rightarrow> string \<Rightarrow> string \<Rightarrow> Config" where
  "NewTeradataConfig host user pass = normalize (emptyConfig\<lparr>cfg_Host := host, cfg_Port := 1025,
     cfg_User := user, cfg_Password := pass, cfg_CopMode := True, cfg_CopLast := True,
     cfg_SSLMode := ''PREFER'', cfg_SSLProtocol := ''TLSv1.3'', cfg_Timeout := seconds 60,
     cfg_TMode := ''DEFAULT'', cfg_SSLPort := 443, cfg_redriveLevel := 3, cfg_LOBSupport := True,
     cfg_LOBRecieveThreshold := 1000, cfg_LOBPrefetch := False, cfg_Partition := ''DBC/SQL'',
     cfg_ConnectFunction := 0, cfg_MaxFastLoadSessions := 8\<rparr>)"

definition useTls :: "Config \<Rightarrow> bool" where
  "useTls c = (if cfg_sslLevel c \<le> sslLevelAllow then False else True)"

definition allowTlsFallback :: "Config \<Rightarrow> bool" where
  "allowTlsFallback c \<longleftrightarrow> cfg_sslLevel c < sslLevelRequire"

definition getClientConfidentialityType :: "Config \<Rightarrow> bool \<Rightarrow> char" where
  "getClientConfidentialityType c isTlsConn =
     (if isTlsConn then
        (if cfg_SSLMode c = ''VERIFY-FULL'' then CHR ''V''
         else if cfg_SSLMode c = ''VERIFY-CA'' then CHR ''C'' else CHR ''R'')
      else if cfg_SSLMode c = ''DISABLE'' \<or> cfg_SSLMode c = ''ALLOW''
        then (if cfg_EncryptData c then CHR ''E'' else CHR ''U'')
      else if cfg_SSLMode c = ''PREFER'' \<or> cfg_SSLMode c = ''REQUIRE''
        then (if cfg_EncryptData c then CHR ''F'' else CHR ''H'')
      else CHR ''U'')"

section \<open>Parameters of a data source name\<close>

text \<open>
  \<open>secs\<close> is \<open>strconv.FormatFloat(d.Seconds(), 'f', 0, 64)\<close> of a duration.
\<close>

definition boolToDsnParam :: "bool \<Rightarrow> string" where
  "boolToDsnParam v = (if v then ''ON'' else ''OFF'')"

definition writeDsnParam :: "string \<times> string \<times> bool \<Rightarrow> string \<times> int \<Rightarrow> string \<times> int" where
  "writeDsnParam p bc =
     (case (p, bc) of ((name, val, write), (builder, count)) \<Rightarrow>
        if write
        then (builder @ (if count > 0 then ''&'' else []) @ name @ ''='' @ val, count + 1)
        else (builder, count))"

definition dsnParams :: "(int \<Rightarrow> string) \<Rightarrow> Config \<Rightarrow> (string \<times> string \<times> bool) list" where
  "dsnParams secs c = [
     (''TMODE'', cfg_TMode c, cfg_TMode c \<noteq> ''DEFAULT''),
     (''COP'', boolToDsnParam (cfg_CopMode c), \<not> cfg_CopMode c),
     (''COPLAST'', boolToDsnParam (cfg_CopLast c), \<not> cfg_CopLast c),
     (''TIMEOUT'', secs (cfg_Timeout c), cfg_Timeout c \<noteq> seconds 60),
     (''SSLMODE'', cfg_SSLMode c, cfg_SSLMode c \<noteq> ''PREFER''),
     (''SSLPROTOCOL'', cfg_SSLProtocol c, cfg_SSLProtocol c \<noteq> ''TLSv1.3''),
     (''SSLCIPHER'', cfg_SSLCipher c, cfg_SSLCipher c \<noteq> []),
     (''SSLCA'', cfg_SSLCA c, cfg_SSLCA c \<noteq> []),
     (''SSLCAPATH'', cfg_SSLCAPath c, cfg_SSLCAPath c \<noteq> []),
     (''SSLBASE64'', cfg_SSLBase64 c, cfg_SSLBase64 c \<noteq> []),
     (''SSLSERVERNAME'', cfg_SSLServerName c, cfg_SSLServerName c \<noteq> []),
     (''HTTPS_PORT'', int_str (cfg_SSLPort c), cfg_SSLPort c \<noteq> 443),
     (''ENCRYPTDATA'', boolToDsnParam (cfg_EncryptData c), cfg_EncryptData c),
     (''LOB_SUPPORT'', boolToDsnParam (cfg_LOBSupport c), \<not> cfg_LOBSupport c),
     (''MAX_MESSAGE_BODY'', int_str (cfg_MaxMessageSize c), cfg_MaxMessageSize c \<noteq> 2097152),
     (''SLOB_RECEIVE_THRESHOLD'', int_str (cfg_LOBRecieveThreshold c),
        cfg_LOBRecieveThreshold c \<noteq> 1000),
     (''CONNECT_FUNCTION'', int_str (cfg_ConnectFunction c), cfg_ConnectFunction c \<noteq> 0),
     (''PARTITION'', cfg_Partition c, cfg_Partition c \<noteq> []),
     (''MAX_FASTLOAD_SESSIONS'', int_str (cfg_MaxFastLoadSessions c), cfg_MaxFastLoadSessions c \<noteq> 8)]"

definition generateDsnParamString :: "(int \<Rightarrow> string) \<Rightarrow> Config \<Rightarrow> string" where
  "generateDsnParamString secs c = fst (fold writeDsnParam (dsnParams secs c) ([], 0))"

text \<open>\<open>ToDSN\<close> of a configuration; it normalizes the configuration in place.\<close>

definition ToDSN :: "(int \<Rightarrow> string) \<Rightarrow> Config option \<Rightarrow> (goerror + string) \<times> Config option" where
  "ToDSN secs oc =
     (case oc of None \<Rightarrow> (Inl (Errorf ''Invalid Config'' []), None)
      | Some c0 \<Rightarrow>
          let c = normalize c0;
              user = (if cfg_User c \<noteq> []
                      then cfg_User c @ (if cfg_Password c \<noteq> [] then '':'' @ cfg_Password c else []) @ ''@''
                      else [])
          in (Inr (user @ cfg_Host c @ ''/'' @ cfg_Database c @ ''?'' @ generateDsnParamString secs c),
              Some c))"

definition FormatDSN :: "(int \<Rightarrow> string) \<Rightarrow> Config option \<Rightarrow> string" where
  "FormatDSN secs oc = (case fst (ToDSN secs oc) of Inl _ \<Rightarrow> [] | Inr s \<Rightarrow> s)"

section \<open>Reading a data source name\<close>

text \<open>\<open>url.Values\<close> and its \<open>Get\<close>; \<open>url.ParseQuery\<close>, whose error \<open>URL.Query\<close> drops.\<close>

type_synonym url_values = "(string \<times> string) list"

definition url_get :: "url_values \<Rightarrow> string \<Rightarrow> string" where
  "url_get vs k = (case map_of vs k of Some v \<Rightarrow> v | None \<Rightarrow> [])"

definition hex_digit :: "char \<Rightarrow> nat option" where
  "hex_digit c =
     (let n = of_char c in
      if 48 \<le> n \<and> n \<le> 57 then Some (n - 48)
      else if 97 \<le> n \<and> n \<le> 102 then Some (n - 87)
      else if 65 \<le> n \<and> n \<le> 70 then Some (n - 55) else None)"

fun queryUnescape :: "string \<Rightarrow> string option" where
  "queryUnescape [] = Some []"
| "queryUnescape (c # s) =
     (if c = CHR ''%'' then
        (case s of
           a # b # t \<Rightarrow> (case (hex_digit a, hex_digit b) of
               (Some x, Some y) \<Rightarrow> map_option (\<lambda>r. char_of (16 * x + y) # r) (queryUnescape t)
             | _ \<Rightarrow> None)
         | _ \<Rightarrow> None)
      else map_option (\<lambda>r. (if c = CHR ''+'' then CHR '' '' else c) # r) (queryUnescape s))"

fun split_on :: "char \<Rightarrow> string \<Rightarrow> string list" where
  "split_on d [] = [[]]"
| "split_on d (c # s) =
     (if c = d then [] # split_on d s
      else (case split_on d s of t # ts \<Rightarrow> (c # t) # ts | [] \<Rightarrow> [[c]]))"

definition parse_pair :: "string \<Rightarrow> url_values" where
  "parse_pair p =
     (if CHR '';'' \<in> set p \<or> p = [] then []
      else let (k, v, _) = cut p (CHR ''='')
           in case (queryUnescape k, queryUnescape v) of (Some k, Some v) \<Rightarrow> [(k, v)] | _ \<Rightarrow> [])"

definition parseQuery :: "string \<Rightarrow> url_values" where
  "parseQuery q = concat (map parse_pair (split_on (CHR ''&'') q))"

definition validateParam :: "string \<Rightarrow> string \<Rightarrow> string list \<Rightarrow> string" where
  "validateParam val def allowed = (if val \<in> set allowed then val else def)"

text \<open>
  \<open>strings.ToUpper\<close>, compared with ASCII words only: no other character has one of their letters
  as its upper case.
\<close>

definition toUpper :: "string \<Rightarrow> string" where
  "toUpper s = map (\<lambda>c. let n = of_char c in if 97 \<le> n \<and> n \<le> (122 :: nat) then char_of (n - 32) else c) s"

definition parseBooleanArg :: "string \<Rightarrow> bool \<Rightarrow> bool" where
  "parseBooleanArg val def =
     (if val = [] then def else if toUpper val = ''ON'' \<or> toUpper val = ''TRUE'' then True else False)"

definition parseIntArg :: "string \<Rightarrow> int" where
  "parseIntArg val = (case atoi val of None \<Rightarrow> 0 | Some i \<Rightarrow> i)"

text \<open>The product with \<open>time.Second\<close> is a 64-bit one.\<close>

definition parseTimeArg :: "string \<Rightarrow> int" where
  "parseTimeArg val =
     (let intval = parseIntArg val; intval = (if intval = 0 then 60 else intval)
      in sint (word_of_int intval * 1000000000 :: u64))"

definition parseUrlArgs :: "Config \<Rightarrow> url_values \<Rightarrow> goerror + Config" where
  "parseUrlArgs config params =
     (let get = url_get params;
          c = config\<lparr>
            cfg_TMode := validateParam (get ''TMODE'') ''DEFAULT'' [''DEFAULT'', ''TERA'', ''ANSI''],
            cfg_CopMode := parseBooleanArg (get ''COP'') True,
            cfg_CopLast := parseBooleanArg (get ''COPLAST'') True,
            cfg_Timeout := parseTimeArg (if get ''TIMEOUT'' \<noteq> [] then get ''TIMEOUT'' else ''60''),
            cfg_SSLMode := validateParam (get ''SSLMODE'') ''PREFER''
              [''DISABLE'', ''ALLOW'', ''PREFER'', ''REQUIRE'', ''VERIFY-CA'', ''VERIFY-FULL''],
            cfg_SSLProtocol := validateParam (get ''SSLPROTOCOL'') ''TLSv1.3'' [''TLSv1.3'', ''TLSv1.2''],
            cfg_SSLCipher := get ''SSLCIPHER'',
            cfg_SSLCA := get ''SSLCA'',
            cfg_SSLCAPath := get ''SSLCAPATH'',
            cfg_SSLBase64 := get ''SSLBASE64'',
            cfg_SSLServerName := get ''SSLSERVERNAME''\<rparr>;
          sslPort = (if get ''HTTPS_PORT'' \<noteq> [] then atoi (get ''HTTPS_PORT'') else Some 443)
      in case sslPort of
           None \<Rightarrow> Inl (Errorf ''invalid ssl port: %w'' [])
         | Some port \<Rightarrow> Inr (c\<lparr>
             cfg_SSLPort := port,
             cfg_EncryptData := parseBooleanArg (get ''ENCRYPTDATA'') False,
             cfg_LOBSupport := parseBooleanArg (get ''LOB_SUPPORT'') True,
             cfg_MaxMessageSize := parseIntArg (get ''MAX_MESSAGE_BODY''),
             cfg_LOBRecieveThreshold := parseIntArg (get ''SLOB_RECEIVE_THRESHOLD''),
             cfg_Partition := get ''PARTITION'',
             cfg_ConnectFunction := parseIntArg (get ''CONNECT_FUNCTION''),
             cfg_MaxFastLoadSessions := parseIntArg (get ''MAX_FASTLOAD_SESSIONS'')\<rparr>))"

record parsedURL =
  u_Hostname :: string
  u_Port :: string
  u_Path :: string
  u_Username :: string
  u_Password :: "string option"
  u_RawQuery :: string

definition ParseDSN :: "(string \<Rightarrow> goerror + parsedURL) \<Rightarrow> string \<Rightarrow> goerror + Config" where
  "ParseDSN urlParse dsn0 =
     (let dsn = (if \<not> hasPrefix dsn0 ''teradatasql://'' then ''teradatasql://'' @ dsn0 else dsn0)
      in case urlParse dsn of
           Inl err \<Rightarrow> Inl (Errorf ''failed to parse DSN: %w'' [err])
         | Inr u \<Rightarrow>
             (case (if u_Port u \<noteq> [] then atoi (u_Port u) else Some 1025) of
                None \<Rightarrow> Inl (Errorf ''invalid port: %w'' [])
              | Some port \<Rightarrow>
                  let config = emptyConfig\<lparr>cfg_redriveLevel := 3, cfg_Host := u_Hostname u,
                        cfg_Port := port, cfg_Database := trimPrefix (u_Path u) ''/'',
                        cfg_User := u_Username u,
                        cfg_Password := (case u_Password u of Some p \<Rightarrow> p | None \<Rightarrow> [])\<rparr>
                  in case parseUrlArgs config (parseQuery (u_RawQuery u)) of
                       Inl err \<Rightarrow> Inl err
                     | Inr c \<Rightarrow> Inr (normalize c)))"

definition validateTranMode :: "string \<Rightarrow> bool" where
  "validateTranMode tmode =
     (if tmode = ''TERA'' \<or> tmode = ''ANSI'' \<or> tmode = ''DEFAULT'' then True else False)"

section \<open>Defaults are a fixpoint\<close>

text \<open>A conditional update is an unconditional one of a conditional value.\<close>

lemma cfg_default_updates:
  "(if b then c\<lparr>cfg_redriveLevel := rv\<rparr> else c) = c\<lparr>cfg_redriveLevel := if b then rv else cfg_redriveLevel c\<rparr>"
  "(if b then c\<lparr>cfg_Port := pv'\<rparr> else c) = c\<lparr>cfg_Port := if b then pv' else cfg_Port c\<rparr>"
  "(if b then c\<lparr>cfg_SSLPort := sv'\<rparr> else c) = c\<lparr>cfg_SSLPort := if b then sv' else cfg_SSLPort c\<rparr>"
  "(if b then c\<lparr>cfg_TMode := tv\<rparr> else c) = c\<lparr>cfg_TMode := if b then tv else cfg_TMode c\<rparr>"
  "(if b then c\<lparr>cfg_Timeout := tv'\<rparr> else c) = c\<lparr>cfg_Timeout := if b then tv' else cfg_Timeout c\<rparr>"
  "(if b then c\<lparr>cfg_SSLProtocol := sv\<rparr> else c) = c\<lparr>cfg_SSLProtocol := if b then sv else cfg_SSLProtocol c\<rparr>"
  "(if b then c\<lparr>cfg_SSLMode := sv\<rparr> else c) = c\<lparr>cfg_SSLMode := if b then sv else cfg_SSLMode c\<rparr>"
  "(if b then c\<lparr>cfg_MaxMessageSize := mv'\<rparr> else c) = c\<lparr>cfg_MaxMessageSize := if b then mv' else cfg_MaxMessageSize c\<rparr>"
  "(if b then c\<lparr>cfg_LOBRecieveThreshold := lv\<rparr> else c) = c\<lparr>cfg_LOBRecieveThreshold := if b then lv else cfg_LOBRecieveThreshold c\<rparr>"
  "(if b then c\<lparr>cfg_Partition := pv\<rparr> else c) = c\<lparr>cfg_Partition := if b then pv else cfg_Partition c\<rparr>"
  "(if b then c\<lparr>cfg_MaxFastLoadSessions := mv\<rparr> else c) = c\<lparr>cfg_MaxFastLoadSessions := if b then mv else cfg_MaxFastLoadSessions c\<rparr>"
  by (cases b, simp_all)+

lemma normalize_updates:
  "normalize c = c\<lparr>
     cfg_redriveLevel := (if cfg_redriveLevel c < 1 \<or> cfg_redriveLevel c > 3 then 3 else cfg_redriveLevel c),
     cfg_Port := (if cfg_Port c = 0 then 1025 else cfg_Port c),
     cfg_SSLPort := (if cfg_SSLPort c = 0 then 443 else cfg_SSLPort c),
     cfg_TMode := (if cfg_TMode c = [] then ''DEFAULT'' else cfg_TMode c),
     cfg_Timeout := (if cfg_Timeout c = 0 then seconds 60 else cfg_Timeout c),
     cfg_SSLProtocol := (if cfg_SSLProtocol c = [] then ''TLSv1.3'' else cfg_SSLProtocol c),
     cfg_SSLMode := (if cfg_SSLMode c = [] then ''PREFER'' else cfg_SSLMode c),
     cfg_MaxMessageSize := (if cfg_MaxMessageSize c = 0 then 2097152 else cfg_MaxMessageSize c),
     cfg_LOBRecieveThreshold := (if cfg_LOBRecieveThreshold c = 0 then 1000 else cfg_LOBRecieveThreshold c),
     cfg_Partition := (if cfg_Partition c = [] then ''DBC/SQL'' else cfg_Partition c),
     cfg_MaxFastLoadSessions := (if cfg_MaxFastLoadSessions c < 1 then 8 else cfg_MaxFastLoadSessions c),
     cfg_sslLevel := decodeSslMode (if cfg_SSLMode c = [] then ''PREFER'' else cfg_SSLMode c)\<rparr>"
  by (simp add: normalize_def cfg_default_updates Let_def split del: if_split cong: if_cong)

text \<open>What every configuration in use satisfies.\<close>

definition wf_config :: "Config \<Rightarrow> bool" where
  "wf_config c \<longleftrightarrow> 1 \<le> cfg_redriveLevel c \<and> cfg_redriveLevel c \<le> 3 \<and> cfg_Port c \<noteq> 0
     \<and> cfg_SSLPort c \<noteq> 0 \<and> cfg_TMode c \<noteq> [] \<and> cfg_Timeout c \<noteq> 0 \<and> cfg_SSLProtocol c \<noteq> []
     \<and> cfg_SSLMode c \<noteq> [] \<and> cfg_MaxMessageSize c \<noteq> 0 \<and> cfg_LOBRecieveThreshold c \<noteq> 0
     \<and> cfg_Partition c \<noteq> [] \<and> 1 \<le> cfg_MaxFastLoadSessions c
     \<and> cfg_sslLevel c = decodeSslMode (cfg_SSLMode c)"

lemma wf_normalize: "wf_config (normalize c)"
  by (simp add: normalize_updates wf_config_def seconds_def)

lemma normalize_wf: "wf_config c \<Longrightarrow> normalize c = c"
  by (simp add: normalize_updates wf_config_def)

lemma normalize_idem: "normalize (normalize c) = normalize c"
  by (intro normalize_wf wf_normalize)

section \<open>Query strings\<close>

definition plain :: "string \<Rightarrow> bool" where
  "plain s \<longleftrightarrow> list_all (\<lambda>c. c \<notin> set ''&;%+'') s"

fun join_amp :: "string list \<Rightarrow> string" where
  "join_amp [] = []"
| "join_amp [s] = s"
| "join_amp (s # t # ts) = s @ CHR ''&'' # join_amp (t # ts)"

definition written :: "(string \<times> string \<times> bool) list \<Rightarrow> (string \<times> string) list" where
  "written ps = concat (map (\<lambda>(n, v, w). if w then [(n, v)] else []) ps)"

lemma join_amp_snoc: "ts \<noteq> [] \<Longrightarrow> join_amp (ts @ [s]) = join_amp ts @ CHR ''&'' # s"
  by (induction ts rule: join_amp.induct) auto

lemma writeDsnParam_fold:
  "fold writeDsnParam ps (join_amp ts, int (length ts)) =
     (join_amp (ts @ map (\<lambda>(n, v). n @ ''='' @ v) (written ps)),
      int (length ts + length (written ps)))"
proof (induction ps arbitrary: ts)
  case Nil
  then show ?case by (simp add: written_def)
next
  case (Cons p ps)
  obtain n v w where p: "p = (n, v, w)" by (cases p) auto
  show ?case
  proof (cases w)
    case True
    have "writeDsnParam p (join_amp ts, int (length ts)) =
        (join_amp (ts @ [n @ ''='' @ v]), int (length (ts @ [n @ ''='' @ v])))"
      using True by (cases "ts = []") (auto simp: p writeDsnParam_def join_amp_snoc)
    then show ?thesis
      using Cons.IH [of "ts @ [n @ ''='' @ v]"] True by (simp add: p written_def)
  next
    case False
    then show ?thesis
      using Cons.IH [of ts] by (simp add: p written_def writeDsnParam_def)
  qed
qed

lemma split_on_free: "d \<notin> set s \<Longrightarrow> split_on d s = [s]"
  by (induction s) auto

lemma split_on_nonempty: "split_on d s \<noteq> []"
  by (induction s) (auto split: list.splits)

lemma split_on_append: "d \<notin> set s \<Longrightarrow> split_on d (s @ d # t) = s # split_on d t"
  by (induction s) auto

lemma split_join_amp:
  "ts \<noteq> [] \<Longrightarrow> \<forall>t\<in>set ts. CHR ''&'' \<notin> set t \<Longrightarrow> split_on CHR ''&'' (join_amp ts) = ts"
  by (induction ts rule: join_amp.induct) (auto simp: split_on_free split_on_append)

lemma queryUnescape_plain: "plain s \<Longrightarrow> queryUnescape s = Some s"
  by (induction s) (auto simp: plain_def)

lemma cut_at: "c \<notin> set k \<Longrightarrow> cut (k @ c # v) c = (k, v, True)"
  by (auto simp: cut_def takeWhile_append dropWhile_append)

lemma parse_pair_plain:
  assumes "plain n" "plain v" "CHR ''='' \<notin> set n"
  shows "parse_pair (n @ ''='' @ v) = [(n, v)]"
  using assms queryUnescape_plain [of n] queryUnescape_plain [of v] cut_at [of "CHR ''=''" n v]
  by (auto simp: parse_pair_def plain_def list_all_iff)

lemma plain_no_amp: "plain s \<Longrightarrow> CHR ''&'' \<notin> set s"
  by (auto simp: plain_def list_all_iff)

lemma parseQuery_written:
  assumes "\<forall>(n, v) \<in> set ws. plain n \<and> plain v \<and> CHR ''='' \<notin> set n"
  shows "parseQuery (join_amp (map (\<lambda>(n, v). n @ ''='' @ v) ws)) = ws"
proof (cases "ws = []")
  case True
  then show ?thesis by (simp add: parseQuery_def parse_pair_def)
next
  case False
  have "CHR ''&'' \<notin> set (n @ ''='' @ v)" if "(n, v) \<in> set ws" for n v
    using assms that plain_no_amp [of n] plain_no_amp [of v] by auto
  then have "\<forall>t\<in>set (map (\<lambda>(n, v). n @ ''='' @ v) ws). CHR ''&'' \<notin> set t" by auto
  then have "parseQuery (join_amp (map (\<lambda>(n, v). n @ ''='' @ v) ws))
      = concat (map (\<lambda>(n, v). parse_pair (n @ ''='' @ v)) ws)"
    using False by (simp add: parseQuery_def split_join_amp comp_def case_prod_unfold)
  also have "\<dots> = concat (map (\<lambda>p. [p]) ws)"
    using assms parse_pair_plain by (intro arg_cong [of _ _ concat] map_cong) auto
  finally show ?thesis by simp
qed

lemma map_of_written_None: "n \<notin> fst ` set ps \<Longrightarrow> map_of (written ps) n = None"
  by (induction ps) (auto simp: written_def split: if_splits)

lemma url_get_written:
  assumes "distinct (map fst ps)" "(n, v, w) \<in> set ps"
  shows "url_get (written ps) n = (if w then v else [])"
  using assms
proof (induction ps)
  case (Cons p ps)
  obtain n' v' w' where p: "p = (n', v', w')" by (cases p) auto
  have split: "written (p # ps) = (if w' then [(n', v')] else []) @ written ps"
    by (simp add: written_def p)
  show ?case
  proof (cases "n' = n")
    case True
    then have "(n, v, w) = p" "map_of (written ps) n = None"
      using Cons.prems p by (auto intro!: map_of_written_None simp: image_iff)
    then show ?thesis using True split by (auto simp: url_get_def p)
  next
    case False
    then have "(n, v, w) \<in> set ps" using Cons.prems p by auto
    then show ?thesis using Cons False by (simp add: url_get_def split)
  qed
qed simp

section \<open>Round trip\<close>

text \<open>The configurations whose parameters a data source name can carry: the values parse back, and
  no character of them has a meaning in a query string.\<close>

definition dsn_config :: "Config \<Rightarrow> bool" where
  "dsn_config c \<longleftrightarrow> wf_config c
     \<and> cfg_TMode c \<in> {''DEFAULT'', ''TERA'', ''ANSI''}
     \<and> cfg_SSLMode c \<in> {''DISABLE'', ''ALLOW'', ''PREFER'', ''REQUIRE'', ''VERIFY-CA'', ''VERIFY-FULL''}
     \<and> cfg_SSLProtocol c \<in> {''TLSv1.3'', ''TLSv1.2''}
     \<and> list_all plain [cfg_SSLCipher c, cfg_SSLCA c, cfg_SSLCAPath c, cfg_SSLBase64 c,
         cfg_SSLServerName c, cfg_Partition c]
     \<and> list_all int64_range [cfg_Timeout c, cfg_SSLPort c, cfg_MaxMessageSize c,
         cfg_LOBRecieveThreshold c, cfg_ConnectFunction c, cfg_MaxFastLoadSessions c]
     \<and> cfg_Timeout c mod seconds 1 = 0"

lemma generateDsnParamString_written:
  "generateDsnParamString secs c =
     join_amp (map (\<lambda>(n, v). n @ ''='' @ v) (written (dsnParams secs c)))"
  using writeDsnParam_fold [of "dsnParams secs c" "[]"] by (simp add: generateDsnParamString_def)

lemma plain_digits: "list_all is_digit s \<Longrightarrow> plain s"
  by (auto simp: plain_def list_all_iff is_digit_def)

lemma plain_int_str: "plain (int_str i)"
  using plain_digits [OF nat_str_digits] by (auto simp: int_str_def plain_def)

lemma dsnParams_names: "distinct (map fst (dsnParams secs c))"
  by (simp add: dsnParams_def)

lemma dsnParams_plain:
  assumes "dsn_config c" "secs (cfg_Timeout c) = int_str k" "(n, v, w) \<in> set (dsnParams secs c)"
  shows "plain n" "plain v" "CHR ''='' \<notin> set n"
proof -
  have words: "plain ''ON''" "plain ''OFF''" "plain ''DEFAULT''" "plain ''TERA''" "plain ''ANSI''"
    "plain ''DISABLE''" "plain ''ALLOW''" "plain ''PREFER''" "plain ''REQUIRE''" "plain ''VERIFY-CA''"
    "plain ''VERIFY-FULL''" "plain ''TLSv1.3''" "plain ''TLSv1.2''"
    by (simp_all add: plain_def)
  have vals: "list_all (\<lambda>(n, v, w). plain v) (dsnParams secs c)"
    using assms(1,2) words plain_int_str
    by (auto simp: dsnParams_def dsn_config_def boolToDsnParam_def)
  have names: "list_all (\<lambda>(n, v, w). plain n \<and> CHR ''='' \<notin> set n) (dsnParams secs c)"
    by (simp add: dsnParams_def plain_def)
  show "plain n" "plain v" "CHR ''='' \<notin> set n"
    using assms(3) vals names by (auto simp: list_all_iff)
qed

lemma parseQuery_generate:
  assumes "dsn_config c" "secs (cfg_Timeout c) = int_str k"
  shows "parseQuery (generateDsnParamString secs c) = written (dsnParams secs c)"
  unfolding generateDsnParamString_written
proof (rule parseQuery_written)
  show "\<forall>(n, v)\<in>set (written (dsnParams secs c)). plain n \<and> plain v \<and> CHR ''='' \<notin> set n"
    using dsnParams_plain [where c = c and secs = secs and k = k, OF assms] by (auto simp: written_def split: if_splits)
qed

lemma parseTimeArg_int_str:
  assumes "int64_range (seconds k)" "k \<noteq> 0"
  shows "parseTimeArg (int_str k) = seconds k"
proof -
  have "int64_range k" using assms by (auto simp: int64_range_def seconds_def)
  then have "parseIntArg (int_str k) = k" by (simp add: parseIntArg_def atoi_int_str)
  moreover have "word_of_int k * (1000000000 :: u64) = word_of_int (seconds k)"
    by (simp add: seconds_def)
  ultimately show ?thesis
    using assms by (simp add: parseTimeArg_def signed_of_int signed_take_bit_int_eq_self int64_range_def)
qed

lemma parseIntArg_int_str: "int64_range i \<Longrightarrow> parseIntArg (int_str i) = i"
  by (simp add: parseIntArg_def atoi_int_str)

lemma int_str_nonempty [simp]: "int_str i \<noteq> []"
  by (simp add: int_str_def)

lemma parse_defaults:
  "parseIntArg [] = 0" "parseTimeArg ''60'' = seconds 60"
  "parseBooleanArg [] d = d" "parseBooleanArg (boolToDsnParam b) d = b"
  by (simp_all add: parseIntArg_def atoi_def parseTimeArg_def seconds_def parse_nat_def is_digit_def
      digits_val_def int64_range_def parseBooleanArg_def boolToDsnParam_def toUpper_def)

text \<open>What each parameter reads back as.\<close>

lemma dsn_gets:
  assumes "dsn_config c" "secs (cfg_Timeout c) = int_str k"
  defines "get \<equiv> url_get (parseQuery (generateDsnParamString secs c))"
  shows "get ''TMODE'' = (if cfg_TMode c \<noteq> ''DEFAULT'' then cfg_TMode c else [])"
    "get ''COP'' = (if \<not> cfg_CopMode c then boolToDsnParam (cfg_CopMode c) else [])"
    "get ''COPLAST'' = (if \<not> cfg_CopLast c then boolToDsnParam (cfg_CopLast c) else [])"
    "get ''TIMEOUT'' = (if cfg_Timeout c \<noteq> seconds 60 then int_str k else [])"
    "get ''SSLMODE'' = (if cfg_SSLMode c \<noteq> ''PREFER'' then cfg_SSLMode c else [])"
    "get ''SSLPROTOCOL'' = (if cfg_SSLProtocol c \<noteq> ''TLSv1.3'' then cfg_SSLProtocol c else [])"
    "get ''SSLCIPHER'' = cfg_SSLCipher c" "get ''SSLCA'' = cfg_SSLCA c"
    "get ''SSLCAPATH'' = cfg_SSLCAPath c" "get ''SSLBASE64'' = cfg_SSLBase64 c"
    "get ''SSLSERVERNAME'' = cfg_SSLServerName c"
    "get ''HTTPS_PORT'' = (if cfg_SSLPort c \<noteq> 443 then int_str (cfg_SSLPort c) else [])"
    "get ''ENCRYPTDATA'' = (if cfg_EncryptData c then boolToDsnParam (cfg_EncryptData c) else [])"
    "get ''LOB_SUPPORT'' = (if \<not> cfg_LOBSupport c then boolToDsnParam (cfg_LOBSupport c) else [])"
    "get ''MAX_MESSAGE_BODY'' =
       (if cfg_MaxMessageSize c \<noteq> 2097152 then int_str (cfg_MaxMessageSize c) else [])"
    "get ''SLOB_RECEIVE_THRESHOLD'' =
       (if cfg_LOBRecieveThreshold c \<noteq> 1000 then int_str (cfg_LOBRecieveThreshold c) else [])"
    "get ''CONNECT_FUNCTION'' = (if cfg_ConnectFunction c \<noteq> 0 then int_str (cfg_ConnectFunction c) else [])"
    "get ''PARTITION'' = cfg_Partition c"
    "get ''MAX_FASTLOAD_SESSIONS'' =
       (if cfg_MaxFastLoadSessions c \<noteq> 8 then int_str (cfg_MaxFastLoadSessions c) else [])"
proof -
  note g = url_get_written [OF dsnParams_names [of secs c], folded parseQuery_generate [where c = c and secs = secs and k = k, OF assms(1,2)],
      folded get_def, unfolded dsnParams_def, simplified assms(2)]
  show "get ''TMODE'' = (if cfg_TMode c \<noteq> ''DEFAULT'' then cfg_TMode c else [])"
    "get ''COP'' = (if \<not> cfg_CopMode c then boolToDsnParam (cfg_CopMode c) else [])"
    "get ''COPLAST'' = (if \<not> cfg_CopLast c then boolToDsnParam (cfg_CopLast c) else [])"
    "get ''TIMEOUT'' = (if cfg_Timeout c \<noteq> seconds 60 then int_str k else [])"
    "get ''SSLMODE'' = (if cfg_SSLMode c \<noteq> ''PREFER'' then cfg_SSLMode c else [])"
    "get ''SSLPROTOCOL'' = (if cfg_SSLProtocol c \<noteq> ''TLSv1.3'' then cfg_SSLProtocol c else [])"
    "get ''HTTPS_PORT'' = (if cfg_SSLPort c \<noteq> 443 then int_str (cfg_SSLPort c) else [])"
    "get ''ENCRYPTDATA'' = (if cfg_EncryptData c then boolToDsnParam (cfg_EncryptData c) else [])"
    "get ''LOB_SUPPORT'' = (if \<not> cfg_LOBSupport c then boolToDsnParam (cfg_LOBSupport c) else [])"
    "get ''MAX_MESSAGE_BODY'' =
       (if cfg_MaxMessageSize c \<noteq> 2097152 then int_str (cfg_MaxMessageSize c) else [])"
    "get ''SLOB_RECEIVE_THRESHOLD'' =
       (if cfg_LOBRecieveThreshold c \<noteq> 1000 then int_str (cfg_LOBRecieveThreshold c) else [])"
    "get ''CONNECT_FUNCTION'' = (if cfg_ConnectFunction c \<noteq> 0 then int_str (cfg_ConnectFunction c) else [])"
    "get ''MAX_FASTLOAD_SESSIONS'' =
       (if cfg_MaxFastLoadSessions c \<noteq> 8 then int_str (cfg_MaxFastLoadSessions c) else [])"
    by (rule g; simp)+
  have "get ''SSLCIPHER'' = (if cfg_SSLCipher c \<noteq> [] then cfg_SSLCipher c else [])"
    "get ''SSLCA'' = (if cfg_SSLCA c \<noteq> [] then cfg_SSLCA c else [])"
    "get ''SSLCAPATH'' = (if cfg_SSLCAPath c \<noteq> [] then cfg_SSLCAPath c else [])"
    "get ''SSLBASE64'' = (if cfg_SSLBase64 c \<noteq> [] then cfg_SSLBase64 c else [])"
    "get ''SSLSERVERNAME'' = (if cfg_SSLServerName c \<noteq> [] then cfg_SSLServerName c else [])"
    "get ''PARTITION'' = (if cfg_Partition c \<noteq> [] then cfg_Partition c else [])"
    by (rule g; simp)+
  then show "get ''SSLCIPHER'' = cfg_SSLCipher c" "get ''SSLCA'' = cfg_SSLCA c"
    "get ''SSLCAPATH'' = cfg_SSLCAPath c" "get ''SSLBASE64'' = cfg_SSLBase64 c"
    "get ''SSLSERVERNAME'' = cfg_SSLServerName c" "get ''PARTITION'' = cfg_Partition c"
    by auto
qed

text \<open>C26: The parameter string generated for a configuration, parsed back as the query of a data source
  name and normalized, gives the configuration again, parameter by parameter. (The host, database,
  credentials and port are not in the parameter string, and LOB_PREFETCH is not generated.)\<close>

theorem dsn_params_roundtrip:
  assumes c: "dsn_config c" and secs: "secs (cfg_Timeout c) = int_str (cfg_Timeout c div seconds 1)"
    and base: "cfg_Host base = cfg_Host c" "cfg_Port base = cfg_Port c"
      "cfg_Database base = cfg_Database c" "cfg_User base = cfg_User c"
      "cfg_Password base = cfg_Password c" "cfg_LOBPrefetch base = cfg_LOBPrefetch c"
      "cfg_redriveLevel base = cfg_redriveLevel c"
  shows "\<exists>c'. parseUrlArgs base (parseQuery (generateDsnParamString secs c)) = Inr c' \<and> normalize c' = c"
proof -
  define k where "k = cfg_Timeout c div seconds 1"
  have wf: "wf_config c" using c by (simp add: dsn_config_def)
  have t: "cfg_Timeout c = seconds k" "k \<noteq> 0"
    using c wf by (auto simp: dsn_config_def wf_config_def k_def seconds_def)
  note g = dsn_gets [where c = c and secs = secs and k = k, OF c, folded k_def, OF secs [folded k_def]]
  have range: "int64_range (seconds k)" "int64_range (cfg_SSLPort c)" "int64_range (cfg_MaxMessageSize c)"
    "int64_range (cfg_LOBRecieveThreshold c)" "int64_range (cfg_ConnectFunction c)"
    "int64_range (cfg_MaxFastLoadSessions c)"
    using c t by (auto simp: dsn_config_def)
  have modes: "validateParam (if cfg_TMode c \<noteq> ''DEFAULT'' then cfg_TMode c else []) ''DEFAULT''
      [''DEFAULT'', ''TERA'', ''ANSI''] = cfg_TMode c"
    "validateParam (if cfg_SSLMode c \<noteq> ''PREFER'' then cfg_SSLMode c else []) ''PREFER''
      [''DISABLE'', ''ALLOW'', ''PREFER'', ''REQUIRE'', ''VERIFY-CA'', ''VERIFY-FULL''] = cfg_SSLMode c"
    "validateParam (if cfg_SSLProtocol c \<noteq> ''TLSv1.3'' then cfg_SSLProtocol c else []) ''TLSv1.3''
      [''TLSv1.3'', ''TLSv1.2''] = cfg_SSLProtocol c"
    using c by (auto simp: dsn_config_def validateParam_def)
  have times: "parseTimeArg (if (if cfg_Timeout c \<noteq> seconds 60 then int_str k else []) \<noteq> []
      then (if cfg_Timeout c \<noteq> seconds 60 then int_str k else []) else ''60'') = seconds k"
    using range(1) t by (simp add: parse_defaults parseTimeArg_int_str)
  have port: "(if (if cfg_SSLPort c \<noteq> 443 then int_str (cfg_SSLPort c) else []) \<noteq> []
      then atoi (if cfg_SSLPort c \<noteq> 443 then int_str (cfg_SSLPort c) else []) else Some 443)
      = Some (cfg_SSLPort c)"
    using range(2) by (simp add: atoi_int_str)
  let ?c = "base\<lparr>cfg_TMode := cfg_TMode c, cfg_CopMode := cfg_CopMode c, cfg_CopLast := cfg_CopLast c,
      cfg_Timeout := seconds k, cfg_SSLMode := cfg_SSLMode c, cfg_SSLProtocol := cfg_SSLProtocol c,
      cfg_SSLCipher := cfg_SSLCipher c, cfg_SSLCA := cfg_SSLCA c, cfg_SSLCAPath := cfg_SSLCAPath c,
      cfg_SSLBase64 := cfg_SSLBase64 c, cfg_SSLServerName := cfg_SSLServerName c,
      cfg_SSLPort := cfg_SSLPort c, cfg_EncryptData := cfg_EncryptData c, cfg_LOBSupport := cfg_LOBSupport c,
      cfg_MaxMessageSize := (if cfg_MaxMessageSize c \<noteq> 2097152 then cfg_MaxMessageSize c else 0),
      cfg_LOBRecieveThreshold := (if cfg_LOBRecieveThreshold c \<noteq> 1000 then cfg_LOBRecieveThreshold c else 0),
      cfg_Partition := cfg_Partition c, cfg_ConnectFunction := cfg_ConnectFunction c,
      cfg_MaxFastLoadSessions := (if cfg_MaxFastLoadSessions c \<noteq> 8 then cfg_MaxFastLoadSessions c else 0)\<rparr>"
  have bools: "parseBooleanArg (if \<not> b then boolToDsnParam b else []) True = b"
    "parseBooleanArg (if b then boolToDsnParam b else []) False = b" for b
    by (cases b; simp add: parse_defaults)+
  have ints: "int64_range i \<Longrightarrow> parseIntArg (if i \<noteq> d then int_str i else []) = (if i \<noteq> d then i else 0)" for i d
    by (simp add: parse_defaults parseIntArg_int_str)
  have z: "(if i \<noteq> 0 then i else 0) = i" for i :: int by simp
  have "parseUrlArgs base (parseQuery (generateDsnParamString secs c)) = Inr ?c"
    unfolding parseUrlArgs_def Let_def g modes times port bools
    by (simp only: ints [OF range(3)] ints [OF range(4)] ints [OF range(5)] ints [OF range(6)] z option.case)
  moreover have "normalize ?c = c"
    by (rule Config.equality)
      (use wf base t in \<open>simp_all add: normalize_updates wf_config_def seconds_def\<close>)
  ultimately show ?thesis by blast
qed

theorem dsn_params_roundtrip_witness:
  "\<exists>c'. parseUrlArgs NewConfig
      (parseQuery (generateDsnParamString (\<lambda>n. int_str (n div seconds 1))
        (NewConfig\<lparr>cfg_SSLCA := ''ca.pem'', cfg_Timeout := seconds 5\<rparr>))) = Inr c'
    \<and> normalize c' = NewConfig\<lparr>cfg_SSLCA := ''ca.pem'', cfg_Timeout := seconds 5\<rparr>"
proof (rule dsn_params_roundtrip)
  show "dsn_config (NewConfig\<lparr>cfg_SSLCA := ''ca.pem'', cfg_Timeout := seconds 5\<rparr>)"
    by (simp add: dsn_config_def NewConfig_def normalize_updates wf_config_def emptyConfig_def
        seconds_def decodeSslMode_def plain_def int64_range_def)
qed (simp_all add: seconds_def)

text \<open>C27: Whatever the data source name says, a parsed configuration has a usable value in every field
  with a default, a TMODE and an SSLMODE of the allowed lists, and a TLS level that is the one of its
  SSLMODE. The connection may fall back from TLS to a plain one exactly when SSLMODE is DISABLE,
  ALLOW or PREFER, and REQUIRE, VERIFY-CA and VERIFY-FULL make it use TLS.\<close>

theorem ParseDSN_wf:
  assumes "ParseDSN urlParse dsn = Inr c"
  shows "wf_config c \<and> cfg_TMode c \<in> {''DEFAULT'', ''TERA'', ''ANSI''}
    \<and> cfg_SSLMode c \<in> {''DISABLE'', ''ALLOW'', ''PREFER'', ''REQUIRE'', ''VERIFY-CA'', ''VERIFY-FULL''}
    \<and> (allowTlsFallback c \<longleftrightarrow> cfg_SSLMode c \<in> {''DISABLE'', ''ALLOW'', ''PREFER''})
    \<and> (\<not> allowTlsFallback c \<longrightarrow> useTls c)"
proof -
  obtain b q c' where p: "parseUrlArgs b q = Inr c'" and n: "c = normalize c'"
    using assms by (auto simp: ParseDSN_def Let_def split: sum.splits option.splits if_splits)
  have v: "validateParam x d xs \<in> insert d (set xs)" for x d xs by (simp add: validateParam_def)
  have m: "cfg_TMode c' \<in> {''DEFAULT'', ''TERA'', ''ANSI''}"
    "cfg_SSLMode c' \<in> {''DISABLE'', ''ALLOW'', ''PREFER'', ''REQUIRE'', ''VERIFY-CA'', ''VERIFY-FULL''}"
  proof -
    have "cfg_TMode c' = validateParam (url_get q ''TMODE'') ''DEFAULT'' [''DEFAULT'', ''TERA'', ''ANSI'']"
      "cfg_SSLMode c' = validateParam (url_get q ''SSLMODE'') ''PREFER''
        [''DISABLE'', ''ALLOW'', ''PREFER'', ''REQUIRE'', ''VERIFY-CA'', ''VERIFY-FULL'']"
      using p by (auto simp: parseUrlArgs_def Let_def split: option.splits)
    then show "cfg_TMode c' \<in> {''DEFAULT'', ''TERA'', ''ANSI''}"
      "cfg_SSLMode c' \<in> {''DISABLE'', ''ALLOW'', ''PREFER'', ''REQUIRE'', ''VERIFY-CA'', ''VERIFY-FULL''}"
      using v [of "url_get q ''TMODE''" "''DEFAULT''" "[''DEFAULT'', ''TERA'', ''ANSI'']"]
        v [of "url_get q ''SSLMODE''" "''PREFER''"
          "[''DISABLE'', ''ALLOW'', ''PREFER'', ''REQUIRE'', ''VERIFY-CA'', ''VERIFY-FULL'']"] by auto
  qed
  then have "cfg_TMode c = cfg_TMode c'" "cfg_SSLMode c = cfg_SSLMode c'"
    by (auto simp: n normalize_updates)
  moreover have "wf_config c" by (simp add: n wf_normalize)
  moreover from this have "cfg_sslLevel c = decodeSslMode (cfg_SSLMode c)" by (simp add: wf_config_def)
  ultimately show ?thesis
    using m by (auto simp: allowTlsFallback_def useTls_def decodeSslMode_def)
qed

theorem ParseDSN_wf_witness:
  "\<exists>c. ParseDSN (\<lambda>s. Inr \<lparr>u_Hostname = ''h'', u_Port = [], u_Path = ''/db'', u_Username = ''u'',
      u_Password = None, u_RawQuery = ''SSLMODE=REQUIRE''\<rparr>) ''u@h/db'' = Inr c
    \<and> wf_config c \<and> cfg_SSLMode c = ''REQUIRE'' \<and> useTls c"
proof -
  define up where "up = (\<lambda>s :: string. Inr \<lparr>u_Hostname = ''h'', u_Port = [], u_Path = ''/db'',
    u_Username = ''u'', u_Password = None, u_RawQuery = ''SSLMODE=REQUIRE''\<rparr> :: goerror + parsedURL)"
  have q: "parseQuery ''SSLMODE=REQUIRE'' = [(''SSLMODE'', ''REQUIRE'')]"
    by (simp add: parseQuery_def parse_pair_def cut_def)
  obtain c where c: "ParseDSN up ''u@h/db'' = Inr c" "cfg_SSLMode c = ''REQUIRE''"
    by (simp add: ParseDSN_def up_def q parseUrlArgs_def url_get_def Let_def validateParam_def
        normalize_updates)
  show ?thesis using ParseDSN_wf [OF c(1)] c by (auto simp: up_def allowTlsFallback_def)
qed

end
