(* ===== verification/Parcels.thy ===== *)
theory Parcels
  imports BufferWriter Dsn
begin

text \<open>
  What request and response parcels share: flavors and the parcel header (src/parcel.go), the server
  capabilities a connection remembers (src/connection.go) and the text helpers of src/util.go.
\<close>

section \<open>Flavors\<close>

abbreviation flavorRequest :: u16 where "flavorRequest \<equiv> 1"
abbreviation flavorData :: u16 where "flavorData \<equiv> 3"
abbreviation flavorRespond :: u16 where "flavorRespond \<equiv> 4"
abbreviation flavorKeepRespond :: u16 where "flavorKeepRespond \<equiv> 5"
abbreviation flavorCancel :: u16 where "flavorCancel \<equiv> 7"
abbreviation flavorSuccess :: u16 where "flavorSuccess \<equiv> 8"
abbreviation flavorFailure :: u16 where "flavorFailure \<equiv> 9"
abbreviation flavorRecord :: u16 where "flavorRecord \<equiv> 10"
abbreviation flavorEndStatement :: u16 where "flavorEndStatement \<equiv> 11"
abbreviation flavorEndRequest :: u16 where "flavorEndRequest \<equiv> 12"
abbreviation flavorLogon :: u16 where "flavorLogon \<equiv> 36"
abbreviation flavorLogoff :: u16 where "flavorLogoff \<equiv> 37"
abbreviation flavorConfig :: u16 where "flavorConfig \<equiv> 42"
abbreviation flavorConfigResponse :: u16 where "flavorConfigResponse \<equiv> 43"
abbreviation flavorError :: u16 where "flavorError \<equiv> 49"
abbreviation flavorIndicData :: u16 where "flavorIndicData \<equiv> 68"
abbreviation flavorIndicRequest :: u16 where "flavorIndicRequest \<equiv> 69"
abbreviation flavorDataInfo :: u16 where "flavorDataInfo \<equiv> 71"
abbreviation flavorOptions :: u16 where "flavorOptions \<equiv> 85"
abbreviation flavorPrepInfo :: u16 where "flavorPrepInfo \<equiv> 86"
abbreviation flavorConnect :: u16 where "flavorConnect \<equiv> 88"
abbreviation flavorLSN :: u16 where "flavorLSN \<equiv> 89"
abbreviation flavorAssign :: u16 where "flavorAssign \<equiv> 100"
abbreviation flavorAssignResponse :: u16 where "flavorAssignResponse \<equiv> 101"
abbreviation flavorSessionOptions :: u16 where "flavorSessionOptions \<equiv> 114"
abbreviation flavorSsoRequest :: u16 where "flavorSsoRequest \<equiv> 132"
abbreviation flavorSsoResponse :: u16 where "flavorSsoResponse \<equiv> 134"
abbreviation flavorMultiPartIndicData :: u16 where "flavorMultiPartIndicData \<equiv> 142"
abbreviation flavorEndMultiPartIndicData :: u16 where "flavorEndMultiPartIndicData \<equiv> 143"
abbreviation flavorMultiPartRecord :: u16 where "flavorMultiPartRecord \<equiv> 144"
abbreviation flavorMultiPartEnd :: u16 where "flavorMultiPartEnd \<equiv> 145"
abbreviation flavorBigRespond :: u16 where "flavorBigRespond \<equiv> 153"
abbreviation flavorBigKeepRespond :: u16 where "flavorBigKeepRespond \<equiv> 154"
abbreviation flavorGatewayConfig :: u16 where "flavorGatewayConfig \<equiv> 165"
abbreviation flavorClientConfig :: u16 where "flavorClientConfig \<equiv> 166"
abbreviation flavorAuthMech :: u16 where "flavorAuthMech \<equiv> 167"
abbreviation flavorStatementInfo :: u16 where "flavorStatementInfo \<equiv> 169"
abbreviation flavorStementInfoEnd :: u16 where "flavorStementInfoEnd \<equiv> 170"
abbreviation flavorClientAttributes :: u16 where "flavorClientAttributes \<equiv> 189"
abbreviation flavorFetchRowCount :: u16 where "flavorFetchRowCount \<equiv> 190"
abbreviation flavorStatementStatus :: u16 where "flavorStatementStatus \<equiv> 205"
abbreviation flavorSecurityPolicy :: u16 where "flavorSecurityPolicy \<equiv> 206"
abbreviation flavorSlobRespond :: u16 where "flavorSlobRespond \<equiv> 215"
abbreviation flavorStartSlobData :: u16 where "flavorStartSlobData \<equiv> 220"
abbreviation flavorSlobData :: u16 where "flavorSlobData \<equiv> 221"
abbreviation flavorEndSlobData :: u16 where "flavorEndSlobData \<equiv> 222"

definition parcelHeaderLen :: int where "parcelHeaderLen = 4"

text \<open>
  \<open>readParcelHeader\<close> returns the flavor, the parcel's length and whether the header is the
  alternative one, whose flavor has its top bit set and whose length has 32 bits.
\<close>

definition readParcelHeader :: "bufferReader \<Rightarrow> (u16 \<times> int \<times> bool \<times> bufferReader) option" where
  "readParcelHeader reader = do {
     (flavor, reader) \<leftarrow> rd_u16 reader;
     if flavor AND 0x8000 \<noteq> 0 then do {
       (_, reader) \<leftarrow> rd_u16 reader;
       (n, reader) \<leftarrow> rd_u32 reader;
       Some (flavor XOR 0x8000, uint n, True, reader) }
     else do {
       (n, reader) \<leftarrow> rd_u16 reader;
       Some (flavor, uint n, False, reader) } }"

section \<open>Capabilities\<close>

record connectionCapabilities =
  cap_defaultTransactionSemantics :: byte
  cap_statementStatusLevel :: int
  cap_clientAttributesSupport :: byte
  cap_lobSupport :: bool
  cap_dynamicResultSetsSupport :: bool
  cap_extNamesInParcels :: bool
  cap_periodDataTypeSupport :: bool
  cap_trustedSQLSupport :: bool
  cap_xmlSupport :: bool
  cap_failFastSupport :: bool
  cap_vsdSupport :: bool
  cap_arraySupport :: bool
  cap_maxAvailableBytesInResponseRow :: int
  cap_otfSupport :: bool
  cap_statementInfoSupport :: byte
  cap_unityClientAttributesSupport :: byte
  cap_aphSupport :: bool
  cap_maxResponseMessageBodySize :: int
  cap_slobClientToServerSupport :: byte
  cap_numberDataTypeSupport :: bool
  cap_statementInfoRequestSupport :: bool
  cap_checkWorkloadSupported :: bool
  cap_ampCount :: int
  cap_largeDecimalSupport :: bool
  cap_largeIndicDataSupport :: bool
  cap_maxRequestMessageBodySize :: int

section \<open>Text\<close>

text \<open>
  \<open>utf8_width s\<close> is the width of the encoded rune \<open>s\<close> begins with, 0 when it begins with none; a
  byte that begins none counts as the rune U+FFFD. \<open>runes\<close> is \<open>[]rune(s)\<close>, each rune by its encoding.
\<close>

definition is_cont :: "nat \<Rightarrow> bool" where "is_cont b \<longleftrightarrow> 128 \<le> b \<and> b \<le> 191"

definition utf8_width :: "string \<Rightarrow> nat" where
  "utf8_width s =
     (case map of_char s of
        [] \<Rightarrow> 0
      | a # t \<Rightarrow>
          if a < 128 then 1
          else if 194 \<le> a \<and> a \<le> 223 then
            (case t of b # _ \<Rightarrow> if is_cont b then 2 else 0 | _ \<Rightarrow> 0)
          else if 224 \<le> a \<and> a \<le> 239 then
            (case t of b # c # _ \<Rightarrow>
               if is_cont b \<and> is_cont c \<and> (a = 224 \<longrightarrow> 160 \<le> b) \<and> (a = 237 \<longrightarrow> b \<le> 159) then 3 else 0
             | _ \<Rightarrow> 0)
          else if 240 \<le> a \<and> a \<le> 244 then
            (case t of b # c # d # _ \<Rightarrow>
               if is_cont b \<and> is_cont c \<and> is_cont d \<and> (a = 240 \<longrightarrow> 144 \<le> b) \<and> (a = 244 \<longrightarrow> b \<le> 143)
               then 4 else 0
             | _ \<Rightarrow> 0)
          else (0 :: nat))"

function runes :: "string \<Rightarrow> string list" where
  "runes s =
     (if s = [] then []
      else if utf8_width s = 0 then [CHR 0xEF, CHR 0xBF, CHR 0xBD] # runes (drop 1 s)
      else take (utf8_width s) s # runes (drop (utf8_width s) s))"
  by pat_completeness auto
termination by (relation "measure length") auto

declare runes.simps [simp del]

definition truncateString :: "string \<Rightarrow> int \<Rightarrow> string option" where
  "truncateString s maxLen =
     (if int (length (runes s)) \<le> maxLen then Some s
      else do { r \<leftarrow> slice (runes s) 0 maxLen; Some (concat r) })"

text \<open>\<open>fmt.Sprintf("%-ns", s)\<close> pads to \<open>n\<close> runes with spaces on the right.\<close>

definition padRight :: "string \<Rightarrow> nat \<Rightarrow> string" where
  "padRight s n = s @ replicate (n - length (runes s)) (CHR '' '')"

text \<open>\<open>fmt.Sprintf("%02d", i)\<close> of a number that is not negative.\<close>

definition pad2 :: "int \<Rightarrow> string" where
  "pad2 i = (let s = int_str i in replicate (2 - length s) (CHR ''0'') @ s)"

fun replaceCrLf :: "string \<Rightarrow> string" where
  "replaceCrLf [] = []"
| "replaceCrLf [c] = [c]"
| "replaceCrLf (c # d # s) =
     (if c = CHR 0x0D \<and> d = CHR 0x0A then CHR 0x0A # replaceCrLf s else c # replaceCrLf (d # s))"

definition replaceLf :: "string \<Rightarrow> string" where
  "replaceLf s = map (\<lambda>c. if c = CHR 0x0A then CHR 0x0D else c) s"

definition normalizeStatementText :: "string \<Rightarrow> string" where
  "normalizeStatementText s = trimSpace (replaceLf (replaceCrLf s))"

lemma runes_ascii: "list_all (\<lambda>c. of_char c < (128 :: nat)) s \<Longrightarrow> runes s = map (\<lambda>c. [c]) s"
proof (induction s)
  case Nil
  then show ?case by (simp add: runes.simps)
next
  case (Cons c s)
  then have "utf8_width (c # s) = 1" by (simp add: utf8_width_def)
  then show ?case using Cons by (subst runes.simps) simp
qed

lemma length_padRight_ascii:
  "list_all (\<lambda>c. of_char c < (128 :: nat)) s \<Longrightarrow> length s \<le> n \<Longrightarrow> length (padRight s n) = n"
  by (simp add: padRight_def runes_ascii)

section \<open>Reading a parcel header\<close>

lemma readParcelHeader_rdr [rdr_simps]:
  fixes n :: u16
  assumes "flavor AND 0x8000 = 0"
  shows "readParcelHeader (rdr pre (be_enc 2 (unat flavor) @ be_enc 2 (unat n) @ s) l) =
    Some (flavor, uint n, False, rdr (pre @ be_enc 2 (unat flavor) @ be_enc 2 (unat n)) s l)"
  using assms by (simp add: readParcelHeader_def rdr_simps)

lemma readParcelHeader_alt:
  fixes n :: u32 and x :: u16
  assumes "flavor AND 0x8000 \<noteq> 0"
  shows "readParcelHeader
      (rdr pre (be_enc 2 (unat flavor) @ be_enc 2 (unat x) @ be_enc 4 (unat n) @ s) l) =
    Some (flavor XOR 0x8000, uint n, True,
      rdr (pre @ be_enc 2 (unat flavor) @ be_enc 2 (unat x) @ be_enc 4 (unat n)) s l)"
  using assms by (simp add: readParcelHeader_def rdr_simps)

end
