(* ===== verification/RequestParcels.thy ===== *)
theory RequestParcels
  imports Parcels
begin

text \<open>
  The parcels the driver sends: src/parcels_request.go, the parameter parcels of src/params.go, the LOB
  request parcels of src/lob.go and src/fastload_parcels.go. Each type has its constructor function,
  \<open>getLength\<close> and \<open>write\<close>; the datatype \<open>parcel\<close> with its three dispatch functions is the
  Go interface of that name.
\<close>

section \<open>Parameter descriptors\<close>

record paramDescriptor =
  p_dataType :: u16
  p_length :: u64
  p_precision :: "16 word"
  p_intervalDigits :: "16 word"
  p_scale :: "16 word"
  p_isNull :: bool
  p_encoded :: "byte list"

record optionsParcel =
  o_requestMode :: byte
  o_dBCFunction :: byte
  o_lobSelect :: bool
  o_lobMode :: byte
  o_returnStatementInfo :: bool
  o_dynamicResultSetsAllowed :: bool
  o_returnExtendedNames :: bool
  o_returnPeriodStructs :: bool
  o_trustMode :: bool
  o_xmlSupport :: bool
  o_xmlFormat :: byte
  o_failFast :: bool
  o_vdsSupport :: bool
  o_arraySupport :: bool
  o_largeResponseSupport :: bool
  o_includeCatalogName :: bool
  o_aphSupport :: bool

section \<open>Handshake and logon parcels\<close>

definition tdGssVersion :: "byte list" where "tdGssVersion = [20, 0, 0, 58]"
definition driverVersion :: "byte list" where "driverVersion = str_bytes ''TTU 20.00.00''"
definition staticBytes :: "byte list" where "staticBytes = [1]"

definition clientConfig_getLength :: "int \<Rightarrow> int" where
  "clientConfig_getLength redriveLevel =
     parcelHeaderLen + 4 + 4 + int (length tdGssVersion) + 4 + int (length driverVersion) + 4
     + int (length staticBytes) + 4 + int (length staticBytes) + 4 + 4
     + (if redriveLevel \<ge> 1 then 8 + int (length staticBytes) else 0)
     + (if redriveLevel \<ge> 2 then 4 else 0)
     + (if redriveLevel \<ge> 3 then 4 else 0)"

definition clientConfig_write :: "int \<Rightarrow> bufferWriter \<Rightarrow> bufferWriter option" where
  "clientConfig_write redriveLevel w = do {
     w \<leftarrow> wr_u16 flavorClientConfig w;
     w \<leftarrow> wr_u16 (word_of_int (clientConfig_getLength redriveLevel)) w;
     w \<leftarrow> wr_u32 1 w;
     w \<leftarrow> wr_tlv16 2 tdGssVersion w;
     w \<leftarrow> wr_tlv16 1 driverVersion w;
     w \<leftarrow> (if redriveLevel \<ge> 1 then do { w \<leftarrow> wr_tz16 4 w; wr_tlv16 8 staticBytes w } else Some w);
     w \<leftarrow> (if redriveLevel \<ge> 2 then wr_tz16 3 w else Some w);
     w \<leftarrow> (if redriveLevel \<ge> 3 then wr_tz16 5 w else Some w);
     w \<leftarrow> wr_tlv16 9 staticBytes w;
     w \<leftarrow> wr_tlv16 11 staticBytes w;
     w \<leftarrow> wr_tz16 14 w;
     wr_tz16 15 w }"

definition ssoRequest_getLength :: "byte list \<Rightarrow> int" where
  "ssoRequest_getLength authData = parcelHeaderLen + 4 + int (length authData)"

definition ssoRequest_write :: "byte \<Rightarrow> byte \<Rightarrow> byte list \<Rightarrow> bufferWriter \<Rightarrow> bufferWriter option" where
  "ssoRequest_write method trip authData w = do {
     w \<leftarrow> wr_u16 flavorSsoRequest w;
     w \<leftarrow> wr_u16 (word_of_int (ssoRequest_getLength authData)) w;
     w \<leftarrow> wr_byte method w;
     w \<leftarrow> wr_byte trip w;
     w \<leftarrow> wr_u16 (word_of_nat (length authData)) w;
     wr_bytes authData w }"

definition assign_getLength :: "byte list \<Rightarrow> int" where
  "assign_getLength username = parcelHeaderLen + int (length username)"

definition assign_write :: "byte list \<Rightarrow> bufferWriter \<Rightarrow> bufferWriter option" where
  "assign_write username w = do {
     w \<leftarrow> wr_u16 flavorAssign w;
     w \<leftarrow> wr_u16 (word_of_int (assign_getLength username)) w;
     wr_bytes username w }"

definition getEncodedLogonString :: "string \<Rightarrow> string \<Rightarrow> byte list" where
  "getEncodedLogonString username password =
     str_bytes ([CHR 0x22] @ username @ [CHR 0x22, CHR '','', CHR 0x22] @ password @ [CHR 0x22])"

definition logon_getLength :: "string \<Rightarrow> string \<Rightarrow> int" where
  "logon_getLength username password =
     (let bodyLen = int (length (getEncodedLogonString username password)) in parcelHeaderLen + bodyLen)"

definition logon_write :: "string \<Rightarrow> string \<Rightarrow> bufferWriter \<Rightarrow> bufferWriter option" where
  "logon_write username password w = do {
     w \<leftarrow> wr_u16 flavorLogon w;
     w \<leftarrow> wr_u16 (word_of_int (logon_getLength username password)) w;
     wr_bytes (getEncodedLogonString username password) w }"

definition logoff_write :: "bufferWriter \<Rightarrow> bufferWriter option" where
  "logoff_write w = do { w \<leftarrow> wr_u16 flavorLogoff w; wr_u16 (word_of_int parcelHeaderLen) w }"

definition sessionOptions_getLength :: "byte list \<Rightarrow> int" where
  "sessionOptions_getLength body = parcelHeaderLen + int (length body)"

definition sessionOptions_write :: "byte list \<Rightarrow> bufferWriter \<Rightarrow> bufferWriter option" where
  "sessionOptions_write body w = do {
     w \<leftarrow> wr_u16 flavorSessionOptions w;
     w \<leftarrow> wr_u16 (word_of_int (sessionOptions_getLength body)) w;
     wr_bytes body w }"

definition connect_getLength :: int where
  "connect_getLength = parcelHeaderLen + 24"

definition connect_write :: "string \<Rightarrow> int \<Rightarrow> int \<Rightarrow> bufferWriter \<Rightarrow> bufferWriter option" where
  "connect_write partitionName logonSeqNum function w = do {
     w \<leftarrow> wr_u16 flavorConnect w;
     w \<leftarrow> wr_u16 (word_of_int connect_getLength) w;
     w \<leftarrow> wr_bytes (str_bytes (padRight partitionName 16)) w;
     w \<leftarrow> wr_u32 (word_of_int logonSeqNum) w;
     w \<leftarrow> wr_u16 (word_of_int function) w;
     wr_u16 0 w }"

definition logonData_getLength :: "string \<Rightarrow> int" where
  "logonData_getLength logonData = parcelHeaderLen + int (length logonData)"

definition logonData_write :: "string \<Rightarrow> bufferWriter \<Rightarrow> bufferWriter option" where
  "logonData_write logonData w = do {
     w \<leftarrow> wr_u16 flavorData w;
     w \<leftarrow> wr_u16 (word_of_int (logonData_getLength logonData)) w;
     wr_bytes (str_bytes logonData) w }"

section \<open>Query parcels\<close>

definition request_getLength :: "byte list \<Rightarrow> int" where
  "request_getLength statement = parcelHeaderLen + int (length statement)"

definition request_write :: "byte list \<Rightarrow> bufferWriter \<Rightarrow> bufferWriter option" where
  "request_write statement w = do {
     w \<leftarrow> wr_u16 flavorRequest w;
     w \<leftarrow> wr_u16 (word_of_int (request_getLength statement)) w;
     wr_bytes statement w }"

text \<open>
  \<open>indicRequestParcel\<close> embeds a \<open>requestParcel\<close> and overrides \<open>getFlavor\<close> only: the promoted \<open>write\<close>
  runs on the embedded parcel, so it writes that parcel's flavor.
\<close>

definition indicRequest_write :: "byte list \<Rightarrow> bufferWriter \<Rightarrow> bufferWriter option" where
  "indicRequest_write statement w = request_write statement w"

definition fetchRowCount_write :: "u32 \<Rightarrow> bufferWriter \<Rightarrow> bufferWriter option" where
  "fetchRowCount_write rowCount w = do {
     w \<leftarrow> wr_u16 flavorFetchRowCount w;
     w \<leftarrow> wr_u16 (word_of_int 9) w;
     w \<leftarrow> wr_u32 rowCount w;
     wr_byte 1 w }"

definition boolOptionByteZero :: "bool \<Rightarrow> byte" where
  "boolOptionByteZero b = (if b then of_char (CHR ''Y'') else 0)"

definition boolOptionByteNo :: "bool \<Rightarrow> byte" where
  "boolOptionByteNo b = (if b then of_char (CHR ''Y'') else of_char (CHR ''N''))"

definition options_getLength :: "optionsParcel \<Rightarrow> int" where
  "options_getLength p =
     (let n = 10;
          n = (if o_dynamicResultSetsAllowed p then 11 else n);
          n = (if o_returnExtendedNames p \<or> o_returnPeriodStructs p \<or> o_trustMode p then 15 else n);
          n = (if o_arraySupport p then 16 else n);
          n = (if o_xmlSupport p \<or> o_failFast p then 18 else n);
          n = (if o_largeResponseSupport p then 21 else n);
          n = (if o_vdsSupport p then 22 else n)
      in parcelHeaderLen + n)"

text \<open>One option byte, written only while the parcel is shorter than its declared length.\<close>

definition opt_byte :: "int \<Rightarrow> int \<Rightarrow> byte \<Rightarrow> bufferWriter \<Rightarrow> bufferWriter option" where
  "opt_byte startPos n v w = (if wr_position w - startPos < n then wr_byte v w else Some w)"

definition options_write :: "optionsParcel \<Rightarrow> bufferWriter \<Rightarrow> bufferWriter option" where
  "options_write p w0 = do {
     let n = options_getLength p;
     let startPos = wr_position w0;
     w \<leftarrow> wr_u16 flavorOptions w0;
     w \<leftarrow> wr_u16 (word_of_int n) w;
     w \<leftarrow> wr_byte (o_requestMode p) w;
     w \<leftarrow> wr_byte (o_dBCFunction p) w;
     w \<leftarrow> (if o_lobSelect p then do { w \<leftarrow> wr_byte (o_lobMode p) w; wr_byte (of_char (CHR ''U'')) w }
          else wr_skip 2 w);
     w \<leftarrow> (if o_aphSupport p then wr_byte (of_char (CHR ''Y'')) w else wr_byte 0 w);
     w \<leftarrow> wr_byte (boolOptionByteZero (o_returnStatementInfo p)) w;
     w \<leftarrow> wr_byte (of_char (CHR ''Y'')) w;
     w \<leftarrow> wr_byte 38 w;
     w \<leftarrow> wr_byte 0 w;
     w \<leftarrow> wr_byte (boolOptionByteZero (o_dynamicResultSetsAllowed p)) w;
     w \<leftarrow> opt_byte startPos n 0 w;
     w \<leftarrow> opt_byte startPos n 0 w;
     w \<leftarrow> opt_byte startPos n (if o_returnExtendedNames p then 1 else 0) w;
     w \<leftarrow> opt_byte startPos n (boolOptionByteNo (o_trustMode p)) w;
     w \<leftarrow> opt_byte startPos n (boolOptionByteNo False) w;
     w \<leftarrow> opt_byte startPos n (boolOptionByteZero (o_arraySupport p)) w;
     w \<leftarrow> opt_byte startPos n (if o_xmlSupport p then o_xmlFormat p else 0) w;
     w \<leftarrow> opt_byte startPos n (boolOptionByteNo (o_failFast p)) w;
     w \<leftarrow> opt_byte startPos n (of_char (CHR ''N'')) w;
     w \<leftarrow> opt_byte startPos n (of_char (CHR ''N'')) w;
     w \<leftarrow> opt_byte startPos n 1 w;
     w \<leftarrow> opt_byte startPos n (boolOptionByteZero (o_includeCatalogName p)) w;
     wr_skip (startPos + n - wr_position w) w }"

definition cancel_write :: "bufferWriter \<Rightarrow> bufferWriter option" where
  "cancel_write w = do { w \<leftarrow> wr_u16 flavorCancel w; wr_u16 (word_of_int parcelHeaderLen) w }"

definition respond_getLength :: int where "respond_getLength = parcelHeaderLen + 2"

definition respond_write :: "u16 \<Rightarrow> bufferWriter \<Rightarrow> bufferWriter option" where
  "respond_write maxMessageSize w = do {
     w \<leftarrow> wr_u16 flavorRespond w;
     w \<leftarrow> wr_u16 (word_of_int respond_getLength) w;
     wr_u16 maxMessageSize w }"

definition keepRespond_write :: "u16 \<Rightarrow> bufferWriter \<Rightarrow> bufferWriter option" where
  "keepRespond_write maxMessageSize w = do {
     w \<leftarrow> wr_u16 flavorKeepRespond w;
     w \<leftarrow> wr_u16 (word_of_int respond_getLength) w;
     wr_u16 maxMessageSize w }"

definition bigRespond_getLength :: int where "bigRespond_getLength = parcelHeaderLen + 4"

definition bigRespond_write :: "u32 \<Rightarrow> bufferWriter \<Rightarrow> bufferWriter option" where
  "bigRespond_write maxMessageSize w = do {
     w \<leftarrow> wr_u16 flavorBigRespond w;
     w \<leftarrow> wr_u16 (word_of_int bigRespond_getLength) w;
     wr_u32 maxMessageSize w }"

definition bigKeepRespond_write :: "u32 \<Rightarrow> bufferWriter \<Rightarrow> bufferWriter option" where
  "bigKeepRespond_write maxMessageSize w = do {
     w \<leftarrow> wr_u16 flavorBigKeepRespond w;
     w \<leftarrow> wr_u16 (word_of_int bigRespond_getLength) w;
     wr_u32 maxMessageSize w }"

definition slobRespond_getLength :: int where "slobRespond_getLength = parcelHeaderLen + 16"

definition slobRespond_write :: "u64 \<Rightarrow> u64 \<Rightarrow> bufferWriter \<Rightarrow> bufferWriter option" where
  "slobRespond_write maxSingleLobBytes maxRowLobBytes w = do {
     w \<leftarrow> wr_u16 flavorSlobRespond w;
     w \<leftarrow> wr_u16 (word_of_int slobRespond_getLength) w;
     w \<leftarrow> wr_u64 maxSingleLobBytes w;
     wr_u64 maxRowLobBytes w }"

definition clientAttributes_getLength :: "byte list \<Rightarrow> int" where
  "clientAttributes_getLength attributeData = parcelHeaderLen + int (length attributeData)"

definition clientAttributes_write :: "byte list \<Rightarrow> bufferWriter \<Rightarrow> bufferWriter option" where
  "clientAttributes_write attributeData w = do {
     w \<leftarrow> wr_u16 flavorClientAttributes w;
     w \<leftarrow> wr_u16 (word_of_int (clientAttributes_getLength attributeData)) w;
     wr_bytes attributeData w }"

section \<open>Parameter parcels\<close>

fun wr_list :: "('a \<Rightarrow> bufferWriter \<Rightarrow> bufferWriter option) \<Rightarrow> 'a list \<Rightarrow> bufferWriter \<Rightarrow> bufferWriter option"
where
  "wr_list f [] w = Some w"
| "wr_list f (x # xs) w = do { w \<leftarrow> f x w; wr_list f xs w }"

definition dataInfo_getLength :: "paramDescriptor list \<Rightarrow> int" where
  "dataInfo_getLength params = parcelHeaderLen + 2 + int (length params) * 4"

definition dataInfo_write :: "paramDescriptor list \<Rightarrow> bufferWriter \<Rightarrow> bufferWriter option" where
  "dataInfo_write params w = do {
     w \<leftarrow> wr_u16 flavorDataInfo w;
     w \<leftarrow> wr_u16 (word_of_int (dataInfo_getLength params)) w;
     w \<leftarrow> wr_u16 (word_of_nat (length params)) w;
     wr_list (\<lambda>p w. do { w \<leftarrow> wr_u16 (p_dataType p) w; wr_u16 (ucast (p_length p)) w }) params w }"

definition indicData_getLength :: "paramDescriptor list \<Rightarrow> int" where
  "indicData_getLength params =
     (let nullmapLen = (int (length params) + 7) div 8
      in fold (\<lambda>p n. n + int (length (p_encoded p))) params (parcelHeaderLen + nullmapLen))"

definition nullmap :: "paramDescriptor list \<Rightarrow> byte list" where
  "nullmap params =
     fold (\<lambda>(i, v) m. if p_isNull v then m[i div 8 := (m ! (i div 8)) OR push_bit (7 - i mod 8) 1] else m)
       (enumerate 0 params) (replicate ((length params + 7) div 8) 0)"

definition indicData_write :: "paramDescriptor list \<Rightarrow> bufferWriter \<Rightarrow> bufferWriter option" where
  "indicData_write params w = do {
     w \<leftarrow> wr_u16 flavorIndicData w;
     w \<leftarrow> wr_u16 (word_of_int (indicData_getLength params)) w;
     w \<leftarrow> wr_bytes (nullmap params) w;
     wr_list (\<lambda>p w. wr_bytes (p_encoded p) w) params w }"

definition statementInfoRequest_getLength :: "paramDescriptor list \<Rightarrow> int" where
  "statementInfoRequest_getLength params =
     parcelHeaderLen + int (length params) * 6 + int (length params) * 16 + 6"

definition statementInfoRequest_write :: "paramDescriptor list \<Rightarrow> bufferWriter \<Rightarrow> bufferWriter option" where
  "statementInfoRequest_write params w = do {
     w \<leftarrow> wr_u16 flavorStatementInfo w;
     w \<leftarrow> wr_u16 (word_of_int (statementInfoRequest_getLength params)) w;
     w \<leftarrow> wr_list (\<lambda>p w. do {
         w \<leftarrow> wr_u16 2 w;
         w \<leftarrow> wr_u16 8 w;
         w \<leftarrow> wr_u16 16 w;
         w \<leftarrow> wr_u16 (p_dataType p) w;
         w \<leftarrow> wr_u64 (p_length p) w;
         w \<leftarrow> wr_u16 (p_precision p) w;
         w \<leftarrow> wr_u16 (p_intervalDigits p) w;
         wr_u16 (p_scale p) w }) params w;
     w \<leftarrow> wr_u16 4 w;
     w \<leftarrow> wr_u16 8 w;
     wr_u16 0 w }"

definition statementInfoEndRequest_write :: "bufferWriter \<Rightarrow> bufferWriter option" where
  "statementInfoEndRequest_write w = do {
     w \<leftarrow> wr_u16 flavorStementInfoEnd w;
     wr_u16 (word_of_int parcelHeaderLen) w }"

section \<open>LOB and FastLoad parcels\<close>

definition lobRequestLengthSentinel :: u32 where "lobRequestLengthSentinel = 2097088000"

definition lobRequestDataInfo_getLength :: int where
  "lobRequestDataInfo_getLength = parcelHeaderLen + 2 + 4"

definition lobRequestDataInfo_write :: "u16 \<Rightarrow> bufferWriter \<Rightarrow> bufferWriter option" where
  "lobRequestDataInfo_write dataType w = do {
     w \<leftarrow> wr_u16 flavorDataInfo w;
     w \<leftarrow> wr_u16 (word_of_int lobRequestDataInfo_getLength) w;
     w \<leftarrow> wr_u16 1 w;
     w \<leftarrow> wr_u16 dataType w;
     wr_u16 (ucast lobRequestLengthSentinel) w }"

definition lobRequestIndicData_getLength :: "byte list \<Rightarrow> int" where
  "lobRequestIndicData_getLength locator = parcelHeaderLen + 1 + 2 + int (length locator)"

definition lobRequestIndicData_write :: "byte list \<Rightarrow> bufferWriter \<Rightarrow> bufferWriter option" where
  "lobRequestIndicData_write locator w = do {
     w \<leftarrow> wr_u16 flavorIndicData w;
     w \<leftarrow> wr_u16 (word_of_int (lobRequestIndicData_getLength locator)) w;
     w \<leftarrow> wr_u8 0 w;
     w \<leftarrow> wr_u16 (word_of_nat (length locator)) w;
     wr_bytes locator w }"

definition fastLoadRows_getLength :: "byte list \<Rightarrow> int" where
  "fastLoadRows_getLength data = int (length data)"

definition fastLoadRows_write :: "byte list \<Rightarrow> bufferWriter \<Rightarrow> bufferWriter option" where
  "fastLoadRows_write data w = wr_bytes data w"

section \<open>The interface \<open>parcel\<close>\<close>

datatype parcel =
    ClientConfigParcel int
  | SsoRequestParcel byte byte "byte list"
  | AssignParcel "byte list"
  | LogonParcel string string
  | LogoffParcel
  | SessionOptionsParcel "byte list"
  | ConnectParcel string int int
  | LogonDataParcel string
  | RequestParcel "byte list"
  | IndicRequestParcel "byte list"
  | FetchRowCountParcel u32
  | OptionsParcel optionsParcel
  | CancelParcel
  | RespondParcel u16
  | KeepRespondParcel u16
  | BigRespondParcel u32
  | BigKeepRespondParcel u32
  | SlobRespondParcel u64 u64
  | ClientAttributesParcel "byte list"
  | DataInfoParcel "paramDescriptor list"
  | IndicDataParcel "paramDescriptor list"
  | StatementInfoRequestParcel "paramDescriptor list"
  | StatementInfoEndRequestParcel
  | LobRequestDataInfoParcel u16
  | LobRequestIndicDataParcel "byte list"
  | FastLoadRowsParcel "byte list"

fun getFlavor :: "parcel \<Rightarrow> u16" where
  "getFlavor (ClientConfigParcel _) = flavorClientConfig"
| "getFlavor (SsoRequestParcel _ _ _) = flavorSsoRequest"
| "getFlavor (AssignParcel _) = flavorAssign"
| "getFlavor (LogonParcel _ _) = flavorLogon"
| "getFlavor LogoffParcel = flavorLogoff"
| "getFlavor (SessionOptionsParcel _) = flavorSessionOptions"
| "getFlavor (ConnectParcel _ _ _) = flavorConnect"
| "getFlavor (LogonDataParcel _) = flavorData"
| "getFlavor (RequestParcel _) = flavorRequest"
| "getFlavor (IndicRequestParcel _) = flavorIndicRequest"
| "getFlavor (FetchRowCountParcel _) = flavorFetchRowCount"
| "getFlavor (OptionsParcel _) = flavorOptions"
| "getFlavor CancelParcel = flavorCancel"
| "getFlavor (RespondParcel _) = flavorRespond"
| "getFlavor (KeepRespondParcel _) = flavorKeepRespond"
| "getFlavor (BigRespondParcel _) = flavorBigRespond"
| "getFlavor (BigKeepRespondParcel _) = flavorBigKeepRespond"
| "getFlavor (SlobRespondParcel _ _) = flavorSlobRespond"
| "getFlavor (ClientAttributesParcel _) = flavorClientAttributes"
| "getFlavor (DataInfoParcel _) = flavorDataInfo"
| "getFlavor (IndicDataParcel _) = flavorIndicData"
| "getFlavor (StatementInfoRequestParcel _) = flavorStatementInfo"
| "getFlavor StatementInfoEndRequestParcel = flavorStementInfoEnd"
| "getFlavor (LobRequestDataInfoParcel _) = flavorDataInfo"
| "getFlavor (LobRequestIndicDataParcel _) = flavorIndicData"
| "getFlavor (FastLoadRowsParcel _) = flavorIndicData"

fun getLength :: "parcel \<Rightarrow> int" where
  "getLength (ClientConfigParcel l) = clientConfig_getLength l"
| "getLength (SsoRequestParcel _ _ d) = ssoRequest_getLength d"
| "getLength (AssignParcel u) = assign_getLength u"
| "getLength (LogonParcel u p) = logon_getLength u p"
| "getLength LogoffParcel = parcelHeaderLen"
| "getLength (SessionOptionsParcel b) = sessionOptions_getLength b"
| "getLength (ConnectParcel _ _ _) = connect_getLength"
| "getLength (LogonDataParcel d) = logonData_getLength d"
| "getLength (RequestParcel s) = request_getLength s"
| "getLength (IndicRequestParcel s) = request_getLength s"
| "getLength (FetchRowCountParcel _) = 9"
| "getLength (OptionsParcel p) = options_getLength p"
| "getLength CancelParcel = parcelHeaderLen"
| "getLength (RespondParcel _) = respond_getLength"
| "getLength (KeepRespondParcel _) = respond_getLength"
| "getLength (BigRespondParcel _) = bigRespond_getLength"
| "getLength (BigKeepRespondParcel _) = bigRespond_getLength"
| "getLength (SlobRespondParcel _ _) = slobRespond_getLength"
| "getLength (ClientAttributesParcel d) = clientAttributes_getLength d"
| "getLength (DataInfoParcel ps) = dataInfo_getLength ps"
| "getLength (IndicDataParcel ps) = indicData_getLength ps"
| "getLength (StatementInfoRequestParcel ps) = statementInfoRequest_getLength ps"
| "getLength StatementInfoEndRequestParcel = parcelHeaderLen"
| "getLength (LobRequestDataInfoParcel _) = lobRequestDataInfo_getLength"
| "getLength (LobRequestIndicDataParcel l) = lobRequestIndicData_getLength l"
| "getLength (FastLoadRowsParcel d) = fastLoadRows_getLength d"

fun parcel_write :: "parcel \<Rightarrow> bufferWriter \<Rightarrow> bufferWriter option" where
  "parcel_write (ClientConfigParcel l) w = clientConfig_write l w"
| "parcel_write (SsoRequestParcel m t d) w = ssoRequest_write m t d w"
| "parcel_write (AssignParcel u) w = assign_write u w"
| "parcel_write (LogonParcel u p) w = logon_write u p w"
| "parcel_write LogoffParcel w = logoff_write w"
| "parcel_write (SessionOptionsParcel b) w = sessionOptions_write b w"
| "parcel_write (ConnectParcel n l f) w = connect_write n l f w"
| "parcel_write (LogonDataParcel d) w = logonData_write d w"
| "parcel_write (RequestParcel s) w = request_write s w"
| "parcel_write (IndicRequestParcel s) w = indicRequest_write s w"
| "parcel_write (FetchRowCountParcel n) w = fetchRowCount_write n w"
| "parcel_write (OptionsParcel p) w = options_write p w"
| "parcel_write CancelParcel w = cancel_write w"
| "parcel_write (RespondParcel n) w = respond_write n w"
| "parcel_write (KeepRespondParcel n) w = keepRespond_write n w"
| "parcel_write (BigRespondParcel n) w = bigRespond_write n w"
| "parcel_write (BigKeepRespondParcel n) w = bigKeepRespond_write n w"
| "parcel_write (SlobRespondParcel m n) w = slobRespond_write m n w"
| "parcel_write (ClientAttributesParcel d) w = clientAttributes_write d w"
| "parcel_write (DataInfoParcel ps) w = dataInfo_write ps w"
| "parcel_write (IndicDataParcel ps) w = indicData_write ps w"
| "parcel_write (StatementInfoRequestParcel ps) w = statementInfoRequest_write ps w"
| "parcel_write StatementInfoEndRequestParcel w = statementInfoEndRequest_write w"
| "parcel_write (LobRequestDataInfoParcel t) w = lobRequestDataInfo_write t w"
| "parcel_write (LobRequestIndicDataParcel l) w = lobRequestIndicData_write l w"
| "parcel_write (FastLoadRowsParcel d) w = fastLoadRows_write d w"

section \<open>Constructor functions\<close>

definition newAssignParcel :: "string \<Rightarrow> parcel" where
  "newAssignParcel username = AssignParcel (str_bytes (padRight username 32))"

definition essBody :: "byte \<Rightarrow> connectionCapabilities \<Rightarrow> byte list" where
  "essBody tmode caps =
     (if cap_statementStatusLevel caps \<ge> 1
      then [tmode, of_char (CHR ''N''), of_char (CHR ''N''), of_char (CHR ''D''), of_char (CHR ''E''),
            0, 0, 0, 1, 0]
      else [tmode, of_char (CHR ''N''), of_char (CHR ''N''), of_char (CHR ''D''), 0, 0, 0, 0, 0, 0])"

definition newSessionOptionsParcel :: "Config \<Rightarrow> connectionCapabilities \<Rightarrow> parcel" where
  "newSessionOptionsParcel config caps =
     SessionOptionsParcel (essBody (if cfg_TMode config = ''TERA'' then of_char (CHR ''T'')
       else if cfg_TMode config = ''ANSI'' then of_char (CHR ''A'') else of_char (CHR ''D'')) caps)"

definition newFastLoadSessionOptionsParcel :: "connectionCapabilities \<Rightarrow> parcel" where
  "newFastLoadSessionOptionsParcel caps = SessionOptionsParcel (essBody (of_char (CHR ''T'')) caps)"

definition newConnectParcel :: "Config \<Rightarrow> int \<Rightarrow> parcel" where
  "newConnectParcel config logonSeqNum =
     ConnectParcel (cfg_Partition config) logonSeqNum (cfg_ConnectFunction config)"

definition newFastLoadControlConnectParcel :: parcel where
  "newFastLoadControlConnectParcel = ConnectParcel ''DBC/SQL'' 0 1"

definition newFastLoadDiagConnectParcel :: "int \<Rightarrow> parcel" where
  "newFastLoadDiagConnectParcel lsn = ConnectParcel ''DBC/SQL'' lsn 2"

definition newFastLoadDataConnectParcel :: "int \<Rightarrow> parcel" where
  "newFastLoadDataConnectParcel lsn = ConnectParcel ''FASTLOAD'' lsn 2"

definition newRequestParcel :: "string \<Rightarrow> parcel" where
  "newRequestParcel statement = RequestParcel (str_bytes (normalizeStatementText statement))"

definition newIndicRequestParcel :: "string \<Rightarrow> parcel" where
  "newIndicRequestParcel statement = IndicRequestParcel (str_bytes (normalizeStatementText statement))"

definition newFetchRowCountParcel :: "int \<Rightarrow> parcel" where
  "newFetchRowCountParcel rowCount = FetchRowCountParcel (word_of_int rowCount)"

definition newOptionsParcel ::
    "Config \<Rightarrow> connectionCapabilities \<Rightarrow> byte \<Rightarrow> byte \<Rightarrow> byte \<Rightarrow> optionsParcel" where
  "newOptionsParcel config caps requestMode dbcFunction lobMode =
     \<lparr>o_requestMode = requestMode, o_dBCFunction = dbcFunction,
      o_lobSelect = (cfg_LOBSupport config \<and> cap_lobSupport caps), o_lobMode = lobMode,
      o_returnStatementInfo = True,
      o_dynamicResultSetsAllowed = cap_dynamicResultSetsSupport caps,
      o_returnExtendedNames = cap_extNamesInParcels caps,
      o_returnPeriodStructs = cap_periodDataTypeSupport caps,
      o_trustMode = cap_trustedSQLSupport caps,
      o_xmlSupport = cap_xmlSupport caps, o_xmlFormat = of_char (CHR ''C''),
      o_failFast = cap_failFastSupport caps, o_vdsSupport = False,
      o_arraySupport = cap_arraySupport caps,
      o_largeResponseSupport = (cap_maxAvailableBytesInResponseRow caps > 64768),
      o_includeCatalogName = cap_otfSupport caps, o_aphSupport = cap_aphSupport caps\<rparr>"

definition requestModeFor :: "connectionCapabilities \<Rightarrow> byte" where
  "requestModeFor caps = (if cap_lobSupport caps then 77 else 73)"

definition newOptionsParcelInline :: "Config \<Rightarrow> connectionCapabilities \<Rightarrow> parcel" where
  "newOptionsParcelInline config caps =
     OptionsParcel (newOptionsParcel config caps (requestModeFor caps) (of_char (CHR ''B'')) (of_char (CHR ''S'')))"

definition newOptionsParcelPrepare :: "Config \<Rightarrow> connectionCapabilities \<Rightarrow> parcel" where
  "newOptionsParcelPrepare config caps =
     OptionsParcel (newOptionsParcel config caps (requestModeFor caps) (of_char (CHR ''S'')) (of_char (CHR ''S'')))"

definition newOptionsParcelExecute :: "Config \<Rightarrow> connectionCapabilities \<Rightarrow> parcel" where
  "newOptionsParcelExecute config caps =
     OptionsParcel (newOptionsParcel config caps (requestModeFor caps) (of_char (CHR ''E'')) (of_char (CHR ''S'')))"

definition newOptionsParcelLobSelect :: "Config \<Rightarrow> connectionCapabilities \<Rightarrow> parcel" where
  "newOptionsParcelLobSelect config caps =
     OptionsParcel (newOptionsParcel config caps (requestModeFor caps) (of_char (CHR ''E'')) (of_char (CHR ''I'')))"

definition respondMaxRow :: "connectionCapabilities \<Rightarrow> Config \<Rightarrow> int" where
  "respondMaxRow caps config =
     (if cap_maxAvailableBytesInResponseRow caps < cfg_MaxMessageSize config
      then cap_maxAvailableBytesInResponseRow caps else cfg_MaxMessageSize config)"

definition newRespondParcel :: "connectionCapabilities \<Rightarrow> Config \<Rightarrow> parcel" where
  "newRespondParcel caps config = RespondParcel (word_of_int (respondMaxRow caps config))"

definition newKeepRespondParcel :: "connectionCapabilities \<Rightarrow> Config \<Rightarrow> parcel" where
  "newKeepRespondParcel caps config = KeepRespondParcel (word_of_int (respondMaxRow caps config))"

definition newBigRespondParcel :: "connectionCapabilities \<Rightarrow> Config \<Rightarrow> parcel" where
  "newBigRespondParcel caps config = BigRespondParcel (word_of_int (respondMaxRow caps config))"

definition newBigKeepRespondParcel :: "connectionCapabilities \<Rightarrow> Config \<Rightarrow> parcel" where
  "newBigKeepRespondParcel caps config = BigKeepRespondParcel (word_of_int (respondMaxRow caps config))"

definition newSlobRespondParcel :: "connectionCapabilities \<Rightarrow> Config \<Rightarrow> parcel" where
  "newSlobRespondParcel caps config =
     SlobRespondParcel (word_of_int (cfg_LOBRecieveThreshold config)) (word_of_int (respondMaxRow caps config))"

section \<open>Images\<close>

text \<open>
  The bytes each parcel stands for on the wire, and the fact that its \<open>write\<close> emits exactly them.
\<close>

definition hdr :: "u16 \<Rightarrow> int \<Rightarrow> byte list" where
  "hdr flavor n = be_enc 2 (unat flavor) @ be_enc 2 (unat (word_of_int n :: u16))"

definition tlv :: "u16 \<Rightarrow> byte list \<Rightarrow> byte list" where
  "tlv tag v = be_enc 2 (unat tag) @ be_enc 2 (unat (word_of_nat (length v) :: u16)) @ v"

definition options_full :: "optionsParcel \<Rightarrow> byte list" where
  "options_full p = hdr flavorOptions (options_getLength p)
     @ [o_requestMode p, o_dBCFunction p]
     @ (if o_lobSelect p then [o_lobMode p, of_char (CHR ''U'')] else [0, 0])
     @ [if o_aphSupport p then of_char (CHR ''Y'') else 0,
        boolOptionByteZero (o_returnStatementInfo p), of_char (CHR ''Y''), 38, 0,
        boolOptionByteZero (o_dynamicResultSetsAllowed p), 0, 0,
        if o_returnExtendedNames p then 1 else 0, boolOptionByteNo (o_trustMode p),
        boolOptionByteNo False, boolOptionByteZero (o_arraySupport p),
        if o_xmlSupport p then o_xmlFormat p else 0, boolOptionByteNo (o_failFast p),
        of_char (CHR ''N''), of_char (CHR ''N''), 1, boolOptionByteZero (o_includeCatalogName p)]"

definition param_info :: "paramDescriptor \<Rightarrow> byte list" where
  "param_info p = be_enc 2 (unat (p_dataType p)) @ be_enc 2 (unat (ucast (p_length p) :: u16))"

definition param_meta :: "paramDescriptor \<Rightarrow> byte list" where
  "param_meta p = be_enc 2 2 @ be_enc 2 8 @ be_enc 2 16 @ be_enc 2 (unat (p_dataType p))
     @ be_enc 8 (unat (p_length p)) @ be_enc 2 (unat (p_precision p))
     @ be_enc 2 (unat (p_intervalDigits p)) @ be_enc 2 (unat (p_scale p))"

text \<open>The body of a parcel: everything behind its four header bytes.\<close>

fun parcel_body :: "parcel \<Rightarrow> byte list" where
  "parcel_body (ClientConfigParcel l) =
     be_enc 4 1 @ tlv 2 tdGssVersion @ tlv 1 driverVersion
     @ (if l \<ge> 1 then tlv 4 [] @ tlv 8 staticBytes else []) @ (if l \<ge> 2 then tlv 3 [] else [])
     @ (if l \<ge> 3 then tlv 5 [] else []) @ tlv 9 staticBytes @ tlv 11 staticBytes
     @ tlv 14 [] @ tlv 15 []"
| "parcel_body (SsoRequestParcel m t d) =
     [m, t] @ be_enc 2 (unat (word_of_nat (length d) :: u16)) @ d"
| "parcel_body (AssignParcel u) = u"
| "parcel_body (LogonParcel u p) = getEncodedLogonString u p"
| "parcel_body LogoffParcel = []"
| "parcel_body (SessionOptionsParcel b) = b"
| "parcel_body (ConnectParcel n l f) =
     str_bytes (padRight n 16) @ be_enc 4 (unat (word_of_int l :: u32))
     @ be_enc 2 (unat (word_of_int f :: u16)) @ be_enc 2 0"
| "parcel_body (LogonDataParcel d) = str_bytes d"
| "parcel_body (RequestParcel s) = s"
| "parcel_body (IndicRequestParcel s) = s"
| "parcel_body (FetchRowCountParcel n) = be_enc 4 (unat n) @ [1]"
| "parcel_body (OptionsParcel p) = drop 4 (take (nat (options_getLength p)) (options_full p))"
| "parcel_body CancelParcel = []"
| "parcel_body (RespondParcel n) = be_enc 2 (unat n)"
| "parcel_body (KeepRespondParcel n) = be_enc 2 (unat n)"
| "parcel_body (BigRespondParcel n) = be_enc 4 (unat n)"
| "parcel_body (BigKeepRespondParcel n) = be_enc 4 (unat n)"
| "parcel_body (SlobRespondParcel m n) = be_enc 8 (unat m) @ be_enc 8 (unat n)"
| "parcel_body (ClientAttributesParcel d) = d"
| "parcel_body (DataInfoParcel ps) =
     be_enc 2 (unat (word_of_nat (length ps) :: u16)) @ concat (map param_info ps)"
| "parcel_body (IndicDataParcel ps) = nullmap ps @ concat (map p_encoded ps)"
| "parcel_body (StatementInfoRequestParcel ps) =
     concat (map param_meta ps) @ be_enc 2 4 @ be_enc 2 8 @ be_enc 2 0"
| "parcel_body StatementInfoEndRequestParcel = []"
| "parcel_body (LobRequestDataInfoParcel t) =
     be_enc 2 1 @ be_enc 2 (unat t) @ be_enc 2 (unat (ucast lobRequestLengthSentinel :: u16))"
| "parcel_body (LobRequestIndicDataParcel l) =
     [0] @ be_enc 2 (unat (word_of_nat (length l) :: u16)) @ l"
| "parcel_body (FastLoadRowsParcel d) = drop 4 d"

text \<open>The flavor that reaches the wire; \<open>indicRequestParcel\<close> is sent as a plain request.\<close>

fun wire_flavor :: "parcel \<Rightarrow> u16" where
  "wire_flavor (IndicRequestParcel s) = flavorRequest"
| "wire_flavor p = getFlavor p"

fun parcel_image :: "parcel \<Rightarrow> byte list" where
  "parcel_image (FastLoadRowsParcel d) = d"
| "parcel_image p = hdr (wire_flavor p) (getLength p) @ parcel_body p"

text \<open>What a parcel's \<open>write\<close> relies on: a partition name that fits its 16 bytes, and at least one
  row to load.\<close>

fun parcel_ok :: "parcel \<Rightarrow> bool" where
  "parcel_ok (ConnectParcel n l f) \<longleftrightarrow>
     length n \<le> 16 \<and> list_all (\<lambda>c. of_char c < (128 :: nat)) n"
| "parcel_ok (FastLoadRowsParcel d) \<longleftrightarrow> d \<noteq> []"
| "parcel_ok _ \<longleftrightarrow> True"

section \<open>Conditional writes\<close>

lemma emit_cond:
  "Option.bind (emit xs w) (\<lambda>u. Option.bind (if c then emit ys u else Some u) f) =
     Option.bind (emit (xs @ (if c then ys else [])) w) f"
  by (cases c) (simp_all add: emit_bind_append)

lemma wr_position_emit: "emit xs w = Some u \<Longrightarrow> wr_position u = w_indx w + int (length xs)"
  by (simp add: wr_position_def emit_frame(1))

lemma opt_byte_take:
  assumes "startPos = w_indx w"
  shows "Option.bind (emit (take m ys) w) (\<lambda>u. Option.bind (opt_byte startPos (int m) v u) f) =
     Option.bind (emit (take m (ys @ [v])) w) f"
proof -
  have "opt_byte startPos (int m) v u = (if length ys < m then emit [v] u else Some u)"
    if "emit (take m ys) w = Some u" for u
    using wr_position_emit [OF that] assms by (auto simp: opt_byte_def wr_byte_emit)
  then have "Option.bind (emit (take m ys) w) (\<lambda>u. Option.bind (opt_byte startPos (int m) v u) f) =
     Option.bind (emit (take m ys) w) (\<lambda>u. Option.bind (if length ys < m then emit [v] u else Some u) f)"
    by (cases "emit (take m ys) w") simp_all
  also have "\<dots> = Option.bind (emit (take m ys @ (if length ys < m then [v] else [])) w) f"
    by (rule emit_cond)
  also have "take m ys @ (if length ys < m then [v] else []) = take m (ys @ [v])"
    by (cases "m - length ys") auto
  finally show ?thesis .
qed

lemma wr_skip_rest:
  assumes "startPos = w_indx w" "length xs = m"
  shows "Option.bind (emit xs w) (\<lambda>u. wr_skip (startPos + int m - wr_position u) u) = emit xs w"
proof (cases "emit xs w")
  case (Some u)
  then show ?thesis using wr_position_emit [OF Some] assms by (simp add: wr_skip_def)
qed simp

lemma wr_list_emit:
  assumes "\<And>x w. f x w = emit (g x) w"
  shows "Option.bind (emit ys w) (wr_list f xs) = emit (ys @ concat (map g xs)) w"
proof (induction xs arbitrary: ys)
  case Nil
  have "wr_list f [] = Some" by (rule ext) simp
  then show ?case by (simp add: emit_return)
next
  case (Cons x xs)
  have "wr_list f (x # xs) = (\<lambda>w. Option.bind (emit (g x) w) (wr_list f xs))"
    by (rule ext) (simp add: assms)
  then show ?case
    using Cons.IH [of "ys @ g x"] by (simp add: emit_bind_append)
qed

lemma wr_bytes_list_after_emit:
  "ys \<noteq> [] \<Longrightarrow> Option.bind (emit ys w) (wr_list (\<lambda>x. wr_bytes (g x)) xs) = emit (ys @ concat (map g xs)) w"
proof (induction xs arbitrary: ys)
  case Nil
  have "wr_list (\<lambda>x. wr_bytes (g x)) [] = Some" by (rule ext) simp
  then show ?case by (simp add: emit_return)
next
  case (Cons x xs)
  have "wr_list (\<lambda>x. wr_bytes (g x)) (x # xs) =
      (\<lambda>w. Option.bind (wr_bytes (g x) w) (wr_list (\<lambda>x. wr_bytes (g x)) xs))"
    by (rule ext) simp
  then show ?case
    using Cons by (simp add: wr_bytes_after_emit_bind)
qed

lemma be_enc_2_neq_Nil [simp]: "be_enc 2 v \<noteq> []"
  by (simp add: be_enc_2)

lemma wr_tlv16_emit [emit_simps]: "wr_tlv16 tag v w = emit (tlv tag v) w"
  by (simp add: wr_tlv16_def tlv_def emit_simps)

lemma wr_tz16_emit [emit_simps]: "wr_tz16 tag w = emit (tlv tag []) w"
  by (simp add: wr_tz16_def tlv_def emit_simps)

lemma nullmap_length [simp]: "length (nullmap ps) = (length ps + 7) div 8"
proof -
  have "length (fold (\<lambda>(i, v) m. if p_isNull v then m[i div 8 := f m i] else m) xs m) = length m"
    for f :: "byte list \<Rightarrow> nat \<Rightarrow> byte" and xs :: "(nat \<times> paramDescriptor) list" and m :: "byte list"
    by (induction xs arbitrary: m) auto
  from this [of "\<lambda>m i. m ! (i div 8) OR push_bit (7 - i mod 8) 1"] show ?thesis
    by (simp add: nullmap_def)
qed

section \<open>Every parcel writes its image\<close>

lemma options_getLength_range:
  "\<exists>m. options_getLength p = int m \<and> 14 \<le> m \<and> m \<le> 26"
  by (auto simp: options_getLength_def parcelHeaderLen_def Let_def
      intro: exI [of _ 14] exI [of _ 15] exI [of _ 19] exI [of _ 20] exI [of _ 22] exI [of _ 25]
        exI [of _ 26])

lemma length_options_full: "length (options_full p) = 26"
  by (simp add: options_full_def hdr_def)

lemma hdr_neq_Nil [simp]: "hdr f n \<noteq> []"
  by (simp add: hdr_def)

lemma length_hdr [simp]: "length (hdr f n) = 4"
  by (simp add: hdr_def)

lemma options_write_emit:
  "options_write p w = emit (hdr flavorOptions (options_getLength p) @ parcel_body (OptionsParcel p)) w"
proof -
  obtain m where m: "options_getLength p = int m" "14 \<le> m" "m \<le> 26"
    using options_getLength_range [of p] by blast
  let ?h = "hdr flavorOptions (options_getLength p)
     @ [o_requestMode p, o_dBCFunction p]
     @ (if o_lobSelect p then [o_lobMode p, of_char (CHR ''U'')] else [0, 0])
     @ [if o_aphSupport p then of_char (CHR ''Y'') else 0,
        boolOptionByteZero (o_returnStatementInfo p), of_char (CHR ''Y''), 38, 0,
        boolOptionByteZero (o_dynamicResultSetsAllowed p)]"
  have h: "take m ?h = ?h" using m by simp
  have skip2: "wr_skip 2 = emit [0, 0]"
    by (rule ext) (simp add: wr_skip_emit numeral_2_eq_2)
  have start: "options_write p w = Option.bind (emit ?h w) (\<lambda>w'. do {
     let n = int m; startPos = w_indx w in do {
     w \<leftarrow> opt_byte startPos n 0 w';
     w \<leftarrow> opt_byte startPos n 0 w;
     w \<leftarrow> opt_byte startPos n (if o_returnExtendedNames p then 1 else 0) w;
     w \<leftarrow> opt_byte startPos n (boolOptionByteNo (o_trustMode p)) w;
     w \<leftarrow> opt_byte startPos n (boolOptionByteNo False) w;
     w \<leftarrow> opt_byte startPos n (boolOptionByteZero (o_arraySupport p)) w;
     w \<leftarrow> opt_byte startPos n (if o_xmlSupport p then o_xmlFormat p else 0) w;
     w \<leftarrow> opt_byte startPos n (boolOptionByteNo (o_failFast p)) w;
     w \<leftarrow> opt_byte startPos n (of_char (CHR ''N'')) w;
     w \<leftarrow> opt_byte startPos n (of_char (CHR ''N'')) w;
     w \<leftarrow> opt_byte startPos n 1 w;
     w \<leftarrow> opt_byte startPos n (boolOptionByteZero (o_includeCatalogName p)) w;
     wr_skip (startPos + n - wr_position w) w }})"
    unfolding options_write_def Let_def wr_position_def [of w]
    by (simp add: emit_simps skip2 m(1) hdr_def cong: if_cong)
  have full: "length (take m (options_full p)) = m"
    using m(3) by (simp add: length_options_full)
  have "options_write p w = emit (take m (options_full p)) w"
    unfolding start Let_def
    by (subst h [symmetric])
      (simp only: opt_byte_take [OF refl] append.assoc append_Cons append_Nil options_full_def
        wr_skip_rest [OF refl full, unfolded options_full_def append.assoc append_Cons append_Nil])
  also have "take m (options_full p) = hdr flavorOptions (options_getLength p)
      @ parcel_body (OptionsParcel p)"
    using m by (simp add: options_full_def)
  finally show ?thesis .
qed

lemma clientConfig_write_emit:
  "clientConfig_write l w = emit (hdr flavorClientConfig (clientConfig_getLength l)
     @ parcel_body (ClientConfigParcel l)) w"
  by (simp add: clientConfig_write_def emit_simps emit_cond hdr_def)

lemma wr_u16_fun: "wr_u16 v = emit (be_enc 2 (unat v))"
  by (rule ext) (rule wr_u16_emit)

lemma wr_u32_fun: "wr_u32 v = emit (be_enc 4 (unat v))"
  by (rule ext) (rule wr_u32_emit)

lemma wr_u64_fun: "wr_u64 v = emit (be_enc 8 (unat v))"
  by (rule ext) (rule wr_u64_emit)

lemma wr_byte_fun: "wr_byte v = emit [v]"
  by (rule ext) (rule wr_byte_emit)

lemmas wr_funs = wr_u16_fun wr_u32_fun wr_u64_fun wr_byte_fun

lemma dataInfo_write_emit:
  "dataInfo_write ps w = emit (parcel_image (DataInfoParcel ps)) w"
proof -
  have "wr_list (\<lambda>p w. do { w \<leftarrow> wr_u16 (p_dataType p) w; wr_u16 (ucast (p_length p)) w }) ps
      = wr_list (\<lambda>p. emit (param_info p)) ps"
    by (rule arg_cong [of _ _ "\<lambda>f. wr_list f ps"], intro ext)
      (simp add: wr_funs emit_append param_info_def)
  then show ?thesis
    by (simp add: dataInfo_write_def wr_funs emit_bind_append emit_append wr_list_emit hdr_def)
qed

lemma wr_list_emit_bind:
  "Option.bind (emit ys w) (\<lambda>u. Option.bind (wr_list (\<lambda>x. emit (g x)) xs u) f) =
     Option.bind (emit (ys @ concat (map g xs)) w) f"
  using wr_list_emit [of "\<lambda>x. emit (g x)" g ys w xs] by (simp flip: bind_assoc)

lemma statementInfoRequest_write_emit:
  "statementInfoRequest_write ps w = emit (parcel_image (StatementInfoRequestParcel ps)) w"
  by (simp add: statementInfoRequest_write_def wr_funs emit_bind_append emit_append
      wr_list_emit_bind hdr_def param_meta_def [abs_def])

lemma indicData_write_emit:
  "indicData_write ps w = emit (parcel_image (IndicDataParcel ps)) w"
  by (simp add: indicData_write_def wr_funs emit_bind_append wr_bytes_after_emit_bind
      emit_append wr_bytes_list_after_emit hdr_def)

lemma parcel_write_image:
  assumes "p \<noteq> FastLoadRowsParcel []"
  shows "parcel_write p w = emit (parcel_image p) w"
proof (cases p)
  case (ClientConfigParcel l)
  then show ?thesis by (simp add: clientConfig_write_emit)
next
  case (OptionsParcel o')
  then show ?thesis by (simp add: options_write_emit)
next
  case (DataInfoParcel ps)
  then show ?thesis by (simp add: dataInfo_write_emit)
next
  case (StatementInfoRequestParcel ps)
  then show ?thesis by (simp add: statementInfoRequest_write_emit)
next
  case (IndicDataParcel ps)
  then show ?thesis by (simp add: indicData_write_emit)
next
  case (FastLoadRowsParcel d)
  then show ?thesis using assms by (simp add: fastLoadRows_write_def wr_bytes_emit)
qed (simp_all add: ssoRequest_write_def assign_write_def logon_write_def logoff_write_def
    sessionOptions_write_def connect_write_def logonData_write_def request_write_def
    indicRequest_write_def fetchRowCount_write_def cancel_write_def respond_write_def
    keepRespond_write_def bigRespond_write_def bigKeepRespond_write_def slobRespond_write_def
    clientAttributes_write_def statementInfoEndRequest_write_def lobRequestDataInfo_write_def
    lobRequestIndicData_write_def wr_u8_emit wr_funs emit_simps hdr_def)

lemma parcel_write_emit: "parcel_ok p \<Longrightarrow> parcel_write p w = emit (parcel_image p) w"
  by (rule parcel_write_image) auto

lemma parcel_write_emit_pos:
  assumes "p = FastLoadRowsParcel [] \<longrightarrow> 0 < w_indx w" "w_indx w \<le> int (length (w_buff w))"
  shows "parcel_write p w = emit (parcel_image p) w"
  using assms by (cases "p = FastLoadRowsParcel []") (simp_all add: parcel_write_image fastLoadRows_write_def wr_bytes_emit_pos)

lemma indicData_getLength_sum:
  "indicData_getLength ps = parcelHeaderLen + (int (length ps) + 7) div 8
     + int (length (concat (map p_encoded ps)))"
proof -
  have "fold (\<lambda>p n. n + int (length (p_encoded p))) ps a = a + int (length (concat (map p_encoded ps)))"
    for a and ps :: "paramDescriptor list"
    by (induction ps arbitrary: a) simp_all
  then show ?thesis by (simp add: indicData_getLength_def)
qed

lemma length_param_parts: "length (param_info p) = 4" "length (param_meta p) = 22"
  by (simp_all add: param_info_def param_meta_def)

lemma length_concat_const: "(\<And>x. length (f x) = k) \<Longrightarrow> length (concat (map f xs)) = length xs * k"
  by (induction xs) auto

lemma parcel_image_length:
  assumes "parcel_ok p"
  shows "int (length (parcel_image p)) = getLength p"
proof (cases p)
  case (OptionsParcel o')
  then show ?thesis
    using options_getLength_range [of o'] by (auto simp: length_options_full)
next
  case (ConnectParcel n l f)
  then show ?thesis
    using assms by (simp add: connect_getLength_def parcelHeaderLen_def length_padRight_ascii)
next
  case (DataInfoParcel ps)
  then show ?thesis
    by (simp add: dataInfo_getLength_def parcelHeaderLen_def length_concat_const [of param_info 4]
        length_param_parts)
next
  case (StatementInfoRequestParcel ps)
  then show ?thesis
    by (simp add: statementInfoRequest_getLength_def parcelHeaderLen_def
        length_concat_const [of param_meta 22] length_param_parts)
next
  case (IndicDataParcel ps)
  then show ?thesis
    by (simp add: indicData_getLength_sum parcelHeaderLen_def zdiv_int)
qed (simp_all add: clientConfig_getLength_def ssoRequest_getLength_def assign_getLength_def
    logon_getLength_def sessionOptions_getLength_def logonData_getLength_def request_getLength_def
    respond_getLength_def bigRespond_getLength_def slobRespond_getLength_def
    clientAttributes_getLength_def lobRequestDataInfo_getLength_def lobRequestIndicData_getLength_def
    fastLoadRows_getLength_def parcelHeaderLen_def tlv_def tdGssVersion_def driverVersion_def
    staticBytes_def Let_def)

text \<open>How far a parcel is written past the length it declares: a connect parcel pads its partition name to 16
  characters and does not cut it.\<close>

fun overrun :: "parcel \<Rightarrow> int" where
  "overrun (ConnectParcel n l f) = int (length (str_bytes (padRight n 16))) - 16"
| "overrun _ = 0"

lemma overrun_ok: "parcel_ok p \<Longrightarrow> overrun p = 0"
  by (cases p) (simp_all add: length_padRight_ascii)

lemma parcel_image_overrun: "int (length (parcel_image p)) = getLength p + overrun p"
proof (cases "parcel_ok p")
  case True
  then show ?thesis by (simp add: parcel_image_length overrun_ok)
next
  case False
  then show ?thesis
    by (cases p) (simp_all add: connect_getLength_def parcelHeaderLen_def fastLoadRows_getLength_def)
qed

section \<open>The contract of a parcel\<close>

text \<open>
  What a caller of the interface \<open>parcel\<close> relies on: a parcel declares its length, its \<open>write\<close> emits
  that many bytes, and they open with the header other parcels are found by.
\<close>

locale request_parcel =
  fixes ok :: "'p \<Rightarrow> bool" and framed :: "'p \<Rightarrow> bool"
    and flavor :: "'p \<Rightarrow> u16" and len :: "'p \<Rightarrow> int"
    and wr :: "'p \<Rightarrow> bufferWriter \<Rightarrow> bufferWriter option"
    and image :: "'p \<Rightarrow> byte list" and body :: "'p \<Rightarrow> byte list"
  assumes wr_image: "ok p \<Longrightarrow> wr p w = emit (image p) w"
    and image_length: "ok p \<Longrightarrow> int (length (image p)) = len p"
    and image_framed: "framed p \<Longrightarrow> image p = hdr (flavor p) (len p) @ body p"
    and flavor_plain: "flavor p AND 0x8000 = 0"
begin

lemma wr_all:
  "list_all ok ps \<Longrightarrow> Option.bind (emit xs w) (wr_list wr ps) = emit (xs @ concat (map image ps)) w"
proof (induction ps arbitrary: xs)
  case Nil
  have "wr_list wr [] = Some" by (rule ext) simp
  then show ?case by (simp add: emit_return)
next
  case (Cons p ps)
  have "wr_list wr (p # ps) = (\<lambda>w. Option.bind (emit (image p) w) (wr_list wr ps))"
    using Cons.prems by (intro ext) (simp add: wr_image)
  then show ?case using Cons by (simp add: emit_bind_append)
qed

lemma length_all:
  "list_all ok ps \<Longrightarrow> int (length (concat (map image ps))) = sum_list (map len ps)"
  by (induction ps) (auto simp: image_length)

lemma wr_exact:
  assumes "ok p" "room w (len p)"
  obtains w' where "wr p w = Some w'" "w_indx w' = w_indx w + len p"
    "slice (w_buff w') (w_indx w) (w_indx w') = Some (image p)"
    "length (w_buff w') = length (w_buff w)"
proof -
  have "room w (int (length (image p)))" using assms image_length by simp
  then obtain w' where w': "emit (image p) w = Some w'" using emit_defined by blast
  show thesis
    using that [of w'] emit_frame [OF w'] w' image_length [OF assms(1)] by (simp add: wr_image assms(1))
qed

lemma header_back:
  assumes "ok p" "framed p" "len p < 65536"
  shows "readParcelHeader (rdr pre (image p @ s) l) =
    Some (flavor p, len p, False, rdr (pre @ hdr (flavor p) (len p)) (body p @ s) l)"
proof -
  have "0 \<le> len p" using image_length [OF assms(1)] by linarith
  then have "uint (word_of_int (len p) :: u16) = len p"
    using assms(3) by (simp add: uint_word_of_int)
  then show ?thesis
    by (simp add: image_framed [OF assms(2)] hdr_def readParcelHeader_rdr flavor_plain)
qed

end

fun parcel_framed :: "parcel \<Rightarrow> bool" where
  "parcel_framed (FastLoadRowsParcel d) \<longleftrightarrow> False"
| "parcel_framed _ \<longleftrightarrow> True"

lemma wire_flavor_plain: "wire_flavor p AND 0x8000 = 0"
  by (cases p) simp_all

interpretation request_parcels:
  request_parcel parcel_ok parcel_framed wire_flavor getLength parcel_write parcel_image parcel_body
proof
  fix p
  show "parcel_framed p \<Longrightarrow> parcel_image p = hdr (wire_flavor p) (getLength p) @ parcel_body p"
    by (cases p) simp_all
qed (simp_all add: parcel_write_emit parcel_image_length wire_flavor_plain)

section \<open>Properties\<close>

lemma parcel_image_framed:
  "parcel_framed p \<Longrightarrow> parcel_image p = hdr (wire_flavor p) (getLength p) @ parcel_body p"
  by (cases p) simp_all

lemma wire_header_back:
  assumes "parcel_framed p"
  shows "readParcelHeader (rdr pre (parcel_image p @ s) l)
    = Some (wire_flavor p, getLength p mod 65536, False, rdr (pre @ hdr (wire_flavor p) (getLength p)) (parcel_body p @ s) l)"
  by (simp add: parcel_image_framed [OF assms] hdr_def readParcelHeader_rdr wire_flavor_plain uint_word_of_int)

text \<open>C22: What a request parcel of the driver writes, for each of its kinds and whatever it holds. Into a buffer with the
  room for it the write succeeds; it advances by exactly the length the parcel declares with \<open>getLength\<close> and
  keeps the size of the buffer. Only a connect parcel can write more, by what its partition name, padded to 16
  characters, has over 16 bytes (\<open>overrun\<close>): 0 for an ASCII name of at most 16. The bytes of a parcel are a header
  and its body; a reader placed before them, whatever surrounds them, finds the flavor of \<open>getFlavor\<close> and the low
  16 bits of \<open>getLength\<close>, and is then at the body. There are two exceptions. An \<open>IndicRequest\<close>, whose \<open>getFlavor\<close>
  says 69, is written with the flavor 1 of a plain request; the rows of a bulk load, which are framed already, are
  written as they are, without a header (none at all cannot be written at the start of a buffer).\<close>

theorem parcel_write_exact:
  assumes "room w (getLength p + overrun p)" "p = FastLoadRowsParcel [] \<longrightarrow> 0 < w_indx w"
  shows "\<exists>w' img. parcel_write p w = Some w' \<and> w_indx w' = w_indx w + (getLength p + overrun p)
    \<and> length (w_buff w') = length (w_buff w) \<and> slice (w_buff w') (w_indx w) (w_indx w') = Some img
    \<and> (parcel_ok p \<longrightarrow> overrun p = 0)
    \<and> (case p of FastLoadRowsParcel d \<Rightarrow> img = d
        | _ \<Rightarrow> drop 4 img = parcel_body p \<and> (\<forall>pre s l. readParcelHeader (rdr pre (img @ s) l)
            = Some (case p of IndicRequestParcel t \<Rightarrow> flavorRequest | _ \<Rightarrow> getFlavor p, getLength p mod 65536, False,
                rdr (pre @ take 4 img) (parcel_body p @ s) l)))"
proof -
  have room: "room w (int (length (parcel_image p)))" using assms(1) by (simp add: parcel_image_overrun)
  then obtain w' where w': "emit (parcel_image p) w = Some w'" using emit_defined by blast
  have "parcel_write p w = Some w'"
    using parcel_write_emit_pos [OF assms(2)] w' room by (auto simp: room_def)
  moreover have "case p of FastLoadRowsParcel d \<Rightarrow> parcel_image p = d
      | _ \<Rightarrow> drop 4 (parcel_image p) = parcel_body p \<and> (\<forall>pre s l. readParcelHeader (rdr pre (parcel_image p @ s) l)
            = Some (case p of IndicRequestParcel t \<Rightarrow> flavorRequest | _ \<Rightarrow> getFlavor p, getLength p mod 65536, False,
                rdr (pre @ take 4 (parcel_image p)) (parcel_body p @ s) l))"
  proof (cases "parcel_framed p")
    case True
    have four: "take 4 (parcel_image p) = hdr (wire_flavor p) (getLength p)" "drop 4 (parcel_image p) = parcel_body p"
      using parcel_image_framed [OF True] by (simp_all add: hdr_def)
    have "(case p of IndicRequestParcel t \<Rightarrow> flavorRequest | _ \<Rightarrow> getFlavor p) = wire_flavor p"
      by (cases p) simp_all
    then have "drop 4 (parcel_image p) = parcel_body p \<and> (\<forall>pre s l. readParcelHeader (rdr pre (parcel_image p @ s) l)
            = Some (case p of IndicRequestParcel t \<Rightarrow> flavorRequest | _ \<Rightarrow> getFlavor p, getLength p mod 65536, False,
                rdr (pre @ take 4 (parcel_image p)) (parcel_body p @ s) l))"
      using wire_header_back [OF True] four by simp
    then show ?thesis using True by (cases p) (simp_all only: parcel.case parcel_framed.simps simp_thms)
  qed (cases p; simp)
  ultimately show ?thesis
    using emit_frame [OF w'] parcel_image_overrun [of p] overrun_ok [of p] by (intro exI [of _ w'] exI [of _ "parcel_image p"]) simp
qed

theorem parcel_write_exact_witness:
  "\<exists>w' img. parcel_write (newConnectParcel NewConfig 7) (newBufferWriter (replicate 30 0)) = Some w'
    \<and> w_indx w' = 28 \<and> slice (w_buff w') 0 28 = Some img
    \<and> (\<exists>r. readParcelHeader (rdr [] img 28) = Some (88, 28, False, r))"
proof -
  let ?p = "newConnectParcel NewConfig 7"
  have p: "?p = ConnectParcel ''DBC/SQL'' 7 0"
    by (simp add: newConnectParcel_def NewConfig_def normalize_updates emptyConfig_def)
  have l: "getLength ?p = 28" by (simp add: p connect_getLength_def parcelHeaderLen_def)
  have ov: "overrun ?p = 0" by (rule overrun_ok) (simp add: p)
  have "room (newBufferWriter (replicate 30 0)) (getLength ?p + overrun ?p)"
    unfolding l ov by (simp add: room_def newBufferWriter_def)
  from parcel_write_exact [OF this] obtain w' img where w: "parcel_write ?p (newBufferWriter (replicate 30 0)) = Some w'"
    "w_indx w' = 28" "slice (w_buff w') 0 28 = Some img"
    "\<forall>pre s l. \<exists>r. readParcelHeader (rdr pre (img @ s) l) = Some (88, 28, False, r)"
    unfolding l ov by (auto simp: p newBufferWriter_def)
  show ?thesis
    using w(1,2,3) spec [OF spec [OF spec [OF w(4), of "[]"], of "[]"], of 28] by auto
qed

text \<open>A request meant to carry indicator data goes out as a plain request: the parcel says it is of
  flavor 69, the bytes it writes say 1, whatever the SQL text.\<close>

theorem indicRequest_flavor_lost:
  "getFlavor (newIndicRequestParcel sql) = flavorIndicRequest
    \<and> (\<forall>w. parcel_write (newIndicRequestParcel sql) w = parcel_write (newRequestParcel sql) w)
    \<and> take 2 (parcel_image (newIndicRequestParcel sql)) = be_enc 2 (unat flavorRequest)"
  by (simp add: newIndicRequestParcel_def newRequestParcel_def indicRequest_write_def hdr_def)

text \<open>The options parcel never asks for catalog names: its bytes do not depend on whether the server
  announced the support, because the byte lies behind the longest parcel the driver builds.\<close>

theorem options_catalog_name_never_sent:
  "parcel_image (OptionsParcel (newOptionsParcel config (caps\<lparr>cap_otfSupport := True\<rparr>) m f l)) =
   parcel_image (OptionsParcel (newOptionsParcel config (caps\<lparr>cap_otfSupport := False\<rparr>) m f l))"
proof -
  let ?p = "\<lambda>b. newOptionsParcel config (caps\<lparr>cap_otfSupport := b\<rparr>) m f l"
  have len: "options_getLength (?p True) = options_getLength (?p False)"
    and short: "options_getLength (?p False) \<le> 25"
    by (simp_all add: newOptionsParcel_def options_getLength_def parcelHeaderLen_def Let_def)
  have "take 25 (options_full (?p True)) = take 25 (options_full (?p False))"
    by (simp add: options_full_def len hdr_def be_enc_2) (simp add: newOptionsParcel_def)
  then have "take (min (nat (options_getLength (?p False))) 25) (options_full (?p True)) =
      take (min (nat (options_getLength (?p False))) 25) (options_full (?p False))"
    by (metis take_take)
  moreover have "min (nat (options_getLength (?p False))) 25 = nat (options_getLength (?p False))"
    using short by simp
  ultimately show ?thesis by (simp add: len)
qed

text \<open>The row limit a respond parcel tells the server is the configured or negotiated limit modulo
  65536. With the default limit of 2 MiB and a server that can deliver it the limit sent is 0.\<close>

theorem respond_limit_truncated:
  "(\<exists>n. newRespondParcel caps config = RespondParcel n \<and> uint n = respondMaxRow caps config mod 65536)
    \<and> newRespondParcel (caps\<lparr>cap_maxAvailableBytesInResponseRow := 2097152\<rparr>) NewConfig = RespondParcel 0"
  by (auto simp: newRespondParcel_def uint_word_of_int respondMaxRow_def NewConfig_def normalize_updates
      emptyConfig_def)

end
