(* ===== verification/StatementInfo.thy ===== *)
theory StatementInfo
  imports DataTypes Parcels
begin

text \<open>
  Column and parameter metadata: the statement info parcel of src/parcels_response.go.

  The Go items are pointers: an item stays on the stack of open structures while later items are
  appended to its \<open>attributes\<close>. Everything else of an item is fixed once it is read, so the model
  gives each full item an address (its allocation number) and keeps the attribute lists in a table
  by address; the item itself is a value.
\<close>

section \<open>Items\<close>

record metaLimited =
  ml_itemNumberRcv :: int
  ml_itemNumberTrn :: int
  ml_dataType :: u16
  ml_maxDataBytes :: u64
  ml_numDigits :: u16
  ml_intervalDigits :: u16
  ml_fractionalDigits :: u16

record metaFull =
  m_itemNumberRcv :: int
  m_itemNumberTrn :: int
  m_databaseName :: string
  m_procOrTableName :: string
  m_columnOrParamName :: string
  m_columnPosition :: u16
  m_asClauseName :: string
  m_title :: string
  m_format :: string
  m_defaultValue :: string
  m_isIdentityColumn :: byte
  m_isDefinitelyWritable :: byte
  m_isNullable :: byte
  m_mayBeNull :: byte
  m_isSearchable :: byte
  m_isWritable :: byte
  m_dataType :: u16
  m_udtIndicator :: u16
  m_udtTypeName :: string
  m_dataTypeMiscInfo :: string
  m_maxDataLengthInBytes :: u64
  m_totalNumberOfDigits :: u16
  m_numberOfIntervalDigits :: u16
  m_numberOfFractionalDigits :: u16
  m_charsetCode :: byte
  m_maxNumberOfCharacters :: u64
  m_isCaseSensitive :: byte
  m_isSigned :: byte
  m_isKeyColumn :: byte
  m_isUnique :: byte
  m_isExpression :: byte
  m_isSortable :: byte
  m_sprocParameterDirection :: byte
  m_structDepth :: u16
  m_isTemporal :: byte
  m_attributeName :: string
  m_serverDataType :: u16
  m_arrayNumDimensions :: u16
  m_arrayMaxCardinalities :: "int list"
  m_arrayLowerBounds :: "int list"
  m_catalogName :: string

datatype metaItem =
    MetaFull nat metaFull
  | MetaLimited metaLimited
  | MetaData

fun getDataType :: "metaItem \<Rightarrow> u16" where
  "getDataType (MetaFull a m) = m_dataType m"
| "getDataType (MetaLimited m) = ml_dataType m"
| "getDataType MetaData = 0"

fun getPercision :: "metaItem \<Rightarrow> u16" where
  "getPercision (MetaFull a m) = m_totalNumberOfDigits m"
| "getPercision (MetaLimited m) = ml_numDigits m"
| "getPercision MetaData = 0"

fun getScale :: "metaItem \<Rightarrow> u16" where
  "getScale (MetaFull a m) = m_numberOfFractionalDigits m"
| "getScale (MetaLimited m) = ml_fractionalDigits m"
| "getScale MetaData = 0"

fun getMaxLength :: "metaItem \<Rightarrow> u64" where
  "getMaxLength (MetaFull a m) = m_maxDataLengthInBytes m"
| "getMaxLength (MetaLimited m) = ml_maxDataBytes m"
| "getMaxLength MetaData = 0"

fun setReceiveItemNumber :: "int \<Rightarrow> metaItem \<Rightarrow> metaItem" where
  "setReceiveItemNumber i (MetaFull a m) = MetaFull a (m\<lparr>m_itemNumberRcv := i\<rparr>)"
| "setReceiveItemNumber i (MetaLimited m) = MetaLimited (m\<lparr>ml_itemNumberRcv := i\<rparr>)"
| "setReceiveItemNumber i MetaData = MetaData"

fun setTransmitItemNumber :: "int \<Rightarrow> metaItem \<Rightarrow> metaItem" where
  "setTransmitItemNumber i (MetaFull a m) = MetaFull a (m\<lparr>m_itemNumberTrn := i\<rparr>)"
| "setTransmitItemNumber i (MetaLimited m) = MetaLimited (m\<lparr>ml_itemNumberTrn := i\<rparr>)"
| "setTransmitItemNumber i MetaData = MetaData"

definition isStructType :: "metaFull \<Rightarrow> bool" where
  "isStructType m \<longleftrightarrow> getTdBasicType (m_dataType m) = 440"

definition isArrayType :: "metaFull \<Rightarrow> bool" where
  "isArrayType m \<longleftrightarrow> (let bt = getTdBasicType (m_dataType m) in bt = 504 \<or> bt = 508)"

definition getColumnName :: "metaFull \<Rightarrow> string" where
  "getColumnName m = (if m_asClauseName m \<noteq> [] then m_asClauseName m else m_columnOrParamName m)"

section \<open>Reading an item\<close>

text \<open>\<open>r.asciiString(int(r.u16()))\<close>.\<close>

definition rd_lstr :: "bufferReader \<Rightarrow> (string \<times> bufferReader) option" where
  "rd_lstr r = do { (n, r) \<leftarrow> rd_u16 r; asciiString (uint n) r }"

definition limited_read :: "bufferReader \<Rightarrow> (metaLimited \<times> bufferReader) option" where
  "limited_read r = do {
     (dataType, r) \<leftarrow> rd_u16 r;
     (maxDataBytes, r) \<leftarrow> rd_u64 r;
     (numDigits, r) \<leftarrow> rd_u16 r;
     (intervalDigits, r) \<leftarrow> rd_u16 r;
     (fractionalDigits, r) \<leftarrow> rd_u16 r;
     Some (\<lparr>ml_itemNumberRcv = 0, ml_itemNumberTrn = 0, ml_dataType = dataType,
       ml_maxDataBytes = maxDataBytes, ml_numDigits = numDigits, ml_intervalDigits = intervalDigits,
       ml_fractionalDigits = fractionalDigits\<rparr>, r) }"

fun rd_u32s :: "nat \<Rightarrow> bufferReader \<Rightarrow> (int list \<times> bufferReader) option" where
  "rd_u32s 0 r = Some ([], r)"
| "rd_u32s (Suc n) r = do {
     (v, r) \<leftarrow> rd_u32 r;
     (vs, r) \<leftarrow> rd_u32s n r;
     Some (uint v # vs, r) }"

definition full_read_struct :: "int \<Rightarrow> bufferReader \<Rightarrow> (u16 \<times> byte \<times> string \<times> u16 \<times> bufferReader) option"
where
  "full_read_struct endPos r =
     (if endPos - rd_position r \<ge> 7 then do {
        (structDepth, r) \<leftarrow> rd_u16 r;
        (isTemporal, r) \<leftarrow> rd_u8 r;
        (attributeName, r) \<leftarrow> rd_lstr r;
        (serverDataType, r) \<leftarrow> rd_u16 r;
        Some (structDepth, isTemporal, attributeName, serverDataType, r) }
      else Some (0, 0, [], 0, r))"

definition full_read_array :: "int \<Rightarrow> bufferReader \<Rightarrow> (u16 \<times> int list \<times> int list \<times> bufferReader) option"
where
  "full_read_array endPos r =
     (if endPos - rd_position r \<ge> 2 then do {
        (dims, r) \<leftarrow> rd_u16 r;
        (maxCard, r) \<leftarrow> rd_u32s (unat dims) r;
        (lowerBounds, r) \<leftarrow> rd_u32s (unat dims) r;
        Some (dims, maxCard, lowerBounds, r) }
      else Some (0, [], [], r))"

definition full_read :: "u16 \<Rightarrow> bufferReader \<Rightarrow> (metaFull \<times> bufferReader) option" where
  "full_read contentLen r = do {
     let endPos = rd_position r + uint contentLen;
     (databaseName, r) \<leftarrow> rd_lstr r;
     (procOrTableName, r) \<leftarrow> rd_lstr r;
     (columnOrParamName, r) \<leftarrow> rd_lstr r;
     (columnPosition, r) \<leftarrow> rd_u16 r;
     (asClauseName, r) \<leftarrow> rd_lstr r;
     (title, r) \<leftarrow> rd_lstr r;
     (format, r) \<leftarrow> rd_lstr r;
     (defaultValue, r) \<leftarrow> rd_lstr r;
     (isIdentityColumn, r) \<leftarrow> rd_u8 r;
     (isDefinitelyWritable, r) \<leftarrow> rd_u8 r;
     (isNullable, r) \<leftarrow> rd_u8 r;
     (mayBeNull, r) \<leftarrow> rd_u8 r;
     (isSearchable, r) \<leftarrow> rd_u8 r;
     (isWritable, r) \<leftarrow> rd_u8 r;
     (dataType, r) \<leftarrow> rd_u16 r;
     (udtIndicator, r) \<leftarrow> rd_u16 r;
     (udtTypeName, r) \<leftarrow> rd_lstr r;
     (dataTypeMiscInfo, r) \<leftarrow> rd_lstr r;
     (maxDataLengthInBytes, r) \<leftarrow> rd_u64 r;
     (totalNumberOfDigits, r) \<leftarrow> rd_u16 r;
     (numberOfIntervalDigits, r) \<leftarrow> rd_u16 r;
     (numberOfFractionalDigits, r) \<leftarrow> rd_u16 r;
     (charsetCode, r) \<leftarrow> rd_u8 r;
     (maxNumberOfCharacters, r) \<leftarrow> rd_u64 r;
     (isCaseSensitive, r) \<leftarrow> rd_u8 r;
     (isSigned, r) \<leftarrow> rd_u8 r;
     (isKeyColumn, r) \<leftarrow> rd_u8 r;
     (isUnique, r) \<leftarrow> rd_u8 r;
     (isExpression, r) \<leftarrow> rd_u8 r;
     (isSortable, r) \<leftarrow> rd_u8 r;
     (sprocParameterDirection, r) \<leftarrow> rd_u8 r;
     (structDepth, isTemporal, attributeName, serverDataType, r) \<leftarrow> full_read_struct endPos r;
     (dims, maxCard, lowerBounds, r) \<leftarrow> full_read_array endPos r;
     (catalogName, r) \<leftarrow> (if endPos - rd_position r \<ge> 2 then rd_lstr r else Some ([], r));
     Some (\<lparr>m_itemNumberRcv = 0, m_itemNumberTrn = 0, m_databaseName = databaseName,
       m_procOrTableName = procOrTableName, m_columnOrParamName = columnOrParamName,
       m_columnPosition = columnPosition, m_asClauseName = asClauseName, m_title = title,
       m_format = format, m_defaultValue = defaultValue, m_isIdentityColumn = isIdentityColumn,
       m_isDefinitelyWritable = isDefinitelyWritable, m_isNullable = isNullable,
       m_mayBeNull = mayBeNull, m_isSearchable = isSearchable, m_isWritable = isWritable,
       m_dataType = dataType, m_udtIndicator = udtIndicator, m_udtTypeName = udtTypeName,
       m_dataTypeMiscInfo = dataTypeMiscInfo, m_maxDataLengthInBytes = maxDataLengthInBytes,
       m_totalNumberOfDigits = totalNumberOfDigits, m_numberOfIntervalDigits = numberOfIntervalDigits,
       m_numberOfFractionalDigits = numberOfFractionalDigits, m_charsetCode = charsetCode,
       m_maxNumberOfCharacters = maxNumberOfCharacters, m_isCaseSensitive = isCaseSensitive,
       m_isSigned = isSigned, m_isKeyColumn = isKeyColumn, m_isUnique = isUnique,
       m_isExpression = isExpression, m_isSortable = isSortable,
       m_sprocParameterDirection = sprocParameterDirection, m_structDepth = structDepth,
       m_isTemporal = isTemporal, m_attributeName = attributeName, m_serverDataType = serverDataType,
       m_arrayNumDimensions = dims, m_arrayMaxCardinalities = maxCard,
       m_arrayLowerBounds = lowerBounds, m_catalogName = catalogName\<rparr>, r) }"

section \<open>The statement info parcel\<close>

record statementInfo =
  si_metaItems :: "metaItem list list"
  si_containsFullMeta :: bool
  si_attributes :: "nat \<Rightarrow> (nat \<times> metaFull) list"
  si_allocated :: nat

definition newStatementInfo :: statementInfo where
  "newStatementInfo = \<lparr>si_metaItems = replicate 6 [], si_containsFullMeta = False,
     si_attributes = (\<lambda>_. []), si_allocated = 0\<rparr>"

text \<open>The loop's own variables: the item counters and the stack of open structures, top first.\<close>

record siLoop =
  sl_info :: statementInfo
  sl_rnum :: int
  sl_tnum :: int
  sl_stack :: "(nat \<times> metaFull) list"

definition readItem :: "u16 \<Rightarrow> u16 \<Rightarrow> statementInfo \<Rightarrow> bufferReader \<Rightarrow> (metaItem \<times> statementInfo \<times> bufferReader) option"
where
  "readItem layoutType contentLen p r =
     (if layoutType = 1 then do {
        (m, r) \<leftarrow> full_read contentLen r;
        Some (MetaFull (si_allocated p) m,
              p\<lparr>si_containsFullMeta := True, si_allocated := si_allocated p + 1\<rparr>, r) }
      else if layoutType = 2 then do {
        (m, r) \<leftarrow> limited_read r;
        Some (MetaLimited m, p, r) }
      else Some (MetaData, p, r))"

definition numberItem :: "u16 \<Rightarrow> metaItem \<Rightarrow> int \<Rightarrow> int \<Rightarrow> metaItem \<times> int \<times> int" where
  "numberItem layoutType it rnum tnum =
     (if layoutType = 1 \<or> layoutType = 2 then
        let (it, rnum) = (if getTdParameterMode (getDataType it) \<noteq> paramModeIn
                          then (setReceiveItemNumber rnum it, rnum + 1) else (it, rnum))
        in if getTdParameterMode (getDataType it) \<noteq> paramModeOut
           then (setTransmitItemNumber tnum it, rnum, tnum + 1) else (it, rnum, tnum)
      else (it, rnum, tnum))"

text \<open>The pop step: structures as deep as the new item, or deeper, are finished.\<close>

definition popTo :: "metaFull \<Rightarrow> (nat \<times> metaFull) list \<Rightarrow> (nat \<times> metaFull) list" where
  "popTo m stack = dropWhile (\<lambda>(b, s). m_structDepth s \<ge> m_structDepth m) stack"

text \<open>Pop finished structures, attach or route the item, push it when it opens a structure.\<close>

definition placeItem :: "u16 \<Rightarrow> metaItem \<Rightarrow> statementInfo \<Rightarrow> (nat \<times> metaFull) list
    \<Rightarrow> statementInfo \<times> (nat \<times> metaFull) list" where
  "placeItem contentType it p stack =
     (let stack = (case it of
            MetaFull a m \<Rightarrow> popTo m stack
          | _ \<Rightarrow> stack);
          route = (if contentType \<ge> 1 \<and> contentType \<le> 6
                   then p\<lparr>si_metaItems := (si_metaItems p)[unat contentType - 1 :=
                            si_metaItems p ! (unat contentType - 1) @ [it]]\<rparr>
                   else p)
      in case it of
           MetaFull a m \<Rightarrow>
             ((case stack of
                 (b, s) # _ \<Rightarrow> p\<lparr>si_attributes := (si_attributes p)(b := si_attributes p b @ [(a, m)])\<rparr>
               | [] \<Rightarrow> route),
              if isStructType m \<or> isArrayType m then (a, m) # stack else stack)
         | _ \<Rightarrow> (route, stack))"

definition siStep :: "siLoop \<Rightarrow> bufferReader \<Rightarrow> (siLoop \<times> bufferReader \<times> int) option" where
  "siStep s r = do {
     let startPos = rd_position r;
     (layoutType, r) \<leftarrow> rd_u16 r;
     (contentType, r) \<leftarrow> rd_u16 r;
     (contentLen, r) \<leftarrow> rd_u16 r;
     (it, p, r) \<leftarrow> readItem layoutType contentLen (sl_info s) r;
     let (it, rnum, tnum) = numberItem layoutType it (sl_rnum s) (sl_tnum s);
     let metaLen = uint contentLen + 6;
     let r = (if startPos + metaLen \<noteq> rd_position r then rd_seek (startPos + metaLen) r else r);
     if layoutType \<noteq> 4 then do {
       let (p, stack) = placeItem contentType it p (sl_stack s);
       Some (s\<lparr>sl_info := p, sl_rnum := rnum, sl_tnum := tnum, sl_stack := stack\<rparr>, r, metaLen) }
     else Some (s\<lparr>sl_info := p, sl_rnum := 1, sl_tnum := 1, sl_stack := []\<rparr>, r, metaLen) }"

lemma siStep_progress: "siStep s r = Some (s', r', n) \<Longrightarrow> 6 \<le> n"
  by (auto simp: siStep_def bind_eq_Some_conv Let_def split: if_splits prod.splits)

function siLoopRun :: "siLoop \<Rightarrow> bufferReader \<Rightarrow> int \<Rightarrow> (siLoop \<times> bufferReader) option" where
  "siLoopRun s r n =
     (if n > 0 then
        (case siStep s r of
           None \<Rightarrow> None
         | Some (s, r, metaLen) \<Rightarrow> siLoopRun s r (n - metaLen))
      else Some (s, r))"
  by pat_completeness auto
termination
  by (relation "measure (\<lambda>(s, r, n). nat n)") (auto dest!: siStep_progress)

declare siLoopRun.simps [simp del]

lemma siLoopRun_done: "n \<le> 0 \<Longrightarrow> siLoopRun s r n = Some (s, r)"
  by (subst siLoopRun.simps) simp

lemma siLoopRun_step:
  "0 < n \<Longrightarrow> siLoopRun s r n = (case siStep s r of None \<Rightarrow> None
     | Some (s, r, metaLen) \<Rightarrow> siLoopRun s r (n - metaLen))"
  by (subst siLoopRun.simps) simp

definition statementInfo_fromBuffer :: "bufferReader \<Rightarrow> int \<Rightarrow> (statementInfo \<times> bufferReader) option" where
  "statementInfo_fromBuffer r n = do {
     (s, r) \<leftarrow> siLoopRun \<lparr>sl_info = newStatementInfo, sl_rnum = 1, sl_tnum = 1, sl_stack = []\<rparr> r n;
     Some (sl_info s, r) }"

definition paramMarkerMetaItems :: "statementInfo \<Rightarrow> metaItem list" where
  "paramMarkerMetaItems p = si_metaItems p ! 0"

definition resultSetColumnMetaItems :: "statementInfo \<Rightarrow> metaItem list" where
  "resultSetColumnMetaItems p = si_metaItems p ! 1"

definition resultSetSummaryMetaItems :: "statementInfo \<Rightarrow> metaItem list" where
  "resultSetSummaryMetaItems p = si_metaItems p ! 2"

definition agkColumnMetaItems :: "statementInfo \<Rightarrow> metaItem list" where
  "agkColumnMetaItems p = si_metaItems p ! 3"

definition procParamMetaItems :: "statementInfo \<Rightarrow> metaItem list" where
  "procParamMetaItems p = si_metaItems p ! 4"

definition procColumnMetaItems :: "statementInfo \<Rightarrow> metaItem list" where
  "procColumnMetaItems p = si_metaItems p ! 5"

section \<open>Steps\<close>

lemma seek_noop: "(if a \<noteq> rd_position r then rd_seek a r else r) = rd_seek a r"
  by (simp add: rd_seek_def rd_position_def)

lemma siStep_elim:
  assumes "siStep s r = Some (s', r', k)"
  obtains lt ct n r3 it p r4 it' rn tn where "readItem lt n (sl_info s) r3 = Some (it, p, r4)"
    "numberItem lt it (sl_rnum s) (sl_tnum s) = (it', rn, tn)"
    "r' = rd_seek (rd_position r + k) r4"
    "lt = 4 \<Longrightarrow> s' = s\<lparr>sl_info := p, sl_rnum := 1, sl_tnum := 1, sl_stack := []\<rparr>"
    "\<And>p' st. lt \<noteq> 4 \<Longrightarrow> placeItem ct it' p (sl_stack s) = (p', st) \<Longrightarrow>
       s' = s\<lparr>sl_info := p', sl_rnum := rn, sl_tnum := tn, sl_stack := st\<rparr>"
proof -
  obtain lt ct n r1 r2 r3 it p r4 where rd: "rd_u16 r = Some (lt, r1)" "rd_u16 r1 = Some (ct, r2)"
    "rd_u16 r2 = Some (n, r3)" "readItem lt n (sl_info s) r3 = Some (it, p, r4)"
    using assms by (auto simp: siStep_def bind_eq_Some_conv Let_def)
  obtain it' rn tn where num: "numberItem lt it (sl_rnum s) (sl_tnum s) = (it', rn, tn)"
    by (cases "numberItem lt it (sl_rnum s) (sl_tnum s)") auto
  obtain p2 st2 where pl: "placeItem ct it' p (sl_stack s) = (p2, st2)"
    by (cases "placeItem ct it' p (sl_stack s)") auto
  have e: "(if lt \<noteq> 4
      then Some (s\<lparr>sl_info := p2, sl_rnum := rn, sl_tnum := tn, sl_stack := st2\<rparr>,
        rd_seek (rd_position r + (uint n + 6)) r4, uint n + 6)
      else Some (s\<lparr>sl_info := p, sl_rnum := 1, sl_tnum := 1, sl_stack := []\<rparr>,
        rd_seek (rd_position r + (uint n + 6)) r4, uint n + 6)) = Some (s', r', k)"
    using assms rd num pl unfolding siStep_def Let_def seek_noop by (auto split: if_splits)
  show thesis
    by (rule that [OF rd(4) num, of ct]) (use e pl in \<open>auto split: if_splits\<close>)
qed

lemma siStep_position: "siStep s r = Some (s', r', k) \<Longrightarrow> rd_position r' = rd_position r + k"
  by (erule siStep_elim) (simp add: rd_position_def rd_seek_def)

text \<open>A run that ends exactly at its length can be continued.\<close>

lemma siLoopRun_continue:
  "siLoopRun s r n = Some (s', r') \<Longrightarrow> rd_position r' = rd_position r + n \<Longrightarrow> 0 \<le> n \<Longrightarrow> 0 \<le> j \<Longrightarrow>
     siLoopRun s r (n + j) = siLoopRun s' r' j"
proof (induction s r n rule: siLoopRun.induct)
  case (1 s r n)
  show ?case
  proof (cases "n > 0")
    case False
    then have "s' = s" "r' = r" "n = 0" using "1.prems" by (auto simp: siLoopRun.simps)
    then show ?thesis by simp
  next
    case True
    then obtain s1 r1 k where st: "siStep s r = Some (s1, r1, k)"
      using "1.prems"(1) by (auto simp: siLoopRun.simps [of s r n] split: option.splits)
    then have run: "siLoopRun s1 r1 (n - k) = Some (s', r')"
      using "1.prems"(1) True by (simp add: siLoopRun.simps [of s r n])
    have pos: "rd_position r' = rd_position r1 + (n - k)"
      using siStep_position [OF st] "1.prems"(2) by simp
    have "0 \<le> n - k"
    proof (rule ccontr)
      assume "\<not> 0 \<le> n - k"
      then have "r' = r1" using run by (simp add: siLoopRun.simps [of s1 r1 "n - k"])
      then show False using pos \<open>\<not> 0 \<le> n - k\<close> by simp
    qed
    then have "siLoopRun s1 r1 (n - k + j) = siLoopRun s' r' j"
      using "1.IH" [OF True st refl refl run pos] "1.prems"(4) by simp
    then show ?thesis
      using True st "1.prems"(4) by (subst siLoopRun.simps) (simp add: algebra_simps)
  qed
qed

section \<open>Properties\<close>

text \<open>C37: The parser of a statement info parcel runs past the parcel's end. It is called with the parcel's
  length, which counts the four header bytes: when the items fill the body exactly, it reads one more
  item from the bytes that follow the parcel, and panics when the message ends there.\<close>

theorem statementInfo_overread:
  assumes "siLoopRun \<lparr>sl_info = newStatementInfo, sl_rnum = 1, sl_tnum = 1, sl_stack = []\<rparr> r n = Some (s, r')"
    and "rd_position r' = rd_position r + n" "0 \<le> n"
  shows "statementInfo_fromBuffer r (n + parcelHeaderLen) =
    (case siStep s r' of None \<Rightarrow> None | Some (s'', r'', k) \<Rightarrow> Some (sl_info s'', r''))"
proof -
  let ?s = "\<lparr>sl_info = newStatementInfo, sl_rnum = 1, sl_tnum = 1, sl_stack = []\<rparr>"
  have "siLoopRun ?s r (n + 4) = siLoopRun s r' 4"
    by (rule siLoopRun_continue [OF assms]) simp
  also have "\<dots> = (case siStep s r' of None \<Rightarrow> None | Some (s'', r'', k) \<Rightarrow> Some (s'', r''))"
    using siStep_progress [of s r'] by (auto simp: siLoopRun_step siLoopRun_done split: option.splits)
  finally show ?thesis
    by (auto simp: statementInfo_fromBuffer_def parcelHeaderLen_def split: option.splits)
qed

theorem statementInfo_overread_witness:
  "statementInfo_fromBuffer (rdr [] [0, 4, 0, 8, 0, 0] 6) 10 = None"
proof -
  let ?s = "\<lparr>sl_info = newStatementInfo, sl_rnum = 1, sl_tnum = 1, sl_stack = []\<rparr>"
  let ?r = "rdr [] [0, 4, 0, 8, 0, 0] 6"
  obtain s r' where run: "siLoopRun ?s ?r 6 = Some (s, r')" "rd_position r' = rd_position ?r + 6"
    and none: "siStep s r' = None"
    by (simp add: siLoopRun_step siLoopRun_done siStep_def rd_u16_def slice_def rdr_def u16_of_def be_val_Cons
        readItem_def numberItem_def rd_position_def Let_def)
  show ?thesis
    using statementInfo_overread [OF run] none by (simp add: parcelHeaderLen_def)
qed

end
