(* ===== verification/StatementForest.thy ===== *)
theory StatementForest
  imports StatementInfo
begin

text \<open>
  Where the parser of a statement info parcel (src/parcels_response.go) puts each item: the loop with its counters
  and its stack of open structures against a description of the result that has neither.
\<close>

section \<open>The items of a parcel, as they stand in it\<close>

text \<open>Layout type, content type and item; \<open>a\<close> is the address of the next full item.\<close>

type_synonym entry = "u16 \<times> u16 \<times> metaItem"

definition readEntry :: "nat \<Rightarrow> bufferReader \<Rightarrow> (entry \<times> bufferReader \<times> int) option" where
  "readEntry a r = do {
     (layoutType, r1) \<leftarrow> rd_u16 r;
     (contentType, r2) \<leftarrow> rd_u16 r1;
     (contentLen, r3) \<leftarrow> rd_u16 r2;
     (it, _, r4) \<leftarrow> readItem layoutType contentLen (newStatementInfo\<lparr>si_allocated := a\<rparr>) r3;
     Some ((layoutType, contentType, it), rd_seek (rd_position r + (uint contentLen + 6)) r4, uint contentLen + 6) }"

lemma readEntry_progress: "readEntry a r = Some (e, r', k) \<Longrightarrow> 6 \<le> k"
  by (auto simp: readEntry_def bind_eq_Some_conv)

definition isFull :: "entry \<Rightarrow> bool" where "isFull e \<longleftrightarrow> fst e = 1"

function readEntries :: "nat \<Rightarrow> bufferReader \<Rightarrow> int \<Rightarrow> (entry list \<times> bufferReader) option" where
  "readEntries a r n =
     (if n > 0 then
        (case readEntry a r of
           None \<Rightarrow> None
         | Some (e, r, k) \<Rightarrow>
             map_option (\<lambda>(es, r). (e # es, r)) (readEntries (if isFull e then a + 1 else a) r (n - k)))
      else Some ([], r))"
  by pat_completeness auto
termination
  by (relation "measure (\<lambda>(a, r, n). nat n)") (auto dest!: readEntry_progress)

declare readEntries.simps [simp del]

section \<open>Numbers\<close>

text \<open>Items are numbered from 1 behind the last end marker: those received, and those transmitted.\<close>

definition marksEnd :: "entry \<Rightarrow> bool" where "marksEnd e \<longleftrightarrow> fst e = 4"

definition sinceEnd :: "entry list \<Rightarrow> entry list" where
  "sinceEnd es = takeWhile (\<lambda>e. \<not> marksEnd e) (rev es)"

definition received :: "entry \<Rightarrow> bool" where
  "received e \<longleftrightarrow> fst e \<in> {1, 2} \<and> getTdParameterMode (getDataType (snd (snd e))) \<noteq> paramModeIn"

definition transmitted :: "entry \<Rightarrow> bool" where
  "transmitted e \<longleftrightarrow> fst e \<in> {1, 2} \<and> getTdParameterMode (getDataType (snd (snd e))) \<noteq> paramModeOut"

definition nextNumber :: "(entry \<Rightarrow> bool) \<Rightarrow> entry list \<Rightarrow> int" where
  "nextNumber P es = 1 + int (length (filter P (sinceEnd es)))"

definition numberedItem :: "entry list \<Rightarrow> entry \<Rightarrow> metaItem" where
  "numberedItem es e =
     (let it = (if received e then setReceiveItemNumber (nextNumber received es) (snd (snd e)) else snd (snd e))
      in if transmitted e then setTransmitItemNumber (nextNumber transmitted es) it else it)"

definition numbered :: "entry list \<Rightarrow> entry list" where
  "numbered es = map (\<lambda>i. let e = es ! i in (fst e, fst (snd e), numberedItem (take i es) e)) [0..<length es]"

section \<open>Places\<close>

fun fullItem :: "metaItem \<Rightarrow> (nat \<times> metaFull) option" where
  "fullItem (MetaFull a m) = Some (a, m)"
| "fullItem _ = None"

text \<open>The full items behind the last end marker, nearest first.\<close>

definition fullItems :: "entry list \<Rightarrow> (nat \<times> metaFull) list" where
  "fullItems es = List.map_filter (fullItem \<circ> snd \<circ> snd) (sinceEnd es)"

definition opens :: "metaFull \<Rightarrow> bool" where "opens m \<longleftrightarrow> isStructType m \<or> isArrayType m"

text \<open>The structure an item of depth \<open>d\<close> is inside: the nearest structure or array that is less deep than the item
  and than everything between them.\<close>

definition encloser :: "(nat \<times> metaFull) list \<Rightarrow> u16 \<Rightarrow> nat option" where
  "encloser items d = map_option (\<lambda>k. fst (items ! k))
     (find (\<lambda>k. let s = snd (items ! k) in opens s \<and> m_structDepth s < d
              \<and> list_all (\<lambda>(_, m). m_structDepth s < m_structDepth m) (take k items)) [0..<length items])"

definition parentOf :: "entry list \<Rightarrow> nat \<Rightarrow> nat option" where
  "parentOf es i =
     (case fullItem (snd (snd (es ! i))) of
        None \<Rightarrow> None
      | Some (a, m) \<Rightarrow> encloser (fullItems (take i es)) (m_structDepth m))"

text \<open>An item that is in no structure is in the list of its content type, if there is one; an item of a structure is
  one of its attributes.\<close>

definition itemsOf :: "entry list \<Rightarrow> u16 \<Rightarrow> metaItem list" where
  "itemsOf es c = map (\<lambda>i. snd (snd (es ! i)))
     (filter (\<lambda>i. \<not> marksEnd (es ! i) \<and> fst (snd (es ! i)) = c \<and> parentOf es i = None) [0..<length es])"

definition attributesOf :: "entry list \<Rightarrow> nat \<Rightarrow> (nat \<times> metaFull) list" where
  "attributesOf es b = List.map_filter (\<lambda>i. if parentOf es i = Some b then fullItem (snd (snd (es ! i))) else None)
     [0..<length es]"

definition statementInfoOf :: "entry list \<Rightarrow> statementInfo" where
  "statementInfoOf es = \<lparr>si_metaItems = map (itemsOf es) [1, 2, 3, 4, 5, 6],
     si_containsFullMeta = list_ex isFull es, si_attributes = attributesOf es,
     si_allocated = length (filter isFull es)\<rparr>"

section \<open>The stack\<close>

text \<open>The open structures, nearest first.\<close>

fun openIn :: "(nat \<times> metaFull) list \<Rightarrow> (nat \<times> metaFull) list" where
  "openIn [] = []"
| "openIn (x # items) = (if opens (snd x) then [x] else [])
     @ filter (\<lambda>y. m_structDepth (snd y) < m_structDepth (snd x)) (openIn items)"

lemma find_upt_Suc: "find P [0..<Suc n] = (if P 0 then Some 0 else map_option Suc (find (P \<circ> Suc) [0..<n]))"
proof -
  have "find P (map Suc xs) = map_option Suc (find (P \<circ> Suc) xs)" for xs by (induction xs) auto
  then show ?thesis by (simp add: upt_conv_Cons map_Suc_upt [symmetric] del: upt_Suc)
qed

lemma encloser_Cons:
  "encloser (x # items) d =
     (if opens (snd x) \<and> m_structDepth (snd x) < d then Some (fst x) else encloser items (min d (m_structDepth (snd x))))"
  by (auto simp: encloser_def find_upt_Suc option.map_comp comp_def Let_def case_prod_beta
      simp del: upt_Suc intro!: arg_cong [of _ _ "\<lambda>P. map_option f (find P xs)" for f xs])

lemma encloser_open:
  "encloser items d = (case filter (\<lambda>y. m_structDepth (snd y) < d) (openIn items) of [] \<Rightarrow> None | y # _ \<Rightarrow> Some (fst y))"
proof (induction items arbitrary: d)
  case Nil
  then show ?case by (simp add: encloser_def)
next
  case (Cons x items)
  then show ?case by (simp add: encloser_Cons conj_commute)
qed

lemma openIn_sorted: "sorted_wrt (\<lambda>y z. m_structDepth (snd z) < m_structDepth (snd y)) (openIn items)"
  by (induction items) (auto simp: sorted_wrt_append intro: sorted_wrt_filter)

lemma dropWhile_sorted:
  assumes "sorted_wrt (\<lambda>y z. m_structDepth (snd z) < m_structDepth (snd y)) stack"
  shows "dropWhile (\<lambda>(b, s). d \<le> m_structDepth s) stack = filter (\<lambda>y. m_structDepth (snd y) < d) stack"
  using assms
proof (induction stack)
  case (Cons y stack)
  show ?case
  proof (cases "d \<le> m_structDepth (snd y)")
    case False
    then have "\<forall>z \<in> set stack. m_structDepth (snd z) < d" using Cons.prems by (auto intro: less_trans)
    then show ?thesis using False by (simp add: case_prod_beta)
  qed (use Cons in \<open>simp add: case_prod_beta\<close>)
qed simp

section \<open>One item more\<close>

lemma sinceEnd_snoc: "sinceEnd (es @ [e]) = (if marksEnd e then [] else e # sinceEnd es)"
  by (simp add: sinceEnd_def)

lemma nextNumber_snoc:
  "nextNumber P (es @ [e]) = (if marksEnd e then 1 else nextNumber P es + (if P e then 1 else 0))"
  by (simp add: nextNumber_def sinceEnd_snoc)

lemma fullItems_snoc:
  "fullItems (es @ [e]) = (if marksEnd e then [] else
     case fullItem (snd (snd e)) of None \<Rightarrow> fullItems es | Some x \<Rightarrow> x # fullItems es)"
  by (simp add: fullItems_def sinceEnd_snoc List.map_filter_simps split: option.split)

lemma numbered_snoc:
  "numbered (es @ [e]) = numbered es @ [(fst e, fst (snd e), numberedItem es e)]"
  by (simp add: numbered_def nth_append Let_def)

lemma numbered_Nil: "numbered [] = []"
  by (simp add: numbered_def)

lemma length_numbered [simp]: "length (numbered es) = length es"
  by (simp add: numbered_def)

lemma parentOf_snoc:
  "i < length es \<Longrightarrow> parentOf (es @ [e]) i = parentOf es i"
  "parentOf (es @ [e]) (length es) = (case fullItem (snd (snd e)) of
      None \<Rightarrow> None | Some (a, m) \<Rightarrow> encloser (fullItems es) (m_structDepth m))"
  by (simp_all add: parentOf_def nth_append split: option.split)

lemma upt_snoc_cong:
  assumes "\<And>i. i < n \<Longrightarrow> f i = g i"
  shows "List.map_filter f [0..<n] = List.map_filter g [0..<n]"
proof -
  have "filter (\<lambda>x. f x \<noteq> None) [0..<n] = filter (\<lambda>x. g x \<noteq> None) [0..<n]" using assms by (intro filter_cong) auto
  then show ?thesis using assms by (auto simp: List.map_filter_def comp_def intro!: map_cong)
qed

lemma map_filter_append: "List.map_filter f (xs @ ys) = List.map_filter f xs @ List.map_filter f ys"
  by (simp add: List.map_filter_def)

lemma itemsOf_snoc:
  "itemsOf (es @ [e]) c = itemsOf es c
     @ (if \<not> marksEnd e \<and> fst (snd e) = c \<and> parentOf (es @ [e]) (length es) = None then [snd (snd e)] else [])"
proof -
  have "filter (\<lambda>i. \<not> marksEnd ((es @ [e]) ! i) \<and> fst (snd ((es @ [e]) ! i)) = c \<and> parentOf (es @ [e]) i = None) [0..<length es]
      = filter (\<lambda>i. \<not> marksEnd (es ! i) \<and> fst (snd (es ! i)) = c \<and> parentOf es i = None) [0..<length es]"
    by (rule filter_cong) (simp_all add: nth_append parentOf_snoc)
  then show ?thesis by (simp add: itemsOf_def nth_append cong: map_cong)
qed

lemma attributesOf_snoc:
  "attributesOf (es @ [e]) b = attributesOf es b
     @ (case fullItem (snd (snd e)) of None \<Rightarrow> []
        | Some x \<Rightarrow> if parentOf (es @ [e]) (length es) = Some b then [x] else [])"
proof -
  have "List.map_filter (\<lambda>i. if parentOf (es @ [e]) i = Some b then fullItem (snd (snd ((es @ [e]) ! i))) else None) [0..<length es]
      = attributesOf es b"
    unfolding attributesOf_def by (rule upt_snoc_cong) (simp add: nth_append parentOf_snoc)
  then show ?thesis
    by (simp add: attributesOf_def [of "es @ [e]"] map_filter_append List.map_filter_simps split: option.split)
qed

section \<open>The loop\<close>

definition stateOf :: "entry list \<Rightarrow> siLoop" where
  "stateOf es = \<lparr>sl_info = statementInfoOf (numbered es), sl_rnum = nextNumber received es,
     sl_tnum = nextNumber transmitted es, sl_stack = openIn (fullItems (numbered es))\<rparr>"

lemma getDataType_set [simp]:
  "getDataType (setReceiveItemNumber n it) = getDataType it" "getDataType (setTransmitItemNumber n it) = getDataType it"
  by (cases it; simp)+

lemma numberItem_numbered:
  "numberItem (fst e) (snd (snd e)) (nextNumber received es) (nextNumber transmitted es) =
     (numberedItem es e, nextNumber received es + (if received e then 1 else 0),
      nextNumber transmitted es + (if transmitted e then 1 else 0))"
  by (auto simp: numberItem_def numberedItem_def received_def transmitted_def Let_def)

lemma isFull_numbered [simp]:
  "list_ex isFull (numbered es) = list_ex isFull es" "length (filter isFull (numbered es)) = length (filter isFull es)"
proof -
  have *: "list_ex isFull (numbered es) = list_ex isFull es \<and> length (filter isFull (numbered es)) = length (filter isFull es)"
    by (induction es rule: rev_induct) (simp_all add: numbered_snoc isFull_def numbered_Nil)
  show "list_ex isFull (numbered es) = list_ex isFull es" "length (filter isFull (numbered es)) = length (filter isFull es)"
    using * by simp_all
qed


lemma readItem_at:
  "readItem lt n p r = map_option (\<lambda>(it, _, r'). (it, p\<lparr>si_containsFullMeta := si_containsFullMeta p \<or> lt = 1,
       si_allocated := si_allocated p + (if lt = 1 then 1 else 0)\<rparr>, r'))
     (readItem lt n (newStatementInfo\<lparr>si_allocated := si_allocated p\<rparr>) r)"
proof -
  consider "lt = 1" | "lt = 2" | "lt \<noteq> 1" "lt \<noteq> 2" by blast
  then show ?thesis
  proof cases
    case 1
    then show ?thesis by (cases "full_read n r") (auto simp: readItem_def)
  next
    case 2
    then show ?thesis by (cases "limited_read r") (auto simp: readItem_def)
  qed (simp add: readItem_def)
qed

lemma readItem_alloc:
  "readItem lt n p r = Some (it, p', r') \<Longrightarrow>
     \<exists>q. readItem lt n (newStatementInfo\<lparr>si_allocated := si_allocated p\<rparr>) r = Some (it, q, r')"
  by (subst (asm) readItem_at) auto

lemma readItem_full:
  "readItem lt n p r = Some (it, p', r') \<Longrightarrow> (fullItem it \<noteq> None) = (lt = 1)"
  by (auto simp: readItem_def bind_eq_Some_conv split: if_splits)

lemma small_word: "1 \<le> (c :: u16) \<Longrightarrow> c \<le> 6 \<Longrightarrow> c \<in> {1, 2, 3, 4, 5, 6}"
proof -
  assume "1 \<le> c" "c \<le> 6"
  then have "unat c \<in> {1, 2, 3, 4, 5, 6}" by (auto simp: word_le_nat_alt)
  moreover have "c = word_of_nat (unat c)" by simp
  ultimately show ?thesis by (metis (no_types, lifting) insert_iff empty_iff of_nat_1 of_nat_numeral)
qed

lemma route_place:
  fixes f :: "u16 \<Rightarrow> 'a list" and c :: u16
  shows "(if 1 \<le> c \<and> c \<le> 6 then (map f [1, 2, 3, 4, 5, 6])[unat c - 1 := map f [1, 2, 3, 4, 5, 6] ! (unat c - 1) @ [x]]
      else map f [1, 2, 3, 4, 5, 6])
    = map (\<lambda>k. f k @ (if c = k then [x] else [])) [1, 2, 3, 4, 5, 6]"
proof (cases "1 \<le> c \<and> c \<le> 6")
  case True
  then have "c \<in> {1, 2, 3, 4, 5, 6}" using small_word by blast
  then show ?thesis by auto
next
  case False
  then have "c \<notin> {1, 2, 3, 4, 5, 6}" by auto
  then show ?thesis using False by auto
qed

lemma placeItem_placed:
  fixes ns :: "entry list"
  assumes "\<not> marksEnd e" "fullItem (snd (snd e)) \<noteq> None \<longleftrightarrow> isFull e"
  shows "placeItem (fst (snd e)) (snd (snd e))
      ((statementInfoOf ns)\<lparr>si_containsFullMeta := list_ex isFull (ns @ [e]), si_allocated := length (filter isFull (ns @ [e]))\<rparr>)
      (openIn (fullItems ns))
    = (statementInfoOf (ns @ [e]), openIn (fullItems (ns @ [e])))"
proof -
  let ?c = "fst (snd e)" and ?it = "snd (snd e)"
  have items: "map (itemsOf (ns @ [e])) [1, 2, 3, 4, 5, 6]
      = (if parentOf (ns @ [e]) (length ns) = None
         then map (\<lambda>k. itemsOf ns k @ (if ?c = k then [?it] else [])) [1, 2, 3, 4, 5, 6]
         else map (itemsOf ns) [1, 2, 3, 4, 5, 6])"
    using assms(1) by (simp add: itemsOf_snoc)
  show ?thesis
  proof (cases "fullItem ?it")
    case None
    then have p: "parentOf (ns @ [e]) (length ns) = None" by (simp add: parentOf_snoc)
    have "attributesOf (ns @ [e]) = attributesOf ns" by (rule ext) (simp add: attributesOf_snoc None)
    moreover have "placeItem ?c ?it q st = (if 1 \<le> ?c \<and> ?c \<le> 6 then q\<lparr>si_metaItems := (si_metaItems q)[unat ?c - 1 :=
        si_metaItems q ! (unat ?c - 1) @ [?it]]\<rparr> else q, st)" for q st
      using None by (cases ?it) (simp_all add: placeItem_def Let_def)
    ultimately show ?thesis
      using items p None assms(1) route_place [of ?c "itemsOf ns" ?it]
      by (auto simp: statementInfoOf_def fullItems_snoc split: if_splits)
  next
    case (Some x)
    obtain a m where x: "?it = MetaFull a m" using Some by (cases ?it) auto
    let ?st = "filter (\<lambda>y. m_structDepth (snd y) < m_structDepth m) (openIn (fullItems ns))"
    have pop: "popTo m (openIn (fullItems ns)) = ?st"
      unfolding popTo_def by (rule dropWhile_sorted [OF openIn_sorted])
    have open': "openIn (fullItems (ns @ [e])) = (if opens m then [(a, m)] else []) @ ?st"
      using assms(1) x by (simp add: fullItems_snoc)
    have par: "parentOf (ns @ [e]) (length ns) = (case ?st of [] \<Rightarrow> None | y # _ \<Rightarrow> Some (fst y))"
      by (simp add: parentOf_snoc x encloser_open)
    show ?thesis
    proof (cases ?st)
      case Nil
      then have p: "parentOf (ns @ [e]) (length ns) = None" using par by simp
      have "attributesOf (ns @ [e]) = attributesOf ns" by (rule ext) (simp add: attributesOf_snoc p split: option.split)
      then show ?thesis
        using items p route_place [of ?c "itemsOf ns" ?it]
        by (auto simp: statementInfoOf_def placeItem_def x pop open' Nil opens_def Let_def split: if_splits)
    next
      case (Cons y ys)
      then have p: "parentOf (ns @ [e]) (length ns) = Some (fst y)" using par by simp
      have "attributesOf (ns @ [e]) = (attributesOf ns)(fst y := attributesOf ns (fst y) @ [(a, m)])"
        by (rule ext) (simp add: attributesOf_snoc p x)
      then show ?thesis
        using items p
        by (auto simp: statementInfoOf_def placeItem_def x pop open' Cons opens_def Let_def case_prod_beta)
    qed
  qed
qed

lemma fullItem_set [simp]:
  "fullItem (setReceiveItemNumber n it) = None \<longleftrightarrow> fullItem it = None"
  "fullItem (setTransmitItemNumber n it) = None \<longleftrightarrow> fullItem it = None"
  by (cases it; simp)+

lemma fullItem_numbered: "fullItem (numberedItem es e) = None \<longleftrightarrow> fullItem (snd (snd e)) = None"
  by (simp add: numberedItem_def Let_def)

lemma numberedItem_other: "fst e \<noteq> 1 \<Longrightarrow> fst e \<noteq> 2 \<Longrightarrow> numberedItem es e = snd (snd e)"
  by (simp add: numberedItem_def received_def transmitted_def)

lemma stateOf_end:
  assumes "marksEnd e" "\<not> isFull e" "fullItem (snd (snd e)) = None"
  shows "stateOf (es @ [e]) = \<lparr>sl_info = statementInfoOf (numbered es), sl_rnum = 1, sl_tnum = 1, sl_stack = []\<rparr>"
proof -
  let ?e = "(fst e, fst (snd e), numberedItem es e)"
  have m: "marksEnd ?e" "\<not> isFull ?e" using assms by (simp_all add: marksEnd_def isFull_def)
  have "attributesOf (numbered es @ [?e]) = attributesOf (numbered es)"
    using assms(3) fullItem_numbered [of es e] by (intro ext) (simp add: attributesOf_snoc)
  then have "statementInfoOf (numbered es @ [?e]) = statementInfoOf (numbered es)"
    using m by (simp add: statementInfoOf_def itemsOf_snoc)
  then show ?thesis using assms(1) m by (simp add: stateOf_def numbered_snoc nextNumber_snoc fullItems_snoc)
qed

lemma stateOf_place:
  assumes "\<not> marksEnd e" "fullItem (snd (snd e)) \<noteq> None \<longleftrightarrow> isFull e"
  shows "stateOf (es @ [e]) =
    (let (p, stack) = placeItem (fst (snd e)) (numberedItem es e)
       ((statementInfoOf (numbered es))\<lparr>si_containsFullMeta := list_ex isFull es \<or> isFull e,
          si_allocated := length (filter isFull es) + (if isFull e then 1 else 0)\<rparr>) (openIn (fullItems (numbered es)))
     in \<lparr>sl_info = p, sl_rnum = nextNumber received es + (if received e then 1 else 0),
          sl_tnum = nextNumber transmitted es + (if transmitted e then 1 else 0), sl_stack = stack\<rparr>)"
proof -
  let ?e = "(fst e, fst (snd e), numberedItem es e)"
  have m: "\<not> marksEnd ?e" "isFull ?e = isFull e" using assms by (simp_all add: marksEnd_def isFull_def)
  have "fullItem (snd (snd ?e)) \<noteq> None \<longleftrightarrow> isFull ?e" using assms(2) m by (simp add: fullItem_numbered)
  from placeItem_placed [OF m(1) this, of "numbered es"] show ?thesis
    using assms(1) m
    by (cases "isFull e") (simp_all add: stateOf_def numbered_snoc nextNumber_snoc Let_def split_beta)
qed

lemma statementInfoOf_id:
  "(statementInfoOf (numbered es))\<lparr>si_containsFullMeta := list_ex isFull es, si_allocated := length (filter isFull es)\<rparr>
     = statementInfoOf (numbered es)"
  by (simp add: statementInfoOf_def)

lemma siStep_stateOf:
  "siStep (stateOf es) r =
    (case readEntry (length (filter isFull es)) r of
       None \<Rightarrow> None | Some (e, r', k) \<Rightarrow> Some (stateOf (es @ [e]), r', k))"
proof (cases "readEntry (length (filter isFull es)) r")
  case None
  have "siStep (stateOf es) r = None"
  proof (rule ccontr)
    assume "siStep (stateOf es) r \<noteq> None"
    then obtain lt ct n it p r1 r2 r3 r4 where "rd_u16 r = Some (lt, r1)" "rd_u16 r1 = Some (ct, r2)"
      "rd_u16 r2 = Some (n, r3)" "readItem lt n (sl_info (stateOf es)) r3 = Some (it, p, r4)"
      by (auto simp: siStep_def bind_eq_Some_conv Let_def)
    moreover have "si_allocated (sl_info (stateOf es)) = length (filter isFull es)"
      by (simp add: stateOf_def statementInfoOf_def)
    ultimately obtain q where "readItem lt n (newStatementInfo\<lparr>si_allocated := length (filter isFull es)\<rparr>) r3 = Some (it, q, r4)"
      using readItem_alloc by metis
    with \<open>rd_u16 r = Some (lt, r1)\<close> \<open>rd_u16 r1 = Some (ct, r2)\<close> \<open>rd_u16 r2 = Some (n, r3)\<close> show False
      using None by (simp add: readEntry_def)
  qed
  then show ?thesis using None by simp
next
  case (Some x)
  let ?q = "newStatementInfo\<lparr>si_allocated := length (filter isFull es)\<rparr>"
  obtain lt ct n it q r1 r2 r3 r4 where rd: "rd_u16 r = Some (lt, r1)" "rd_u16 r1 = Some (ct, r2)"
    "rd_u16 r2 = Some (n, r3)" "readItem lt n ?q r3 = Some (it, q, r4)"
    and x: "x = ((lt, ct, it), rd_seek (rd_position r + (uint n + 6)) r4, uint n + 6)"
    using Some by (auto simp: readEntry_def bind_eq_Some_conv)
  let ?e = "(lt, ct, it)" and ?p = "(statementInfoOf (numbered es))\<lparr>
    si_containsFullMeta := list_ex isFull es \<or> isFull (lt, ct, it),
    si_allocated := length (filter isFull es) + (if isFull (lt, ct, it) then 1 else 0)\<rparr>"
  have full: "(fullItem it \<noteq> None) = isFull ?e" using readItem_full [OF rd(4)] by (simp add: isFull_def)
  have read: "readItem lt n (sl_info (stateOf es)) r3 = Some (it, ?p, r4)"
    using rd(4) by (subst readItem_at) (simp add: stateOf_def statementInfoOf_def isFull_def)
  note num = numberItem_numbered [of ?e es, simplified]
  show ?thesis
  proof (cases "lt = 4")
    case True
    then have e: "\<not> isFull ?e" "marksEnd ?e" by (simp_all add: isFull_def marksEnd_def)
    moreover have "fullItem (snd (snd ?e)) = None" using full e by (simp del: not_None_eq)
    ultimately have "stateOf (es @ [?e])
        = \<lparr>sl_info = statementInfoOf (numbered es), sl_rnum = 1, sl_tnum = 1, sl_stack = []\<rparr>" by (intro stateOf_end)
    then show ?thesis
      using e read rd num True
      by (simp add: Some x siStep_def seek_noop stateOf_def [of es] Let_def statementInfoOf_id)
  next
    case False
    then have "\<not> marksEnd ?e" by (simp add: marksEnd_def)
    then show ?thesis
      using full read rd num False stateOf_place [of ?e es]
      by (simp add: Some x siStep_def seek_noop stateOf_def [of es] Let_def split: prod.split)
  qed
qed

lemma siLoopRun_stateOf:
  "siLoopRun (stateOf es) r n =
     map_option (\<lambda>(es', r'). (stateOf (es @ es'), r')) (readEntries (length (filter isFull es)) r n)"
proof (induction "nat n" arbitrary: es r n rule: less_induct)
  case less
  show ?case
  proof (cases "n > 0 \<and> readEntry (length (filter isFull es)) r \<noteq> None")
    case True
    then obtain e r' k where e: "readEntry (length (filter isFull es)) r = Some (e, r', k)" by (cases "readEntry (length (filter isFull es)) r") auto
    have "siLoopRun (stateOf (es @ [e])) r' (n - k) = map_option (\<lambda>(es', r'). (stateOf ((es @ [e]) @ es'), r'))
        (readEntries (length (filter isFull (es @ [e]))) r' (n - k))"
      using True readEntry_progress [OF e] by (intro less) auto
    then show ?thesis
      using True e
      by (simp add: siLoopRun_step siStep_stateOf readEntries.simps [of _ r n] option.map_comp comp_def case_prod_unfold)
  next
    case False
    then show ?thesis
      by (cases "n > 0") (auto simp: siLoopRun.simps [of _ r n] siStep_stateOf readEntries.simps [of _ r n]
          simp del: not_None_eq)
  qed
qed

lemma stateOf_Nil: "stateOf [] = \<lparr>sl_info = newStatementInfo, sl_rnum = 1, sl_tnum = 1, sl_stack = []\<rparr>"
  by (auto simp: stateOf_def statementInfoOf_def newStatementInfo_def numbered_def nextNumber_def sinceEnd_def
      fullItems_def itemsOf_def attributesOf_def numeral_eq_Suc List.map_filter_simps)

section \<open>An example\<close>

text \<open>A structure (type 440) of an integer, an array (type 504) with its element, and a second integer; then an integer of
  its own.\<close>

definition exampleFull :: "u16 \<Rightarrow> u16 \<Rightarrow> metaFull" where
  "exampleFull dataType depth = \<lparr>m_itemNumberRcv = 0, m_itemNumberTrn = 0, m_databaseName = [], m_procOrTableName = [],
     m_columnOrParamName = [], m_columnPosition = 0, m_asClauseName = [], m_title = [], m_format = [],
     m_defaultValue = [], m_isIdentityColumn = 0, m_isDefinitelyWritable = 0, m_isNullable = 0, m_mayBeNull =
     0, m_isSearchable = 0, m_isWritable = 0, m_dataType = dataType, m_udtIndicator = 0, m_udtTypeName = [],
     m_dataTypeMiscInfo = [], m_maxDataLengthInBytes = 0, m_totalNumberOfDigits = 0, m_numberOfIntervalDigits
     = 0, m_numberOfFractionalDigits = 0, m_charsetCode = 0, m_maxNumberOfCharacters = 0, m_isCaseSensitive =
     0, m_isSigned = 0, m_isKeyColumn = 0, m_isUnique = 0, m_isExpression = 0, m_isSortable = 0,
     m_sprocParameterDirection = 0, m_structDepth = depth, m_isTemporal = 0, m_attributeName = [],
     m_serverDataType = 0, m_arrayNumDimensions = 0, m_arrayMaxCardinalities = [], m_arrayLowerBounds = [],
     m_catalogName = []\<rparr>"

definition exampleItem :: "nat \<Rightarrow> u16 \<Rightarrow> u16 \<Rightarrow> entry" where
  "exampleItem a dataType depth = (1, 2, MetaFull a (exampleFull dataType depth))"

definition exampleItems :: "entry list" where
  "exampleItems = [exampleItem 0 440 0, exampleItem 1 496 1, exampleItem 2 504 1, exampleItem 3 496 2, exampleItem 4 496 1,
     exampleItem 5 496 0]"

lemma exampleFull_opens: "opens (exampleFull 440 d)" "opens (exampleFull 504 d)" "\<not> opens (exampleFull 496 d)"
proof -
  have "getTdBasicType 440 = 440 \<and> getTdBasicType 504 = 504 \<and> getTdBasicType 496 = 496" by code_simp
  then show "opens (exampleFull 440 d)" "opens (exampleFull 504 d)" "\<not> opens (exampleFull 496 d)"
    by (simp_all add: opens_def isStructType_def isArrayType_def exampleFull_def)
qed

lemma exampleFull_depth: "m_structDepth (exampleFull t d) = d"
  by (simp add: exampleFull_def)

lemma exampleItems_parents:
  "map (parentOf exampleItems) [0, 1, 2, 3, 4, 5] = [None, Some 0, Some 0, Some 2, Some 0, None]"
  by (simp add: parentOf_def exampleItems_def fullItems_def sinceEnd_def exampleItem_def marksEnd_def List.map_filter_simps
      encloser_Cons exampleFull_opens exampleFull_depth encloser_open)

lemma length_exampleItems: "length exampleItems = 6"
  by (simp add: exampleItems_def)

lemma exampleItems_places:
  "map (\<lambda>c. map (\<lambda>it. map_option fst (fullItem it)) (itemsOf exampleItems c)) [1, 2, 3] = [[], [Some 0, Some 5], []]"
  "map (\<lambda>b. map fst (attributesOf exampleItems b)) [0, 1, 2, 3] = [[1, 2, 4], [], [3], []]"
  using exampleItems_parents
  by (simp_all add: itemsOf_def attributesOf_def List.map_filter_simps upt_rec numeral_eq_Suc length_exampleItems)
    (simp_all add: exampleItems_def exampleItem_def marksEnd_def)

section \<open>Properties\<close>

text \<open>C24: The result of reading a statement info parcel is the items it holds, each in exactly one place. Reading
  succeeds exactly when the items can be read one after the other (\<open>readEntries\<close>, which knows no stack and no
  counters), and then ends where they end. An item is numbered by how many items received (transmitted) stand between it
  and the last end marker, or the start. An item that is inside no structure is in the list of its content type, if there
  is one, and among the attributes of nothing; an item inside a structure is among the attributes of that structure alone
  and in no list. The structure an item is in is the nearest structure or array before it, behind the last end marker,
  that is less deep than the item and than everything between the two. Lists and attributes are in the order of the
  parcel, and end markers are in none.\<close>

theorem statementInfo_places:
  "statementInfo_fromBuffer r n =
     map_option (\<lambda>(es, r'). (statementInfoOf (numbered es), r')) (readEntries 0 r n)"
  using siLoopRun_stateOf [of "[]" r n]
  by (auto simp: statementInfo_fromBuffer_def stateOf_Nil [symmetric] option.map_comp stateOf_def split: bind_split)

end
