(* ===== verification/ResponseParcels.thy ===== *)
theory ResponseParcels
  imports RequestParcels StatementInfo
begin

text \<open>
  The parcels the server sends: src/parcels_response.go, the LOB response parcels of src/lob.go, the
  factory and the parcel walk of src/parcel.go. \<open>fromBuffer\<close> never returns an error; \<open>None\<close> is a
  read past the end of the buffer. The object identifier of an authentication mechanism is decoded
  by \<open>encoding/asn1\<close>, which is the parameter \<open>oidString\<close>: the dotted form of the DER bytes.
\<close>

section \<open>Small parcels\<close>

record successResponse =
  su_statementNumber :: u16
  su_activityCount :: int
  su_lastWarning :: u16
  su_fieldCount :: u16
  su_activityType :: u16

definition success_fromBuffer :: "bufferReader \<Rightarrow> (successResponse \<times> bufferReader) option" where
  "success_fromBuffer r = do {
     (statementNumber, r) \<leftarrow> rd_u16 r;
     (activityCount, r) \<leftarrow> rd_u32 r;
     (lastWarning, r) \<leftarrow> rd_u16 r;
     (fieldCount, r) \<leftarrow> rd_u16 r;
     (activityType, r) \<leftarrow> rd_u16 r;
     Some (\<lparr>su_statementNumber = statementNumber, su_activityCount = uint activityCount,
       su_lastWarning = lastWarning, su_fieldCount = fieldCount, su_activityType = activityType\<rparr>, r) }"

record errorResponse =
  er_statementNumber :: u16
  er_info :: u16
  er_code :: u16
  er_messageLen :: u16
  er_message :: string

definition error_fromBuffer :: "bufferReader \<Rightarrow> (errorResponse \<times> bufferReader) option" where
  "error_fromBuffer r = do {
     (statementNumber, r) \<leftarrow> rd_u16 r;
     (info, r) \<leftarrow> rd_u16 r;
     (code, r) \<leftarrow> rd_u16 r;
     (messageLen, r) \<leftarrow> rd_u16 r;
     (msgData, r) \<leftarrow> rd_bytes (uint messageLen) r;
     Some (\<lparr>er_statementNumber = statementNumber, er_info = info, er_code = code,
       er_messageLen = messageLen, er_message = bytes_str msgData\<rparr>, r) }"

definition asTeradataError :: "errorResponse \<Rightarrow> goerror" where
  "asTeradataError p = TeradataError (er_code p) (er_message p)"

record securityPolicy =
  sp_securityRequired :: bool
  sp_confidentialityRequired :: bool
  sp_securityLevel :: int

definition securityPolicy_fromBuffer :: "bufferReader \<Rightarrow> (securityPolicy \<times> bufferReader) option" where
  "securityPolicy_fromBuffer r = do {
     (a, r) \<leftarrow> rd_u8 r;
     (b, r) \<leftarrow> rd_u8 r;
     (l, r) \<leftarrow> rd_u32 (rd_skip 2 r);
     Some (\<lparr>sp_securityRequired = (a \<ge> 1), sp_confidentialityRequired = (b \<ge> 1),
       sp_securityLevel = uint l\<rparr>, r) }"

record assignResponse =
  as_dbmsVersion :: string
  as_dbmsRelease :: string
  as_hostId :: u16

definition assignResponse_fromBuffer :: "bufferReader \<Rightarrow> (assignResponse \<times> bufferReader) option" where
  "assignResponse_fromBuffer r = do {
     let flavorPosition = rd_position r - parcelHeaderLen;
     let r = rd_seek (flavorPosition + 76) r;
     (rel, r) \<leftarrow> rd_bytes 6 r;
     (ver, r) \<leftarrow> rd_bytes 14 r;
     (hostId, r) \<leftarrow> rd_u16 r;
     Some (\<lparr>as_dbmsVersion = bytes_str ver, as_dbmsRelease = bytes_str rel, as_hostId = hostId\<rparr>, r) }"

record ssoResponse =
  so_method :: byte
  so_trip :: byte
  so_code :: byte
  so_authData :: "byte list"
  so_mustBeZero :: byte

definition ssoResponse_fromBuffer :: "bufferReader \<Rightarrow> (ssoResponse \<times> bufferReader) option" where
  "ssoResponse_fromBuffer r = do {
     (method, r) \<leftarrow> rd_u8 r;
     (code, r) \<leftarrow> rd_u8 r;
     (trip, r) \<leftarrow> rd_u8 r;
     (mustBeZero, r) \<leftarrow> rd_u8 r;
     (authLen, r) \<leftarrow> rd_u16 r;
     (authData, r) \<leftarrow> rd_bytes (uint authLen) r;
     Some (\<lparr>so_method = method, so_trip = trip, so_code = code, so_authData = authData,
       so_mustBeZero = mustBeZero\<rparr>, r) }"

definition lsn_fromBuffer :: "bufferReader \<Rightarrow> (int \<times> bufferReader) option" where
  "lsn_fromBuffer r = do { (v, r) \<leftarrow> rd_u32 r; Some (uint v, r) }"

definition endStatement_fromBuffer :: "bufferReader \<Rightarrow> (u16 \<times> bufferReader) option" where
  "endStatement_fromBuffer r = rd_u16 r"

definition startSlobData_fromBuffer :: "bufferReader \<Rightarrow> (int \<times> bufferReader) option" where
  "startSlobData_fromBuffer r = do { (v, r) \<leftarrow> rd_u32 r; Some (uint v, r) }"

section \<open>Authentication mechanisms\<close>

definition decodeAuthMetch :: "string \<Rightarrow> byte" where
  "decodeAuthMetch mech =
     (if mech = ''1.3.6.1.4.1.191.1.1012.1.1.9'' then 1
      else if mech = ''1.3.6.1.4.1.28698.4.302.1.4'' then 2
      else if mech = ''1.3.6.1.4.1.191.1.1012.1.20'' then 4
      else if mech = ''1.3.6.1.4.1.28698.4.302.1.3'' then 8
      else if mech = ''1.3.6.1.4.1.191.1.1012.1.6'' then 16
      else 0)"

record authMechParcel =
  am_ok :: bool
  am_oid :: string
  am_defaultMech :: bool
  am_defaultNegoMech :: bool
  am_cidBypassSupported :: bool
  am_rank :: int

definition newAuthMechParcel :: authMechParcel where
  "newAuthMechParcel = \<lparr>am_ok = False, am_oid = [], am_defaultMech = False, am_defaultNegoMech = False,
     am_cidBypassSupported = False, am_rank = 0\<rparr>"

definition getAuthMechFlag :: "authMechParcel \<Rightarrow> byte" where
  "getAuthMechFlag p = decodeAuthMetch (am_oid p)"

text \<open>
  The attributes behind the identifier. An attribute of length 0 moves the reader back to itself, so
  the loop is partial: \<open>None\<close> is a panic or a run that does not end.
\<close>

definition authMech_attr :: "authMechParcel \<Rightarrow> bufferReader \<Rightarrow> (authMechParcel \<times> bufferReader) option" where
  "authMech_attr p r = do {
     let pos = rd_position r;
     (typ, r) \<leftarrow> rd_u16 r;
     (n, r) \<leftarrow> rd_u16 r;
     let r = rd_skip 4 r;
     (p, r) \<leftarrow> (if typ = 16 then do { (v, r) \<leftarrow> rd_u32 r; Some (p\<lparr>am_defaultMech := (v \<noteq> 0)\<rparr>, r) }
       else if typ = 17 then do { (v, r) \<leftarrow> rd_u32 r; Some (p\<lparr>am_rank := uint v\<rparr>, r) }
       else if typ = 112 then do { (v, r) \<leftarrow> rd_u32 r; Some (p\<lparr>am_defaultNegoMech := (v \<noteq> 0)\<rparr>, r) }
       else if typ = 129 then do { (v, r) \<leftarrow> rd_u32 r; Some (p\<lparr>am_cidBypassSupported := (v \<noteq> 0)\<rparr>, r) }
       else Some (p, r));
     Some (p, rd_seek (pos + uint n) r) }"

partial_function (option) authMech_attrs ::
    "int \<Rightarrow> int \<Rightarrow> authMechParcel \<Rightarrow> bufferReader \<Rightarrow> (authMechParcel \<times> bufferReader) option"
where
  "authMech_attrs startPos n p r =
     (if rd_position r - startPos + 8 < n
      then do { (p, r) \<leftarrow> authMech_attr p r; authMech_attrs startPos n p r }
      else Some (p, r))"

definition authMech_fromBuffer ::
    "(byte list \<Rightarrow> string option) \<Rightarrow> bufferReader \<Rightarrow> int \<Rightarrow> (authMechParcel \<times> bufferReader) option" where
  "authMech_fromBuffer oidString r n = do {
     let startPos = rd_position r;
     (v, r) \<leftarrow> rd_u32 r;
     if v = 1 then do {
       (oidLen, r) \<leftarrow> rd_u32 r;
       (oidParts, r) \<leftarrow> rd_bytes (uint oidLen) r;
       let derData = 0x06 # word_of_nat (length oidParts) # oidParts;
       case oidString derData of
         None \<Rightarrow> Some (newAuthMechParcel, r)
       | Some oid \<Rightarrow> authMech_attrs startPos n (newAuthMechParcel\<lparr>am_oid := oid\<rparr>) r }
     else Some (newAuthMechParcel, r) }"

section \<open>Statement status\<close>

record statementStatus =
  ss_status :: byte
  ss_responseMode :: byte
  ss_statementNumber :: u32
  ss_code :: u16
  ss_activityType :: u16
  ss_activityCount :: u64
  ss_fieldCount :: u32
  ss_warnings :: "(u16 \<times> u16 \<times> string) list"
  ss_mergeInsertCount :: u64
  ss_mergeUpdateCount :: u64
  ss_mergeDeleteCount :: u64

definition zeroStatementStatus :: statementStatus where
  "zeroStatementStatus = \<lparr>ss_status = 0, ss_responseMode = 0, ss_statementNumber = 0, ss_code = 0,
     ss_activityType = 0, ss_activityCount = 0, ss_fieldCount = 0, ss_warnings = [],
     ss_mergeInsertCount = 0, ss_mergeUpdateCount = 0, ss_mergeDeleteCount = 0\<rparr>"

definition status_ext :: "statementStatus \<Rightarrow> bufferReader \<Rightarrow> (statementStatus \<times> bufferReader) option" where
  "status_ext p r = do {
     (typ, r) \<leftarrow> rd_u16 r;
     (n, r) \<leftarrow> rd_u32 r;
     let pos = rd_position r;
     (p, r) \<leftarrow> (if typ = 1 then do {
         (warnCode, r) \<leftarrow> rd_u16 r;
         (warnComp, r) \<leftarrow> rd_u16 r;
         (k, r) \<leftarrow> rd_u32 r;
         (warnMsg, r) \<leftarrow> asciiString (uint k) r;
         Some (p\<lparr>ss_warnings := ss_warnings p @ [(warnCode, warnComp, warnMsg)]\<rparr>, r) }
       else if typ = 10 \<and> n \<ge> 24 then do {
         (a, r) \<leftarrow> rd_u64 r;
         (b, r) \<leftarrow> rd_u64 r;
         (c, r) \<leftarrow> rd_u64 r;
         Some (p\<lparr>ss_mergeInsertCount := a, ss_mergeUpdateCount := b, ss_mergeDeleteCount := c\<rparr>, r) }
       else Some (p, r));
     Some (p, rd_seek (pos + uint n) r) }"

lemma status_ext_progress: "status_ext p r = Some (p', r') \<Longrightarrow> rd_position r + 6 \<le> rd_position r'"
  by (auto simp: status_ext_def bind_eq_Some_conv Let_def rd_position_def rd_seek_def
      dest!: rd_u16_frame rd_u32_frame split: if_splits)

function status_exts :: "int \<Rightarrow> int \<Rightarrow> statementStatus \<Rightarrow> bufferReader \<Rightarrow> (statementStatus \<times> bufferReader) option"
where
  "status_exts startPos n p r =
     (if rd_position r - startPos + 6 < n then
        (case status_ext p r of None \<Rightarrow> None | Some (p, r) \<Rightarrow> status_exts startPos n p r)
      else Some (p, r))"
  by pat_completeness auto
termination
  by (relation "measure (\<lambda>(startPos, n, p, r). nat (startPos + n - rd_position r))")
    (auto dest!: status_ext_progress)

declare status_exts.simps [simp del]

definition statementStatus_fromBuffer :: "bufferReader \<Rightarrow> int \<Rightarrow> (statementStatus \<times> bufferReader) option" where
  "statementStatus_fromBuffer r n = do {
     let startPos = rd_position r;
     (status, r) \<leftarrow> rd_u8 r;
     (responseMode, r) \<leftarrow> rd_u8 r;
     let r = rd_skip 2 r;
     (statementNumber, r) \<leftarrow> rd_u32 r;
     (code, r) \<leftarrow> rd_u16 r;
     (activityType, r) \<leftarrow> rd_u16 r;
     (activityCount, r) \<leftarrow> rd_u64 r;
     (fieldCount, r) \<leftarrow> rd_u32 r;
     let r = rd_skip 4 r;
     status_exts startPos n (zeroStatementStatus\<lparr>ss_status := status, ss_responseMode := responseMode,
       ss_statementNumber := statementNumber, ss_code := code, ss_activityType := activityType,
       ss_activityCount := activityCount, ss_fieldCount := fieldCount\<rparr>) r }"

section \<open>The configuration response\<close>

text \<open>
  The many one-byte feature flags and four-byte limits are kept in tables by their Go field names; an
  entry \<open>(field, offset, min)\<close> of a tag's table is read when the tag is longer than \<open>min\<close>, always for
  \<open>min = -1\<close>.
\<close>

record configResponse =
  cr_length :: int
  cr_defaultTransactionSemantics :: byte
  cr_defaultTDCharSetCode :: byte
  cr_ampCount :: u16
  cr_charSetNameToCode :: "string \<Rightarrow> byte option"
  cr_maximumNumberOfSegments :: u16
  cr_maximumSegmentSize :: u32
  cr_features :: "string \<Rightarrow> byte"
  cr_dbsRelease :: string
  cr_dbsVersion :: string
  cr_limits :: "string \<Rightarrow> u32"
  cr_maxLobBytes :: u64
  cr_supportedTransactionIsolationLevels :: int

definition newConfigResponse :: configResponse where
  "newConfigResponse = \<lparr>cr_length = 0, cr_defaultTransactionSemantics = 0, cr_defaultTDCharSetCode = 0,
     cr_ampCount = 0, cr_charSetNameToCode = (\<lambda>_. None), cr_maximumNumberOfSegments = 0,
     cr_maximumSegmentSize = 0, cr_features = (\<lambda>_. 0), cr_dbsRelease = [], cr_dbsVersion = [],
     cr_limits = (\<lambda>_. 0), cr_maxLobBytes = 0, cr_supportedTransactionIsolationLevels = 0\<rparr>"

definition tag7_limits :: "(string \<times> int \<times> int) list" where
  "tag7_limits = [
     (''maxRowBytes'', 8, 116), (''maxRequestBytes'', 20, 116), (''maxResponseBytes'', 24, 116),
     (''maxSPParams'', 28, 116), (''maxColGrpBy'', 32, 116), (''maxColOrdrBy'', 36, 116),
     (''maxColInSel'', 40, 116), (''maxColinTbl'', 44, 116), (''maxObjectNameChars'', 48, 116),
     (''maxTblinSel'', 52, 116), (''maxFieldsUsingRow'', 56, 116),
     (''maxUsingDataBytes'', 60, 116), (''maxBinLiteralChars'', 64, 116),
     (''maxCharLiteralChars'', 68, 116), (''maxDecimal'', 72, 116), (''maxColBytes'', 76, 116),
     (''maxVarcharChars'', 80, 116), (''maxCharChars'', 84, 116), (''maxGraphicChars'', 88, 116),
     (''maxVargraphicChars'', 92, 116), (''maxVarbyteBytes'', 96, 116),
     (''maxByteBytes'', 100, 116), (''maxParamsInRequest'', 104, 116),
     (''maxTimeScale'', 108, 116), (''maxTimeStampScale'', 112, 116),
     (''maxIntervalToSecondScale'', 116, 116), (''maxDeferredByNameFileNameBytes'', 120, 120),
     (''maxAvailableBytesInResponseRow'', 124, 124), (''maxJsonByteCount'', 128, 128)]"

definition objectName_limits :: "string list" where
  "objectName_limits = [
     ''maxColNameChars'', ''maxProcedureNameChars'', ''maxSchemaNameChars'', ''maxTblNameChars'',
     ''maxUsrNameChars'', ''maxCatalogNameChars'']"

definition tag10_features :: "(string \<times> int \<times> int) list" where
  "tag10_features = [
     (''arraySupport'', 1, - 1), (''outParamArgSupport'', 3, - 1),
     (''largeDecimalBIGINT'', 4, - 1), (''generatedKeysSupport'', 5, - 1),
     (''trustedSessionsSupport'', 11, - 1), (''trustedSQLSupport'', 13, 13),
     (''xmlSupport'', 16, 16), (''jsonSupport'', 21, 21), (''dataSetAvroSupport'', 24, 24),
     (''dataSetCSVSupport'', 25, 25), (''odbcScalarFunctionLevel'', 27, 27),
     (''otfSupport'', 28, 28), (''vsdSupport'', 29, 29)]"

definition tag11_features :: "(string \<times> int \<times> int) list" where
  "tag11_features = [
     (''lobSupport'', 0, - 1), (''aphSupport'', 1, - 1), (''extendedRspSupport'', 2, - 1),
     (''positioningSupport'', 3, 3), (''udtSupport'', 4, 4),
     (''enhancedStatementStatusSupport'', 5, 5), (''aphResponseSupport'', 6, 6),
     (''statementInfoSupport'', 7, 7), (''dynamicResultSetsSupport'', 9, 9),
     (''msrPositioningSupport'', 10, 10), (''statementInfoRequestSupport'', 11, 11),
     (''udtTransformOffSupport'', 12, 12), (''periodDataTypeSupport'', 13, 13),
     (''elicitByNameSupport'', 14, 14), (''clientAttributesSupport'', 15, 15),
     (''fetchRowCountSupport'', 16, 16), (''statementIndependenceSupport'', 17, 17),
     (''recoverableNPSupport'', 18, 18), (''arrayDataTypeSupport'', 19, 19),
     (''redriveSupport'', 21, 21), (''controlDataSupport'', 22, 22),
     (''numberDataTypeSupport'', 24, 24), (''statementStatusLevel'', 25, 25),
     (''failFastSupport'', 26, 26), (''unityClientAttributesSupport'', 27, 27),
     (''slobClientToServerSupport'', 30, 30), (''slobServerToClientSupport'', 31, 31),
     (''queryableViewColumnInfoSupport'', 33, 33)]"

definition tag12_features :: "(string \<times> int \<times> int) list" where
  "tag12_features = [
     (''fastExportNoSpoolSupport'', 1, 1), (''checkWorkloadSupport'', 2, 2),
     (''monitorAsyncAbortSupport'', 4, 4)]"

definition tag14_features :: "(string \<times> int \<times> int) list" where
  "tag14_features = [
     (''extNamesOnDisk'', 0, - 1), (''extNamesInViews'', 1, - 1), (''extNamesInDbs'', 2, - 1),
     (''extNamesInParcels'', 3, - 1)]"

fun read_fields :: "(int \<Rightarrow> 'v option) \<Rightarrow> int \<Rightarrow> int \<Rightarrow> (string \<times> int \<times> int) list \<Rightarrow> (string \<Rightarrow> 'v)
    \<Rightarrow> (string \<Rightarrow> 'v) option" where
  "read_fields at pos tagLen [] m = Some m"
| "read_fields at pos tagLen ((f, off, lim) # fs) m =
     (if tagLen > lim then do { v \<leftarrow> at (pos + off); read_fields at pos tagLen fs (m(f := v)) }
      else read_fields at pos tagLen fs m)"

definition tag7_read :: "bufferReader \<Rightarrow> int \<Rightarrow> int \<Rightarrow> configResponse \<Rightarrow> configResponse option" where
  "tag7_read r pos tagLen p = do {
     segs \<leftarrow> u16At r (pos + 2);
     size \<leftarrow> u32At r (pos + 4);
     limits \<leftarrow> read_fields (u32At r) pos tagLen tag7_limits (cr_limits p);
     lob \<leftarrow> (if tagLen > 116 then u64At r (pos + 12) else Some (cr_maxLobBytes p));
     let limits = (if tagLen > 116
       then fold (\<lambda>f l. l(f := limits ''maxObjectNameChars'')) objectName_limits limits else limits);
     Some (p\<lparr>cr_maximumNumberOfSegments := segs, cr_maximumSegmentSize := size, cr_limits := limits,
       cr_maxLobBytes := lob\<rparr>) }"

definition tag_features :: "bufferReader \<Rightarrow> int \<Rightarrow> int \<Rightarrow> (string \<times> int \<times> int) list \<Rightarrow> configResponse
    \<Rightarrow> configResponse option" where
  "tag_features r pos tagLen tab p = do {
     fs \<leftarrow> read_fields (byteAt r) pos tagLen tab (cr_features p);
     Some (p\<lparr>cr_features := fs\<rparr>) }"

definition feature_tag :: "configResponse \<Rightarrow> bufferReader \<Rightarrow> (configResponse \<times> bufferReader) option" where
  "feature_tag p r = do {
     (tag, r) \<leftarrow> rd_u16 r;
     (n, r) \<leftarrow> rd_u16 r;
     let tagLen = uint n;
     let pos = rd_position r;
     p \<leftarrow> (if tag = 7 then tag7_read r pos tagLen p
       else if tag = 10 then tag_features r pos tagLen tag10_features p
       else if tag = 11 then tag_features r pos tagLen tag11_features p
       else if tag = 12 then tag_features r pos tagLen tag12_features p
       else if tag = 13 then do {
         rel \<leftarrow> asciiStringAt r pos 30;
         ver \<leftarrow> asciiStringAt r (pos + 30) 32;
         Some (p\<lparr>cr_dbsRelease := trimSpace rel, cr_dbsVersion := trimSpace ver\<rparr>) }
       else if tag = 14 then tag_features r pos tagLen tag14_features p
       else Some p);
     Some (p, rd_seek (pos + tagLen) r) }"

lemma feature_tag_progress: "feature_tag p r = Some (p', r') \<Longrightarrow> rd_position r + 4 \<le> rd_position r'"
  by (auto simp: feature_tag_def bind_eq_Some_conv Let_def rd_position_def rd_seek_def
      dest!: rd_u16_frame)

lemma feature_tag_length: "feature_tag p r = Some (p', r') \<Longrightarrow> cr_length p' = cr_length p"
  by (auto simp: feature_tag_def bind_eq_Some_conv Let_def tag7_read_def tag_features_def
      split: if_splits)

lemma feature_tag_moves:
  "feature_tag p r = Some (p', r') \<Longrightarrow>
     rd_position r + 4 \<le> rd_position r' \<and> cr_length p' = cr_length p"
  by (simp add: feature_tag_progress feature_tag_length)

function determineFeatureSupport ::
    "int \<Rightarrow> configResponse \<Rightarrow> bufferReader \<Rightarrow> (configResponse \<times> bufferReader) option"
where
  "determineFeatureSupport flavorPosition p r =
     (if rd_position r + 4 < flavorPosition + cr_length p then
        (case feature_tag p r of
           None \<Rightarrow> None
         | Some (p', r') \<Rightarrow> determineFeatureSupport flavorPosition p' r')
      else Some (p\<lparr>cr_supportedTransactionIsolationLevels := (if cr_dbsRelease p = [] then 8 else 9)\<rparr>, r))"
  by pat_completeness auto
termination
  by (relation "measure (\<lambda>(fp, p, r). nat (fp + cr_length p - rd_position r))")
    (auto dest!: feature_tag_moves)

declare determineFeatureSupport.simps [simp del]

fun read_charsets :: "nat \<Rightarrow> (string \<Rightarrow> byte option) \<Rightarrow> bufferReader \<Rightarrow> ((string \<Rightarrow> byte option) \<times> bufferReader) option"
where
  "read_charsets 0 m r = Some (m, r)"
| "read_charsets (Suc n) m r = do {
     (code, r) \<leftarrow> rd_u8 r;
     (name, r) \<leftarrow> asciiString 30 (rd_skip 1 r);
     read_charsets n (m(trimSpace name \<mapsto> code)) r }"

definition config_fromBuffer :: "bufferReader \<Rightarrow> int \<Rightarrow> (configResponse \<times> bufferReader) option" where
  "config_fromBuffer r n = do {
     let flavorPosition = rd_position r - parcelHeaderLen;
     let p = newConfigResponse\<lparr>cr_length := n\<rparr>;
     let r = rd_seek (flavorPosition + 14) r;
     (ifpRecCount, r) \<leftarrow> rd_u16 r;
     let r = rd_skip (uint ifpRecCount * 4) r;
     (ampCount, r) \<leftarrow> rd_u16 r;
     let r = rd_skip (uint ampCount * 2) r;
     (charSetCode, r) \<leftarrow> rd_u8 r;
     let r = rd_skip 1 r;
     (charSetCount, r) \<leftarrow> rd_u16 r;
     (names, r) \<leftarrow> read_charsets (unat charSetCount) (\<lambda>_. None) r;
     sem \<leftarrow> byteAt r (rd_position r + 6);
     let r = rd_skip 7 r;
     determineFeatureSupport flavorPosition
       (p\<lparr>cr_ampCount := ampCount, cr_defaultTDCharSetCode := charSetCode, cr_charSetNameToCode := names,
          cr_defaultTransactionSemantics := sem\<rparr>) r }"

definition newConnectionCapabilities :: "configResponse \<Rightarrow> connectionCapabilities" where
  "newConnectionCapabilities cnfg =
     (let f = cr_features cnfg; l = cr_limits cnfg; on = (\<lambda>n. f n AND 1 = 1);
          c = \<lparr>cap_defaultTransactionSemantics = cr_defaultTransactionSemantics cnfg,
            cap_statementStatusLevel = uint (f ''statementStatusLevel''),
            cap_clientAttributesSupport = f ''clientAttributesSupport'',
            cap_lobSupport = (f ''lobSupport'' = 1),
            cap_dynamicResultSetsSupport = on ''dynamicResultSetsSupport'',
            cap_extNamesInParcels = on ''extNamesInParcels'',
            cap_periodDataTypeSupport = on ''periodDataTypeSupport'',
            cap_trustedSQLSupport = on ''trustedSQLSupport'',
            cap_xmlSupport = on ''xmlSupport'',
            cap_failFastSupport = on ''failFastSupport'',
            cap_vsdSupport = on ''vsdSupport'',
            cap_arraySupport = on ''arraySupport'',
            cap_maxAvailableBytesInResponseRow = uint (l ''maxAvailableBytesInResponseRow''),
            cap_otfSupport = on ''otfSupport'',
            cap_statementInfoSupport = f ''statementInfoSupport'',
            cap_unityClientAttributesSupport = f ''unityClientAttributesSupport'',
            cap_aphSupport = (f ''aphSupport'' \<ge> 1),
            cap_maxResponseMessageBodySize = uint (l ''maxResponseBytes''),
            cap_slobClientToServerSupport = f ''slobClientToServerSupport'',
            cap_numberDataTypeSupport =
              (f ''numberDataTypeSupport'' \<ge> 1 \<and> f ''statementInfoSupport'' \<ge> 1),
            cap_statementInfoRequestSupport = (f ''statementInfoRequestSupport'' \<ge> 1),
            cap_checkWorkloadSupported = (f ''checkWorkloadSupport'' \<ge> 1),
            cap_ampCount = uint (cr_ampCount cnfg),
            cap_largeDecimalSupport = (f ''largeDecimalBIGINT'' \<ge> 1),
            cap_largeIndicDataSupport = (l ''maxUsingDataBytes'' > 64230),
            cap_maxRequestMessageBodySize = uint (l ''maxRequestBytes'')\<rparr>;
          c = (if cap_maxRequestMessageBodySize c = 0
               then c\<lparr>cap_maxRequestMessageBodySize := 1048500\<rparr> else c)
      in if cap_maxResponseMessageBodySize c = 0
         then c\<lparr>cap_maxResponseMessageBodySize := 1048500\<rparr> else c)"

end
