(* ===== verification/ParcelWalk.thy ===== *)
theory ParcelWalk
  imports ResponseParcels
begin

text \<open>
  The walk over the parcels of a message: the factory, the loop every reader of a message runs, and
  the functions built on it (src/parcel.go, and \<open>readLanMessage\<close> of src/packet.go).
\<close>

section \<open>Response parcels\<close>

datatype responseParcel =
    RP_error errorResponse
  | RP_config configResponse
  | RP_gatewayConfig
  | RP_authMech authMechParcel
  | RP_ssoResponse ssoResponse
  | RP_assignResponse assignResponse
  | RP_success successResponse
  | RP_endRequest
  | RP_statementInfo statementInfo
  | RP_statementInfoEnd
  | RP_endStatement u16
  | RP_statementStatus statementStatus
  | RP_securityPolicy securityPolicy
  | RP_startSlobData int
  | RP_slobData
  | RP_endSlobData
  | RP_multiPartEnd
  | RP_lsn int

definition map_fst :: "('a \<Rightarrow> 'c) \<Rightarrow> ('a \<times> 'b) option \<Rightarrow> ('c \<times> 'b) option" where
  "map_fst f = map_option (\<lambda>(a, b). (f a, b))"

text \<open>
  \<open>responseParcelFactory\<close> followed by \<open>fromBuffer\<close> of the parcel it made: \<open>Inl\<close> for a flavor the
  driver does not know.
\<close>

definition responseParcelFactory ::
    "(byte list \<Rightarrow> string option) \<Rightarrow> u16
      \<Rightarrow> goerror + (bufferReader \<Rightarrow> int \<Rightarrow> (responseParcel \<times> bufferReader) option)" where
  "responseParcelFactory oidString flavor =
     (if flavor = flavorError \<or> flavor = flavorFailure
        then Inr (\<lambda>r n. map_fst RP_error (error_fromBuffer r))
      else if flavor = flavorConfigResponse then Inr (\<lambda>r n. map_fst RP_config (config_fromBuffer r n))
      else if flavor = flavorGatewayConfig then Inr (\<lambda>r n. Some (RP_gatewayConfig, r))
      else if flavor = flavorAuthMech
        then Inr (\<lambda>r n. map_fst RP_authMech (authMech_fromBuffer oidString r n))
      else if flavor = flavorSsoResponse then Inr (\<lambda>r n. map_fst RP_ssoResponse (ssoResponse_fromBuffer r))
      else if flavor = flavorAssignResponse
        then Inr (\<lambda>r n. map_fst RP_assignResponse (assignResponse_fromBuffer r))
      else if flavor = flavorSuccess then Inr (\<lambda>r n. map_fst RP_success (success_fromBuffer r))
      else if flavor = flavorEndRequest then Inr (\<lambda>r n. Some (RP_endRequest, r))
      else if flavor = flavorStatementInfo
        then Inr (\<lambda>r n. map_fst RP_statementInfo (statementInfo_fromBuffer r n))
      else if flavor = flavorStementInfoEnd then Inr (\<lambda>r n. Some (RP_statementInfoEnd, r))
      else if flavor = flavorEndStatement
        then Inr (\<lambda>r n. map_fst RP_endStatement (endStatement_fromBuffer r))
      else if flavor = flavorStatementStatus
        then Inr (\<lambda>r n. map_fst RP_statementStatus (statementStatus_fromBuffer r n))
      else if flavor = flavorSecurityPolicy
        then Inr (\<lambda>r n. map_fst RP_securityPolicy (securityPolicy_fromBuffer r))
      else if flavor = flavorStartSlobData
        then Inr (\<lambda>r n. map_fst RP_startSlobData (startSlobData_fromBuffer r))
      else if flavor = flavorSlobData then Inr (\<lambda>r n. Some (RP_slobData, r))
      else if flavor = flavorEndSlobData then Inr (\<lambda>r n. Some (RP_endSlobData, r))
      else if flavor = flavorMultiPartEnd then Inr (\<lambda>r n. Some (RP_multiPartEnd, r))
      else if flavor = flavorLSN then Inr (\<lambda>r n. map_fst RP_lsn (lsn_fromBuffer r))
      else Inl (Errorf ''unknown parcel, flavor=%d'' []))"

text \<open>\<open>findParcel\<close>, for a type given by its partial projection: the first parcel of the type.\<close>

fun findParcel :: "('p \<Rightarrow> 'a option) \<Rightarrow> 'p list \<Rightarrow> 'a option" where
  "findParcel proj [] = None"
| "findParcel proj (p # ps) = (case proj p of Some a \<Rightarrow> Some a | None \<Rightarrow> findParcel proj ps)"

fun as_error :: "responseParcel \<Rightarrow> errorResponse option" where
  "as_error (RP_error e) = Some e" | "as_error _ = None"
fun as_success :: "responseParcel \<Rightarrow> successResponse option" where
  "as_success (RP_success e) = Some e" | "as_success _ = None"
fun as_status :: "responseParcel \<Rightarrow> statementStatus option" where
  "as_status (RP_statementStatus e) = Some e" | "as_status _ = None"
fun as_statementInfo :: "responseParcel \<Rightarrow> statementInfo option" where
  "as_statementInfo (RP_statementInfo e) = Some e" | "as_statementInfo _ = None"
fun as_lsn :: "responseParcel \<Rightarrow> int option" where
  "as_lsn (RP_lsn e) = Some e" | "as_lsn _ = None"
fun as_sso :: "responseParcel \<Rightarrow> ssoResponse option" where
  "as_sso (RP_ssoResponse e) = Some e" | "as_sso _ = None"

definition activityCountFromStatusParcels :: "responseParcel list \<Rightarrow> u64 option" where
  "activityCountFromStatusParcels ps =
     (case findParcel as_status ps of
        Some st \<Rightarrow> Some (ss_activityCount st + ss_mergeInsertCount st + ss_mergeUpdateCount st
                      + ss_mergeDeleteCount st)
      | None \<Rightarrow> (case findParcel as_success ps of
                   Some su \<Rightarrow> Some (word_of_int (su_activityCount su))
                 | None \<Rightarrow> None))"

section \<open>The loop\<close>

text \<open>
  One round: read the header at the reader's position, handle the parcel, seek to the parcel's
  declared end. The handler keeps no reader: whatever it read, the loop seeks. A parcel of declared
  length 0 moves nowhere, so the loop is partial; \<open>None\<close> is a panic or a run that does not end.
\<close>

type_synonym ('s, 'r) handler = "u16 \<Rightarrow> int \<Rightarrow> bool \<Rightarrow> bufferReader \<Rightarrow> 's \<Rightarrow> ('s + 'r) option"

definition walk_round :: "('s, 'r) handler \<Rightarrow> bufferReader \<Rightarrow> 's \<Rightarrow> ((bufferReader \<times> 's) + 'r) option" where
  "walk_round f reader s = do {
     let parcelStart = rd_position reader;
     (flavor, parcelLen, alt, r) \<leftarrow> readParcelHeader reader;
     x \<leftarrow> f flavor parcelLen alt r s;
     case x of Inr y \<Rightarrow> Some (Inr y)
     | Inl s \<Rightarrow> Some (Inl (rd_seek (parcelStart + parcelLen) r, s)) }"

partial_function (option) walk :: "('s, 'r) handler \<Rightarrow> bufferReader \<Rightarrow> 's \<Rightarrow> ('s + 'r) option" where
  "walk f reader s = do {
     x \<leftarrow> walk_round f reader s;
     case x of Inr y \<Rightarrow> Some (Inr y)
     | Inl (reader, s) \<Rightarrow> if isDone reader then Some (Inl s) else walk f reader s }"

definition is_error_flavor :: "u16 \<Rightarrow> bool" where
  "is_error_flavor flavor \<longleftrightarrow> flavor = flavorFailure \<or> flavor = flavorError"

definition checkError_handler :: "(unit, goerror) handler" where
  "checkError_handler flavor n alt r s =
     (if is_error_flavor flavor
      then map_option (\<lambda>(p, r). Inr (asTeradataError p)) (error_fromBuffer r)
      else Some (Inl ()))"

text \<open>\<open>checkErrorParcel\<close>: the first error parcel of the message, with the reader back at its start
  when there is none. The reader's position after an error is not used by any caller.\<close>

definition checkErrorParcel :: "bufferReader \<Rightarrow> goerror option option" where
  "checkErrorParcel reader =
     map_option (\<lambda>x. case x of Inl _ \<Rightarrow> None | Inr e \<Rightarrow> Some e) (walk checkError_handler reader ())"

definition collect_handler :: "(byte list \<Rightarrow> string option) \<Rightarrow> (responseParcel list, goerror) handler" where
  "collect_handler oidString flavor n alt r parcels =
     (case responseParcelFactory oidString flavor of
        Inl _ \<Rightarrow> Some (Inl parcels)
      | Inr from \<Rightarrow> map_option (\<lambda>(p, r). Inl (parcels @ [p])) (from r n))"

text \<open>The parcel part of \<open>readLanMessage\<close>: all known parcels in order, or the first error among them.\<close>

definition readParcels :: "(byte list \<Rightarrow> string option) \<Rightarrow> bufferReader \<Rightarrow> (goerror + responseParcel list) option" where
  "readParcels oidString reader = do {
     x \<leftarrow> walk (collect_handler oidString) reader [];
     case x of Inr e \<Rightarrow> Some (Inl e)
     | Inl parcels \<Rightarrow>
         (case findParcel as_error parcels of
            Some e \<Rightarrow> Some (Inl (asTeradataError e))
          | None \<Rightarrow> Some (Inr parcels)) }"

section \<open>Messages as lists of parcels\<close>

text \<open>A parcel on the wire: whether its header is the alternative one, its flavor and its body.\<close>

type_synonym chunk = "bool \<times> u16 \<times> byte list"

fun chunk_len :: "chunk \<Rightarrow> int" where
  "chunk_len (alt, flavor, b) = (if alt then 8 else 4) + int (length b)"

declare chunk_len.simps [simp del]

fun chunk_hdr :: "chunk \<Rightarrow> byte list" where
  "chunk_hdr (alt, flavor, b) =
     (if alt then be_enc 2 (unat (flavor XOR 0x8000)) @ be_enc 2 (unat (0 :: u16))
        @ be_enc 4 (unat (word_of_int (chunk_len (alt, flavor, b)) :: u32))
      else be_enc 2 (unat flavor) @ be_enc 2 (unat (word_of_int (chunk_len (alt, flavor, b)) :: u16)))"

definition chunk_image :: "chunk \<Rightarrow> byte list" where
  "chunk_image c = chunk_hdr c @ snd (snd c)"

fun chunk_ok :: "chunk \<Rightarrow> bool" where
  "chunk_ok (alt, flavor, b) \<longleftrightarrow> flavor AND 0x8000 = 0
     \<and> chunk_len (alt, flavor, b) < (if alt then 2 ^ 32 else 2 ^ 16)"

definition chunks_image :: "chunk list \<Rightarrow> byte list" where
  "chunks_image cs = concat (map chunk_image cs)"

lemma length_chunk_image: "int (length (chunk_image c)) = chunk_len c"
  by (cases c) (simp add: chunk_image_def chunk_len.simps)

lemma uint_u16_of_int: "0 \<le> x \<Longrightarrow> x < 2 ^ 16 \<Longrightarrow> uint (word_of_int x :: u16) = x"
  by (simp add: uint_word_of_int)

lemma uint_u32_of_int: "0 \<le> x \<Longrightarrow> x < 2 ^ 32 \<Longrightarrow> uint (word_of_int x :: u32) = x"
  by (simp add: uint_word_of_int)

lemma chunk_len_ge: "4 \<le> chunk_len c"
  by (cases c) (simp add: chunk_len.simps)

lemma xor_top_twice: "((v :: u16) XOR 0x8000) XOR 0x8000 = v"
  by (simp add: xor.assoc)

lemma xor_top_set: "(v :: u16) AND 0x8000 = 0 \<Longrightarrow> (v XOR 0x8000) AND 0x8000 \<noteq> 0"
proof -
  assume "v AND 0x8000 = 0"
  moreover have "(v XOR 0x8000) AND 0x8000 = (v AND 0x8000) XOR 0x8000"
    by (simp add: bit.conj_xor_distrib2)
  ultimately show ?thesis by simp
qed

lemma readParcelHeader_chunk:
  assumes "chunk_ok (alt, flavor, b)"
  shows "readParcelHeader (rdr pre (chunk_image (alt, flavor, b) @ suf) l) =
    Some (flavor, chunk_len (alt, flavor, b), alt, rdr (pre @ chunk_hdr (alt, flavor, b)) (b @ suf) l)"
proof (cases alt)
  case False
  have "uint (word_of_int (chunk_len (alt, flavor, b)) :: u16) = chunk_len (alt, flavor, b)"
    using assms False chunk_len_ge [of "(alt, flavor, b)"] by (intro uint_u16_of_int) auto
  then show ?thesis
    using assms False by (simp add: chunk_image_def readParcelHeader_rdr)
next
  case True
  have "uint (word_of_int (chunk_len (alt, flavor, b)) :: u32) = chunk_len (alt, flavor, b)"
    using assms True chunk_len_ge [of "(alt, flavor, b)"] by (intro uint_u32_of_int) auto
  then show ?thesis
    using assms True readParcelHeader_alt [OF xor_top_set, of flavor pre 0 "word_of_int (chunk_len (alt, flavor, b))"
        "b @ suf" l]
    by (simp add: chunk_image_def xor_top_twice)
qed

section \<open>The walk visits every parcel once\<close>

text \<open>What a handler does with a list of parcels placed behind \<open>pre\<close>.\<close>

fun run_chunks :: "('s, 'r) handler \<Rightarrow> byte list \<Rightarrow> chunk list \<Rightarrow> byte list \<Rightarrow> int \<Rightarrow> 's \<Rightarrow> ('s + 'r) option"
where
  "run_chunks f pre [] suf l s = Some (Inl s)"
| "run_chunks f pre (c # cs) suf l s =
     (case f (fst (snd c)) (chunk_len c) (fst c)
             (rdr (pre @ chunk_hdr c) (snd (snd c) @ chunks_image cs @ suf) l) s of
        None \<Rightarrow> None
      | Some (Inr y) \<Rightarrow> Some (Inr y)
      | Some (Inl s) \<Rightarrow> run_chunks f (pre @ chunk_image c) cs suf l s)"

lemma walk_round_chunk:
  assumes "chunk_ok c"
  shows "walk_round f (rdr pre (chunk_image c @ suf) l) s =
    (case f (fst (snd c)) (chunk_len c) (fst c) (rdr (pre @ chunk_hdr c) (snd (snd c) @ suf) l) s of
       None \<Rightarrow> None
     | Some (Inr y) \<Rightarrow> Some (Inr y)
     | Some (Inl s) \<Rightarrow> Some (Inl (rdr (pre @ chunk_image c) suf l, s)))"
proof -
  obtain a fl b where c: "c = (a, fl, b)" by (cases c)
  have "rd_seek (int (length pre) + chunk_len c) (rdr (pre @ chunk_hdr c) (b @ suf) l)
      = rdr (pre @ chunk_image c) suf l"
    using length_chunk_image [of c] by (simp add: rd_seek_def rdr_def chunk_image_def c)
  then show ?thesis
    using readParcelHeader_chunk [of a fl b pre suf l] assms
    by (auto simp: walk_round_def c split: option.splits sum.splits)
qed

lemma walk_chunks:
  assumes "cs \<noteq> []" "list_all chunk_ok cs" "l = int (length pre) + int (length (chunks_image cs))"
  shows "walk f (rdr pre (chunks_image cs @ suf) l) s = run_chunks f pre cs suf l s"
  using assms
proof (induction cs arbitrary: pre s)
  case (Cons c cs)
  have ok: "chunk_ok c" using Cons.prems by simp
  have img: "chunks_image (c # cs) @ suf = chunk_image c @ (chunks_image cs @ suf)"
    by (simp add: chunks_image_def)
  have "walk f (rdr (pre @ chunk_image c) (chunks_image cs @ suf) l) s' =
      run_chunks f (pre @ chunk_image c) cs suf l s'" if "cs \<noteq> []" for s'
    using that Cons.prems by (intro Cons.IH) (auto simp: chunks_image_def)
  moreover have "isDone (rdr (pre @ chunk_image c) (chunks_image cs @ suf) l) \<longleftrightarrow> cs = []"
  proof (cases cs)
    case (Cons d ds)
    then show ?thesis
      using Cons.prems length_chunk_image [of d] chunk_len_ge [of d] by (simp add: chunks_image_def)
  qed (use Cons.prems in \<open>simp add: chunks_image_def\<close>)
  ultimately show ?case
    by (subst walk.simps, unfold img walk_round_chunk [OF ok])
      (auto split: option.splits sum.splits)
qed simp

text \<open>A parcel that declares length 0 and is not handled leaves the walk where it was.\<close>

lemma walk_round_zero:
  assumes "readParcelHeader r = Some (flavor, 0, alt, r')" "f flavor 0 alt r' s = Some (Inl s)"
  shows "walk_round f r s = Some (Inl (r, s))"
proof -
  have "r_buff r' = r_buff r \<and> r_len r' = r_len r"
    using assms(1) by (auto simp: readParcelHeader_def bind_eq_Some_conv split: if_splits
        dest!: rd_u16_frame rd_u32_frame)
  then have "rd_seek (rd_position r + 0) r' = r"
    by (cases r; cases r') (simp add: rd_seek_def rd_position_def)
  then show ?thesis using assms by (simp add: walk_round_def)
qed

lemma walk_stuck:
  assumes "walk_round f r s = Some (Inl (r, s))" "\<not> isDone r"
  shows "walk f r s = None"
proof (rule ccontr)
  assume "walk f r s \<noteq> None"
  then obtain y where y: "walk f r s = Some y" by blast
  have "walk_round f r s = Some (Inl (r, s)) \<longrightarrow> isDone r"
  proof (rule walk.raw_induct [where P = "\<lambda>f r s y. walk_round f r s = Some (Inl (r, s)) \<longrightarrow> isDone r",
        OF _ y])
    fix g :: "('a, 'b) handler \<Rightarrow> bufferReader \<Rightarrow> 'a \<Rightarrow> ('a + 'b) option" and f r s y
    assume "\<And>f r s y. g f r s = Some y \<Longrightarrow> walk_round f r s = Some (Inl (r, s)) \<longrightarrow> isDone r"
      and "do {
        x \<leftarrow> walk_round f r s;
        case x of Inl (reader, s) \<Rightarrow> if isDone reader then Some (Inl s) else g f reader s
        | Inr y \<Rightarrow> Some (Inr y) } = Some y"
    then show "walk_round f r s = Some (Inl (r, s)) \<longrightarrow> isDone r"
      by (auto simp: bind_eq_Some_conv split: if_splits)
  qed
  then show False using assms by blast
qed

section \<open>Parsing one parcel\<close>

text \<open>The body of an error parcel and what it says.\<close>

definition wf_error_body :: "byte list \<Rightarrow> bool" where
  "wf_error_body b \<longleftrightarrow> 8 \<le> length b \<and> 8 + unat (u16_of (take 2 (drop 6 b))) \<le> length b"

definition error_of_body :: "byte list \<Rightarrow> goerror" where
  "error_of_body b = TeradataError (u16_of (take 2 (drop 4 b)))
     (bytes_str (take (unat (u16_of (take 2 (drop 6 b)))) (drop 8 b)))"

lemma split_at: "n \<le> length b \<Longrightarrow> \<exists>x y. b = x @ y \<and> length x = n"
  by (intro exI [of _ "take n b"] exI [of _ "drop n b"]) simp

lemma wf_error_body_split:
  assumes "wf_error_body b"
  obtains a i c n m t where "b = a @ i @ c @ n @ m @ t" "length a = 2" "length i = 2" "length c = 2"
    "length n = 2" "length m = unat (u16_of n)"
    "error_of_body b = TeradataError (u16_of c) (bytes_str m)"
proof -
  obtain a b1 where b1: "b = a @ b1" "length a = 2"
    using assms split_at [of 2 b] by (auto simp: wf_error_body_def)
  then obtain i b2 where b2: "b1 = i @ b2" "length i = 2"
    using assms split_at [of 2 b1] by (auto simp: wf_error_body_def)
  then obtain c b3 where b3: "b2 = c @ b3" "length c = 2"
    using assms b1 split_at [of 2 b2] by (auto simp: wf_error_body_def)
  then obtain n b4 where b4: "b3 = n @ b4" "length n = 2"
    using assms b1 b2 split_at [of 2 b3] by (auto simp: wf_error_body_def)
  have "unat (u16_of n) \<le> length b4" using assms b1 b2 b3 b4 by (simp add: wf_error_body_def)
  then obtain m t where m: "b4 = m @ t" "length m = unat (u16_of n)" using split_at by blast
  show thesis
    using b1 b2 b3 b4 m by (intro that [of a i c n m t]) (simp_all add: error_of_body_def)
qed

lemma error_fromBuffer_body:
  assumes "wf_error_body b"
  shows "\<exists>p r'. error_fromBuffer (rdr pre (b @ s) l) = Some (p, r') \<and> asTeradataError p = error_of_body b"
proof -
  obtain a i c n m t where b: "b = a @ i @ c @ n @ m @ t" "length a = 2" "length i = 2" "length c = 2"
    "length n = 2" "length m = unat (u16_of n)" "error_of_body b = TeradataError (u16_of c) (bytes_str m)"
    using assms by (rule wf_error_body_split)
  show ?thesis
    using b(7) unfolding b(1)
    by (simp add: error_fromBuffer_def b(2-6) rd_u16_bytes rd_bytes_rdr asTeradataError_def)
qed

section \<open>Finding the error of a message\<close>

definition is_error_chunk :: "chunk \<Rightarrow> bool" where
  "is_error_chunk c = is_error_flavor (fst (snd c))"

lemma run_checkError:
  assumes "\<forall>c \<in> set cs. is_error_chunk c \<longrightarrow> wf_error_body (snd (snd c))"
  shows "run_chunks checkError_handler pre cs suf l () =
    Some (case find is_error_chunk cs of Some c \<Rightarrow> Inr (error_of_body (snd (snd c))) | None \<Rightarrow> Inl ())"
  using assms
proof (induction cs arbitrary: pre)
  case (Cons c cs)
  show ?case
  proof (cases "is_error_chunk c")
    case True
    then obtain p r' where
      "error_fromBuffer (rdr (pre @ chunk_hdr c) (snd (snd c) @ chunks_image cs @ suf) l) = Some (p, r')"
      "asTeradataError p = error_of_body (snd (snd c))"
      using Cons.prems error_fromBuffer_body by fastforce
    then show ?thesis using True by (simp add: checkError_handler_def is_error_chunk_def)
  next
    case False
    then show ?thesis using Cons by (simp add: checkError_handler_def is_error_chunk_def)
  qed
qed simp

text \<open>A response parcel that is parsed from its own bytes only, wherever it stands in a message.\<close>

definition self_contained :: "(byte list \<Rightarrow> string option) \<Rightarrow> chunk \<Rightarrow> responseParcel \<Rightarrow> bool" where
  "self_contained oid c p \<longleftrightarrow> (\<exists>from. responseParcelFactory oid (fst (snd c)) = Inr from \<and>
     (\<forall>pre s l. \<exists>r'. from (rdr (pre @ chunk_hdr c) (snd (snd c) @ s) l) (chunk_len c) = Some (p, r')))"

lemma run_collect:
  assumes "list_all2 (\<lambda>c q. case q of
      Some p \<Rightarrow> self_contained oid c p
    | None \<Rightarrow> (\<exists>e. responseParcelFactory oid (fst (snd c)) = Inl e)) cs qs"
  shows "run_chunks (collect_handler oid) pre cs suf l ps = Some (Inl (ps @ List.map_filter id qs))"
  using assms
proof (induction cs arbitrary: qs pre ps)
  case Nil
  then show ?case by (simp add: List.map_filter_def)
next
  case (Cons c cs)
  then obtain q qs' where q: "qs = q # qs'" by (auto simp: list_all2_Cons1)
  show ?case
  proof (cases q)
    case None
    then show ?thesis using Cons q by (auto simp: collect_handler_def List.map_filter_simps)
  next
    case (Some p)
    then obtain prs where f: "responseParcelFactory oid (fst (snd c)) = Inr prs"
      "\<And>pre s l. \<exists>r'. prs (rdr (pre @ chunk_hdr c) (snd (snd c) @ s) l) (chunk_len c) = Some (p, r')"
      using Cons.prems q by (auto simp: self_contained_def)
    then obtain r' where
      "prs (rdr (pre @ chunk_hdr c) (snd (snd c) @ chunks_image cs @ suf) l) (chunk_len c) = Some (p, r')"
      by blast
    then show ?thesis
      using Cons q Some f(1) by (auto simp: collect_handler_def List.map_filter_simps)
  qed
qed

section \<open>Parcels that stand on their own\<close>

lemma self_contained_error:
  assumes "is_error_chunk c" "wf_error_body (snd (snd c))"
  shows "\<exists>e. self_contained oid c (RP_error e) \<and> asTeradataError e = error_of_body (snd (snd c))"
proof -
  obtain a i cc n m t where b: "snd (snd c) = a @ i @ cc @ n @ m @ t" "length a = 2" "length i = 2"
    "length cc = 2" "length n = 2" "length m = unat (u16_of n)"
    "error_of_body (snd (snd c)) = TeradataError (u16_of cc) (bytes_str m)"
    using assms(2) by (rule wf_error_body_split)
  have fl: "fst (snd c) = flavorError \<or> fst (snd c) = flavorFailure"
    using assms(1) by (auto simp: is_error_chunk_def is_error_flavor_def)
  show ?thesis
    using fl b(7) unfolding b(1)
    by (intro exI [of _ "\<lparr>er_statementNumber = u16_of a, er_info = u16_of i, er_code = u16_of cc,
        er_messageLen = u16_of n, er_message = bytes_str m\<rparr>"])
      (auto simp: self_contained_def responseParcelFactory_def map_fst_def error_fromBuffer_def b(1-6)
        rd_u16_bytes rd_bytes_rdr asTeradataError_def)
qed

lemma self_contained_plain:
  "self_contained oid (a, flavorEndRequest, b) RP_endRequest"
  "self_contained oid (a, flavorStementInfoEnd, b) RP_statementInfoEnd"
  "self_contained oid (a, flavorMultiPartEnd, b) RP_multiPartEnd"
  by (simp_all add: self_contained_def responseParcelFactory_def)

lemma self_contained_endStatement:
  "length n = 2 \<Longrightarrow> self_contained oid (a, flavorEndStatement, n @ b) (RP_endStatement (u16_of n))"
  by (simp add: self_contained_def responseParcelFactory_def map_fst_def endStatement_fromBuffer_def
      rd_u16_bytes)

lemma self_contained_success:
  assumes "length n = 2" "length c = 4" "length w = 2" "length f = 2" "length t = 2"
  shows "self_contained oid (a, flavorSuccess, n @ c @ w @ f @ t @ b)
    (RP_success \<lparr>su_statementNumber = u16_of n, su_activityCount = uint (u32_of c),
      su_lastWarning = u16_of w, su_fieldCount = u16_of f, su_activityType = u16_of t\<rparr>)"
  using assms
  by (simp add: self_contained_def responseParcelFactory_def map_fst_def success_fromBuffer_def
      rd_u16_bytes rd_u32_bytes)

lemma readParcels_chunks:
  assumes "cs \<noteq> []" "list_all chunk_ok cs" "l = int (length pre) + int (length (chunks_image cs))"
    and "list_all2 (\<lambda>c q. case q of
      Some p \<Rightarrow> self_contained oid c p
    | None \<Rightarrow> (\<exists>e. responseParcelFactory oid (fst (snd c)) = Inl e)) cs qs"
  shows "readParcels oid (rdr pre (chunks_image cs @ suf) l) =
    Some (case findParcel as_error (List.map_filter id qs) of
        Some e \<Rightarrow> Inl (asTeradataError e)
      | None \<Rightarrow> Inr (List.map_filter id qs))"
  using walk_chunks [OF assms(1-3), of "collect_handler oid" suf "[]"]
    run_collect [OF assms(4), of pre suf l "[]"]
  by (auto simp: readParcels_def split: option.splits)

section \<open>Properties\<close>

text \<open>C35: A message is checked for errors by visiting its parcels, long and short headers alike, exactly
  at their boundaries: the result is the code and text of the first failure or error parcel, and no
  error when the message has none, whatever the bytes of the other parcels look like.\<close>

theorem checkErrorParcel_first:
  assumes "cs \<noteq> []" "list_all chunk_ok cs" "l = int (length pre) + int (length (chunks_image cs))"
    and "\<forall>c \<in> set cs. is_error_chunk c \<longrightarrow> wf_error_body (snd (snd c))"
  shows "checkErrorParcel (rdr pre (chunks_image cs @ suf) l) =
    Some (map_option (\<lambda>c. error_of_body (snd (snd c))) (find is_error_chunk cs))"
  using walk_chunks [OF assms(1-3), of checkError_handler suf "()"] run_checkError [OF assms(4)]
  by (auto simp: checkErrorParcel_def split: option.splits)

theorem checkErrorParcel_first_witness:
  "checkErrorParcel (rdr [] (chunks_image [(False, 11, [0, 49]), (True, 9, [0, 1, 0, 0, 0x0D, 0xBA, 0, 2, 110, 111])]) 24)
     = Some (Some (TeradataError 3514 ''no''))"
proof -
  let ?cs = "[(False, 11, [0, 49]), (True, 9, [0, 1, 0, 0, 0x0D, 0xBA, 0, 2, 110, 111])] :: chunk list"
  have "checkErrorParcel (rdr [] (chunks_image ?cs @ []) 24)
      = Some (map_option (\<lambda>c. error_of_body (snd (snd c))) (find is_error_chunk ?cs))"
    by (rule checkErrorParcel_first)
      (simp_all add: chunk_len.simps chunks_image_def chunk_image_def is_error_chunk_def
        is_error_flavor_def wf_error_body_def u16_of_def be_val_Cons)
  then show ?thesis
    by (simp add: is_error_chunk_def is_error_flavor_def error_of_body_def u16_of_def be_val_Cons
        bytes_str_def char_of_def bit_iff_odd)
qed

text \<open>C21: A message of parcels the driver knows or skips is read as the list of the known ones, in the
  order sent and none twice; if an error parcel is among them the message is that error instead.\<close>

theorem readParcels_in_order:
  assumes "cs \<noteq> []" "list_all chunk_ok cs" "l = int (length pre) + int (length (chunks_image cs))"
    and "list_all2 (\<lambda>c q. case q of
      Some p \<Rightarrow> self_contained oid c p
    | None \<Rightarrow> (\<exists>e. responseParcelFactory oid (fst (snd c)) = Inl e)) cs qs"
  shows "readParcels oid (rdr pre (chunks_image cs @ suf) l) =
    Some (case findParcel as_error (List.map_filter id qs) of
        Some e \<Rightarrow> Inl (asTeradataError e)
      | None \<Rightarrow> Inr (List.map_filter id qs))"
  by (rule readParcels_chunks [OF assms])

theorem readParcels_in_order_witness:
  "readParcels (\<lambda>_. None) (rdr [] (chunks_image [(False, 11, [0, 1]), (False, 999, []), (False, 12, [])]) 14)
     = Some (Inr [RP_endStatement 1, RP_endRequest])"
proof -
  let ?cs = "[(False, 11, [0, 1] @ []), (False, 999, []), (False, 12, [])] :: chunk list"
  have e: "self_contained (\<lambda>_. None) (False, flavorEndStatement, [0, 1] @ []) (RP_endStatement 1)"
    using self_contained_endStatement [of "[0, 1]" "\<lambda>_. None" False "[]"]
    by (simp add: u16_of_def be_val_Cons)
  have "readParcels (\<lambda>_. None) (rdr [] (chunks_image ?cs @ []) 14) =
    Some (case findParcel as_error (List.map_filter id [Some (RP_endStatement 1), None, Some RP_endRequest]) of
        Some e \<Rightarrow> Inl (asTeradataError e)
      | None \<Rightarrow> Inr (List.map_filter id [Some (RP_endStatement 1), None, Some RP_endRequest]))"
    by (rule readParcels_in_order)
      (use e self_contained_plain(1) in \<open>simp_all add: chunk_len.simps chunks_image_def chunk_image_def
        responseParcelFactory_def\<close>)
  then show ?thesis by (simp add: List.map_filter_simps)
qed

text \<open>C36: A parcel whose header declares length 0 hangs every reader of the message. With a flavor the
  driver does not know, one round of the loop leaves the reader where it was, so reading the message
  never returns.\<close>

theorem zero_length_parcel_hangs:
  assumes "is_error_flavor flavor = False" "\<exists>e. responseParcelFactory oid flavor = Inl e"
    and "flavor AND 0x8000 = 0" "int (length pre) < l"
  shows "walk_round (collect_handler oid) (rdr pre (be_enc 2 (unat flavor) @ [0, 0] @ suf) l) ps
      = Some (Inl (rdr pre (be_enc 2 (unat flavor) @ [0, 0] @ suf) l, ps))
    \<and> readParcels oid (rdr pre (be_enc 2 (unat flavor) @ [0, 0] @ suf) l) = None
    \<and> checkErrorParcel (rdr pre (be_enc 2 (unat flavor) @ [0, 0] @ suf) l) = None"
proof -
  let ?r = "rdr pre (be_enc 2 (unat flavor) @ [0, 0] @ suf) l"
  have "be_enc 2 (unat (0 :: u16)) = [0, 0 :: byte]" by (simp add: numeral_2_eq_2)
  then obtain r' where h: "readParcelHeader ?r = Some (flavor, 0, False, r')"
    using readParcelHeader_rdr [OF assms(3), of pre 0 suf l] by auto
  have c: "walk_round (collect_handler oid) ?r ps = Some (Inl (?r, ps))" for ps
    using assms(2) by (intro walk_round_zero [OF h]) (auto simp: collect_handler_def)
  have e: "walk_round checkError_handler ?r () = Some (Inl (?r, ()))"
    using assms(1) by (intro walk_round_zero [OF h]) (simp add: checkError_handler_def)
  have nd: "\<not> isDone ?r" using assms(4) by simp
  show ?thesis
    using c walk_stuck [OF c [of "[]"] nd] walk_stuck [OF e nd]
    by (simp add: readParcels_def checkErrorParcel_def)
qed

theorem zero_length_parcel_hangs_witness:
  "readParcels (\<lambda>_. None) (rdr [] [0, 200, 0, 0] 4) = None"
  using zero_length_parcel_hangs [of 200 "\<lambda>_. None" "[]" 4 "[]" "[]"]
  by (simp add: is_error_flavor_def responseParcelFactory_def be_enc_2)

end
