(* ===== verification/Der.thy ===== *)
theory Der
  imports Errors
begin

text \<open>
  The minimal DER reader and writer of the TD2 mechanism (src/der.go). The reader's length field is a
  Go \<open>int\<close>: shifting octets into it drops high bits and can make it negative, and \<open>int64\<close> writes
  that wrap-around out.
\<close>

record derTLV =
  d_tag :: byte
  d_constructed :: bool
  d_content :: "byte list"
  d_totalLen :: int

definition int64 :: "int \<Rightarrow> int" where "int64 x = sint (word_of_int x :: 64 word)"

section \<open>Reading\<close>

text \<open>The loop that collects the octets of a long-form length.\<close>

definition longFormLength :: "byte list \<Rightarrow> int" where
  "longFormLength bs = sint (foldl (\<lambda>a b. or (push_bit 8 a) (ucast b)) (0 :: 64 word) bs)"

definition parseDerTLV :: "byte list \<Rightarrow> int \<Rightarrow> (goerror + derTLV) option" where
  "parseDerTLV data pos =
     (if pos < 0 \<or> pos \<ge> int (length data)
      then Some (Inl (Errorf ''der: position %d out of range (len %d)'' []))
      else do {
        idByte \<leftarrow> index data pos;
        if and idByte 0x1F = 0x1F
        then Some (Inl (Errorf ''der: high-tag-number form not supported'' []))
        else
          let tag = and idByte 0x1F;
              constructed = (and idByte 0x20 \<noteq> 0);
              lenPos = pos + 1
          in if lenPos \<ge> int (length data)
             then Some (Inl (Errorf ''der: truncated length octet'' []))
             else do {
               lenByte \<leftarrow> index data lenPos;
               let n = uint (and lenByte 0x7F);
               if and lenByte 0x80 \<noteq> 0 \<and> lenPos + 1 + n > int (length data)
               then Some (Inl (Errorf ''der: truncated long-form length'' []))
               else do {
                 octets \<leftarrow> (if and lenByte 0x80 \<noteq> 0 then slice data (lenPos + 1) (lenPos + 1 + n)
                           else Some []);
                 let contentLen = (if and lenByte 0x80 \<noteq> 0 then longFormLength octets else n);
                 let lenOctets = (if and lenByte 0x80 \<noteq> 0 then 1 + n else 1);
                 let contentStart = lenPos + lenOctets;
                 let contentEnd = int64 (contentStart + contentLen);
                 if contentEnd > int (length data)
                 then Some (Inl (Errorf ''der: truncated content octets (want %d, have %d)'' []))
                 else do {
                   content \<leftarrow> slice data contentStart contentEnd;
                   Some (Inr \<lparr>d_tag = tag, d_constructed = constructed, d_content = content,
                              d_totalLen = 1 + lenOctets + contentLen\<rparr>) }}}})"

lemma int64_id: "- (2 ^ 63) \<le> x \<Longrightarrow> x < 2 ^ 63 \<Longrightarrow> int64 x = x"
  by (simp add: int64_def signed_of_int signed_take_bit_int_eq_self)

lemma int64_bound: "int64 x < 2 ^ 63" "- (2 ^ 63) \<le> int64 x"
  using sint_less [of "word_of_int x :: 64 word"] sint_greater_eq [of "word_of_int x :: 64 word"]
  by (auto simp: int64_def)

lemma longFormLength_bound: "longFormLength bs < 2 ^ 63" "- (2 ^ 63) \<le> longFormLength bs"
  using sint_less [of "foldl (\<lambda>a b. or (push_bit 8 a) (ucast b)) (0 :: 64 word) bs"]
    sint_greater_eq [of "foldl (\<lambda>a b. or (push_bit 8 a) (ucast b)) (0 :: 64 word) bs"]
  by (auto simp: longFormLength_def)

lemma content_slice_nonneg:
  assumes "slice data cs (int64 (cs + cl)) = Some c" "- (2 ^ 63) \<le> cl" "cl < 2 ^ 63"
  shows "0 \<le> cl"
proof (rule ccontr)
  assume neg: "\<not> 0 \<le> cl"
  have b: "0 \<le> cs" "cs \<le> int64 (cs + cl)" using slice_SomeD [OF assms(1)] by auto
  have "cs < 2 ^ 63" using b int64_bound(1) [of "cs + cl"] by linarith
  then have "int64 (cs + cl) = cs + cl"
    using b assms(2) neg by (intro int64_id) auto
  then show False using b neg by linarith
qed

lemma parseDerTLV_progress:
  assumes "parseDerTLV data pos = Some (Inr t)"
  shows "0 \<le> pos" "pos < int (length data)" "2 \<le> d_totalLen t"
proof -
  have neg: False if "slice data cs (int64 (cs + longFormLength oct)) = Some c"
    "longFormLength oct < 0" for cs oct c
    using content_slice_nonneg [OF that(1)] longFormLength_bound [of oct] that(2) by auto
  show "0 \<le> pos" "pos < int (length data)"
    using assms by (auto simp: parseDerTLV_def split: if_splits)
  show "2 \<le> d_totalLen t"
  proof (rule ccontr)
    assume "\<not> 2 \<le> d_totalLen t"
    with assms show False
      using neg uint_ge_0
      by (auto simp: parseDerTLV_def Let_def split: if_splits elim!: bind_SomeE)
        (smt (verit) neg uint_ge_0)+
  qed
qed

text \<open>
  \<open>parseDerChildren\<close> is the loop of the source. Every record consumed is at least two octets long, so
  it ends.
\<close>

function parseDerChildren_loop :: "byte list \<Rightarrow> int \<Rightarrow> derTLV list \<Rightarrow> (goerror + derTLV list) option" where
  "parseDerChildren_loop content pos acc =
     (if pos < int (length content)
      then (case parseDerTLV content pos of
              None \<Rightarrow> None
            | Some (Inl err) \<Rightarrow> Some (Inl err)
            | Some (Inr t) \<Rightarrow> parseDerChildren_loop content (pos + d_totalLen t) (acc @ [t]))
      else Some (Inr acc))"
  by pat_completeness auto
termination
  by (relation "measure (\<lambda>(content, pos, acc). nat (int (length content) - pos))")
    (auto dest: parseDerTLV_progress(3))

declare parseDerChildren_loop.simps [simp del]

definition parseDerChildren :: "byte list \<Rightarrow> (goerror + derTLV list) option" where
  "parseDerChildren content = parseDerChildren_loop content 0 []"

definition derInt :: "byte list \<Rightarrow> int" where
  "derInt content =
     (let v = int (be_val content);
          v = (if content \<noteq> [] \<and> and (content ! 0) 0x80 \<noteq> 0 then v - 2 ^ (8 * length content) else v)
      in int64 v)"

definition derUint64 :: "byte list \<Rightarrow> u64" where
  "derUint64 content = word_of_nat (be_val content)"

definition findDerChild :: "derTLV list \<Rightarrow> byte \<Rightarrow> derTLV option" where
  "findDerChild children tag = find (\<lambda>c. d_tag c = tag) children"

section \<open>Writing\<close>

text \<open>The loop of \<open>encodeDerLength\<close> prepends the low octet until the value is used up.\<close>

fun lengthOctets :: "nat \<Rightarrow> byte list \<Rightarrow> byte list" where
  "lengthOctets v lb = (if v > 0 then lengthOctets (v div 256) (word_of_nat v # lb) else lb)"

declare lengthOctets.simps [simp del]

definition encodeDerLength :: "nat \<Rightarrow> byte list" where
  "encodeDerLength n =
     (if n \<le> 127 then [word_of_nat n]
      else let lb = lengthOctets n [] in or 0x80 (word_of_nat (length lb)) # lb)"

text \<open>\<open>None\<close> is the panic on a high tag number.\<close>

definition encodeDerTLV :: "byte \<Rightarrow> bool \<Rightarrow> byte list \<Rightarrow> byte list option" where
  "encodeDerTLV tagNumber constructed content =
     (if tagNumber > 30 then None
      else let idByte = (if constructed then or 0xC0 0x20 else 0xC0);
               idByte = or idByte tagNumber
           in Some ([idByte] @ encodeDerLength (length content) @ content))"

definition encodeDerConstructed :: "byte \<Rightarrow> byte list list \<Rightarrow> byte list option" where
  "encodeDerConstructed tagNumber children = encodeDerTLV tagNumber True (concat children)"

text \<open>\<open>big.Int.Bytes\<close>: the big-endian form without leading zeros.\<close>

fun bigIntBytes :: "nat \<Rightarrow> byte list" where
  "bigIntBytes v = (if v = 0 then [] else bigIntBytes (v div 256) @ [word_of_nat v])"

declare bigIntBytes.simps [simp del]

definition derMinimalInt :: "u64 \<Rightarrow> byte list" where
  "derMinimalInt v =
     (let b = bigIntBytes (unat v) in
      if b = [] then [0]
      else if and (b ! 0) 0x80 \<noteq> 0 then 0 # b else b)"

section \<open>Integers\<close>

lemma be_val_bigIntBytes [simp]: "be_val (bigIntBytes v) = v"
proof (induction v rule: bigIntBytes.induct)
  case (1 v)
  show ?case
  proof (cases "v = 0")
    case True
    then show ?thesis by (simp add: bigIntBytes.simps)
  next
    case False
    then have "be_val (bigIntBytes v) = v div 256 * 256 + v mod 256"
      using 1 by (subst bigIntBytes.simps) (simp add: be_val_snoc unat_of_nat)
    then show ?thesis by simp
  qed
qed

lemma length_bigIntBytes: "v < 256 ^ n \<Longrightarrow> length (bigIntBytes v) \<le> n"
proof (induction v arbitrary: n rule: bigIntBytes.induct)
  case (1 v)
  show ?case
  proof (cases "v = 0")
    case True
    then show ?thesis by (simp add: bigIntBytes.simps)
  next
    case False
    with "1.prems" obtain m where n: "n = Suc m" by (cases n) auto
    then have "v div 256 < 256 ^ m" using "1.prems" by (simp add: less_mult_imp_div_less mult.commute)
    then show ?thesis using 1 False n by (subst bigIntBytes.simps) simp
  qed
qed

lemma bigIntBytes_Nil [simp]: "bigIntBytes v = [] \<longleftrightarrow> v = 0"
  by (subst bigIntBytes.simps) simp

lemma lengthOctets_bytes: "lengthOctets v lb = bigIntBytes v @ lb"
proof (induction v arbitrary: lb rule: bigIntBytes.induct)
  case (1 v)
  then show ?case by (subst lengthOctets.simps, subst bigIntBytes.simps) simp
qed

lemma high_bit_iff: "and b 0x80 \<noteq> 0 \<longleftrightarrow> 128 \<le> unat (b :: byte)"
proof -
  have "list_all (\<lambda>n. (and (word_of_nat n :: byte) 0x80 \<noteq> 0) = (128 \<le> n)) [0..<256]"
    by code_simp
  then have *: "\<forall>n\<in>{0..<256}. (and (word_of_nat n :: byte) 0x80 \<noteq> 0) = (128 \<le> n)"
    by (simp only: list_all_iff set_upt)
  have "(word_of_nat (unat b) :: byte) = b" by simp
  moreover have "unat b \<in> {0..<256}" using unat_byte_less [of b] by simp
  ultimately show ?thesis using * by metis
qed

lemma derMinimalInt_val [simp]: "be_val (derMinimalInt v) = unat v"
  by (auto simp: derMinimalInt_def Let_def be_val_Cons)

lemma derMinimalInt_high: "and (derMinimalInt v ! 0) 0x80 = 0"
  by (auto simp: derMinimalInt_def Let_def)

lemma derMinimalInt_nonempty [simp]: "derMinimalInt v \<noteq> []"
  by (simp add: derMinimalInt_def Let_def)

lemma length_derMinimalInt: "length (derMinimalInt v) \<le> 9"
proof -
  have "unat v < 256 ^ 8" using unsigned_less [of v, where ?'a = nat] by simp
  then show ?thesis using length_bigIntBytes [of "unat v" 8]
    by (auto simp: derMinimalInt_def Let_def)
qed

section \<open>Lengths\<close>

lemma or_push_byte: "or (push_bit 8 a) (ucast (b :: byte)) = a * 256 + (ucast b :: 64 word)"
proof -
  have "and (push_bit 8 a) (ucast b :: 64 word) = 0"
    by (rule bit_word_eqI) (auto simp: bit_simps dest: bit_imp_le_length)
  then have "or (push_bit 8 a) (ucast b) = push_bit 8 a + (ucast b :: 64 word)"
    by (simp add: disjunctive_add_eq_or)
  then show ?thesis by (simp add: push_bit_eq_mult)
qed

lemma longFormLength_fold:
  "foldl (\<lambda>a b. or (push_bit 8 a) (ucast b)) (word_of_nat k :: 64 word) bs
     = word_of_nat (k * 256 ^ length bs + be_val bs)"
proof (induction bs arbitrary: k)
  case Nil
  then show ?case by simp
next
  case (Cons b bs)
  have "(word_of_nat k * 256 + ucast b :: 64 word) = word_of_nat (k * 256 + unat b)"
    by simp
  then show ?case
    using Cons.IH [of "k * 256 + unat b"]
    by (simp add: or_push_byte be_val_Cons algebra_simps)
qed

lemma longFormLength_val:
  "be_val bs < 2 ^ 63 \<Longrightarrow> longFormLength bs = int (be_val bs)"
  using longFormLength_fold [of 0 bs]
  by (simp add: longFormLength_def signed_of_nat signed_take_bit_int_eq_self)

lemma long_count:
  assumes "k \<le> 8"
  shows "and (or 0x80 (word_of_nat k)) 0x80 \<noteq> (0 :: byte)"
    "uint (and (or 0x80 (word_of_nat k)) 0x7F :: byte) = int k"
proof -
  have "list_all (\<lambda>k. and (or 0x80 (word_of_nat k)) 0x80 \<noteq> (0 :: byte)
      \<and> uint (and (or 0x80 (word_of_nat k)) 0x7F :: byte) = int k) [0..<9]" by code_simp
  then have "\<forall>k\<in>{0..<9}. and (or 0x80 (word_of_nat k)) 0x80 \<noteq> (0 :: byte)
      \<and> uint (and (or 0x80 (word_of_nat k)) 0x7F :: byte) = int k"
    by (simp only: list_all_iff set_upt)
  then show "and (or 0x80 (word_of_nat k)) 0x80 \<noteq> (0 :: byte)"
    "uint (and (or 0x80 (word_of_nat k)) 0x7F :: byte) = int k" using assms by auto
qed

lemma short_count:
  assumes "n \<le> 127"
  shows "and (word_of_nat n) 0x80 = (0 :: byte)" "uint (and (word_of_nat n) 0x7F :: byte) = int n"
proof -
  have "list_all (\<lambda>n. and (word_of_nat n) 0x80 = (0 :: byte)
      \<and> uint (and (word_of_nat n) 0x7F :: byte) = int n) [0..<128]" by code_simp
  then have "\<forall>n\<in>{0..<128}. and (word_of_nat n) 0x80 = (0 :: byte)
      \<and> uint (and (word_of_nat n) 0x7F :: byte) = int n"
    by (simp only: list_all_iff set_upt)
  then show "and (word_of_nat n) 0x80 = (0 :: byte)" "uint (and (word_of_nat n) 0x7F :: byte) = int n"
    using assms by auto
qed

definition idOctet :: "byte \<Rightarrow> bool \<Rightarrow> byte" where
  "idOctet tag constructed = or (if constructed then or 0xC0 0x20 else 0xC0) tag"

lemma idOctet_parts:
  assumes "tag \<le> 30"
  shows "and (idOctet tag c) 0x1F \<noteq> 0x1F" "and (idOctet tag c) 0x1F = tag"
    "(and (idOctet tag c) 0x20 \<noteq> 0) = c"
proof -
  have "list_all (\<lambda>n. list_all (\<lambda>c. and (idOctet (word_of_nat n) c) 0x1F = word_of_nat n
      \<and> and (idOctet (word_of_nat n) c) 0x1F \<noteq> 0x1F
      \<and> (and (idOctet (word_of_nat n) c) 0x20 \<noteq> 0) = c) [True, False]) [0..<31]" by code_simp
  then have *: "\<forall>n\<in>{0..<31}. and (idOctet (word_of_nat n) c) 0x1F = word_of_nat n
      \<and> and (idOctet (word_of_nat n) c) 0x1F \<noteq> 0x1F \<and> (and (idOctet (word_of_nat n) c) 0x20 \<noteq> 0) = c"
    by (cases c) (simp only: list_all_iff set_upt list.set ball_simps; blast)+
  have "unat tag < 31" using assms by (simp add: word_le_nat_alt)
  then have "unat tag \<in> {0..<31}" by simp
  with * have "and (idOctet (word_of_nat (unat tag)) c) 0x1F = word_of_nat (unat tag)
      \<and> and (idOctet (word_of_nat (unat tag)) c) 0x1F \<noteq> 0x1F
      \<and> (and (idOctet (word_of_nat (unat tag)) c) 0x20 \<noteq> 0) = c" by blast
  moreover have e: "word_of_nat (unat tag) = tag" by simp
  ultimately show "and (idOctet tag c) 0x1F \<noteq> 0x1F" "and (idOctet tag c) 0x1F = tag"
    "(and (idOctet tag c) 0x20 \<noteq> 0) = c" unfolding e by blast+
qed

section \<open>Round trip\<close>

lemma encodeDerTLV_some:
  "tag \<le> 30 \<Longrightarrow>
     encodeDerTLV tag c content = Some (idOctet tag c # encodeDerLength (length content) @ content)"
  by (simp add: encodeDerTLV_def idOctet_def Let_def not_less)

lemma index_at: "pos = int (length xs) \<Longrightarrow> index (xs @ y # zs) pos = Some y"
  by (simp add: index_append_mid)

lemma parse_encoded:
  assumes tag: "tag \<le> 30" and len: "int (length pre + length content) < 2 ^ 62"
  shows "parseDerTLV (pre @ (idOctet tag c # encodeDerLength (length content) @ content) @ post)
      (int (length pre))
    = Some (Inr \<lparr>d_tag = tag, d_constructed = c, d_content = content,
        d_totalLen = int (1 + length (encodeDerLength (length content)) + length content)\<rparr>)"
proof (cases "length content \<le> 127")
  case True
  let ?n = "length content"
  let ?d = "pre @ idOctet tag c # word_of_nat ?n # content @ post"
  have i0: "index ?d (int (length pre)) = Some (idOctet tag c)" by (simp add: index_at)
  have i1: "index ?d (int (length pre) + 1) = Some (word_of_nat ?n)"
    using index_at [of "int (length pre) + 1" "pre @ [idOctet tag c]" "word_of_nat ?n" "content @ post"] by simp
  have e: "int64 (int (length pre) + 1 + 1 + int ?n) = int (length pre) + 2 + int ?n"
    using len by (subst int64_id) auto
  have s: "slice ?d (int (length pre) + 1 + 1) (int (length pre) + 2 + int ?n) = Some content"
    using slice_mid [of "int (length pre) + 1 + 1" "pre @ [idOctet tag c, word_of_nat ?n]"
        "int (length pre) + 2 + int ?n" content post] by simp
  show ?thesis
    using True i0 i1 e s idOctet_parts [OF tag, of c] short_count [OF True]
    by (simp add: parseDerTLV_def encodeDerLength_def Let_def)
next
  case False
  let ?n = "length content"
  let ?lb = "bigIntBytes ?n" let ?k = "length ?lb" let ?c = "or 0x80 (word_of_nat ?k) :: byte"
  let ?p = "int (length pre)"
  let ?d = "pre @ idOctet tag c # ?c # ?lb @ content @ post"
  have k: "?k \<le> 8" using len by (intro length_bigIntBytes) simp
  note kc = long_count [OF k]
  have i0: "index ?d ?p = Some (idOctet tag c)" by (simp add: index_at)
  have i1: "index ?d (?p + 1) = Some ?c"
    using index_at [of "?p + 1" "pre @ [idOctet tag c]" ?c "?lb @ content @ post"] by simp
  have s1: "slice ?d (?p + 1 + 1) (?p + 1 + 1 + int ?k) = Some ?lb"
    using slice_mid [of "?p + 1 + 1" "pre @ [idOctet tag c, ?c]" "?p + 1 + 1 + int ?k" ?lb "content @ post"]
    by simp
  have l: "longFormLength ?lb = int ?n" using len by (subst longFormLength_val) auto
  have e: "int64 (?p + 1 + (1 + int ?k) + int ?n) = ?p + 1 + (1 + int ?k) + int ?n"
    using len k by (subst int64_id) auto
  have s2: "slice ?d (?p + 1 + (1 + int ?k)) (?p + 1 + (1 + int ?k) + int ?n) = Some content"
    using slice_mid [of "?p + 1 + (1 + int ?k)" "pre @ idOctet tag c # ?c # ?lb"
        "?p + 1 + (1 + int ?k) + int ?n" content post] by simp
  show ?thesis
    using False i0 i1 s1 l e s2 idOctet_parts [OF tag, of c] kc
    by (simp add: parseDerTLV_def encodeDerLength_def lengthOctets_bytes Let_def)
qed

text \<open>What the reader makes of one encoded record.\<close>

definition tlv_of :: "byte \<times> bool \<times> byte list \<Rightarrow> derTLV" where
  "tlv_of x = (case x of (tag, c, content) \<Rightarrow>
     \<lparr>d_tag = tag, d_constructed = c, d_content = content,
      d_totalLen = int (1 + length (encodeDerLength (length content)) + length content)\<rparr>)"

definition encode_all :: "(byte \<times> bool \<times> byte list) list \<Rightarrow> byte list list option" where
  "encode_all ts = those (map (\<lambda>(tag, c, content). encodeDerTLV tag c content) ts)"

lemma encode_all_Cons:
  "encode_all (x # ts) = Some es \<longleftrightarrow>
     (\<exists>tag c content es'. x = (tag, c, content) \<and> tag \<le> 30 \<and> encode_all ts = Some es' \<and>
        es = (idOctet tag c # encodeDerLength (length content) @ content) # es')"
  by (cases x) (auto simp: encode_all_def encodeDerTLV_some encodeDerTLV_def not_less idOctet_def Let_def
      split: option.splits if_splits)

lemma parse_loop_encoded:
  assumes "encode_all ts = Some es" "length (pre @ concat es) < 2 ^ 62"
  shows "parseDerChildren_loop (pre @ concat es) (int (length pre)) acc
    = Some (Inr (acc @ map tlv_of ts))"
  using assms
proof (induction ts arbitrary: pre es acc)
  case Nil
  then show ?case by (simp add: encode_all_def parseDerChildren_loop.simps)
next
  case (Cons x ts)
  then obtain tag c content es' where x: "x = (tag, c, content)" "tag \<le> 30"
    "encode_all ts = Some es'"
    "es = (idOctet tag c # encodeDerLength (length content) @ content) # es'"
    by (auto simp: encode_all_Cons)
  let ?e = "idOctet tag c # encodeDerLength (length content) @ content"
  have p: "parseDerTLV (pre @ ?e @ concat es') (int (length pre)) = Some (Inr (tlv_of x))"
    using parse_encoded [OF x(2), of pre content c "concat es'"] Cons.prems(2) x(1,4)
    by (simp add: tlv_of_def)
  have l: "int (length pre) + d_totalLen (tlv_of x) = int (length (pre @ ?e))"
    by (simp add: tlv_of_def x(1))
  have "parseDerChildren_loop (pre @ ?e @ concat es') (int (length pre)) acc
      = parseDerChildren_loop (pre @ ?e @ concat es') (int (length (pre @ ?e))) (acc @ [tlv_of x])"
    by (subst parseDerChildren_loop.simps) (simp only: p option.case sum.case l, simp)
  also have "\<dots> = Some (Inr ((acc @ [tlv_of x]) @ map tlv_of ts))"
    using Cons.IH [OF x(3), of "pre @ ?e" "acc @ [tlv_of x]"] Cons.prems(2) x(4) by simp
  finally show ?case by (simp add: x(4))
qed

lemma nested_roundtrip:
  assumes "encode_all ts = Some es" "encodeDerConstructed tag es = Some b" "length b < 2 ^ 62"
  shows "parseDerTLV b 0 = Some (Inr \<lparr>d_tag = tag, d_constructed = True, d_content = concat es,
           d_totalLen = int (length b)\<rparr>)
       \<and> parseDerChildren (concat es) = Some (Inr (map tlv_of ts))"
proof -
  have tag: "tag \<le> 30"
    using assms(2) by (auto simp: encodeDerConstructed_def encodeDerTLV_def not_less split: if_splits)
  then have b: "b = idOctet tag True # encodeDerLength (length (concat es)) @ concat es"
    using assms(2) by (simp add: encodeDerConstructed_def encodeDerTLV_some)
  then show ?thesis
    using parse_encoded [OF tag, of "[]" "concat es" True "[]"] assms(3)
      parse_loop_encoded [OF assms(1), of "[]" "[]"]
    by (simp add: parseDerChildren_def)
qed

text \<open>C38: DER records are read back as written. The children of a constructed record come out in
  order with their tags, forms and contents, and the record that encloses them comes out whole, for
  any nesting of tags up to 30 and any content that fits a Go integer.\<close>
theorem der_nested_roundtrip:
  assumes "encode_all ts = Some es" "encodeDerConstructed tag es = Some b" "length b < 2 ^ 62"
  shows "parseDerTLV b 0 = Some (Inr \<lparr>d_tag = tag, d_constructed = True, d_content = concat es,
           d_totalLen = int (length b)\<rparr>)
       \<and> parseDerChildren (concat es) = Some (Inr (map tlv_of ts))"
  using assms by (rule nested_roundtrip)

theorem der_nested_roundtrip_witness:
  "parseDerTLV [0xE2, 7, 0xC1, 1, 5, 0xC0, 2, 0, 0xFF] 0
     = Some (Inr \<lparr>d_tag = 2, d_constructed = True, d_content = [0xC1, 1, 5, 0xC0, 2, 0, 0xFF],
         d_totalLen = 9\<rparr>)
   \<and> parseDerChildren [0xC1, 1, 5, 0xC0, 2, 0, 0xFF]
     = Some (Inr [\<lparr>d_tag = 1, d_constructed = False, d_content = [5], d_totalLen = 3\<rparr>,
         \<lparr>d_tag = 0, d_constructed = False, d_content = [0, 0xFF], d_totalLen = 4\<rparr>])"
  using der_nested_roundtrip [of "[(1, False, [5]), (0, False, [0, 0xFF])]"
      "[[0xC1, 1, 5], [0xC0, 2, 0, 0xFF]]" 2 "[0xE2, 7, 0xC1, 1, 5, 0xC0, 2, 0, 0xFF]"]
  by (simp add: encode_all_def encodeDerTLV_def encodeDerConstructed_def encodeDerLength_def tlv_of_def)

lemma der_integer_roundtrip:
  "derUint64 (derMinimalInt v) = v \<and> derInt (derMinimalInt v) = sint v
     \<and> length (derMinimalInt v) \<le> 9"
proof -
  have "derInt (derMinimalInt v) = int64 (uint v)"
    using derMinimalInt_high [of v] by (simp add: derInt_def Let_def)
  then show ?thesis
    by (simp add: derUint64_def length_derMinimalInt int64_def)
qed

text \<open>A long-form length whose eight octets set the sign bit of a Go integer passes both length
  checks and panics the reader: the content's end is then before its start.\<close>
theorem der_negative_length_panics:
  assumes "and i 0x1F \<noteq> 0x1F" "length bs = 8" "2 ^ 63 \<le> be_val bs" "length rest < 2 ^ 62"
  shows "parseDerTLV (i # 0x88 # bs @ rest) 0 = None"
proof -
  let ?d = "i # 0x88 # bs @ rest"
  have s: "slice ?d 2 10 = Some bs" using slice_mid [of 2 "[i, 0x88]" 10 bs rest] assms(2) by simp
  have v: "be_val bs < 2 ^ 64" using be_val_less [of bs] assms(2) by simp
  have l: "longFormLength bs = int (be_val bs) - 2 ^ 64"
  proof -
    have "longFormLength bs = signed_take_bit 63 (int (be_val bs))"
      using longFormLength_fold [of 0 bs] by (simp add: longFormLength_def signed_of_nat)
    also have "\<dots> = signed_take_bit 63 (int (be_val bs) - 2 ^ 64)"
      by (rule signed_take_bit_eq_iff_take_bit_eq [THEN iffD2]) (simp add: take_bit_eq_mod)
    also have "\<dots> = int (be_val bs) - 2 ^ 64"
      using v assms(3) by (intro signed_take_bit_int_eq_self) auto
    finally show ?thesis .
  qed
  have e: "int64 (10 + longFormLength bs) = 10 + longFormLength bs"
    using v assms(3) by (intro int64_id) (auto simp: l)
  have n: "slice ?d 10 (10 + longFormLength bs) = None"
    using v by (auto simp: slice_def l)
  have "10 + longFormLength bs \<le> int (length ?d)" using v assms(2) by (simp add: l)
  then show ?thesis
    using assms(1,2) s n e by (simp add: parseDerTLV_def index_def Let_def not_less)
qed

theorem der_negative_length_panics_witness:
  "parseDerTLV [0xE0, 0x88, 0xFF, 0xFF, 0xFF, 0xFF, 0xFF, 0xFF, 0xFF, 0xFF] 0 = None"
proof -
  have "and (0xE0 :: byte) 0x1F \<noteq> 0x1F" by simp
  moreover have "2 ^ 63 \<le> be_val [0xFF, 0xFF, 0xFF, 0xFF, 0xFF, 0xFF, 0xFF, 0xFF]"
    by (simp add: be_val_def)
  ultimately show ?thesis
    using der_negative_length_panics [of "0xE0" "[0xFF, 0xFF, 0xFF, 0xFF, 0xFF, 0xFF, 0xFF, 0xFF]" "[]"]
    by simp
qed

end
