(* ===== verification/Td2.thy ===== *)
theory Td2
  imports Der GoStrings BufferReader BufferWriter
begin

text \<open>
  The TD2 security context of src/auth_td2.go and its TLS bypass of src/auth_td2tls.go: the token
  header, the negotiated algorithms, the slicing of the shared secret into keys, and the wrapping and
  unwrapping of messages. AES-GCM of the Go library is a parameter: \<open>seal\<close> maps a key, a nonce and a
  plaintext to the ciphertext followed by the tag, \<open>opn\<close> maps a key, a nonce and such a string back,
  or to an error.
\<close>

section \<open>Token headers\<close>

definition td2TokenHeaderLen :: int where "td2TokenHeaderLen = 16"

record td2TokenHeader =
  th_version :: byte
  th_msgType :: byte
  th_byteVar :: byte
  th_clientOrServer :: byte
  th_capabilities :: u32
  th_flags :: byte

definition zeroTokenHeader :: td2TokenHeader where
  "zeroTokenHeader = \<lparr>th_version = 0, th_msgType = 0, th_byteVar = 0, th_clientOrServer = 0,
     th_capabilities = 0, th_flags = 0\<rparr>"

definition tokenHeader_encode :: "td2TokenHeader \<Rightarrow> int \<Rightarrow> bufferWriter \<Rightarrow> bufferWriter option" where
  "tokenHeader_encode t msgLength w = do {
     w \<leftarrow> wr_byte (th_version t) w;
     w \<leftarrow> wr_byte (th_msgType t) w;
     w \<leftarrow> wr_byte (th_byteVar t) w;
     w \<leftarrow> wr_byte (th_clientOrServer t) w;
     w \<leftarrow> wr_u32 (word_of_int msgLength) w;
     w \<leftarrow> wr_u32 (th_capabilities t) w;
     wr_byte (th_flags t OR 0x02) w }"

definition td2TokenHeaderFromBuffer ::
  "bufferReader \<Rightarrow> (goerror + td2TokenHeader \<times> bufferReader) option" where
  "td2TokenHeaderFromBuffer r =
     (if r_len r < 16 then Some (Inl ErrInternal)
      else do {
        (version, r) \<leftarrow> rd_u8 r;
        (msgType, r) \<leftarrow> rd_u8 r;
        msgLen \<leftarrow> u32At r 4;
        let token = zeroTokenHeader\<lparr>th_version := version, th_msgType := msgType\<rparr>;
        if msgLen \<noteq> 7 \<and> msgLen \<noteq> 8
        then do {
          let r = rd_seek 2 r;
          (byteVar, r) \<leftarrow> rd_u8 r;
          (clientOrServer, r) \<leftarrow> rd_u8 r;
          let token = token\<lparr>th_byteVar := byteVar, th_clientOrServer := clientOrServer\<rparr>;
          token \<leftarrow> (if (msgType = 1 \<or> msgType = 2) \<and> byteVar = 1
                   then do { cap \<leftarrow> u32At r 8; Some (token\<lparr>th_capabilities := cap\<rparr>) }
                   else Some token);
          flags \<leftarrow> byteAt r 12;
          Some (Inr (token\<lparr>th_flags := flags\<rparr>, r)) }
        else do {
          flags \<leftarrow> byteAt r 2;
          Some (Inr (token\<lparr>th_flags := flags\<rparr>, r)) } })"

record td2WrapToken =
  wt_version :: byte
  wt_msgType :: byte
  wt_flag :: byte
  wt_qopIndex :: byte
  wt_msgLength :: u32
  wt_seqNum :: u64

definition wrapToken_bytes :: "td2WrapToken \<Rightarrow> byte list" where
  "wrapToken_bytes t =
     [wt_version t, wt_msgType t, wt_flag t, wt_qopIndex t]
       @ be_enc 4 (unat (wt_msgLength t)) @ be_enc 8 (unat (wt_seqNum t))"

section \<open>Negotiated algorithms\<close>

record td2AlgQop =
  q_confAlg :: string
  q_mode :: string
  q_padding :: string
  q_keyLength :: int
  q_integAlg :: string
  q_keyExchAlg :: string
  q_keyLengthP :: int

definition zeroAlgQop :: td2AlgQop where
  "zeroAlgQop = \<lparr>q_confAlg = [], q_mode = [], q_padding = [], q_keyLength = 0, q_integAlg = [],
     q_keyExchAlg = [], q_keyLengthP = 0\<rparr>"

definition td2AlgNames :: "string list" where
  "td2AlgNames = [''NONE'', ''Blowfish'', ''AES'', ''MD5'', ''SHA1'', ''DH'', ''SHA-256'', ''SHA-512'']"

definition td2Modes :: "string list" where
  "td2Modes = [''NONE'', ''CBC'', ''CFB'', ''ECB'', ''OFB'', ''GCM'', ''CCM'', ''CTR'', ''AEADGCM'', ''GCM96'']"

definition td2Paddings :: "string list" where
  "td2Paddings = [''NoPadding'', ''OAEPWithDIGESTAndMGFPadding'', '''', ''PKCS1Padding'',
     ''PKCS5Padding'', ''SSL3Padding'']"

definition td2Trailer :: "byte list" where
  "td2Trailer =
    [0x06, 0x0D, 0x2B, 0x06, 0x01, 0x04, 0x01, 0x81, 0x3F, 0x01, 0x87, 0x74, 0x01, 0x01, 0x09,
     0x46, 0x08, 0x00, 0x02, 0x81, 0x00, 0x04, 0x04, 0x04, 0x00,
     0x01, 0x00, 0x00, 0x00, 0x1F, 0x01]"

definition td2CipherSuite :: "byte list" where
  "td2CipherSuite =
    [0xE1, 0x5B, 0xE2, 0x15, 0xD0, 0x01, 0x02, 0xD3, 0x01, 0x01, 0xD4, 0x01, 0x04, 0xD5, 0x02, 0x00,
     0x80, 0xD5, 0x02, 0x00, 0xC0, 0xD5, 0x02, 0x01, 0x00,
     0xE2, 0x03, 0xD1, 0x01, 0x04, 0xE2, 0x03, 0xD1, 0x01, 0x06, 0xE2, 0x03, 0xD1, 0x01, 0x07,
     0xE2, 0x07, 0xD2, 0x01, 0x05, 0xD6, 0x02, 0x08, 0x00,
     0xE2, 0x09, 0xD0, 0x01, 0x02, 0xD3, 0x01, 0x07, 0xD4, 0x01, 0x04,
     0xE2, 0x09, 0xD0, 0x01, 0x02, 0xD3, 0x01, 0x05, 0xD4, 0x01, 0x04,
     0xE2, 0x09, 0xD0, 0x01, 0x02, 0xD3, 0x01, 0x08, 0xD4, 0x01, 0x04,
     0xE2, 0x09, 0xD0, 0x01, 0x02, 0xD3, 0x01, 0x09, 0xD4, 0x01, 0x04]"

definition td2LookupName :: "string list \<Rightarrow> int \<Rightarrow> string" where
  "td2LookupName table idx =
     (if idx < 0 \<or> idx \<ge> int (length table) then ''UNKNOWN('' @ int_str idx @ '')''
      else table ! nat idx)"

text \<open>The loop over the fields of one suite group, and the loop over the groups.\<close>

fun decodeQopFields :: "derTLV list \<Rightarrow> td2AlgQop \<Rightarrow> goerror + td2AlgQop" where
  "decodeQopFields [] alg = Inr alg"
| "decodeQopFields (f # fs) alg =
     (let val = derInt (d_content f); tag = d_tag f in
      if tag = 16 then decodeQopFields fs (alg\<lparr>q_confAlg := td2LookupName td2AlgNames val\<rparr>)
      else if tag = 17 then decodeQopFields fs (alg\<lparr>q_integAlg := td2LookupName td2AlgNames val\<rparr>)
      else if tag = 18 then decodeQopFields fs (alg\<lparr>q_keyExchAlg := td2LookupName td2AlgNames val\<rparr>)
      else if tag = 19 then decodeQopFields fs (alg\<lparr>q_mode := td2LookupName td2Modes val\<rparr>)
      else if tag = 20 then decodeQopFields fs (alg\<lparr>q_padding := td2LookupName td2Paddings val\<rparr>)
      else if tag = 21 then decodeQopFields fs (alg\<lparr>q_keyLength := val\<rparr>)
      else if tag = 22 then decodeQopFields fs (alg\<lparr>q_keyLengthP := val\<rparr>)
      else Inl (Errorf ''td2 qop: invalid QOP tag %d'' []))"

fun decodeQopGroups :: "derTLV list \<Rightarrow> td2AlgQop list \<Rightarrow> (goerror + td2AlgQop list) option" where
  "decodeQopGroups [] options = Some (Inr options)"
| "decodeQopGroups (g # gs) options =
     (if \<not> d_constructed g
      then Some (Inl (Errorf ''td2 qop: suite group TLV is not constructed'' []))
      else case parseDerChildren (d_content g) of
             None \<Rightarrow> None
           | Some (Inl err) \<Rightarrow> Some (Inl (Errorf ''td2 qop: %w'' [err]))
           | Some (Inr flds) \<Rightarrow>
               (case decodeQopFields flds zeroAlgQop of
                  Inl err \<Rightarrow> Some (Inl err)
                | Inr alg \<Rightarrow> decodeQopGroups gs (options @ [alg])))"

definition decodeTd2QOPOptions :: "byte list \<Rightarrow> (goerror + td2AlgQop list) option" where
  "decodeTd2QOPOptions data =
     (case parseDerTLV data 0 of
        None \<Rightarrow> None
      | Some (Inl err) \<Rightarrow> Some (Inl (Errorf ''td2 qop: %w'' [err]))
      | Some (Inr tlv) \<Rightarrow>
          (if \<not> d_constructed tlv
           then Some (Inl (Errorf ''td2 qop: top-level TLV is not constructed'' []))
           else case parseDerChildren (d_content tlv) of
                  None \<Rightarrow> None
                | Some (Inl err) \<Rightarrow> Some (Inl (Errorf ''td2 qop: %w'' [err]))
                | Some (Inr groups) \<Rightarrow> decodeQopGroups groups []))"

definition td2HmacLen :: "string \<Rightarrow> goerror + int" where
  "td2HmacLen integAlg =
     (if integAlg = ''SHA1'' then Inr 20
      else if integAlg = ''SHA-256'' then Inr 32
      else if integAlg = ''SHA-512'' then Inr 64
      else if integAlg = ''MD5'' then Inr 16
      else Inl (Errorf ''td2 wrap: unsupported integrity algorithm %q'' []))"

section \<open>The context\<close>

text \<open>\<open>c_master\<close> is \<open>None\<close> until the key exchange has set the shared secret (a nil pointer in Go).\<close>

record td2GssContext =
  c_master :: "nat option"
  c_keyLen :: int
  c_qopOptions :: "td2AlgQop list"
  c_wrapSeqNum :: u64
  c_targetEndien :: byte

definition newTd2GssContext :: td2GssContext where
  "newTd2GssContext = \<lparr>c_master = None, c_keyLen = 0, c_qopOptions = [], c_wrapSeqNum = 1,
     c_targetEndien = 0\<rparr>"

text \<open>Keys: \<open>normalizeToLen\<close> pads a short number on the left, \<open>normalizeDHSecretLen\<close> on the right.\<close>

definition normalizeToLen :: "nat \<Rightarrow> int \<Rightarrow> byte list option" where
  "normalizeToLen n sz =
     (let b = bigIntBytes n; l = int (length b) in
      if l = sz then Some b
      else if l > sz then slice b (l - sz) l
      else Some (replicate (nat (sz - l)) 0 @ b))"

definition normalizeDHSecretLen :: "nat \<Rightarrow> int \<Rightarrow> byte list option" where
  "normalizeDHSecretLen n sz =
     (let b = bigIntBytes n; l = int (length b) in
      if l > sz then slice b (l - sz) l
      else Some (b @ replicate (nat (sz - l)) 0))"

text \<open>Go's integer division truncates towards zero.\<close>

definition keyBytes :: "td2AlgQop \<Rightarrow> int" where
  "keyBytes q = sgn (q_keyLength q) * (\<bar>q_keyLength q\<bar> div 8)"

definition qopKey :: "td2GssContext \<Rightarrow> int \<Rightarrow> (goerror + byte list) option" where
  "qopKey c qopIndex =
     (if qopIndex < 0 \<or> qopIndex \<ge> int (length (c_qopOptions c))
      then Some (Inl (Errorf ''invalid QOP index %d'' []))
      else do {
        master \<leftarrow> c_master c;
        masterBytes \<leftarrow> normalizeDHSecretLen master (c_keyLen c);
        let keyLenBytes = keyBytes (c_qopOptions c ! nat qopIndex);
        let keyOffset = sum_list (map keyBytes (take (nat qopIndex) (c_qopOptions c)));
        if keyOffset + keyLenBytes > int (length masterBytes)
        then Some (Inl (Errorf ''master secret too short to slice QOP key'' []))
        else do {
          key \<leftarrow> slice masterBytes keyOffset (keyOffset + keyLenBytes);
          Some (Inr key) } })"

text \<open>\<open>aes.NewCipher\<close> accepts keys of 16, 24 and 32 bytes.\<close>

definition aesKeySize :: "byte list \<Rightarrow> goerror + byte list" where
  "aesKeySize key = (if length key \<in> {16, 24, 32} then Inr key
     else Inl (Errorf ''crypto/aes: invalid key size %d'' []))"

section \<open>Wrapping\<close>

definition is_gcm96 :: "td2AlgQop \<Rightarrow> bool" where
  "is_gcm96 q = (q_confAlg q = ''AES'' \<and> q_mode q = ''GCM96'')"

text \<open>The loop that looks for the first option with AES in mode GCM96.\<close>

fun findGcm96 :: "td2AlgQop list \<Rightarrow> int \<Rightarrow> int option" where
  "findGcm96 [] i = None"
| "findGcm96 (q # qs) i = (if is_gcm96 q then Some i else findGcm96 qs (i + 1))"

text \<open>What \<open>wrap\<close> computes before it calls the cipher.\<close>

record wrapRequest =
  wq_index :: int
  wq_key :: "byte list"
  wq_token :: td2WrapToken
  wq_nonce :: "byte list"
  wq_padded :: "byte list"

definition wrapRequest :: "td2GssContext \<Rightarrow> byte list \<Rightarrow> (goerror + wrapRequest) option" where
  "wrapRequest c data =
     (if c_qopOptions c = [] then Some (Inl (Errorf ''td2 wrap: no negotiated QOP options'' []))
      else case findGcm96 (c_qopOptions c) 0 of
        None \<Rightarrow> Some (Inl ErrTd2InvalidAlg)
      | Some qopIndex \<Rightarrow>
          (case qopKey c qopIndex of
             None \<Rightarrow> None
           | Some (Inl err) \<Rightarrow> Some (Inl (Errorf ''td2 wrap: %w'' [err]))
           | Some (Inr key) \<Rightarrow>
               (case aesKeySize key of
                  Inl err \<Rightarrow> Some (Inl err)
                | Inr key \<Rightarrow>
                    (case td2HmacLen (q_integAlg (c_qopOptions c ! nat qopIndex)) of
                       Inl err \<Rightarrow> Some (Inl err)
                     | Inr hmacLen \<Rightarrow>
                         let n = int (length data);
                             token = \<lparr>wt_version = 3, wt_msgType = 7, wt_flag = 0x04,
                                      wt_qopIndex = word_of_int qopIndex,
                                      wt_msgLength = word_of_int (n + 16 + 16 + hmacLen + 16),
                                      wt_seqNum = c_wrapSeqNum c\<rparr>;
                             nonce = drop 4 (wrapToken_bytes token)
                         in Some (Inr \<lparr>wq_index = qopIndex, wq_key = key, wq_token = token,
                                       wq_nonce = nonce,
                                       wq_padded = data @ nonce @ replicate 4 0\<rparr>)))))"

definition wrap ::
  "(byte list \<Rightarrow> byte list \<Rightarrow> byte list \<Rightarrow> byte list) \<Rightarrow> td2GssContext \<Rightarrow> byte list
     \<Rightarrow> (goerror + byte list \<times> td2GssContext) option" where
  "wrap seal c data =
     (case wrapRequest c data of
        None \<Rightarrow> None
      | Some (Inl err) \<Rightarrow> Some (Inl err)
      | Some (Inr q) \<Rightarrow>
          let n = int (length data); token = wq_token q;
              sealed = seal (wq_key q) (wq_nonce q) (wq_padded q)
          in if int (length sealed) \<noteq> n + 16 + 16
             then Some (Inl (Errorf ''td2 wrap: unexpected GCM output size %d'' []))
             else do {
               inputMsg \<leftarrow> slice sealed 0 (n + 16);
               authTag \<leftarrow> slice sealed (n + 16) (int (length sealed));
               h0 \<leftarrow> encodeDerTLV 0 False [wt_version token];
               h1 \<leftarrow> encodeDerTLV 1 False [wt_msgType token];
               h2 \<leftarrow> encodeDerTLV 2 False [wt_flag token];
               h3 \<leftarrow> encodeDerTLV 3 False (be_enc 4 (unat (word_of_int (wq_index q) :: u32)));
               h4 \<leftarrow> encodeDerTLV 4 False (derMinimalInt (ucast (wt_msgLength token)));
               h5 \<leftarrow> encodeDerTLV 5 False (derMinimalInt (wt_seqNum token));
               tokenHdr \<leftarrow> encodeDerConstructed 1 [h0, h1, h2, h3, h4, h5];
               e0 \<leftarrow> encodeDerTLV 0 False inputMsg;
               e3 \<leftarrow> encodeDerTLV 3 False authTag;
               envelope \<leftarrow> encodeDerConstructed 0 [e0, tokenHdr, e3];
               Some (Inr (envelope, c\<lparr>c_wrapSeqNum := c_wrapSeqNum c + 1\<rparr>)) })"

section \<open>Unwrapping\<close>

text \<open>The loop over the fields of the token header; the index is kept beside the token.\<close>

fun unwrapFields :: "derTLV list \<Rightarrow> td2WrapToken \<times> int \<Rightarrow> td2WrapToken \<times> int" where
  "unwrapFields [] s = s"
| "unwrapFields (f # fs) (token, qopIndex) =
     (let tag = d_tag f; content = d_content f in
      unwrapFields fs
        (if tag = 0 then (if content \<noteq> [] then (token\<lparr>wt_version := content ! 0\<rparr>, qopIndex) else (token, qopIndex))
         else if tag = 1 then (if content \<noteq> [] then (token\<lparr>wt_msgType := content ! 0\<rparr>, qopIndex) else (token, qopIndex))
         else if tag = 2 then (if content \<noteq> [] then (token\<lparr>wt_flag := content ! 0\<rparr>, qopIndex) else (token, qopIndex))
         else if tag = 3 then (token, derInt content)
         else if tag = 4 then (token\<lparr>wt_msgLength := word_of_int (derInt content)\<rparr>, qopIndex)
         else if tag = 5 then (token\<lparr>wt_seqNum := derUint64 content\<rparr>, qopIndex)
         else (token, qopIndex)))"

definition zeroWrapToken :: td2WrapToken where
  "zeroWrapToken = \<lparr>wt_version = 0, wt_msgType = 0, wt_flag = 0, wt_qopIndex = 0, wt_msgLength = 0,
     wt_seqNum = 0\<rparr>"

definition unwrapOpen ::
  "(byte list \<Rightarrow> byte list \<Rightarrow> byte list \<Rightarrow> goerror + byte list) \<Rightarrow> td2GssContext \<Rightarrow> byte list
     \<Rightarrow> derTLV list \<Rightarrow> byte list \<Rightarrow> (goerror + byte list) option" where
  "unwrapOpen opn c inputMsg hdrFields authTag =
     (let (token, qopIndex) = unwrapFields hdrFields (zeroWrapToken, 0);
          token = token\<lparr>wt_qopIndex := word_of_int qopIndex\<rparr>
      in if qopIndex < 0 \<or> qopIndex \<ge> int (length (c_qopOptions c))
         then Some (Inl (Errorf ''td2 unwrap: QOP index %d out of range (%d negotiated options)'' []))
         else if \<not> is_gcm96 (c_qopOptions c ! nat qopIndex)
         then Some (Inl (Errorf ''td2 unwrap: %w, negotiated %q/%q'' [ErrTd2InvalidAlg]))
         else case qopKey c qopIndex of
             None \<Rightarrow> None
           | Some (Inl err) \<Rightarrow> Some (Inl (Errorf ''td2 unwrap: %w'' [err]))
           | Some (Inr key) \<Rightarrow>
               (case aesKeySize key of
                  Inl err \<Rightarrow> Some (Inl err)
                | Inr key \<Rightarrow>
                    (case opn key (drop 4 (wrapToken_bytes token)) (inputMsg @ authTag) of
                       Inl err \<Rightarrow> Some (Inl (Errorf ''td2 unwrap: gcm open failed: %w'' [err]))
                     | Inr padded \<Rightarrow>
                         if length padded < 16
                         then Some (Inl (Errorf ''td2 unwrap: decrypted message too short'' []))
                         else Some (Inr (take (length padded - 16) padded)))))"

definition unwrap ::
  "(byte list \<Rightarrow> byte list \<Rightarrow> byte list \<Rightarrow> goerror + byte list) \<Rightarrow> td2GssContext \<Rightarrow> byte list
     \<Rightarrow> (goerror + byte list) option" where
  "unwrap opn c data =
     (case parseDerTLV data 0 of
        None \<Rightarrow> None
      | Some (Inl err) \<Rightarrow> Some (Inl (Errorf ''td2 unwrap: %w'' [err]))
      | Some (Inr tlv) \<Rightarrow>
          (case parseDerChildren (d_content tlv) of
             None \<Rightarrow> None
           | Some (Inl err) \<Rightarrow> Some (Inl (Errorf ''td2 unwrap: %w'' [err]))
           | Some (Inr children) \<Rightarrow>
               (case findDerChild children 0 of
                  None \<Rightarrow> Some (Inl (Errorf ''td2 unwrap: missing inputMsg'' []))
                | Some inputMsg \<Rightarrow>
                    (case findDerChild children 1 of
                       None \<Rightarrow> Some (Inl (Errorf ''td2 unwrap: missing tokenHdr'' []))
                     | Some tokenHdr \<Rightarrow>
                         (case findDerChild children 3 of
                            None \<Rightarrow> Some (Inl (Errorf ''td2 unwrap: missing authTag (only GCM96/AEADGCM are implemented)'' []))
                          | Some authTag \<Rightarrow>
                              (case parseDerChildren (d_content tokenHdr) of
                                 None \<Rightarrow> None
                               | Some (Inl err) \<Rightarrow> Some (Inl (Errorf ''td2 unwrap: %w'' [err]))
                               | Some (Inr hdrFields) \<Rightarrow>
                                   unwrapOpen opn c (d_content inputMsg) hdrFields
                                     (d_content authTag)))))))"

text \<open>The context used when the channel itself is encrypted hands messages through.\<close>

definition td2Tls_wrap :: "byte list \<Rightarrow> (goerror + byte list) option" where
  "td2Tls_wrap data = Some (Inr data)"

definition td2Tls_unwrap :: "byte list \<Rightarrow> (goerror + byte list) option" where
  "td2Tls_unwrap data = Some (Inr data)"

section \<open>Correctness of wrap and unwrap\<close>

text \<open>What the Go library documents of AES-GCM: sealing adds a 16-byte tag, and opening with the same
  key and nonce gives the plaintext back.\<close>

definition gcm_law ::
  "(byte list \<Rightarrow> byte list \<Rightarrow> byte list \<Rightarrow> byte list)
     \<Rightarrow> (byte list \<Rightarrow> byte list \<Rightarrow> byte list \<Rightarrow> goerror + byte list) \<Rightarrow> bool" where
  "gcm_law seal opn \<longleftrightarrow>
     (\<forall>k n p. length (seal k n p) = length p + 16 \<and> opn k n (seal k n p) = Inr p)"

lemma findGcm96_Some:
  "findGcm96 qs i = Some j \<Longrightarrow> i \<le> j \<and> j < i + int (length qs) \<and> is_gcm96 (qs ! nat (j - i))"
proof (induction qs arbitrary: i)
  case (Cons q qs)
  show ?case
  proof (cases "is_gcm96 q")
    case True
    then show ?thesis using Cons.prems by simp
  next
    case False
    then have "i + 1 \<le> j \<and> j < i + 1 + int (length qs) \<and> is_gcm96 (qs ! nat (j - (i + 1)))"
      using Cons by simp
    moreover from this have "nat (j - i) = Suc (nat (j - (i + 1)))" by linarith
    ultimately show ?thesis by simp
  qed
qed simp

lemma aesKeySize_InrD: "aesKeySize k = Inr k' \<Longrightarrow> k' = k"
  by (auto simp: aesKeySize_def split: if_splits)

lemma wrapRequest_Inr:
  assumes "wrapRequest c data = Some (Inr q)"
  shows "0 \<le> wq_index q" "wq_index q < int (length (c_qopOptions c))"
    "is_gcm96 (c_qopOptions c ! nat (wq_index q))"
    "qopKey c (wq_index q) = Some (Inr (wq_key q))" "aesKeySize (wq_key q) = Inr (wq_key q)"
    "wq_nonce q = be_enc 4 (unat (wt_msgLength (wq_token q))) @ be_enc 8 (unat (c_wrapSeqNum c))"
    "wt_seqNum (wq_token q) = c_wrapSeqNum c"
    "wq_padded q = data @ wq_nonce q @ replicate 4 0" "length (wq_nonce q) = 12"
proof -
  have "0 \<le> wq_index q \<and> wq_index q < int (length (c_qopOptions c))
    \<and> is_gcm96 (c_qopOptions c ! nat (wq_index q))
    \<and> qopKey c (wq_index q) = Some (Inr (wq_key q)) \<and> aesKeySize (wq_key q) = Inr (wq_key q)
    \<and> wq_nonce q = be_enc 4 (unat (wt_msgLength (wq_token q))) @ be_enc 8 (unat (c_wrapSeqNum c))
    \<and> wt_seqNum (wq_token q) = c_wrapSeqNum c
    \<and> wq_padded q = data @ wq_nonce q @ replicate 4 0 \<and> length (wq_nonce q) = 12"
  proof -
    obtain i key h where q: "findGcm96 (c_qopOptions c) 0 = Some i" "qopKey c i = Some (Inr key)"
      "aesKeySize key = Inr key"
      "q = \<lparr>wq_index = i, wq_key = key,
          wq_token = \<lparr>wt_version = 3, wt_msgType = 7, wt_flag = 4, wt_qopIndex = word_of_int i,
            wt_msgLength = word_of_int (int (length data) + 16 + 16 + h + 16),
            wt_seqNum = c_wrapSeqNum c\<rparr>,
          wq_nonce = be_enc 4 (unat (word_of_int (int (length data) + 16 + 16 + h + 16) :: u32))
            @ be_enc 8 (unat (c_wrapSeqNum c)),
          wq_padded = data @ (be_enc 4 (unat (word_of_int (int (length data) + 16 + 16 + h + 16) :: u32))
            @ be_enc 8 (unat (c_wrapSeqNum c))) @ replicate 4 0\<rparr>"
      using assms
      by (simp add: wrapRequest_def Let_def wrapToken_bytes_def
          split: if_splits option.splits sum.splits) (metis aesKeySize_InrD)
    then show ?thesis using findGcm96_Some [OF q(1)] by simp
  qed
  then show "0 \<le> wq_index q" "wq_index q < int (length (c_qopOptions c))"
    "is_gcm96 (c_qopOptions c ! nat (wq_index q))"
    "qopKey c (wq_index q) = Some (Inr (wq_key q))" "aesKeySize (wq_key q) = Inr (wq_key q)"
    "wq_nonce q = be_enc 4 (unat (wt_msgLength (wq_token q))) @ be_enc 8 (unat (c_wrapSeqNum c))"
    "wt_seqNum (wq_token q) = c_wrapSeqNum c"
    "wq_padded q = data @ wq_nonce q @ replicate 4 0" "length (wq_nonce q) = 12" by auto
qed

text \<open>The header fields as \<open>wrap\<close> writes them, and what \<open>unwrap\<close> reads out of them.\<close>

definition headerFields :: "wrapRequest \<Rightarrow> (byte \<times> bool \<times> byte list) list" where
  "headerFields q =
     [(0, False, [wt_version (wq_token q)]), (1, False, [wt_msgType (wq_token q)]),
      (2, False, [wt_flag (wq_token q)]),
      (3, False, be_enc 4 (unat (word_of_int (wq_index q) :: u32))),
      (4, False, derMinimalInt (ucast (wt_msgLength (wq_token q)))),
      (5, False, derMinimalInt (wt_seqNum (wq_token q)))]"

lemma derInt_be_enc_4:
  assumes "0 \<le> i" "i < 2 ^ 31"
  shows "derInt (be_enc 4 (unat (word_of_int i :: u32))) = i"
proof -
  have u: "unat (word_of_int i :: u32) = nat i"
    using assms by (simp add: unat_eq_nat_uint unsigned_of_int take_bit_int_eq_self)
  have "nat i div 16777216 < 128" using assms by (simp add: nat_less_iff less_mult_imp_div_less)
  then have "\<not> 128 \<le> unat (word_of_nat (nat i div 16777216) :: byte)"
    by (simp add: unat_of_nat)
  then have "and (be_enc 4 (nat i) ! 0) 0x80 = 0"
    using high_bit_iff [of "word_of_nat (nat i div 16777216)"] by (auto simp: be_enc_4)
  then have "derInt (be_enc 4 (nat i)) = int64 (int (be_val (be_enc 4 (nat i))))"
    by (simp add: derInt_def Let_def)
  also have "\<dots> = int64 i" using assms by (simp add: be_val_be_enc nat_less_iff)
  finally show ?thesis using assms by (simp add: u int64_id)
qed

lemma derInt_minimal: "derInt (derMinimalInt v) = sint v"
  using derMinimalInt_high [of v] by (simp add: derInt_def Let_def int64_def)

lemma derUint64_minimal: "derUint64 (derMinimalInt v) = v"
  by (simp add: derUint64_def)

lemma scast_ucast_u32: "scast (ucast (m :: u32) :: 64 word) = m"
  by (rule bit_word_eqI) (simp add: bit_simps)

lemma unwrapFields_headerFields:
  assumes "0 \<le> wq_index q" "wq_index q < 2 ^ 31"
  shows "unwrapFields (map tlv_of (headerFields q)) (zeroWrapToken, 0) =
    ((wq_token q)\<lparr>wt_qopIndex := 0\<rparr>, wq_index q)"
  using assms
  by (cases "wq_token q")
    (simp add: headerFields_def tlv_of_def Let_def zeroWrapToken_def derInt_be_enc_4 derInt_minimal
      derUint64_minimal scast_ucast_u32)

lemma wrap_Inr:
  assumes "wrap seal c data = Some (Inr (e, c'))"
  obtains q hs e0 hdr e3 where
    "wrapRequest c data = Some (Inr q)"
    "encode_all (headerFields q) = Some hs" "encodeDerConstructed 1 hs = Some hdr"
    "encodeDerConstructed 0 [e0, hdr, e3] = Some e"
    "encode_all [(0, False, take (length data + 16) (seal (wq_key q) (wq_nonce q) (wq_padded q))),
       (1, True, concat hs),
       (3, False, drop (length data + 16) (seal (wq_key q) (wq_nonce q) (wq_padded q)))]
     = Some [e0, hdr, e3]"
    "c' = c\<lparr>c_wrapSeqNum := c_wrapSeqNum c + 1\<rparr>"
proof -
  obtain q where q: "wrapRequest c data = Some (Inr q)"
    using assms by (auto simp: wrap_def split: option.splits sum.splits)
  let ?s = "seal (wq_key q) (wq_nonce q) (wq_padded q)"
  have l: "length ?s = length data + 32"
    using assms q by (auto simp: wrap_def Let_def split: if_splits)
  have s: "slice ?s 0 (int (length data) + 16) = Some (take (length data + 16) ?s)"
    "slice ?s (int (length data) + 16) (int (length ?s)) = Some (drop (length data + 16) ?s)"
    using l by (simp_all add: slice_def nat_add_distrib)
  show ?thesis
    using assms q l s that
    by (auto simp: wrap_def Let_def headerFields_def encode_all_def encodeDerConstructed_def
        elim!: bind_SomeE)
qed

definition wrap_ok where
  "wrap_ok seal opn c e \<longleftrightarrow>
     gcm_law seal opn \<and> length (c_qopOptions c) < 2 ^ 31 \<and> length e < (2 :: nat) ^ 62"

lemma wrap_unwrap:
  assumes ok: "wrap_ok seal opn c e" and w: "wrap seal c data = Some (Inr (e, c'))"
  shows "unwrap opn c e = Some (Inr data)"
proof -
  obtain q hs e0 hdr e3 where q: "wrapRequest c data = Some (Inr q)"
    and hs: "encode_all (headerFields q) = Some hs" "encodeDerConstructed 1 hs = Some hdr"
    and e: "encodeDerConstructed 0 [e0, hdr, e3] = Some e"
    and ea: "encode_all [(0, False, take (length data + 16) (seal (wq_key q) (wq_nonce q) (wq_padded q))),
       (1, True, concat hs),
       (3, False, drop (length data + 16) (seal (wq_key q) (wq_nonce q) (wq_padded q)))]
     = Some [e0, hdr, e3]"
    using w by (rule wrap_Inr)
  note qf = wrapRequest_Inr [OF q]
  have len: "length e < 2 ^ 62" and gcm: "gcm_law seal opn" and n: "length (c_qopOptions c) < 2 ^ 31"
    using ok by (simp_all add: wrap_ok_def)
  have "length hdr \<le> length e"
    using e by (auto simp: encodeDerConstructed_def encodeDerTLV_def Let_def split: if_splits)
  then have h: "parseDerChildren (concat hs) = Some (Inr (map tlv_of (headerFields q)))"
    using nested_roundtrip [OF hs] len by simp
  have i: "wq_index q < 2 ^ 31" using qf(2) n by simp
  have "opn (wq_key q) (wq_nonce q) (seal (wq_key q) (wq_nonce q) (wq_padded q)) = Inr (wq_padded q)"
    using gcm by (simp add: gcm_law_def)
  then have "unwrapOpen opn c (take (length data + 16) (seal (wq_key q) (wq_nonce q) (wq_padded q)))
      (map tlv_of (headerFields q))
      (drop (length data + 16) (seal (wq_key q) (wq_nonce q) (wq_padded q))) = Some (Inr data)"
    using qf i
    by (simp add: unwrapOpen_def unwrapFields_headerFields wrapToken_bytes_def not_le not_less)
  then show ?thesis
    using nested_roundtrip [OF ea e len] h
    by (simp add: unwrap_def findDerChild_def tlv_of_def)
qed

lemma wrap_state:
  "wrap seal c d = Some (Inr (e, c')) \<Longrightarrow> c' = c\<lparr>c_wrapSeqNum := c_wrapSeqNum c + 1\<rparr>"
  by (erule wrap_Inr)

section \<open>The interface of security contexts\<close>

text \<open>A session wraps one message after the other.\<close>

fun wrapAll ::
  "('c \<Rightarrow> byte list \<Rightarrow> (goerror + byte list \<times> 'c) option) \<Rightarrow> 'c \<Rightarrow> byte list list
     \<Rightarrow> (goerror + byte list list \<times> 'c) option" where
  "wrapAll w c [] = Some (Inr ([], c))"
| "wrapAll w c (d # ds) =
     (case w c d of
        None \<Rightarrow> None
      | Some (Inl err) \<Rightarrow> Some (Inl err)
      | Some (Inr (e, c')) \<Rightarrow>
          (case wrapAll w c' ds of
             None \<Rightarrow> None
           | Some (Inl err) \<Rightarrow> Some (Inl err)
           | Some (Inr (es, c'')) \<Rightarrow> Some (Inr (e # es, c''))))"

text \<open>The interface \<open>gssContext\<close> of src/auth.go. \<open>peer\<close> is what both ends share; wrapping moves only
  the rest of the state.\<close>

locale gss_context =
  fixes wrap :: "'c \<Rightarrow> byte list \<Rightarrow> (goerror + byte list \<times> 'c) option"
    and unwrap :: "'c \<Rightarrow> byte list \<Rightarrow> (goerror + byte list) option"
    and ok :: "'c \<Rightarrow> byte list \<Rightarrow> bool"
    and peer :: "'c \<Rightarrow> 'k"
  assumes unwrap_wrap: "ok c e \<Longrightarrow> wrap c d = Some (Inr (e, c')) \<Longrightarrow> unwrap c e = Some (Inr d)"
    and wrap_peer: "wrap c d = Some (Inr (e, c')) \<Longrightarrow> peer c' = peer c"
    and unwrap_peer: "peer c = peer c' \<Longrightarrow> unwrap c e = unwrap c' e"
    and ok_peer: "peer c = peer c' \<Longrightarrow> ok c e = ok c' e"
begin

lemma conversation:
  assumes "wrapAll wrap c ds = Some (Inr (es, c'))" "list_all (ok c) es" "peer p = peer c"
  shows "map (unwrap p) es = map (\<lambda>d. Some (Inr d)) ds"
  using assms
proof (induction ds arbitrary: c es)
  case Nil
  then show ?case by simp
next
  case (Cons d ds)
  then obtain e c1 es1 where s: "wrap c d = Some (Inr (e, c1))" "es = e # es1"
    "wrapAll wrap c1 ds = Some (Inr (es1, c'))"
    by (auto split: option.splits sum.splits)
  have p: "peer c1 = peer c" using wrap_peer [OF s(1)] .
  have "ok c1 = ok c" using ok_peer [OF p] by blast
  then have "map (unwrap p) es1 = map (\<lambda>d. Some (Inr d)) ds"
    using Cons.IH [OF s(3)] Cons.prems s(2) p by simp
  moreover have "unwrap p e = Some (Inr d)"
    using unwrap_wrap [OF _ s(1)] unwrap_peer [OF Cons.prems(3)] Cons.prems(2) s(2) by simp
  ultimately show ?case by (simp add: s(2))
qed

end

lemma qopKey_peer:
  "c\<lparr>c_wrapSeqNum := 0\<rparr> = c'\<lparr>c_wrapSeqNum := 0\<rparr> \<Longrightarrow>
     qopKey c = qopKey c' \<and> c_qopOptions c = c_qopOptions c'"
  by (cases c; cases c') (auto simp: qopKey_def fun_eq_iff)

lemma unwrap_peer:
  assumes "c\<lparr>c_wrapSeqNum := 0\<rparr> = c'\<lparr>c_wrapSeqNum := 0\<rparr>"
  shows "unwrap opn c e = unwrap opn c' e"
proof -
  have q: "qopKey c = qopKey c'" "c_qopOptions c = c_qopOptions c'"
    using qopKey_peer [OF assms] by auto
  have "unwrapOpen opn c x y z = unwrapOpen opn c' x y z" for x y z
    by (simp only: unwrapOpen_def q)
  then show ?thesis by (simp only: unwrap_def)
qed

interpretation td2: gss_context "wrap seal" "unwrap opn" "wrap_ok seal opn"
  "\<lambda>c. c\<lparr>c_wrapSeqNum := 0\<rparr>" for seal opn
proof unfold_locales
  fix c c' :: td2GssContext and d e
  show "wrap_ok seal opn c e \<Longrightarrow> wrap seal c d = Some (Inr (e, c')) \<Longrightarrow> unwrap opn c e = Some (Inr d)"
    by (rule wrap_unwrap)
  show "wrap seal c d = Some (Inr (e, c')) \<Longrightarrow> c'\<lparr>c_wrapSeqNum := 0\<rparr> = c\<lparr>c_wrapSeqNum := 0\<rparr>"
    by (auto dest: wrap_state)
  show "c\<lparr>c_wrapSeqNum := 0\<rparr> = c'\<lparr>c_wrapSeqNum := 0\<rparr> \<Longrightarrow> unwrap opn c e = unwrap opn c' e"
    by (rule unwrap_peer)
  show "c\<lparr>c_wrapSeqNum := 0\<rparr> = c'\<lparr>c_wrapSeqNum := 0\<rparr> \<Longrightarrow> wrap_ok seal opn c e = wrap_ok seal opn c' e"
    by (drule qopKey_peer) (simp only: wrap_ok_def)
qed

interpretation td2_tls: gss_context "\<lambda>c d. map_option (map_sum id (\<lambda>e. (e, c))) (td2Tls_wrap d)"
  "\<lambda>(c :: unit) e. td2Tls_unwrap e" "\<lambda>c e. True" "\<lambda>c. c"
  by unfold_locales (auto simp: td2Tls_wrap_def td2Tls_unwrap_def)

text \<open>C19: what one side wraps the other unwraps. Any number of messages wrapped in a row by a TD2 context
  come back unchanged, each from its own envelope, when unwrapped by a context with the same secret
  and options, whatever its own sequence number.\<close>
theorem td2_conversation:
  assumes "gcm_law seal opn" "length (c_qopOptions c) < 2 ^ 31"
    "wrapAll (wrap seal) c ds = Some (Inr (es, c'))" "list_all (\<lambda>e. length e < 2 ^ 62) es"
  shows "map (unwrap opn (c\<lparr>c_wrapSeqNum := n\<rparr>)) es = map (\<lambda>d. Some (Inr d)) ds"
proof -
  have "list_all (wrap_ok seal opn c) es"
    using assms by (simp add: wrap_ok_def list_all_iff)
  then show ?thesis using td2.conversation [OF assms(3)] by simp
qed

section \<open>Nonces\<close>

text \<open>The nonces that a run of \<open>wrap\<close> hands to the cipher.\<close>

fun nonceTrace ::
  "(byte list \<Rightarrow> byte list \<Rightarrow> byte list \<Rightarrow> byte list) \<Rightarrow> td2GssContext \<Rightarrow> byte list list \<Rightarrow> byte list list" where
  "nonceTrace seal c [] = []"
| "nonceTrace seal c (d # ds) =
     (case (wrapRequest c d, wrap seal c d) of
        (Some (Inr q), Some (Inr (e, c'))) \<Rightarrow> wq_nonce q # nonceTrace seal c' ds
      | (Some (Inr q), _) \<Rightarrow> [wq_nonce q]
      | _ \<Rightarrow> [])"

lemma nonceTrace_seq:
  "length (nonceTrace seal c ds) \<le> length ds \<and>
   (\<forall>i < length (nonceTrace seal c ds).
      drop 4 (nonceTrace seal c ds ! i) = be_enc 8 (unat (c_wrapSeqNum c + of_nat i)))"
proof (induction ds arbitrary: c)
  case Nil
  then show ?case by simp
next
  case (Cons d ds)
  show ?case
  proof (cases "\<exists>q. wrapRequest c d = Some (Inr q)")
    case False
    then have "nonceTrace seal c (d # ds) = []" by (auto split: option.splits sum.splits)
    then show ?thesis by simp
  next
    case True
    then obtain q where q: "wrapRequest c d = Some (Inr q)" by blast
    have n: "drop 4 (wq_nonce q) = be_enc 8 (unat (c_wrapSeqNum c))"
      using wrapRequest_Inr(6) [OF q] by simp
    show ?thesis
    proof (cases "\<exists>e c'. wrap seal c d = Some (Inr (e, c'))")
      case False
      then have "nonceTrace seal c (d # ds) = [wq_nonce q]"
        using q by (auto split: option.splits sum.splits)
      then show ?thesis using n by simp
    next
      case True
      then obtain e c' where w: "wrap seal c d = Some (Inr (e, c'))" by blast
      have "c_wrapSeqNum c' = c_wrapSeqNum c + 1" using wrap_state [OF w] by simp
      then show ?thesis
        using Cons.IH [of c'] q w n by (auto simp: nth_Cons ac_simps split: nat.splits)
    qed
  qed
qed

lemma seq_inj:
  assumes "i < 2 ^ 64" "j < 2 ^ 64" "be_enc 8 (unat (s + of_nat i :: u64)) = be_enc 8 (unat (s + of_nat j))"
  shows "i = j"
proof -
  have "s + of_nat i = s + (of_nat j :: u64)"
    using assms(3) u64_of_be_enc by metis
  then have "(of_nat i :: u64) = of_nat j" by simp
  then have "unat (of_nat i :: u64) = unat (of_nat j :: u64)" by simp
  then show ?thesis using assms(1,2) by (simp add: unat_of_nat)
qed

text \<open>C30: no nonce is used twice under one secret: over a run of up to \<open>2 ^ 64\<close> messages every call of
  the cipher gets a nonce of its own, whatever the messages and whatever their lengths.\<close>
theorem td2_nonces_distinct:
  assumes "length ds \<le> 2 ^ 64"
  shows "distinct (nonceTrace seal c ds)"
proof -
  note seq = nonceTrace_seq [of seal c ds]
  show ?thesis
    unfolding distinct_conv_nth
  proof (intro allI impI)
    fix i j
    assume ij: "i < length (nonceTrace seal c ds)" "j < length (nonceTrace seal c ds)" "i \<noteq> j"
    have b: "i < 2 ^ 64" "j < 2 ^ 64" using ij seq assms by linarith+
    show "nonceTrace seal c ds ! i \<noteq> nonceTrace seal c ds ! j"
      using seq_inj [OF b, of "c_wrapSeqNum c"] ij seq by metis
  qed
qed

section \<open>Keys\<close>

lemma normalizeDHSecretLen_length:
  "normalizeDHSecretLen n sz = Some b \<Longrightarrow> int (length b) = max 0 sz"
  by (auto simp: normalizeDHSecretLen_def Let_def split: if_splits dest!: slice_SomeD)

lemma qopKey_slice:
  assumes "c_master c = Some m" "normalizeDHSecretLen m (c_keyLen c) = Some s"
    "c_qopOptions c = qs @ q # rest" "list_all (\<lambda>q. 0 \<le> keyBytes q) (c_qopOptions c)"
    "sum_list (map keyBytes (c_qopOptions c)) \<le> int (length s)"
  shows "qopKey c (int (length qs)) = Some (Inr (take (nat (keyBytes q))
           (drop (nat (sum_list (map keyBytes qs))) s)))"
proof -
  let ?o = "sum_list (map keyBytes qs)"
  have nn: "0 \<le> ?o" "0 \<le> keyBytes q" "0 \<le> sum_list (map keyBytes rest)"
    using assms(3,4) by (auto simp: list_all_iff intro!: sum_list_nonneg)
  then have "?o + keyBytes q \<le> int (length s)" using assms(3,5) by simp
  then show ?thesis
    using assms(1-3) nn by (simp add: qopKey_def slice_def nth_append)
qed

lemma qop_keys_prefix:
  assumes "c_master c = Some m" "normalizeDHSecretLen m (c_keyLen c) = Some s"
    "list_all (\<lambda>q. 0 \<le> keyBytes q) (c_qopOptions c)"
    "sum_list (map keyBytes (c_qopOptions c)) \<le> int (length s)"
    "c_qopOptions c = qs @ rest"
  shows "\<exists>ks. map (\<lambda>i. qopKey c (int i)) [0..<length qs] = map (\<lambda>k. Some (Inr k)) ks
     \<and> map (\<lambda>k. int (length k)) ks = map keyBytes qs
     \<and> concat ks = take (nat (sum_list (map keyBytes qs))) s"
  using assms(5)
proof (induction qs arbitrary: rest rule: rev_induct)
  case Nil
  then show ?case by simp
next
  case (snoc q qs)
  obtain ks where ks: "map (\<lambda>i. qopKey c (int i)) [0..<length qs] = map (\<lambda>k. Some (Inr k)) ks"
    "map (\<lambda>k. int (length k)) ks = map keyBytes qs"
    "concat ks = take (nat (sum_list (map keyBytes qs))) s"
    using snoc.IH [of "q # rest"] snoc.prems by auto
  let ?o = "sum_list (map keyBytes qs)"
  let ?k = "take (nat (keyBytes q)) (drop (nat ?o) s)"
  have nn: "0 \<le> ?o" "0 \<le> keyBytes q" "0 \<le> sum_list (map keyBytes rest)"
    using assms(3) snoc.prems by (auto simp: list_all_iff intro!: sum_list_nonneg)
  have k: "qopKey c (int (length qs)) = Some (Inr ?k)"
    using qopKey_slice [OF assms(1,2) _ assms(3,4), of qs q rest] snoc.prems by simp
  have "?o + keyBytes q \<le> int (length s)" using assms(4) snoc.prems nn by simp
  then have l: "int (length ?k) = keyBytes q" using nn by simp
  have "concat (ks @ [?k]) = take (nat ?o + nat (keyBytes q)) s"
    by (simp add: ks(3) take_add)
  also have "nat ?o + nat (keyBytes q) = nat (?o + keyBytes q)"
    using nn by (simp add: nat_add_distrib)
  finally have "concat (ks @ [?k]) = take (nat (?o + keyBytes q)) s" .
  then show ?case
    using ks(1,2) k l by (intro exI [of _ "ks @ [?k]"]) (simp add: comp_def)
qed

text \<open>C20: every negotiated option has a key of its own length and no two keys share a byte: the keys of
  all options, put side by side, are a prefix of the normalised shared secret.\<close>
theorem qop_keys_partition:
  assumes "c_master c = Some m" "normalizeDHSecretLen m (c_keyLen c) = Some s"
    "list_all (\<lambda>q. 0 \<le> q_keyLength q) (c_qopOptions c)"
    "sum_list (map keyBytes (c_qopOptions c)) \<le> int (length s)"
  shows "\<exists>ks. map (\<lambda>i. qopKey c (int i)) [0..<length (c_qopOptions c)] = map (\<lambda>k. Some (Inr k)) ks
     \<and> map (\<lambda>k. int (length k)) ks = map keyBytes (c_qopOptions c)
     \<and> concat ks = take (nat (sum_list (map keyBytes (c_qopOptions c)))) s"
proof -
  have "list_all (\<lambda>q. 0 \<le> keyBytes q) (c_qopOptions c)"
    using assms(3) by (auto simp: list_all_iff keyBytes_def sgn_if)
  then show ?thesis using qop_keys_prefix [OF assms(1,2) _ assms(4), of "c_qopOptions c" "[]"] by simp
qed

section \<open>A concrete session\<close>

text \<open>A cipher that meets the law, and a context with a 32-byte secret and two AES-128 options.\<close>

definition demo_seal :: "byte list \<Rightarrow> byte list \<Rightarrow> byte list \<Rightarrow> byte list" where
  "demo_seal k n p = rev p @ take 16 (k @ replicate 16 0)"

definition demo_open :: "byte list \<Rightarrow> byte list \<Rightarrow> byte list \<Rightarrow> goerror + byte list" where
  "demo_open k n s = Inr (rev (take (length s - 16) s))"

definition demo_ctx :: td2GssContext where
  "demo_ctx = \<lparr>c_master = Some 258, c_keyLen = 32,
     c_qopOptions = [zeroAlgQop\<lparr>q_confAlg := ''AES'', q_mode := ''CBC'', q_keyLength := 128\<rparr>,
       zeroAlgQop\<lparr>q_confAlg := ''AES'', q_mode := ''GCM96'', q_keyLength := 128, q_integAlg := ''SHA-256''\<rparr>],
     c_wrapSeqNum = 1, c_targetEndien = 0\<rparr>"

definition demo_envelope :: "byte list" where
  "demo_envelope = [224, 62, 192, 19, 0, 0, 0, 0, 1, 0, 0, 0, 0, 0, 0, 0, 83, 0, 0, 0,
     3, 2, 1, 225, 21, 192, 1, 3, 193, 1, 7, 194, 1, 4, 195, 4, 0, 0,
     0, 1, 196, 1, 83, 197, 1, 1, 195, 16, 0, 0, 0, 0, 0, 0, 0, 0, 0, 0, 0, 0, 0, 0, 0, 0]"

lemma demo_law: "gcm_law demo_seal demo_open"
  by (simp add: gcm_law_def demo_seal_def demo_open_def min_def)

lemma demo_wrap:
  "wrapAll (wrap demo_seal) demo_ctx [[1, 2, 3]]
     = Some (Inr ([demo_envelope], demo_ctx\<lparr>c_wrapSeqNum := 2\<rparr>))"
  by code_simp

theorem td2_conversation_witness:
  "map (unwrap demo_open demo_ctx) [demo_envelope] = [Some (Inr [1, 2, 3])]"
proof -
  have "length (c_qopOptions demo_ctx) < 2 ^ 31" "list_all (\<lambda>e. length e < 2 ^ 62) [demo_envelope]"
    by (simp_all add: demo_ctx_def demo_envelope_def)
  moreover have "demo_ctx\<lparr>c_wrapSeqNum := 1\<rparr> = demo_ctx" by (simp add: demo_ctx_def)
  ultimately show ?thesis using td2_conversation [OF demo_law _ demo_wrap, of 1] by simp
qed

theorem td2_nonces_distinct_witness:
  "nonceTrace demo_seal demo_ctx [[1, 2, 3], []]
     = [[0, 0, 0, 83, 0, 0, 0, 0, 0, 0, 0, 1], [0, 0, 0, 80, 0, 0, 0, 0, 0, 0, 0, 2]]
   \<and> distinct (nonceTrace demo_seal demo_ctx [[1, 2, 3], []])"
proof
  show "nonceTrace demo_seal demo_ctx [[1, 2, 3], []]
     = [[0, 0, 0, 83, 0, 0, 0, 0, 0, 0, 0, 1], [0, 0, 0, 80, 0, 0, 0, 0, 0, 0, 0, 2]]"
    by code_simp
  show "distinct (nonceTrace demo_seal demo_ctx [[1, 2, 3], []])"
    by (rule td2_nonces_distinct) simp
qed

theorem qop_keys_partition_witness:
  "\<exists>ks. map (\<lambda>i. qopKey demo_ctx (int i)) [0..<2] = map (\<lambda>k. Some (Inr k)) ks
     \<and> map (\<lambda>k. int (length k)) ks = [16, 16] \<and> concat ks = [1, 2] @ replicate 30 0"
proof -
  have n: "normalizeDHSecretLen 258 32 = Some ([1, 2] @ replicate 30 0)" by code_simp
  have k: "map keyBytes (c_qopOptions demo_ctx) = [16, 16]" by code_simp
  have "list_all (\<lambda>q. 0 \<le> q_keyLength q) (c_qopOptions demo_ctx)" "length (c_qopOptions demo_ctx) = 2"
    "c_master demo_ctx = Some 258" "c_keyLen demo_ctx = 32"
    by (simp_all add: demo_ctx_def zeroAlgQop_def)
  then show ?thesis
    using qop_keys_partition [of demo_ctx 258 "[1, 2] @ replicate 30 0"] n k
    by simp
qed

end
