(* ===== verification/Lob.thy ===== *)
theory Lob
  imports GoValues
begin

text \<open>
  Large objects, src/lob.go: the handle of a LOB that arrives with a row, filled by \<open>start\<close>,
  \<open>append\<close> and \<open>complete\<close>. Fetching by locator is in the theory of the result set. The operations
  mutate the handle; here they return it with the error they report.
\<close>

text \<open>\<open>make([]byte, n)\<close> panics when the allocator cannot address \<open>n\<close> bytes.\<close>

definition makeBytes :: "u64 \<Rightarrow> byte list option" where
  "makeBytes n = (if unat n < 2 ^ 48 then Some (replicate (unat n) 0) else None)"

definition newLob :: "u16 \<Rightarrow> u64 \<Rightarrow> byte list \<Rightarrow> bool \<Rightarrow> terataBaseLob" where
  "newLob dataType len data conn =
     \<lparr>lb_length = len, lb_data = None, lb_started = False, lb_done = False, lb_dataIndex = 0,
      lb_dataType = dataType, lb_locatorData = data, lb_conn = conn, lb_requestNo = 0,
      lb_nullIndicatorRead = False, lb_lengthRead = False\<rparr>"

definition newTeradataClob :: "u16 \<Rightarrow> u64 \<Rightarrow> byte list \<Rightarrow> bool \<Rightarrow> gvalue" where
  "newTeradataClob dataType len data conn = V_clob (newLob dataType len data conn)"

definition newTeradataBlob :: "u16 \<Rightarrow> u64 \<Rightarrow> byte list \<Rightarrow> bool \<Rightarrow> gvalue" where
  "newTeradataBlob dataType len data conn = V_blob (newLob dataType len data conn)"

definition lob_start :: "terataBaseLob \<Rightarrow> (goerror option \<times> terataBaseLob) option" where
  "lob_start c =
     (if lb_length c = 0 then Some (Some ErrInvalidLobSize, c)
      else do {
        d \<leftarrow> makeBytes (lb_length c);
        Some (None, c\<lparr>lb_data := Some d, lb_started := True\<rparr>) })"

definition lob_complete :: "terataBaseLob \<Rightarrow> goerror option \<times> terataBaseLob" where
  "lob_complete c = (None, c\<lparr>lb_done := True, lb_conn := False\<rparr>)"

text \<open>The bytes of the handle; a nil slice has none.\<close>

definition lob_bytes :: "terataBaseLob \<Rightarrow> byte list" where
  "lob_bytes c = (case lb_data c of Some d \<Rightarrow> d | None \<Rightarrow> [])"

text \<open>\<open>copy(c.data[c.dataIndex:], data)\<close>.\<close>

definition lob_append :: "byte list \<Rightarrow> terataBaseLob \<Rightarrow> (goerror option \<times> terataBaseLob) option" where
  "lob_append data c =
     (let datalen = int (length data) in
      if lb_dataIndex c + datalen > int (length (lob_bytes c)) then Some (Some ErrInvalidLobSize, c)
      else do {
        tail \<leftarrow> slice (lob_bytes c) (lb_dataIndex c) (int (length (lob_bytes c)));
        Some (None, c\<lparr>lb_data := map_option (\<lambda>d. take (nat (lb_dataIndex c)) d @ data
                                              @ drop (length data) tail) (lb_data c),
                      lb_dataIndex := lb_dataIndex c + datalen\<rparr>) })"

definition lob_setLength :: "u64 \<Rightarrow> terataBaseLob \<Rightarrow> terataBaseLob" where
  "lob_setLength len c = c\<lparr>lb_length := len\<rparr>"

text \<open>The handle inside a column value, and a value with its handle replaced.\<close>

fun lob_of :: "gvalue \<Rightarrow> terataBaseLob option" where
  "lob_of (V_clob l) = Some l"
| "lob_of (V_blob l) = Some l"
| "lob_of _ = None"

fun set_lob :: "terataBaseLob \<Rightarrow> gvalue \<Rightarrow> gvalue" where
  "set_lob l (V_clob _) = V_clob l"
| "set_lob l (V_blob _) = V_blob l"
| "set_lob l v = v"

section \<open>Invariant\<close>

text \<open>The filled prefix stays inside the buffer, and the buffer has the announced length.\<close>

definition lob_inv :: "terataBaseLob \<Rightarrow> bool" where
  "lob_inv c \<longleftrightarrow> 0 \<le> lb_dataIndex c \<and> lb_dataIndex c \<le> int (length (lob_bytes c))
     \<and> (lb_started c \<longrightarrow> lb_data c \<noteq> None)"

lemma lob_inv_new: "lob_inv (newLob t n d k)"
  by (simp add: lob_inv_def newLob_def lob_bytes_def)

lemma lob_append_inv:
  assumes "lob_append data c = Some (e, c')" "lob_inv c"
  shows "lob_inv c'"
  using assms
  by (auto simp: lob_append_def lob_inv_def lob_bytes_def Let_def
      split: if_splits option.splits elim!: bind_SomeE dest!: slice_SomeD)

text \<open>Appending to a started handle succeeds as long as the bytes fit; the bytes land behind those
  already there.\<close>

lemma lob_append_fits:
  assumes "lb_data c = Some d" "lb_dataIndex c = int i" "i + length data \<le> length d"
  shows "lob_append data c =
    Some (None, c\<lparr>lb_data := Some (take i d @ data @ drop (i + length data) d),
                  lb_dataIndex := int (i + length data)\<rparr>)"
  using assms by (simp add: lob_append_def lob_bytes_def Let_def slice_def drop_drop ac_simps)

lemma lob_append_overflow:
  assumes "lb_data c = Some d" "lb_dataIndex c = int i" "length d < i + length data"
  shows "lob_append data c = Some (Some ErrInvalidLobSize, c)"
  using assms by (simp add: lob_append_def lob_bytes_def Let_def)

fun lob_appendAll :: "byte list list \<Rightarrow> terataBaseLob \<Rightarrow> (goerror option \<times> terataBaseLob) option" where
  "lob_appendAll [] c = Some (None, c)"
| "lob_appendAll (d # ds) c =
     (case lob_append d c of
        None \<Rightarrow> None
      | Some (Some e, c) \<Rightarrow> Some (Some e, c)
      | Some (None, c) \<Rightarrow> lob_appendAll ds c)"

lemma lob_appendAll_fits:
  assumes "lb_data c = Some d" "lb_dataIndex c = int i" "i + length (concat ds) \<le> length d"
  shows "lob_appendAll ds c =
    Some (None, c\<lparr>lb_data := Some (take i d @ concat ds @ drop (i + length (concat ds)) d),
                  lb_dataIndex := int (i + length (concat ds))\<rparr>)"
  using assms
proof (induction ds arbitrary: c d i)
  case Nil
  then show ?case by (cases c) simp
next
  case (Cons x xs)
  let ?c = "c\<lparr>lb_data := Some (take i d @ x @ drop (i + length x) d), lb_dataIndex := int (i + length x)\<rparr>"
  have a: "lob_append x c = Some (None, ?c)"
    using Cons.prems by (intro lob_append_fits) auto
  have "lob_appendAll xs ?c = Some (None, ?c\<lparr>lb_data := Some (take (i + length x)
      (take i d @ x @ drop (i + length x) d) @ concat xs @ drop (i + length x + length (concat xs))
      (take i d @ x @ drop (i + length x) d)), lb_dataIndex := int (i + length x + length (concat xs))\<rparr>)"
    using Cons.prems by (intro Cons.IH) auto
  then show ?case using Cons.prems a by (simp add: ac_simps min_def)
qed

end
