(* ===== verification/Params.thy ===== *)
theory Params
  imports RequestParcels StatementInfo Lob
begin

text \<open>
  Statement parameters, src/params.go: the descriptor and the bytes of each bound value, and the
  parcels that carry them. A value's bytes depend on the type of the parameter marker; \<open>nil\<close> is sent
  as zero bytes of the type's width with the null indicator set.
\<close>

abbreviation varCharTypes :: "u16 list" where
  "varCharTypes \<equiv> [tdVarchar, tdLongVarchar, tdVarGraphic, tdLongVarGraphic]"

abbreviation varByteTypes :: "u16 list" where
  "varByteTypes \<equiv> [tdVarByte, tdLongVarByte]"

abbreviation timeTypes :: "u16 list" where
  "timeTypes \<equiv> [tdTime, tdTimeTZ, tdTimestamp, tdTimestampTZ]"

abbreviation intervalTypes :: "u16 list" where
  "intervalTypes \<equiv> [tdIntervalYear, tdIntervalYearToMo, tdIntervalMonth, tdIntervalDay,
     tdIntervalDayToHr, tdIntervalDayToMin, tdIntervalDayToSec, tdIntervalHour, tdIntervalHrToMin,
     tdIntervalHrToSec, tdIntervalMinute, tdIntervalMinToSec, tdIntervalSecond]"

section \<open>Encoding\<close>

definition uint8Bytes :: "byte \<Rightarrow> byte list" where "uint8Bytes v = [v]"
definition uint16Bytes :: "u16 \<Rightarrow> byte list" where "uint16Bytes v = be_enc 2 (unat v)"
definition uint32Bytes :: "u32 \<Rightarrow> byte list" where "uint32Bytes v = be_enc 4 (unat v)"
definition uint64Bytes :: "u64 \<Rightarrow> byte list" where "uint64Bytes v = be_enc 8 (unat v)"

definition bigIntToBE16 :: "int \<Rightarrow> (goerror + byte list) option" where
  "bigIntToBE16 v =
     (if v < - (2 ^ 127) \<or> v > 2 ^ 127 - 1
      then Some (Inl (Errorf ''decimal value %s does not fit in 16 bytes'' []))
      else map_option Inr (if v \<ge> 0 then fillBytes (nat v) 16 else fillBytes (nat (v + 2 ^ 128)) 16))"

definition param_error :: "string \<Rightarrow> (goerror + byte list) option" where
  "param_error s = Some (Inl (Errorf s []))"

text \<open>A string or byte value, with Go's length prefix.\<close>

definition lengthPrefixed :: "string \<Rightarrow> byte list \<Rightarrow> (goerror + byte list) option" where
  "lengthPrefixed err d =
     (if length d > 65535 then param_error err else Some (Inr (be_enc 2 (length d) @ d)))"

fun encodeDate :: "gvalue \<Rightarrow> (goerror + byte list) option" where
  "encodeDate (V_time t) =
     Some (Inr (uint32Bytes (word_of_int ((t_year t - 1900) * 10000 + t_month t * 100 + t_day t))))"
| "encodeDate (V_int64 v) = Some (Inr (uint32Bytes (ucast v)))"
| "encodeDate _ = param_error ''param expecting date data type but provided value is not a time.Time''"

definition encodeDecimal :: "string \<Rightarrow> metaItem \<Rightarrow> (goerror + byte list) option" where
  "encodeDecimal s meta =
     (case decimalToScaledInt s (uint (getScale meta)) of
        None \<Rightarrow> None
      | Some (Inl err) \<Rightarrow> Some (Inl err)
      | Some (Inr raw) \<Rightarrow>
          (if getPercision meta \<le> 2 then Some (Inr [word_of_int raw])
           else if getPercision meta \<le> 4 then Some (Inr (uint16Bytes (word_of_int raw)))
           else if getPercision meta \<le> 9 then Some (Inr (uint32Bytes (word_of_int raw)))
           else if getPercision meta \<le> 18 then Some (Inr (uint64Bytes (word_of_int raw)))
           else if getPercision meta \<le> 38 then bigIntToBE16 raw
           else param_error ''decimal precision %d unsupported''))"

text \<open>The string and byte assertions of the encoder.\<close>

fun as_string :: "gvalue \<Rightarrow> string option" where
  "as_string (V_string s) = Some s"
| "as_string _ = None"

fun as_bytes :: "gvalue \<Rightarrow> byte list option" where
  "as_bytes (V_bytes b) = Some b"
| "as_bytes _ = None"

fun as_float64 :: "gvalue \<Rightarrow> u64 option" where
  "as_float64 (V_float64 f) = Some f"
| "as_float64 _ = None"

definition encodeNullParamValue :: "metaItem \<Rightarrow> (goerror + byte list) option" where
  "encodeNullParamValue meta =
     (let t = getTdBasicType (getDataType meta); zeros = (\<lambda>n. Some (Inr (replicate n (0 :: byte)))) in
      if t = tdInteger then zeros 4
      else if t = tdBigInt then zeros 8
      else if t = tdSmallInt then zeros 2
      else if t = tdByteInt then zeros 1
      else if t = tdFloat then zeros 8
      else if t \<in> set (varCharTypes @ varByteTypes) then zeros 2
      else if t \<in> set [tdChar, tdGraphic] then map_option Inr (makeBytes (getMaxLength meta))
      else if t = tdByte then map_option Inr (makeBytes (getMaxLength meta))
      else if t \<in> set [tdDateAnsi, tdDateInteger] then zeros 4
      else if t \<in> set (timeTypes @ intervalTypes) then map_option Inr (makeBytes (getMaxLength meta))
      else if t = tdDecimal then
        (if getPercision meta \<le> 2 then zeros 1
         else if getPercision meta \<le> 4 then zeros 2
         else if getPercision meta \<le> 9 then zeros 4
         else if getPercision meta \<le> 18 then zeros 8
         else if getPercision meta \<le> 38 then zeros 16
         else param_error ''decimal precision %d unsupported'')
      else if t = tdNumber then zeros 1
      else param_error ''unsupported data type: %d'')"

definition encodeParamValue ::
  "(u64 \<Rightarrow> string) \<Rightarrow> gvalue \<Rightarrow> metaItem \<Rightarrow> (goerror + byte list) option" where
  "encodeParamValue formatFloat val meta =
     (if val = V_nil then encodeNullParamValue meta
      else let t = getTdBasicType (getDataType meta) in
      if t = tdInteger then
        (case toInt64 val of
           None \<Rightarrow> param_error ''param expecting integer data type but provided value is not a integer''
         | Some v \<Rightarrow> Some (Inr (uint32Bytes (ucast v))))
      else if t = tdBigInt then
        (case toInt64 val of
           None \<Rightarrow> param_error ''param expecting bigint data type but provided value is not a integer''
         | Some v \<Rightarrow> Some (Inr (uint64Bytes v)))
      else if t = tdSmallInt then
        (case toInt64 val of
           None \<Rightarrow> param_error ''param expecting smallint data type but provided value is not a integer''
         | Some v \<Rightarrow> Some (Inr (uint16Bytes (ucast v))))
      else if t = tdByteInt then
        (case toInt64 val of
           None \<Rightarrow> param_error ''param expecting byteint data type but provided value is not a integer''
         | Some v \<Rightarrow> Some (Inr (uint8Bytes (ucast v))))
      else if t = tdFloat then
        (case as_float64 val of
           None \<Rightarrow> param_error ''param expecting float data type but provided value is not a float64''
         | Some v \<Rightarrow> Some (Inr (uint64Bytes v)))
      else if t \<in> set varCharTypes then
        (case as_string val of
           None \<Rightarrow> param_error ''param expecting character data type but provided value is not a string''
         | Some s \<Rightarrow> lengthPrefixed ''character param too long: %d bytes'' (str_bytes s))
      else if t \<in> set [tdChar, tdGraphic] then
        (case as_string val of
           None \<Rightarrow> param_error ''param expecting character data type but provided value is not a string''
         | Some s \<Rightarrow> Some (Inr (fixedWidthBytes (str_bytes s) (sint (getMaxLength meta)) 32)))
      else if t \<in> set varByteTypes then
        (case as_bytes val of
           None \<Rightarrow> param_error ''param expecting byte data type but provided value is not a []byte''
         | Some b \<Rightarrow> lengthPrefixed ''varbyte param too long: %d bytes'' b)
      else if t = tdByte then
        (case as_bytes val of
           None \<Rightarrow> param_error ''param expecting byte data type but provided value is not a []byte''
         | Some b \<Rightarrow> Some (Inr (fixedWidthBytes b (sint (getMaxLength meta)) 0)))
      else if t \<in> set [tdDateAnsi, tdDateInteger] then encodeDate val
      else if t \<in> set (timeTypes @ intervalTypes) then
        (case as_string val of
           None \<Rightarrow> param_error ''param expecting a formatted string for data type %d''
         | Some s \<Rightarrow> Some (Inr (fixedWidthBytes (str_bytes s) (sint (getMaxLength meta)) 32)))
      else if t = tdDecimal then
        (case as_string val of
           None \<Rightarrow> param_error ''param expecting decimal data type but provided value is not a string''
         | Some s \<Rightarrow> encodeDecimal s meta)
      else if t = tdNumber then
        (case numberFromValue formatFloat val of
           Inl err \<Rightarrow> Some (Inl err)
         | Inr (unscaled, scale) \<Rightarrow> encodeNumber unscaled scale)
      else param_error ''unsupported data type: %d'')"

section \<open>Descriptors\<close>

text \<open>The first switch of \<open>describeParam\<close>: the length, precision and scale of a type.\<close>

definition paramShape :: "metaItem \<Rightarrow> u64 \<times> u16 \<times> u16" where
  "paramShape meta =
     (let t = getTdBasicType (getDataType meta); prec = getPercision meta; sc = getScale meta in
      if t = tdInteger then (4, 0, 0)
      else if t = tdSmallInt then (2, 0, 0)
      else if t = tdByteInt then (1, 0, 0)
      else if t \<in> set [tdBigInt, tdFloat] then (8, 0, 0)
      else if t \<in> set (varCharTypes @ varByteTypes) then (0, 0, 0)
      else if t \<in> set [tdDateAnsi, tdDateInteger] then (4, 0, 0)
      else if t \<in> set timeTypes then (getMaxLength meta, 0, sc)
      else if t \<in> set intervalTypes then (getMaxLength meta, 0, 0)
      else if t = tdDecimal then
        (if prec \<le> 2 then 1 else if prec \<le> 4 then 2 else if prec \<le> 9 then 4
         else if prec \<le> 18 then 8 else if prec \<le> 38 then 16 else 0, prec, sc)
      else if t = tdNumber then
        (word_of_int numberMaxByteLength, word_of_int numberSipScaleAndPrec,
         word_of_int numberSipScaleAndPrec)
      else (0, 0, 0))"

definition describeParam ::
  "(u64 \<Rightarrow> string) \<Rightarrow> gvalue \<Rightarrow> metaItem \<Rightarrow> (goerror + paramDescriptor) option" where
  "describeParam formatFloat val meta =
     (let (len, precision, scale) = paramShape meta in
      case encodeParamValue formatFloat val meta of
        None \<Rightarrow> None
      | Some (Inl err) \<Rightarrow> Some (Inl err)
      | Some (Inr encd) \<Rightarrow>
          let len = (if len \<noteq> 0 then len
                     else if getTdBasicType (getDataType meta) \<in> set (varCharTypes @ varByteTypes)
                     then word_of_nat (length encd) - 2
                     else word_of_nat (length encd))
          in Some (Inr \<lparr>p_dataType = or (getDataType meta) 1, p_length = len, p_precision = precision,
                        p_intervalDigits = 0, p_scale = scale, p_isNull = (val = V_nil),
                        p_encoded = encd\<rparr>))"

text \<open>The loop of \<open>createParamParcels\<close>; fewer values than markers is an index panic.\<close>

fun describeParams ::
  "(u64 \<Rightarrow> string) \<Rightarrow> gvalue list \<Rightarrow> metaItem list \<Rightarrow> (goerror + paramDescriptor list) option" where
  "describeParams formatFloat vals [] = Some (Inr [])"
| "describeParams formatFloat [] (m # metas) = None"
| "describeParams formatFloat (v # vals) (m # metas) =
     (case describeParam formatFloat v m of
        None \<Rightarrow> None
      | Some (Inl err) \<Rightarrow> Some (Inl err)
      | Some (Inr d) \<Rightarrow>
          (case describeParams formatFloat vals metas of
             None \<Rightarrow> None
           | Some (Inl err) \<Rightarrow> Some (Inl err)
           | Some (Inr ds) \<Rightarrow> Some (Inr (d # ds))))"

definition createParamParcels ::
  "(u64 \<Rightarrow> string) \<Rightarrow> connectionCapabilities \<Rightarrow> gvalue list \<Rightarrow> metaItem list
     \<Rightarrow> (goerror + parcel list) option" where
  "createParamParcels formatFloat capabilities dataValues paramMetas =
     (case describeParams formatFloat dataValues paramMetas of
        None \<Rightarrow> None
      | Some (Inl err) \<Rightarrow> Some (Inl err)
      | Some (Inr descs) \<Rightarrow> Some (Inr
          (if cap_statementInfoRequestSupport capabilities
           then [StatementInfoRequestParcel descs, StatementInfoEndRequestParcel, IndicDataParcel descs]
           else [DataInfoParcel descs, IndicDataParcel descs])))"

end
