(* ===== verification/Rows.thy ===== *)
theory Rows
  imports Params
begin

text \<open>
  Column values, src/rows.go: how a value of each data type is read out of a record, the null
  indicators in front of it, and the column descriptions of \<open>database/sql\<close>.
\<close>

text \<open>\<open>fmt.Sprintf\<close> with \<open>%0wd\<close>: zeros between the sign and the digits.\<close>

definition zeroPad :: "nat \<Rightarrow> int \<Rightarrow> string" where
  "zeroPad w i =
     (let d = nat_str (nat \<bar>i\<bar>) in
      if i < 0 then CHR ''-'' # replicate (w - 1 - length d) (CHR ''0'') @ d
      else replicate (w - length d) (CHR ''0'') @ d)"

definition rem :: "int \<Rightarrow> int \<Rightarrow> int" where "rem x y = x - quo x y * y"

definition dateString :: "u32 \<Rightarrow> string" where
  "dateString v =
     (let iv = sint (v + 19000000)
      in zeroPad 4 (quo iv 10000) @ ''-'' @ zeroPad 2 (quo (rem iv 10000) 100) @ ''-'' @ zeroPad 2 (rem iv 100))"

text \<open>The result of a read that yields \<open>v\<close> unless the null indicator is set.\<close>

definition unless_null :: "bool \<Rightarrow> gvalue \<Rightarrow> bufferReader \<Rightarrow> ((goerror + gvalue) \<times> bufferReader) option" where
  "unless_null isNull v r = Some (Inr (if isNull then V_nil else v), r)"

text \<open>Text of a known length: skipped when null, empty without a read.\<close>

definition readText :: "bool \<Rightarrow> int \<Rightarrow> bufferReader \<Rightarrow> ((goerror + gvalue) \<times> bufferReader) option" where
  "readText isNull n r =
     (if isNull then Some (Inr V_nil, rd_skip n r)
      else if n = 0 then Some (Inr (V_string []), r)
      else do { (s, r) \<leftarrow> asciiString n r; Some (Inr (V_string s), r) })"

text \<open>Bytes of a known length: read even when null.\<close>

definition readBytes :: "bool \<Rightarrow> int \<Rightarrow> bufferReader \<Rightarrow> ((goerror + gvalue) \<times> bufferReader) option" where
  "readBytes isNull n r =
     (if n = 0 then unless_null isNull (V_bytes []) r
      else do { (b, r) \<leftarrow> rd_bytes n r; unless_null isNull (V_bytes b) r })"

definition readDecimal :: "metaFull \<Rightarrow> bool \<Rightarrow> bufferReader \<Rightarrow> ((goerror + gvalue) \<times> bufferReader) option" where
  "readDecimal meta isNull r =
     (let precision = uint (m_totalNumberOfDigits meta);
          scale = uint (m_numberOfFractionalDigits meta);
          result = (\<lambda>raw r. unless_null isNull (V_string (decimalString raw scale)) r)
      in if precision \<le> 2 then do { (v, r) \<leftarrow> rd_u8 r; result (sint v) r }
         else if precision \<le> 4 then do { (v, r) \<leftarrow> rd_u16 r; result (sint v) r }
         else if precision \<le> 9 then do { (v, r) \<leftarrow> rd_u32 r; result (sint v) r }
         else if precision \<le> 18 then do { (v, r) \<leftarrow> rd_u64 r; result (sint v) r }
         else if precision \<le> 38 then do { (v, r) \<leftarrow> rd_bigInt16 r; result v r }
         else Some (Inl (Errorf ''decimal precision %d unsupported'' []), r))"

definition readNumber :: "bool \<Rightarrow> bufferReader \<Rightarrow> ((goerror + gvalue) \<times> bufferReader) option" where
  "readNumber isNull r = do {
     (b, r) \<leftarrow> rd_u8 r;
     let n = sint b;
     if n \<le> 0 then unless_null isNull (V_string ''0'') r
     else do {
       (s, r) \<leftarrow> rd_u16 r;
       (raw, r) \<leftarrow> rd_bigIntN (n - 2) r;
       unless_null isNull (V_string (decimalString raw (sint s))) r } }"

definition readLocator :: "metaFull \<Rightarrow> bool \<Rightarrow> bufferReader \<Rightarrow> ((goerror + gvalue) \<times> bufferReader) option" where
  "readLocator meta isNull r = do {
     (locatorLen, r) \<leftarrow> rd_u16 r;
     let pos = rd_position r;
     if locatorLen \<ge> 2 then do {
       (lobLen, r) \<leftarrow> rd_u64 r;
       (locatorData, r) \<leftarrow> rd_bytes (uint locatorLen) (rd_seek pos r);
       unless_null isNull
         (if getTdBasicType (m_dataType meta) = tdClobLocator
          then newTeradataClob (m_dataType meta) lobLen locatorData True
          else newTeradataBlob (m_dataType meta) lobLen locatorData True) r }
     else Some (Inr V_nil, r) }"

definition produceColumnValue ::
  "bufferReader \<Rightarrow> metaFull \<Rightarrow> bool \<Rightarrow> ((goerror + gvalue) \<times> bufferReader) option" where
  "produceColumnValue r meta isNull =
     (let t = getTdBasicType (m_dataType meta); n = sint (m_maxDataLengthInBytes meta) in
      if t = tdInteger then do { (v, r) \<leftarrow> rd_u32 r; unless_null isNull (V_int32 v) r }
      else if t = tdBigInt then do { (v, r) \<leftarrow> rd_u64 r; unless_null isNull (V_int64 v) r }
      else if t = tdSmallInt then do { (v, r) \<leftarrow> rd_u16 r; unless_null isNull (V_int16 v) r }
      else if t = tdByteInt then do { (v, r) \<leftarrow> rd_u8 r; unless_null isNull (V_int8 v) r }
      else if t \<in> set varCharTypes then do { (k, r) \<leftarrow> rd_u16 r; readText isNull (uint k) r }
      else if t \<in> set [tdChar, tdGraphic] then readText isNull n r
      else if t = tdFloat then do { (v, r) \<leftarrow> rd_f64 r; unless_null isNull (V_float64 v) r }
      else if t = tdDecimal then readDecimal meta isNull r
      else if t = tdNumber then readNumber isNull r
      else if t \<in> set varByteTypes then do { (k, r) \<leftarrow> rd_u16 r; readBytes isNull (uint k) r }
      else if t \<in> set (removeAll tdIntervalMinToSec intervalTypes) then readText isNull n r
      else if t = tdByte then readBytes isNull n r
      else if t \<in> set [tdDateAnsi, tdDateInteger] then
        do { (v, r) \<leftarrow> rd_u32 r; unless_null isNull (V_string (dateString v)) r }
      else if t \<in> set timeTypes then readText isNull n r
      else if t \<in> set [tdClobLocator, tdBlobLocator] then readLocator meta isNull r
      else Some (Inl (Errorf ''unsupported response data type %d'' []), r))"

text \<open>\<open>nullIndicators[col/8]&(0x80>>uint(col%8)) != 0\<close>\<close>

definition isNull :: "byte list \<Rightarrow> nat \<Rightarrow> bool option" where
  "isNull nullIndicators col = do {
     b \<leftarrow> index nullIndicators (int (col div 8));
     Some (and b (drop_bit (col mod 8) 0x80) \<noteq> 0) }"

text \<open>
  The loop of \<open>processRow\<close> over the columns. \<open>dest\<close> is the caller's slice, one element per column;
  writing past it panics. The result is the slice and either the next index or the error.
\<close>

fun processColumns ::
  "byte list \<Rightarrow> nat \<Rightarrow> metaFull list \<Rightarrow> bufferReader \<Rightarrow> gvalue list \<Rightarrow> int
     \<Rightarrow> ((goerror + int) \<times> bufferReader \<times> gvalue list) option" where
  "processColumns nulls col [] r dest indx = Some (Inr indx, r, dest)"
| "processColumns nulls col (meta # metas) r dest indx = do {
     nul \<leftarrow> isNull nulls col;
     (v, r) \<leftarrow> produceColumnValue r meta nul;
     case v of
       Inl err \<Rightarrow> Some (Inl err, r, dest)
     | Inr v \<Rightarrow> do {
         _ \<leftarrow> index dest indx;
         processColumns nulls (Suc col) metas r (dest[nat indx := v]) (indx + 1) } }"

definition processRow ::
  "metaFull list \<Rightarrow> bufferReader \<Rightarrow> gvalue list \<Rightarrow> int
     \<Rightarrow> ((goerror + int) \<times> bufferReader \<times> gvalue list) option" where
  "processRow columnMeta r dest indx = do {
     (nulls, r) \<leftarrow> rd_bytes ((int (length columnMeta) + 7) div 8) r;
     processColumns nulls 0 columnMeta r dest indx }"

section \<open>Column descriptions\<close>

definition columnAt :: "metaFull list \<Rightarrow> int \<Rightarrow> metaFull option" where
  "columnAt metas i = index metas i"

definition columnTypeScanType :: "metaFull list \<Rightarrow> int \<Rightarrow> scanType" where
  "columnTypeScanType metas i =
     (case columnAt metas i of None \<Rightarrow> scanTypeUnknown
      | Some m \<Rightarrow> scanTypeForDataType (m_dataType m) (m_isNullable m = 89))"

definition columnTypeDatabaseTypeName :: "metaFull list \<Rightarrow> int \<Rightarrow> string" where
  "columnTypeDatabaseTypeName metas i =
     (case columnAt metas i of None \<Rightarrow> [] | Some m \<Rightarrow> dbNameForDataType (m_dataType m))"

definition columnTypeNullable :: "metaFull list \<Rightarrow> int \<Rightarrow> bool \<times> bool" where
  "columnTypeNullable metas i =
     (case columnAt metas i of None \<Rightarrow> (False, False) | Some m \<Rightarrow> (m_isNullable m = 89, True))"

definition columnTypePrecisionScale :: "metaFull list \<Rightarrow> int \<Rightarrow> int \<times> int \<times> bool" where
  "columnTypePrecisionScale metas i =
     (case columnAt metas i of None \<Rightarrow> (0, 0, False)
      | Some m \<Rightarrow>
          (if getTdBasicType (m_dataType m) \<in> set [tdDecimal, tdNumber] then
             (if m_totalNumberOfDigits m = 0 then (2 ^ 63 - 1, 2 ^ 63 - 1, True)
              else (uint (m_totalNumberOfDigits m), uint (m_numberOfFractionalDigits m), True))
           else (0, 0, False)))"

definition columnTypeLength :: "metaFull list \<Rightarrow> int \<Rightarrow> int \<times> bool" where
  "columnTypeLength metas i =
     (case columnAt metas i of None \<Rightarrow> (0, False)
      | Some m \<Rightarrow>
          (if getTdBasicType (m_dataType m) \<in> set (varCharTypes @ varByteTypes @
             [tdBlob, tdBlobDeferred, tdBlobLocator, tdClob, tdClobDeferred, tdClobLocator,
              tdXmlText, tdXmlTextDeferred, tdXmlTextLocator, tdXmlBinary, tdXmlBinaryDeferre,
              tdXmlBinaryLocator, tdJsonInline, tdJsonLocator, tdJsonDeferred])
           then (sint (m_maxDataLengthInBytes m), True) else (0, False)))"

section \<open>Null indicators\<close>

lemma and_top_bit: "j < 8 \<Longrightarrow> (and (b :: byte) (drop_bit j 0x80) \<noteq> 0) = bit b (7 - j)"
proof -
  assume j: "j < 8"
  have "list_all (\<lambda>j. drop_bit j (0x80 :: byte) = push_bit (7 - j) 1) [0..<8]" by code_simp
  then have "drop_bit j (0x80 :: byte) = push_bit (7 - j) 1"
    using j by (simp only: list_all_iff set_upt) simp
  then show ?thesis
    by (simp add: push_bit_eq_mult and_exp_eq_0_iff_not_bit)
qed

text \<open>One step of the loop that fills the bitmap.\<close>

abbreviation null_step :: "nat \<times> paramDescriptor \<Rightarrow> byte list \<Rightarrow> byte list" where
  "null_step \<equiv> \<lambda>(i, v) m. if p_isNull v then m[i div 8 := or (m ! (i div 8)) (push_bit (7 - i mod 8) 1)] else m"

lemma length_null_fold [simp]: "length (fold null_step xs m) = length m"
  by (induction xs arbitrary: m) auto

lemma null_fold_bit:
  assumes "j < 8 * length m" "k + length ps \<le> 8 * length m"
  shows "bit (fold null_step (enumerate k ps) m ! (j div 8)) (7 - j mod 8) \<longleftrightarrow>
    bit (m ! (j div 8)) (7 - j mod 8) \<or> (k \<le> j \<and> j < k + length ps \<and> p_isNull (ps ! (j - k)))"
  using assms
proof (induction ps arbitrary: k m)
  case Nil
  then show ?case by auto
next
  case (Cons p ps)
  let ?m = "null_step (k, p) m"
  have len: "length ?m = length m" by auto
  have k: "k div 8 < length m" using Cons.prems by simp
  have j: "j div 8 < length m" using Cons.prems(1) by simp
  have one: "bit (?m ! (j div 8)) (7 - j mod 8) \<longleftrightarrow>
      bit (m ! (j div 8)) (7 - j mod 8) \<or> (k = j \<and> p_isNull p)"
  proof (cases "k div 8 = j div 8 \<and> p_isNull p")
    case True
    have "k = j \<longleftrightarrow> 7 - k mod 8 = 7 - j mod 8"
    proof -
      have "k div 8 = j div 8" "k mod 8 < 8" "j mod 8 < 8" using True by simp_all
      moreover have "k = k div 8 * 8 + k mod 8" "j = j div 8 * 8 + j mod 8" by simp_all
      ultimately show ?thesis by linarith
    qed
    moreover have "bit (push_bit a (1 :: byte)) b \<longleftrightarrow> a = b" if "b < 8" for a b
      using that by (auto simp: bit_exp_iff)
    moreover have "?m ! (j div 8) = or (m ! (j div 8)) (push_bit (7 - k mod 8) 1)"
      using True k by simp
    ultimately show ?thesis
      using True by (simp only: bit_or_iff) simp
  next
    case False
    then show ?thesis using k j by (auto simp: nth_list_update)
  qed
  have "bit (fold null_step (enumerate (Suc k) ps) ?m ! (j div 8)) (7 - j mod 8) \<longleftrightarrow>
    bit (?m ! (j div 8)) (7 - j mod 8) \<or> (Suc k \<le> j \<and> j < Suc k + length ps \<and> p_isNull (ps ! (j - Suc k)))"
    using Cons.prems len by (intro Cons.IH) simp_all
  then show ?case
    using one by (auto simp: nth_Cons' Suc_le_eq)
qed

lemma length_nullmap: "length (nullmap ps) = (length ps + 7) div 8"
  by (simp add: nullmap_def)

lemma isNull_nullmap:
  assumes "i < length ps"
  shows "isNull (nullmap ps) i = Some (p_isNull (ps ! i))"
proof -
  have l: "length ps \<le> 8 * ((length ps + 7) div 8)" by linarith
  have b: "bit (nullmap ps ! (i div 8)) (7 - i mod 8) = p_isNull (ps ! i)"
    using null_fold_bit [of i "replicate ((length ps + 7) div 8) 0" 0 ps] assms l
    by (simp add: nullmap_def nth_replicate less_mult_imp_div_less mult.commute)
  have "i div 8 < length (nullmap ps)" using assms by (simp add: length_nullmap)
  then show ?thesis using b and_top_bit [of "i mod 8"] by (simp add: isNull_def index_def)
qed

section \<open>A parameter read back as a column\<close>

text \<open>The column value that a bound parameter comes back as: integers in the width of their type, text
  and bytes in the width of the column, decimals and numbers as the text of the scaled integer.\<close>

definition number_value :: "(u64 \<Rightarrow> string) \<Rightarrow> gvalue \<Rightarrow> string" where
  "number_value fmt v =
     (case numberFromValue fmt v of
        Inl _ \<Rightarrow> []
      | Inr (u, s) \<Rightarrow>
          if u = 0 then ''0''
          else let (u1, s1) = number_round u s; (u2, s2) = stripTrailingZeros u1 s1
               in decimalString u2 s2)"

definition decimal_raw :: "metaFull \<Rightarrow> gvalue \<Rightarrow> int" where
  "decimal_raw m v =
     (case as_string v of None \<Rightarrow> 0
      | Some s \<Rightarrow> (case decimalToScaledInt s (uint (m_numberOfFractionalDigits m)) of
                   Some (Inr raw) \<Rightarrow> raw | _ \<Rightarrow> 0))"

fun date_bits :: "gvalue \<Rightarrow> u32" where
  "date_bits (V_time t) = word_of_int ((t_year t - 1900) * 10000 + t_month t * 100 + t_day t)"
| "date_bits (V_int64 v) = ucast v"
| "date_bits _ = 0"

definition column_value :: "(u64 \<Rightarrow> string) \<Rightarrow> metaFull \<Rightarrow> gvalue \<Rightarrow> gvalue" where
  "column_value fmt m v =
     (let t = getTdBasicType (m_dataType m); w = sint (m_maxDataLengthInBytes m) in
      if v = V_nil then V_nil
      else if t = tdInteger then V_int32 (ucast (the (toInt64 v)))
      else if t = tdBigInt then V_int64 (the (toInt64 v))
      else if t = tdSmallInt then V_int16 (ucast (the (toInt64 v)))
      else if t = tdByteInt then V_int8 (ucast (the (toInt64 v)))
      else if t \<in> set (tdFloat # varCharTypes @ varByteTypes) then v
      else if t = tdByte then V_bytes (fixedWidthBytes (the (as_bytes v)) w 0)
      else if t \<in> set [tdDateAnsi, tdDateInteger] then V_string (dateString (date_bits v))
      else if t = tdDecimal then V_string (decimalString (decimal_raw m v) (uint (m_numberOfFractionalDigits m)))
      else if t = tdNumber then V_string (number_value fmt v)
      else V_string (bytes_str (fixedWidthBytes (str_bytes (the (as_string v))) w 32)))"

abbreviation fixedTypes :: "u16 list" where
  "fixedTypes \<equiv> [tdChar, tdGraphic, tdByte] @ timeTypes @ intervalTypes"

text \<open>Minute-to-second intervals cannot be read; fixed-width types need a width; a decimal must have at
  most as many digits as the column.\<close>

definition column_ok :: "metaFull \<Rightarrow> gvalue \<Rightarrow> bool" where
  "column_ok m v \<longleftrightarrow>
     getTdBasicType (m_dataType m) \<noteq> tdIntervalMinToSec
     \<and> (getTdBasicType (m_dataType m) \<in> set fixedTypes \<longrightarrow> 0 < sint (m_maxDataLengthInBytes m))
     \<and> (getTdBasicType (m_dataType m) = tdDecimal \<longrightarrow>
          \<bar>decimal_raw m v\<bar> < 10 ^ unat (m_totalNumberOfDigits m))"

text \<open>Reading \<open>b\<close> back: the value comes out and exactly \<open>b\<close> is consumed.\<close>

definition reads :: "metaFull \<Rightarrow> bool \<Rightarrow> byte list \<Rightarrow> gvalue \<Rightarrow> bool" where
  "reads m nul b v \<longleftrightarrow> (\<forall>pre suf l.
     produceColumnValue (rdr pre (b @ suf) l) m nul = Some (Inr v, rdr (pre @ b) suf l))"

lemma str_bytes_bytes_str [simp]: "str_bytes (bytes_str b) = b"
proof -
  have "of_char (char_of (unat a)) = a" for a :: byte
  proof -
    have "of_char (char_of (unat a)) = (of_nat (of_char (char_of (unat a))) :: byte)"
      by (simp only: of_nat_of_char)
    also have "\<dots> = of_nat (unat a)" using unat_byte_less [of a] by (simp only: of_char_of) simp
    finally show ?thesis by simp
  qed
  then show ?thesis by (simp add: str_bytes_def bytes_str_def map_idI)
qed

lemma readText_exact:
  assumes "n = int (length b)"
  shows "readText nul n (rdr pre (b @ suf) l)
    = Some (Inr (if nul then V_nil else V_string (bytes_str b)), rdr (pre @ b) suf l)"
proof -
  have "rd_skip n (rdr pre (b @ suf) l) = rdr (pre @ b) suf l"
    using assms by (simp add: rd_skip_def rdr_def)
  moreover have "asciiString n (rdr pre (str_bytes (bytes_str b) @ suf) l)
      = Some (bytes_str b, rdr (pre @ str_bytes (bytes_str b)) suf l)"
    using assms by (intro asciiString_rdr) simp
  ultimately show ?thesis using assms by (cases "b = []") (simp_all add: readText_def bytes_str_def [of "[]"])
qed

lemma readBytes_exact:
  assumes "n = int (length b)"
  shows "readBytes nul n (rdr pre (b @ suf) l)
    = Some (Inr (if nul then V_nil else V_bytes b), rdr (pre @ b) suf l)"
  using assms by (auto simp: readBytes_def unless_null_def rd_bytes_rdr)

lemma rd_uint_image:
  "rd_u16 (rdr pre (be_enc 2 (unat x) @ s) l) = Some (x, rdr (pre @ be_enc 2 (unat x)) s l)"
  "rd_u32 (rdr pre (be_enc 4 (unat y) @ s) l) = Some (y, rdr (pre @ be_enc 4 (unat y)) s l)"
  "rd_u64 (rdr pre (be_enc 8 (unat z) @ s) l) = Some (z, rdr (pre @ be_enc 8 (unat z)) s l)"
  by (simp_all add: rd_u16_bytes rd_u32_bytes rd_u64_bytes)

lemma rd_zeros:
  "rd_u16 (rdr pre (0 # 0 # s) l) = Some (0, rdr (pre @ [0, 0]) s l)"
  "rd_u32 (rdr pre (0 # 0 # 0 # 0 # s) l) = Some (0, rdr (pre @ [0, 0, 0, 0]) s l)"
  "rd_u64 (rdr pre (replicate 8 0 @ s) l) = Some (0, rdr (pre @ replicate 8 0) s l)"
  using rd_u16_bytes [of "[0, 0]" pre s l] rd_u32_bytes [of "[0, 0, 0, 0]" pre s l]
    rd_u64_bytes [of "replicate 8 0" pre s l]
  by (simp_all add: u16_of_def u32_of_def u64_of_def be_val_Cons)

text \<open>One lemma per wire shape.\<close>

abbreviation basic :: "metaFull \<Rightarrow> u16" where "basic m \<equiv> getTdBasicType (m_dataType m)"

lemma reads_fixed:
  "basic m = tdInteger \<Longrightarrow> length b = 4 \<Longrightarrow> reads m nul b (if nul then V_nil else V_int32 (u32_of b))"
  "basic m = tdBigInt \<Longrightarrow> length b = 8 \<Longrightarrow> reads m nul b (if nul then V_nil else V_int64 (u64_of b))"
  "basic m = tdSmallInt \<Longrightarrow> length b = 2 \<Longrightarrow> reads m nul b (if nul then V_nil else V_int16 (u16_of b))"
  "basic m = tdByteInt \<Longrightarrow> reads m nul [x] (if nul then V_nil else V_int8 x)"
  "basic m = tdFloat \<Longrightarrow> length b = 8 \<Longrightarrow> reads m nul b (if nul then V_nil else V_float64 (u64_of b))"
  "basic m \<in> set [tdDateAnsi, tdDateInteger] \<Longrightarrow> length b = 4 \<Longrightarrow>
     reads m nul b (if nul then V_nil else V_string (dateString (u32_of b)))"
  by (auto simp: reads_def produceColumnValue_def Let_def unless_null_def rd_f64_def rd_u32_bytes
      rd_u64_bytes rd_u16_bytes rd_u8_rdr)

lemma prefixed_u16:
  "length d \<le> 65535 \<Longrightarrow> rd_u16 (rdr pre ((be_enc 2 (length d) @ d) @ suf) l)
     = Some (word_of_nat (length d), rdr (pre @ be_enc 2 (length d)) (d @ suf) l)"
  using rd_uint_image(1) [of pre "word_of_nat (length d)" "d @ suf" l]
  by (simp add: unat_of_nat)

lemma reads_varchar:
  assumes "basic m \<in> set varCharTypes" "length d \<le> 65535"
  shows "reads m nul (be_enc 2 (length d) @ d) (if nul then V_nil else V_string (bytes_str d))"
proof -
  have u: "uint (word_of_nat (length d) :: u16) = int (length d)"
    using assms(2) by (simp add: unsigned_of_nat take_bit_nat_eq_self)
  have "produceColumnValue r m nul = do { (k, r) \<leftarrow> rd_u16 r; readText nul (uint k) r }" for r
    using assms(1) by (auto simp: produceColumnValue_def Let_def)
  then show ?thesis
    using prefixed_u16 [OF assms(2)] readText_exact [of "int (length d)" d nul]
    by (simp add: reads_def u)
qed

lemma reads_varbyte:
  assumes "basic m \<in> set varByteTypes" "length d \<le> 65535"
  shows "reads m nul (be_enc 2 (length d) @ d) (if nul then V_nil else V_bytes d)"
proof -
  have u: "uint (word_of_nat (length d) :: u16) = int (length d)"
    using assms(2) by (simp add: unsigned_of_nat take_bit_nat_eq_self)
  have "produceColumnValue r m nul = do { (k, r) \<leftarrow> rd_u16 r; readBytes nul (uint k) r }" for r
    using assms(1) by (auto simp: produceColumnValue_def Let_def)
  then show ?thesis
    using prefixed_u16 [OF assms(2)] readBytes_exact [of "int (length d)" d nul]
    by (simp add: reads_def u)
qed

lemma reads_text:
  assumes "basic m \<in> set ([tdChar, tdGraphic] @ timeTypes @ intervalTypes)" "basic m \<noteq> tdIntervalMinToSec"
    "int (length b) = sint (m_maxDataLengthInBytes m)"
  shows "reads m nul b (if nul then V_nil else V_string (bytes_str b))"
proof -
  have "produceColumnValue r m nul = readText nul (sint (m_maxDataLengthInBytes m)) r" for r
    using assms(1,2) by (auto simp: produceColumnValue_def Let_def)
  then show ?thesis
    using readText_exact [of "sint (m_maxDataLengthInBytes m)" b nul] assms(3) by (simp add: reads_def)
qed

lemma reads_byte:
  assumes "basic m = tdByte" "int (length b) = sint (m_maxDataLengthInBytes m)"
  shows "reads m nul b (if nul then V_nil else V_bytes b)"
proof -
  have "produceColumnValue r m nul = readBytes nul (sint (m_maxDataLengthInBytes m)) r" for r
    using assms(1) by (simp add: produceColumnValue_def Let_def)
  then show ?thesis
    using readBytes_exact [of "sint (m_maxDataLengthInBytes m)" b nul] assms(2) by (simp add: reads_def)
qed

text \<open>The width of a decimal, and the value of its bytes.\<close>

definition decimal_width :: "int \<Rightarrow> nat" where
  "decimal_width p = (if p \<le> 2 then 1 else if p \<le> 4 then 2 else if p \<le> 9 then 4 else if p \<le> 18 then 8 else 16)"

lemma twos_val_signed:
  assumes "b \<noteq> []"
  shows "twos_val b = signed_take_bit (8 * length b - 1) (int (be_val b))"
proof -
  obtain x xs where b: "b = x # xs" using assms by (cases b) auto
  let ?P = "256 ^ length xs :: int"
  have e: "8 * length b - 1 = 7 + length xs * 8" by (simp add: b)
  have p: "(2 :: int) ^ (8 * length b - 1) = 128 * ?P"
    unfolding e by (simp add: power_add pow2_bytes)
  have v: "int (be_val b) = int (unat x) * ?P + int (be_val xs)" by (simp add: b be_val_Cons)
  have r: "int (be_val xs) < ?P" using be_val_less [of xs] by (simp flip: of_nat_power)
  have "int (be_val b) < int (256 * 256 ^ length xs)"
    using be_val_less [of b] by (simp only: of_nat_less_iff b) simp
  then have t: "int (be_val b) < 256 * ?P" by simp
  show ?thesis
  proof (cases "128 \<le> unat x")
    case True
    then have "(128 :: int) \<le> int (unat x)" by (metis of_nat_le_iff of_nat_numeral)
    then have "128 * ?P \<le> int (unat x) * ?P" by (intro mult_right_mono) simp_all
    then have ge: "128 * ?P \<le> int (be_val b)" using v by linarith
    have s: "(2 :: int) ^ Suc (8 * length b - 1) = 256 * ?P" using p by simp
    have "signed_take_bit (8 * length b - 1) (int (be_val b))
        = signed_take_bit (8 * length b - 1) (int (be_val b) - 256 * ?P)"
      by (rule signed_take_bit_eq_iff_take_bit_eq [THEN iffD2])
        (simp only: take_bit_eq_mod s minus_mod_self2)
    also have "\<dots> = int (be_val b) - 256 * ?P"
      using ge t p by (intro signed_take_bit_int_eq_self) linarith+
    finally show ?thesis using True by (simp add: twos_val_def b)
  next
    case False
    then have "unat x \<le> 127" by simp
    then have "int (unat x) \<le> 127" by (metis of_nat_le_iff of_nat_numeral)
    then have "int (unat x) * ?P \<le> 127 * ?P" by (intro mult_right_mono) simp_all
    then have "int (be_val b) < 128 * ?P" using v r by linarith
    then have "signed_take_bit (8 * length b - 1) (int (be_val b)) = int (be_val b)"
      using p by (intro signed_take_bit_int_eq_self) auto
    then show ?thesis using False by (simp add: twos_val_def b)
  qed
qed

lemma sint_be:
  "length b = 2 \<Longrightarrow> sint (u16_of b) = twos_val b" "length b = 4 \<Longrightarrow> sint (u32_of b) = twos_val b"
  "length b = 8 \<Longrightarrow> sint (u64_of b) = twos_val b" "sint (x :: byte) = twos_val [x]"
proof -
  have ne: "length b = Suc n \<Longrightarrow> b \<noteq> []" for n by auto
  show "length b = 2 \<Longrightarrow> sint (u16_of b) = twos_val b"
    "length b = 4 \<Longrightarrow> sint (u32_of b) = twos_val b" "length b = 8 \<Longrightarrow> sint (u64_of b) = twos_val b"
    by (subst twos_val_signed; force simp: u16_of_def u32_of_def u64_of_def signed_of_nat)+
  have "sint x = sint (word_of_nat (unat x) :: byte)" by simp
  also have "\<dots> = signed_take_bit 7 (int (unat x))" by (simp only: signed_of_nat) simp
  finally show "sint x = twos_val [x]" by (simp add: twos_val_signed be_val_Cons)
qed

lemma decimal_width_cases:
  assumes "length b = decimal_width (uint p)"
  obtains x where "b = [x]" "uint p \<le> 2" | "length b = 2" "2 < uint p" "uint p \<le> 4"
  | "length b = 4" "4 < uint p" "uint p \<le> 9" | "length b = 8" "9 < uint p" "uint p \<le> 18"
  | "length b = 16" "18 < uint p"
proof -
  consider "uint p \<le> 2" | "2 < uint p" "uint p \<le> 4" | "4 < uint p" "uint p \<le> 9"
    | "9 < uint p" "uint p \<le> 18" | "18 < uint p" by linarith
  then show ?thesis
  proof cases
    case 1
    then have "length b = 1" using assms by (simp add: decimal_width_def)
    then obtain x where "b = [x]" by (cases b) auto
    then show ?thesis using 1 that(1) by blast
  qed (use assms that in \<open>simp_all add: decimal_width_def\<close>)
qed

lemma reads_decimal:
  assumes "basic m = tdDecimal" "uint (m_totalNumberOfDigits m) \<le> 38"
    "length b = decimal_width (uint (m_totalNumberOfDigits m))"
  shows "reads m nul b (if nul then V_nil
    else V_string (decimalString (twos_val b) (uint (m_numberOfFractionalDigits m))))"
proof -
  have "produceColumnValue r m nul = readDecimal m nul r" for r
    using assms(1) by (simp add: produceColumnValue_def Let_def)
  moreover have "readDecimal m nul (rdr pre (b @ suf) l) = Some (Inr (if nul then V_nil
    else V_string (decimalString (twos_val b) (uint (m_numberOfFractionalDigits m)))), rdr (pre @ b) suf l)"
    for pre suf l
    using assms(2) rd_bigIntN_rdr [of 16 b pre suf l]
    by (cases rule: decimal_width_cases [OF assms(3)])
      (simp_all add: readDecimal_def unless_null_def rd_u8_rdr rd_u16_bytes rd_u32_bytes rd_u64_bytes
        rd_bigInt16_def sint_be)
  ultimately show ?thesis by (simp add: reads_def)
qed

lemma twos_val_be:
  assumes "0 < n" "- (2 ^ (8 * n - 1)) \<le> v" "v < 2 ^ (8 * n - 1)" "int w mod 256 ^ n = v mod 256 ^ n"
  shows "twos_val (be_enc n w) = v"
proof -
  have s: "Suc (8 * n - 1) = 8 * n" using assms(1) by simp
  have "be_enc n w \<noteq> []" using assms(1) by (metis length_be_enc less_irrefl list.size(3))
  then have "twos_val (be_enc n w) = signed_take_bit (8 * n - 1) (int w mod 256 ^ n)"
    by (simp add: twos_val_signed be_val_be_enc zmod_int)
  also have "\<dots> = signed_take_bit (8 * n - 1) v"
    by (rule signed_take_bit_eq_iff_take_bit_eq [THEN iffD2])
      (simp only: take_bit_eq_mod s pow2_bytes mod_mod_trivial assms(4))
  also have "\<dots> = v" using assms(2,3) by (rule signed_take_bit_int_eq_self)
  finally show ?thesis .
qed

lemma twos_val_word:
  assumes "0 < n" "LENGTH('a :: len) = 8 * n" "- (2 ^ (8 * n - 1)) \<le> v" "v < 2 ^ (8 * n - 1)"
  shows "twos_val (be_enc n (unat (word_of_int v :: 'a word))) = v"
proof (rule twos_val_be [OF assms(1,3,4)])
  have "int (unat (word_of_int v :: 'a word)) = v mod 2 ^ LENGTH('a)"
    by (simp add: unsigned_of_int take_bit_eq_mod)
  then show "int (unat (word_of_int v :: 'a word)) mod 256 ^ n = v mod 256 ^ n"
    by (simp only: assms(2) pow2_bytes mod_mod_trivial)
qed

lemma bigIntToBE16_Inr:
  assumes "bigIntToBE16 v = Some (Inr b)"
  shows "length b = 16" "twos_val b = v"
proof -
  have r: "- (2 ^ 127) \<le> v" "v < 2 ^ 127" using assms by (auto simp: bigIntToBE16_def split: if_splits)
  have b: "b = be_enc 16 (if v \<ge> 0 then nat v else nat (v + 2 ^ 128))"
    using assms by (auto simp: bigIntToBE16_def fillBytes_def split: if_splits)
  show "length b = 16" by (simp add: b)
  have "int (if v \<ge> 0 then nat v else nat (v + 2 ^ 128)) mod 256 ^ 16 = v mod 256 ^ 16"
    using r by auto
  then show "twos_val b = v" unfolding b using r by (intro twos_val_be) simp_all
qed

lemma pow10_mono: "\<bar>v :: int\<bar> < 10 ^ k \<Longrightarrow> k \<le> n \<Longrightarrow> \<bar>v\<bar> < 10 ^ n"
  by (meson less_le_trans one_le_numeral power_increasing)

lemma encodeDecimal_reads:
  assumes e: "encodeDecimal s (MetaFull a m) = Some (Inr b)" and t: "basic m = tdDecimal"
    and r: "\<bar>decimal_raw m (V_string s)\<bar> < 10 ^ unat (m_totalNumberOfDigits m)"
  shows "reads m False b (V_string (decimalString (decimal_raw m (V_string s))
    (uint (m_numberOfFractionalDigits m))))"
proof -
  let ?p = "m_totalNumberOfDigits m" let ?raw = "decimal_raw m (V_string s)"
  have raw: "decimalToScaledInt s (uint (m_numberOfFractionalDigits m)) = Some (Inr ?raw)"
    using e by (auto simp: encodeDecimal_def decimal_raw_def split: option.splits sum.splits)
  have u38: "uint ?p \<le> 38"
    using e raw by (auto simp: encodeDecimal_def param_error_def word_le_def split: if_splits)
  then have le: "?p \<le> 38" by (simp add: word_le_def)
  have w: "?p \<le> k \<longleftrightarrow> uint ?p \<le> uint k" for k by (simp add: word_le_def)
  have up: "int (unat ?p) = uint ?p" by simp
  have "length b = decimal_width (uint ?p) \<and> twos_val b = ?raw"
  proof -
    consider "uint ?p \<le> 2" | "2 < uint ?p" "uint ?p \<le> 4" | "4 < uint ?p" "uint ?p \<le> 9"
      | "9 < uint ?p" "uint ?p \<le> 18" | "18 < uint ?p" by linarith
    then show ?thesis
    proof cases
      case 1
      then have "\<bar>?raw\<bar> < 10 ^ 2" using up by (intro pow10_mono [OF r]) linarith
      then have v: "twos_val (be_enc 1 (unat (word_of_int ?raw :: byte))) = ?raw"
        by (intro twos_val_word) auto
      have "b = [word_of_int ?raw]" using e raw 1 by (simp add: encodeDecimal_def w)
      then show ?thesis using v 1 by (simp add: decimal_width_def)
    next
      case 2
      then have "\<bar>?raw\<bar> < 10 ^ 4" using up by (intro pow10_mono [OF r]) linarith
      then have v: "twos_val (be_enc 2 (unat (word_of_int ?raw :: u16))) = ?raw"
        by (intro twos_val_word) auto
      have "b = uint16Bytes (word_of_int ?raw)" using e raw 2 by (simp add: encodeDecimal_def w)
      then show ?thesis using v 2 by (simp add: decimal_width_def uint16Bytes_def)
    next
      case 3
      then have "\<bar>?raw\<bar> < 10 ^ 9" using up by (intro pow10_mono [OF r]) linarith
      then have v: "twos_val (be_enc 4 (unat (word_of_int ?raw :: u32))) = ?raw"
        by (intro twos_val_word) auto
      have "b = uint32Bytes (word_of_int ?raw)" using e raw 3 by (simp add: encodeDecimal_def w)
      then show ?thesis using v 3 by (simp add: decimal_width_def uint32Bytes_def)
    next
      case 4
      then have "\<bar>?raw\<bar> < 10 ^ 18" using up by (intro pow10_mono [OF r]) linarith
      then have v: "twos_val (be_enc 8 (unat (word_of_int ?raw :: u64))) = ?raw"
        by (intro twos_val_word) auto
      have "b = uint64Bytes (word_of_int ?raw)" using e raw 4 by (simp add: encodeDecimal_def w)
      then show ?thesis using v 4 by (simp add: decimal_width_def uint64Bytes_def)
    next
      case 5
      have "bigIntToBE16 ?raw = Some (Inr b)" using e raw 5 le by (simp add: encodeDecimal_def w)
      then show ?thesis using bigIntToBE16_Inr 5 by (simp add: decimal_width_def)
    qed
  qed
  then show ?thesis using reads_decimal [OF t u38, of b False] by simp
qed

lemma encodeNumber_kept:
  assumes "u \<noteq> 0" "encodeNumber u s = Some (Inr b)" "number_round u s = (u1, s1)"
    "stripTrailingZeros u1 s1 = (u2, s2)"
  obtains tc where "b = number_image u2 s2 tc" "twos_val tc = u2" "length tc \<le> 17"
    "- 32768 \<le> s2" "s2 \<le> 32767"
proof -
  obtain tc where tc: "bigIntToTwosComplement u2 = Some tc" "twos_val tc = u2"
    using bigIntToTwosComplement_val by blast
  have b: "b = number_image u2 s2 tc" "- 32768 \<le> s2" "s2 \<le> 32767"
    using assms tc(1) by (auto simp: encodeNumber_def number_image_def split: if_splits)
  obtain u' s' k tc' where "length tc' \<le> 17" "encodeNumber u s = Some (if s' < - 32768 \<or> 32767 < s'
       then Inl (Errorf ''NUMBER scale %d out of range'' []) else Inr (number_image u' s' tc'))"
    using encodeNumber_cases [OF assms(1), of s] by metis
  then have "length tc' \<le> 17" "length b = length (number_image u' s' tc')"
    using assms(2) by (auto split: if_splits)
  then have "length tc \<le> 17" using b(1) by (simp add: number_image_def)
  then show ?thesis using that b tc(2) by blast
qed

lemma reads_number:
  assumes t: "basic m = tdNumber" and v: "numberFromValue fmt v = Inr (u, s)"
    and e: "encodeNumber u s = Some (Inr b)"
  shows "reads m False b (V_string (number_value fmt v))"
proof -
  have p: "produceColumnValue r m nul = readNumber nul r" for r nul
    using t by (simp add: produceColumnValue_def Let_def)
  show ?thesis
  proof (cases "u = 0")
    case True
    then have "b = [0]" using e by (simp add: encodeNumber_def)
    then show ?thesis
      using True v by (simp add: reads_def p readNumber_def rd_u8_rdr unless_null_def number_value_def)
  next
    case False
    obtain u1 s1 where r: "number_round u s = (u1, s1)" by (cases "number_round u s") auto
    obtain u2 s2 where z: "stripTrailingZeros u1 s1 = (u2, s2)" by (cases "stripTrailingZeros u1 s1") auto
    obtain tc where tc: "b = number_image u2 s2 tc" "twos_val tc = u2" "length tc \<le> 17"
      "- 32768 \<le> s2" "s2 \<le> 32767"
      using encodeNumber_kept [OF False e r z] by blast
    have s: "sint (word_of_int s2 :: u16) = s2"
      using tc(4,5) by (simp add: signed_of_int signed_take_bit_int_eq_self)
    have n: "sint (word_of_nat (length tc + 2) :: byte) = int (length tc) + 2"
      using tc(3) by (simp add: signed_of_nat signed_take_bit_int_eq_self del: of_nat_add of_nat_Suc)
    have "number_value fmt v = decimalString u2 s2"
      using False v r z by (simp add: number_value_def)
    then show ?thesis
      using rd_bigIntN_rdr [of "int (length tc)" tc] tc(1,2) s n
      by (simp add: reads_def p readNumber_def number_image_def rd_u8_rdr rd_uint_image unless_null_def
          del: of_nat_add of_nat_Suc)
  qed
qed

text \<open>Every encoding is read back, null or not.\<close>

lemma length_uintBytes [simp]:
  "length (uint8Bytes a) = 1" "length (uint16Bytes b) = 2" "length (uint32Bytes c) = 4"
  "length (uint64Bytes d) = 8"
  by (simp_all add: uint8Bytes_def uint16Bytes_def uint32Bytes_def uint64Bytes_def)

lemma makeBytes_width:
  "map_option Inr (makeBytes n) = Some (Inr b) \<Longrightarrow> 0 \<le> sint n \<Longrightarrow> int (length b) = sint n"
proof -
  assume a: "map_option Inr (makeBytes n) = Some (Inr b)" "0 \<le> sint n"
  then have "length b = unat n" "unat n < 2 ^ 48" by (auto simp: makeBytes_def split: if_splits)
  moreover have "sint n = int (unat n)"
  proof -
    have "sint n = sint (word_of_nat (unat n) :: u64)" by simp
    also have "\<dots> = signed_take_bit 63 (int (unat n))" by (simp only: signed_of_nat) simp
    also have "\<dots> = int (unat n)"
    proof (rule signed_take_bit_int_eq_self)
      have "int (unat n) < 2 ^ 48"
        using \<open>unat n < 2 ^ 48\<close> by (metis of_nat_less_iff of_nat_numeral of_nat_power)
      then show "int (unat n) < 2 ^ 63" by (rule less_trans) simp
      show "- (2 ^ 63) \<le> int (unat n)" by (rule order_trans [OF _ of_nat_0_le_iff]) simp
    qed
    finally show ?thesis .
  qed
  ultimately show ?thesis by simp
qed

text \<open>The groups of types that the encoder knows.\<close>

abbreviation paramTypes :: "u16 list" where
  "paramTypes \<equiv> [tdInteger, tdBigInt, tdSmallInt, tdByteInt, tdFloat, tdDateAnsi, tdDateInteger,
     tdDecimal, tdNumber] @ varCharTypes @ varByteTypes @ fixedTypes"

lemma param_type_cases:
  assumes "t \<in> set paramTypes"
  obtains "t = tdInteger" | "t = tdBigInt" | "t = tdSmallInt" | "t = tdByteInt" | "t = tdFloat"
  | "t \<in> set [tdDateAnsi, tdDateInteger]" | "t = tdDecimal" | "t = tdNumber"
  | "t \<in> set varCharTypes" | "t \<in> set varByteTypes" | "t = tdByte"
  | "t \<in> set ([tdChar, tdGraphic] @ timeTypes @ intervalTypes)"
  using assms by (simp only: set_append set_simps Un_iff insert_iff empty_iff) blast

lemma encode_types:
  "encodeNullParamValue M = Some (Inr b) \<Longrightarrow> getTdBasicType (getDataType M) \<in> set paramTypes"
  "encodeParamValue fmt v M = Some (Inr b) \<Longrightarrow> getTdBasicType (getDataType M) \<in> set paramTypes"
proof -
  show n: "getTdBasicType (getDataType M) \<in> set paramTypes" if "encodeNullParamValue M = Some (Inr b)"
  proof (rule ccontr)
    assume "getTdBasicType (getDataType M) \<notin> set paramTypes"
    then show False using that by (simp add: encodeNullParamValue_def param_error_def)
  qed
  show "getTdBasicType (getDataType M) \<in> set paramTypes" if "encodeParamValue fmt v M = Some (Inr b)"
  proof (rule ccontr)
    assume a: "getTdBasicType (getDataType M) \<notin> set paramTypes"
    show False
    proof (cases "v = V_nil")
      case True
      then show ?thesis using n that a by (simp add: encodeParamValue_def)
    next
      case False
      then show ?thesis using that a by (simp add: encodeParamValue_def Let_def param_error_def)
    qed
  qed
qed

lemma null_reads:
  assumes e: "encodeNullParamValue (MetaFull a m) = Some (Inr b)" and ok: "column_ok m V_nil"
  shows "reads m True b V_nil"
proof -
  let ?M = "MetaFull a m"
  have fixed: "int (length b) = sint (m_maxDataLengthInBytes m)"
    if "basic m \<in> set fixedTypes" "map_option Inr (makeBytes (m_maxDataLengthInBytes m)) = Some (Inr b)"
    using that ok by (intro makeBytes_width) (auto simp: column_ok_def)
  have "basic m \<in> set paramTypes" using encode_types(1) [OF e] by simp
  then show ?thesis
  proof (cases rule: param_type_cases)
    case 1
    with e have "length b = 4" by (auto simp: encodeNullParamValue_def)
    then show ?thesis using reads_fixed(1) [OF 1, of b True] by simp
  next
    case 2
    with e have "length b = 8" by (auto simp: encodeNullParamValue_def)
    then show ?thesis using reads_fixed(2) [OF 2, of b True] by simp
  next
    case 3
    with e have "length b = 2" by (auto simp: encodeNullParamValue_def)
    then show ?thesis using reads_fixed(3) [OF 3, of b True] by simp
  next
    case 4
    with e have "b = [0]" by (auto simp: encodeNullParamValue_def)
    then show ?thesis using reads_fixed(4) [OF 4, of True 0] by simp
  next
    case 5
    with e have "length b = 8" by (auto simp: encodeNullParamValue_def)
    then show ?thesis using reads_fixed(5) [OF 5, of b True] by simp
  next
    case 6
    with e have "length b = 4" by (auto simp: encodeNullParamValue_def)
    then show ?thesis using reads_fixed(6) [OF 6, of b True] by simp
  next
    case 7
    then have "length b = decimal_width (uint (m_totalNumberOfDigits m))"
      "uint (m_totalNumberOfDigits m) \<le> 38"
      using e by (auto simp: encodeNullParamValue_def param_error_def decimal_width_def word_le_def
          split: if_splits)
    then show ?thesis using reads_decimal [OF 7, of b True] by simp
  next
    case 8
    then have "b = [0]" using e by (simp add: encodeNullParamValue_def)
    then show ?thesis
      using 8 by (simp add: reads_def produceColumnValue_def readNumber_def rd_u8_rdr unless_null_def)
  next
    case 9
    then have "b = replicate 2 0" using e by (auto simp: encodeNullParamValue_def)
    then show ?thesis using reads_varchar [OF 9, of "[]" True] by simp
  next
    case 10
    then have "b = replicate 2 0" using e by (auto simp: encodeNullParamValue_def)
    then show ?thesis using reads_varbyte [OF 10, of "[]" True] by simp
  next
    case 11
    then have "map_option Inr (makeBytes (m_maxDataLengthInBytes m)) = Some (Inr b)"
      using e by (simp add: encodeNullParamValue_def)
    then show ?thesis using reads_byte [OF 11, of b True] fixed 11 by simp
  next
    case 12
    then have "map_option Inr (makeBytes (m_maxDataLengthInBytes m)) = Some (Inr b)"
      using e by (auto simp: encodeNullParamValue_def)
    then have "int (length b) = sint (m_maxDataLengthInBytes m)" using 12 by (intro fixed) auto
    moreover have "basic m \<noteq> tdIntervalMinToSec" using ok by (simp add: column_ok_def)
    ultimately show ?thesis using reads_text [OF 12, of b True] by simp
  qed
qed

lemma length_fixed_column:
  "0 < sint w \<Longrightarrow> int (length (fixedWidthBytes d (sint w) f)) = sint w"
  by (simp add: length_fixedWidthBytes)

lemma encodeDate_Inr:
  "encodeDate v = Some (Inr b) \<Longrightarrow> b = uint32Bytes (date_bits v)"
  by (cases v) (auto simp: param_error_def)

lemma lengthPrefixed_Inr:
  "lengthPrefixed s d = Some (Inr b) \<longleftrightarrow> length d \<le> 65535 \<and> b = be_enc 2 (length d) @ d"
  by (auto simp: lengthPrefixed_def param_error_def)

lemma as_Some:
  "as_string v = Some s \<longleftrightarrow> v = V_string s" "as_bytes v = Some d \<longleftrightarrow> v = V_bytes d"
  "as_float64 v = Some f \<longleftrightarrow> v = V_float64 f"
  by (cases v; auto)+

lemma of_uintBytes:
  "u16_of (uint16Bytes x) = x" "u32_of (uint32Bytes y) = y" "u64_of (uint64Bytes z) = z"
  by (simp_all add: uint16Bytes_def uint32Bytes_def uint64Bytes_def)

lemma value_reads:
  assumes e: "encodeParamValue fmt v (MetaFull a m) = Some (Inr b)" and ok: "column_ok m v"
    and v: "v \<noteq> V_nil"
  shows "reads m False b (column_value fmt m v)"
proof -
  have "basic m \<in> set paramTypes" using encode_types(2) [OF e] by simp
  then show ?thesis
  proof (cases rule: param_type_cases)
    case 1
    with e v obtain n where "toInt64 v = Some n" "b = uint32Bytes (ucast n)"
      by (auto simp: encodeParamValue_def param_error_def split: option.splits)
    then show ?thesis using reads_fixed(1) [OF 1, of b False] v 1
      by (simp add: of_uintBytes column_value_def)
  next
    case 2
    with e v obtain n where "toInt64 v = Some n" "b = uint64Bytes n"
      by (auto simp: encodeParamValue_def param_error_def split: option.splits)
    then show ?thesis using reads_fixed(2) [OF 2, of b False] v 2
      by (simp add: of_uintBytes column_value_def)
  next
    case 3
    with e v obtain n where "toInt64 v = Some n" "b = uint16Bytes (ucast n)"
      by (auto simp: encodeParamValue_def param_error_def split: option.splits)
    then show ?thesis using reads_fixed(3) [OF 3, of b False] v 3
      by (simp add: of_uintBytes column_value_def)
  next
    case 4
    with e v obtain n where "toInt64 v = Some n" "b = [ucast n]"
      by (auto simp: encodeParamValue_def param_error_def uint8Bytes_def split: option.splits)
    then show ?thesis using reads_fixed(4) [OF 4, of False "ucast n"] v 4
      by (simp add: column_value_def)
  next
    case 5
    with e v obtain f where "v = V_float64 f" "b = uint64Bytes f"
      by (auto simp: encodeParamValue_def param_error_def as_Some split: option.splits)
    then show ?thesis using reads_fixed(5) [OF 5, of b False] 5
      by (simp add: of_uintBytes column_value_def)
  next
    case 6
    then have "encodeDate v = Some (Inr b)" using e v by (auto simp: encodeParamValue_def Let_def)
    then have "b = uint32Bytes (date_bits v)" by (rule encodeDate_Inr)
    then show ?thesis using reads_fixed(6) [OF 6, of b False] v 6
      by (auto simp: of_uintBytes column_value_def)
  next
    case 7
    with e v obtain s where s: "v = V_string s" "encodeDecimal s (MetaFull a m) = Some (Inr b)"
      by (auto simp: encodeParamValue_def param_error_def as_Some split: option.splits)
    have "\<bar>decimal_raw m (V_string s)\<bar> < 10 ^ unat (m_totalNumberOfDigits m)"
      using ok 7 s(1) by (simp add: column_ok_def)
    then show ?thesis using encodeDecimal_reads [OF s(2) 7] 7 s(1) by (simp add: column_value_def)
  next
    case 8
    with e v obtain u s where "numberFromValue fmt v = Inr (u, s)" "encodeNumber u s = Some (Inr b)"
      by (auto simp: encodeParamValue_def split: sum.splits)
    then show ?thesis using reads_number [OF 8] 8 v by (simp add: column_value_def)
  next
    case 9
    with e v obtain s where "v = V_string s" "length (str_bytes s) \<le> 65535"
      "b = be_enc 2 (length (str_bytes s)) @ str_bytes s"
      by (auto simp: encodeParamValue_def param_error_def as_Some lengthPrefixed_Inr split: option.splits)
    then show ?thesis using reads_varchar [OF 9, of "str_bytes s" False] 9
      by (auto simp: column_value_def)
  next
    case 10
    with e v obtain d where "v = V_bytes d" "length d \<le> 65535" "b = be_enc 2 (length d) @ d"
      by (auto simp: encodeParamValue_def param_error_def as_Some lengthPrefixed_Inr split: option.splits)
    then show ?thesis using reads_varbyte [OF 10, of d False] 10
      by (auto simp: column_value_def)
  next
    case 11
    with e v obtain d where "v = V_bytes d" "b = fixedWidthBytes d (sint (m_maxDataLengthInBytes m)) 0"
      by (auto simp: encodeParamValue_def param_error_def as_Some split: option.splits)
    then show ?thesis using reads_byte [OF 11, of b False] 11 ok
      by (simp add: column_value_def column_ok_def length_fixed_column)
  next
    case 12
    with e v obtain s where s: "v = V_string s"
      "b = fixedWidthBytes (str_bytes s) (sint (m_maxDataLengthInBytes m)) 32"
      by (auto simp: encodeParamValue_def param_error_def as_Some split: option.splits)
    have "column_value fmt m v = V_string (bytes_str b)"
      using 12 s by (auto simp: column_value_def)
    moreover have "int (length b) = sint (m_maxDataLengthInBytes m)"
      using 12 s ok by (intro trans [OF _ length_fixed_column]) (auto simp: column_ok_def)
    ultimately show ?thesis using reads_text [OF 12, of b False] ok by (simp add: column_ok_def)
  qed
qed

section \<open>Rows\<close>

lemma param_reads:
  assumes "encodeParamValue fmt v (MetaFull a m) = Some (Inr b)" "column_ok m v"
  shows "reads m (v = V_nil) b (column_value fmt m v)"
proof (cases "v = V_nil")
  case True
  then show ?thesis using assms null_reads [of a m b] by (simp add: encodeParamValue_def column_value_def)
next
  case False
  then show ?thesis using assms value_reads [of fmt v a m b] by simp
qed

lemma describeParam_Inr:
  assumes "describeParam fmt v M = Some (Inr d)"
  shows "encodeParamValue fmt v M = Some (Inr (p_encoded d))" "p_isNull d = (v = V_nil)"
  using assms by (auto simp: describeParam_def Let_def split: prod.splits option.splits sum.splits)

lemma describeParams_length: "describeParams fmt vs Ms = Some (Inr ds) \<Longrightarrow> length ds = length Ms"
  by (induction fmt vs Ms arbitrary: ds rule: describeParams.induct)
    (auto split: option.splits sum.splits)

lemma describeParams_null:
  "describeParams fmt vs Ms = Some (Inr ds) \<Longrightarrow> i < length Ms \<Longrightarrow> p_isNull (ds ! i) = (vs ! i = V_nil)"
proof (induction fmt vs Ms arbitrary: ds i rule: describeParams.induct)
  case (3 fmt v vs M Ms)
  then show ?case
    by (cases i) (auto dest: describeParam_Inr(2) split: option.splits sum.splits)
qed auto

lemma processColumns_params:
  assumes "describeParams fmt vs (map2 MetaFull as ms) = Some (Inr ds)" "length as = length ms"
    "list_all2 column_ok ms vs" "\<forall>i < length ms. isNull nulls (k + i) = Some (vs ! i = V_nil)"
    "length rest = length ms"
  shows "processColumns nulls k ms (rdr pre (concat (map p_encoded ds) @ suf) l) (done @ rest) (int (length done))
    = Some (Inr (int (length done + length ms)), rdr (pre @ concat (map p_encoded ds)) suf l,
        done @ map2 (column_value fmt) ms vs)"
  using assms
proof (induction ms arbitrary: vs as ds k rest pre "done")
  case Nil
  then show ?case by simp
next
  case (Cons m ms)
  obtain a as' where as: "as = a # as'" using Cons.prems(2) by (cases as) auto
  obtain v vs' where vs: "vs = v # vs'" using Cons.prems(3) by (cases vs) auto
  obtain r rest' where rest: "rest = r # rest'" using Cons.prems(5) by (cases rest) auto
  obtain d ds' where d: "describeParam fmt v (MetaFull a m) = Some (Inr d)" "ds = d # ds'"
    "describeParams fmt vs' (map2 MetaFull as' ms) = Some (Inr ds')"
    using Cons.prems(1) as vs by (auto split: option.splits sum.splits)
  have "reads m (v = V_nil) (p_encoded d) (column_value fmt m v)"
    using param_reads describeParam_Inr(1) [OF d(1)] Cons.prems(3) vs by auto
  then have rd: "produceColumnValue (rdr pre (p_encoded d @ (concat (map p_encoded ds') @ suf)) l) m (v = V_nil)
      = Some (Inr (column_value fmt m v), rdr (pre @ p_encoded d) (concat (map p_encoded ds') @ suf) l)"
    unfolding reads_def by blast
  have nul: "isNull nulls k = Some (v = V_nil)" using Cons.prems(4) vs by auto
  have nul': "\<forall>i < length ms. isNull nulls (Suc k + i) = Some (vs' ! i = V_nil)"
    using Cons.prems(4) vs by (metis Suc_less_eq add_Suc_shift length_Cons nth_Cons_Suc)
  have "processColumns nulls (Suc k) ms
      (rdr (pre @ p_encoded d) (concat (map p_encoded ds') @ suf) l)
      ((done @ [column_value fmt m v]) @ rest') (int (length (done @ [column_value fmt m v])))
    = Some (Inr (int (length (done @ [column_value fmt m v]) + length ms)),
        rdr ((pre @ p_encoded d) @ concat (map p_encoded ds')) suf l,
        (done @ [column_value fmt m v]) @ map2 (column_value fmt) ms vs')"
    using Cons.prems as vs rest d(3) nul' by (intro Cons.IH) auto
  then show ?case
    using rd nul by (simp add: d(2) vs rest index_def nth_append list_update_append add.commute [of "int (length done)" 1])
qed


text \<open>A column with a given type, width and precision.\<close>

definition demo_meta :: "u16 \<Rightarrow> u64 \<Rightarrow> u16 \<Rightarrow> u16 \<Rightarrow> metaFull" where
  "demo_meta t w p s =
    \<lparr>m_itemNumberRcv = 0, m_itemNumberTrn = 0, m_databaseName = [], m_procOrTableName = [],
     m_columnOrParamName = [], m_columnPosition = 0, m_asClauseName = [], m_title = [],
     m_format = [], m_defaultValue = [], m_isIdentityColumn = 0, m_isDefinitelyWritable = 0,
     m_isNullable = 0, m_mayBeNull = 0, m_isSearchable = 0, m_isWritable = 0, m_dataType = t,
     m_udtIndicator = 0, m_udtTypeName = [], m_dataTypeMiscInfo = [],
     m_maxDataLengthInBytes = w, m_totalNumberOfDigits = p, m_numberOfIntervalDigits = 0,
     m_numberOfFractionalDigits = s, m_charsetCode = 0, m_maxNumberOfCharacters = 0,
     m_isCaseSensitive = 0, m_isSigned = 0, m_isKeyColumn = 0, m_isUnique = 0,
     m_isExpression = 0, m_isSortable = 0, m_sprocParameterDirection = 0, m_structDepth = 0,
     m_isTemporal = 0, m_attributeName = [], m_serverDataType = 0, m_arrayNumDimensions = 0,
     m_arrayMaxCardinalities = [], m_arrayLowerBounds = [], m_catalogName = []\<rparr>"

definition demo_columns :: "metaFull list" where
  "demo_columns = [demo_meta 497 4 0 0, demo_meta 453 4 0 0, demo_meta 449 10 0 0, demo_meta 485 0 5 2]"

definition demo_values :: "gvalue list" where
  "demo_values = [V_int64 7, V_string ''ab'', V_nil, V_string ''1.25'']"

definition demo_params :: "paramDescriptor list" where
  "demo_params =
    [\<lparr>p_dataType = 497, p_length = 4, p_precision = 0, p_intervalDigits = 0, p_scale = 0, p_isNull = False,
       p_encoded = [0, 0, 0, 7]\<rparr>,
     \<lparr>p_dataType = 453, p_length = 4, p_precision = 0, p_intervalDigits = 0, p_scale = 0, p_isNull = False,
       p_encoded = [97, 98, 32, 32]\<rparr>,
     \<lparr>p_dataType = 449, p_length = 0, p_precision = 0, p_intervalDigits = 0, p_scale = 0, p_isNull = True,
       p_encoded = [0, 0]\<rparr>,
     \<lparr>p_dataType = 485, p_length = 4, p_precision = 5, p_intervalDigits = 0, p_scale = 2, p_isNull = False,
       p_encoded = [0, 0, 0, 125]\<rparr>]"


lemma demo_describe:
  "describeParams (\<lambda>_. []) demo_values (map2 MetaFull [1, 2, 3, 4] demo_columns) = Some (Inr demo_params)"
  by code_simp


end
