(* ===== verification/RowTypes.thy ===== *)
theory RowTypes
  imports Rows
begin

text \<open>
  What database/sql is told about a column and what it gets: \<open>ColumnTypeScanType\<close> of src/rows.go and
  \<open>scanTypeForDataType\<close> of src/datatype.go against the values that \<open>processRow\<close> stores.
\<close>

text \<open>The Go type of a value that can be in a row, as a scan type; LOBs and nil have none but \<open>interface{}\<close>.\<close>

fun goTypeOf :: "gvalue \<Rightarrow> scanType" where
  "goTypeOf (V_int64 _) = scanTypeInt64"
| "goTypeOf (V_int32 _) = scanTypeInt32"
| "goTypeOf (V_int16 _) = scanTypeInt16"
| "goTypeOf (V_int8 _) = scanTypeInt8"
| "goTypeOf (V_float64 _) = scanTypeFloat64"
| "goTypeOf (V_string _) = scanTypeString"
| "goTypeOf (V_bytes _) = scanTypeBytes"
| "goTypeOf _ = scanTypeUnknown"

text \<open>What is in a \<open>sql.Null\<close> type that is valid.\<close>

fun non_null :: "scanType \<Rightarrow> scanType" where
  "non_null scanTypeNullFloat = scanTypeFloat64"
| "non_null scanTypeNullInt8 = scanTypeInt8"
| "non_null scanTypeNullInt16 = scanTypeInt16"
| "non_null scanTypeNullInt32 = scanTypeInt32"
| "non_null scanTypeNullInt64 = scanTypeInt64"
| "non_null scanTypeNullString = scanTypeString"
| "non_null t = t"

definition typed :: "bool \<Rightarrow> scanType \<Rightarrow> (goerror + gvalue) \<Rightarrow> bool" where
  "typed nul t x \<longleftrightarrow> (case x of Inl _ \<Rightarrow> True | Inr v \<Rightarrow> if nul then v = V_nil else goTypeOf v = t)"

lemma typed_simps [simp]:
  "typed nul t (Inl e)" "typed True t (Inr V_nil)" "goTypeOf v = t \<Longrightarrow> typed False t (Inr v)"
  "typed nul scanTypeUnknown (Inr V_nil)"
  by (simp_all add: typed_def)

text \<open>Reads that yield values of one type.\<close>

definition yields :: "bool \<Rightarrow> scanType \<Rightarrow> ((goerror + gvalue) \<times> bufferReader) option \<Rightarrow> bool" where
  "yields nul t m \<longleftrightarrow> (\<forall>x r. m = Some (x, r) \<longrightarrow> typed nul t x)"

lemma yields_intros:
  "(c \<Longrightarrow> yields nul t m) \<Longrightarrow> yields nul t n \<Longrightarrow> yields nul t (if c then m else n)"
  "yields nul t (Some (Inl e, r))"
  "goTypeOf v = t \<Longrightarrow> yields nul t (unless_null nul v r)"
  by (simp_all add: yields_def typed_def unless_null_def)

lemma yields_bind:
  "(\<And>v r. yields nul t (f v r)) \<Longrightarrow> yields nul t (Option.bind m (\<lambda>(v, r). f v r))"
  unfolding yields_def by (auto elim!: bind_SomeE)

lemma yields_reads:
  "t = scanTypeString \<Longrightarrow> yields nul t (readText nul n r)"
  "t = scanTypeBytes \<Longrightarrow> yields nul t (readBytes nul n r)"
  "t = scanTypeString \<Longrightarrow> yields nul t (readDecimal m nul r)"
  "t = scanTypeString \<Longrightarrow> yields nul t (readNumber nul r)"
  "t = scanTypeUnknown \<Longrightarrow> yields nul t (readLocator m nul r)"
  by (auto simp: yields_def typed_def readText_def readBytes_def readDecimal_def readNumber_def readLocator_def Let_def
      unless_null_def newTeradataClob_def newTeradataBlob_def elim!: bind_SomeE split: if_splits)


text \<open>The two switches name the same types, in the order of \<open>produceColumnValue\<close>.\<close>

lemma scanTypes:
  fixes m :: metaFull and nullable :: bool
  defines "s \<equiv> non_null (scanTypeForDataType (m_dataType m) nullable)"
  shows "basic m = tdInteger \<Longrightarrow> s = scanTypeInt32" "basic m = tdBigInt \<Longrightarrow> s = scanTypeInt64"
    "basic m = tdSmallInt \<Longrightarrow> s = scanTypeInt16" "basic m = tdByteInt \<Longrightarrow> s = scanTypeInt8"
    "basic m \<in> set varCharTypes \<Longrightarrow> s = scanTypeString" "basic m \<in> set [tdChar, tdGraphic] \<Longrightarrow> s = scanTypeString"
    "basic m = tdFloat \<Longrightarrow> s = scanTypeFloat64" "basic m = tdDecimal \<Longrightarrow> s = scanTypeString"
    "basic m = tdNumber \<Longrightarrow> s = scanTypeString" "basic m \<in> set varByteTypes \<Longrightarrow> s = scanTypeBytes"
    "basic m \<in> set (removeAll tdIntervalMinToSec intervalTypes) \<Longrightarrow> s = scanTypeString"
    "basic m = tdByte \<Longrightarrow> s = scanTypeBytes" "basic m \<in> set [tdDateAnsi, tdDateInteger] \<Longrightarrow> s = scanTypeString"
    "basic m \<in> set timeTypes \<Longrightarrow> s = scanTypeString" "basic m \<in> set [tdClobLocator, tdBlobLocator] \<Longrightarrow> s = scanTypeUnknown"
  by (auto simp: s_def scanTypeForDataType_def Let_def)

lemma column_yields:
  "yields nul (non_null (scanTypeForDataType (m_dataType m) nullable)) (produceColumnValue r m nul)"
  unfolding produceColumnValue_def Let_def
  by (intro yields_intros yields_bind yields_reads)
    (simp_all only: scanTypes [of m nullable] goTypeOf.simps)


lemma processColumns_typed:
  assumes "processColumns nulls k metas r dest indx = Some (Inr n, r', dest')" "0 \<le> indx"
  shows "n = indx + int (length metas) \<and> length dest' = length dest
    \<and> take (nat indx) dest' = take (nat indx) dest
    \<and> (\<forall>i < length metas. \<exists>nul. isNull nulls (k + i) = Some nul
        \<and> typed nul (non_null (columnTypeScanType metas (int i))) (Inr (dest' ! (nat indx + i))))"
  using assms
proof (induction metas arbitrary: k r dest indx)
  case Nil
  then show ?case by simp
next
  case (Cons m metas)
  obtain nul v r1 where s: "isNull nulls k = Some nul" "produceColumnValue r m nul = Some (Inr v, r1)"
    "index dest indx \<noteq> None"
    "processColumns nulls (Suc k) metas r1 (dest[nat indx := v]) (indx + 1) = Some (Inr n, r', dest')"
    using Cons.prems(1) by (auto elim!: bind_SomeE split: sum.splits)
  have i: "nat indx < length dest" "nat (indx + 1) = Suc (nat indx)"
    using s(3) Cons.prems(2) by (auto simp: index_def split: if_splits)
  note h = Cons.IH [OF s(4), simplified i(2)]
  have t: "take (Suc (nat indx)) dest' = take (nat indx) dest @ [v]"
    using h Cons.prems(2) i(1) by (simp add: take_Suc_conv_app_nth)
  have "dest' ! nat indx = take (Suc (nat indx)) dest' ! nat indx"
    "take (nat indx) dest' = take (nat indx) (take (Suc (nat indx)) dest')"
    by simp_all
  then have d: "dest' ! nat indx = v" "take (nat indx) dest' = take (nat indx) dest"
    using i(1) unfolding t by (simp_all add: nth_append)
  have "typed nul (non_null (columnTypeScanType (m # metas) 0)) (Inr v)"
    using column_yields [of nul m "m_isNullable m = 89" r] s(2) by (simp add: yields_def columnTypeScanType_def columnAt_def index_def)
  moreover have "columnTypeScanType (m # metas) (int (Suc j)) = columnTypeScanType metas (int j)" for j
    by (simp add: columnTypeScanType_def columnAt_def index_def nat_add_distrib)
  ultimately show ?case using h d s(1) Cons.prems(2) by (auto simp: less_Suc_eq_0_disj simp del: of_nat_Suc)
qed

text \<open>C13: every value of a row has the type its column announces. When \<open>processRow\<close> succeeds it has stored one value
  per column, in order, and nothing else; a column whose indicator bit is set is nil, and any other value has
  the Go type that \<open>ColumnTypeScanType\<close> names for the column (the \<open>sql.Null\<close> type of that type when the column
  is nullable; LOBs, and the nil of an empty locator, are left to \<open>interface{}\<close>).\<close>
theorem row_values_have_scan_types:
  assumes "rd_bytes ((int (length metas) + 7) div 8) r = Some (nulls, r1)"
    and "processRow metas r dest indx = Some (Inr n, r', dest')" "0 \<le> indx"
  shows "n = indx + int (length metas) \<and> length dest' = length dest
    \<and> take (nat indx) dest' = take (nat indx) dest
    \<and> (\<forall>i < length metas. \<exists>nul. isNull nulls i = Some nul
        \<and> (if nul then dest' ! (nat indx + i) = V_nil
           else goTypeOf (dest' ! (nat indx + i)) = non_null (columnTypeScanType metas (int i))))"
  using processColumns_typed [of nulls 0 metas r1 dest indx n r' dest'] assms
  by (simp add: processRow_def typed_def)

theorem row_values_have_scan_types_witness:
  "\<exists>vs r. processRow demo_columns
      (rdr [9] ([0x20] @ [0, 0, 0, 7, 97, 98, 32, 32, 0, 0, 0, 0, 0, 125] @ [1, 2]) 17) [V_nil, V_nil, V_nil, V_nil] 0
      = Some (Inr 4, r, vs) \<and> length vs = 4 \<and> vs ! 2 = V_nil
    \<and> goTypeOf (vs ! 0) = scanTypeInt32 \<and> goTypeOf (vs ! 3) = scanTypeString"
proof -
  let ?tail = "[0, 0, 0, 7, 97, 98, 32, 32, 0, 0, 0, 0, 0, 125] @ [1, 2]"
  have b: "rd_bytes ((int (length demo_columns) + 7) div 8) (rdr [9] ([0x20] @ ?tail) 17) = Some ([0x20], rdr ([9] @ [0x20]) ?tail 17)"
    by (rule rd_bytes_rdr) (simp add: demo_columns_def)
  have p: "processRow demo_columns (rdr [9] ([0x20] @ ?tail) 17) [V_nil, V_nil, V_nil, V_nil] 0 =
      Some (Inr 4, rdr ([9] @ [0x20] @ [0, 0, 0, 7, 97, 98, 32, 32, 0, 0, 0, 0, 0, 125]) [1, 2] 17,
        [V_int32 7, V_string ''ab  '', V_nil, V_string ''1.25''])"
    by code_simp
  have n: "isNull [0x20] 0 = Some False" "isNull [0x20] 2 = Some True" "isNull [0x20] 3 = Some False" by code_simp+
  have s: "non_null (columnTypeScanType demo_columns (int 0)) = scanTypeInt32"
    "non_null (columnTypeScanType demo_columns (int 3)) = scanTypeString" by code_simp+
  have "\<forall>i < length demo_columns. \<exists>nul. isNull [0x20] i = Some nul
      \<and> (if nul then [V_int32 7, V_string ''ab  '', V_nil, V_string ''1.25''] ! (nat 0 + i) = V_nil
         else goTypeOf ([V_int32 7, V_string ''ab  '', V_nil, V_string ''1.25''] ! (nat 0 + i))
           = non_null (columnTypeScanType demo_columns (int i)))"
    using row_values_have_scan_types [OF b p] by simp
  moreover have "0 < length demo_columns" "2 < length demo_columns" "3 < length demo_columns" by (simp_all add: demo_columns_def)
  ultimately show ?thesis using p n s
    by (intro exI [of _ "[V_int32 7, V_string ''ab  '', V_nil, V_string ''1.25'']"]) fastforce
qed

end
