(* ===== verification/FastLoadEncode.thy ===== *)
theory FastLoadEncode
  imports Params Rows
begin

text \<open>
  The row encoder of the bulk loader, src/fastload_encode.go: one encoder per target column, chosen
  from the prepared insert's parameter types, and a row written as indicator bytes, column values and
  the row number. Floats are IEEE bits; what the code does with them (conversion, parsing, printing) is
  a record of functions.
\<close>

record floatOps =
  fl_formatE :: "u64 \<Rightarrow> string"
  fl_formatF :: "u64 \<Rightarrow> string"
  fl_parse :: "string \<Rightarrow> goerror + u64"
  fl_ofInt64 :: "u64 \<Rightarrow> u64"
  fl_ofFloat32 :: "u32 \<Rightarrow> u64"

section \<open>Times\<close>

text \<open>The pieces of \<open>time.Time.Format\<close> and \<open>time.Parse\<close> that the encoder uses.\<close>

definition padDigits :: "nat \<Rightarrow> int \<Rightarrow> string" where
  "padDigits w i =
     (let d = nat_str (nat \<bar>i\<bar>) in (if i < 0 then ''-'' else []) @ replicate (w - length d) (CHR ''0'') @ d)"

definition formatClock :: "gotime \<Rightarrow> string" where
  "formatClock t = padDigits 2 (t_hour t) @ '':'' @ padDigits 2 (t_min t) @ '':'' @ padDigits 2 (t_sec t)"

definition formatDate :: "gotime \<Rightarrow> string" where
  "formatDate t = padDigits 4 (t_year t) @ ''-'' @ padDigits 2 (t_month t) @ ''-'' @ padDigits 2 (t_day t)"

definition formatFraction :: "int \<Rightarrow> gotime \<Rightarrow> string" where
  "formatFraction n t = ''.'' @ take (nat (min n 9)) (padDigits 9 (t_nsec t))"

definition formatFraction9 :: "gotime \<Rightarrow> string" where
  "formatFraction9 t =
     (let f = trimRight (padDigits 9 (t_nsec t)) (CHR ''0'') in if f = [] then [] else ''.'' @ f)"

definition formatOffset :: "gotime \<Rightarrow> string" where
  "formatOffset t =
     (let z = quo (t_offset t) 60; a = \<bar>z\<bar>
      in (if z < 0 then ''-'' else ''+'') @ padDigits 2 (a div 60) @ '':'' @ padDigits 2 (a mod 60))"

definition leapYear :: "int \<Rightarrow> bool" where
  "leapYear y \<longleftrightarrow> y mod 4 = 0 \<and> (y mod 100 \<noteq> 0 \<or> y mod 400 = 0)"

definition daysIn :: "int \<Rightarrow> int \<Rightarrow> int" where
  "daysIn m y = (if m = 2 then (if leapYear y then 29 else 28) else if m \<in> {4, 6, 9, 11} then 30 else 31)"

text \<open>\<open>time.Parse(time.DateOnly, s)\<close>: year, month and day.\<close>

definition parseDateOnly :: "string \<Rightarrow> (int \<times> int \<times> int) option" where
  "parseDateOnly s =
     (let y = take 4 s; m = take 2 (drop 5 s); d = take 2 (drop 8 s) in
      if length s = 10 \<and> list_all is_digit (y @ m @ d) \<and> s ! 4 = CHR ''-'' \<and> s ! 7 = CHR ''-''
         \<and> 1 \<le> digits_val m \<and> digits_val m \<le> 12 \<and> 1 \<le> digits_val d
         \<and> int (digits_val d) \<le> daysIn (int (digits_val m)) (int (digits_val y))
      then Some (int (digits_val y), int (digits_val m), int (digits_val d)) else None)"

section \<open>Encoders\<close>

datatype fastLoadEncodeKind =
    fastLoadEncByteInt | fastLoadEncSmallInt | fastLoadEncInteger | fastLoadEncBigInt
  | fastLoadEncFloat | fastLoadEncDate | fastLoadEncDecimal | fastLoadEncNumber
  | fastLoadEncVarchar | fastLoadEncVarbyte | fastLoadEncTime | fastLoadEncTimeTZ
  | fastLoadEncTimestamp | fastLoadEncTimestampTZ

record fastLoadColumnEncoder =
  e_kind :: fastLoadEncodeKind
  e_cast :: string
  e_rowBytes :: u64
  e_maxLen :: int
  e_width :: int
  e_scale :: int
  e_wide :: bool
  e_nullText :: "byte list"

definition maxWireBytes :: "fastLoadColumnEncoder \<Rightarrow> int" where
  "maxWireBytes e =
     (case e_kind e of
        fastLoadEncByteInt \<Rightarrow> 1
      | fastLoadEncSmallInt \<Rightarrow> 2
      | fastLoadEncInteger \<Rightarrow> 4
      | fastLoadEncDate \<Rightarrow> 4
      | fastLoadEncBigInt \<Rightarrow> 8
      | fastLoadEncFloat \<Rightarrow> 8
      | fastLoadEncDecimal \<Rightarrow> (if e_wide e then 16 else 8)
      | fastLoadEncNumber \<Rightarrow> 20
      | fastLoadEncVarchar \<Rightarrow> 2 + e_maxLen e
      | fastLoadEncVarbyte \<Rightarrow> 2 + e_maxLen e
      | _ \<Rightarrow> e_width e)"

definition fastLoadMaxRowBytes :: "fastLoadColumnEncoder list \<Rightarrow> int" where
  "fastLoadMaxRowBytes encoders =
     (int (length encoders) + 1 + 7) div 8 + 4 + sum_list (map maxWireBytes encoders)"

definition fastLoadTypeName :: "u16 \<Rightarrow> string" where
  "fastLoadTypeName dataType =
     (if dataType = tdDateAnsi \<or> dataType = tdDateInteger then ''DATE'' else dbNameForDataType dataType)"

definition sizedType :: "string \<Rightarrow> nat \<Rightarrow> string" where
  "sizedType name n = name @ ''('' @ nat_str n @ '')''"

definition fixedKind :: "u16 \<Rightarrow> fastLoadEncodeKind" where
  "fixedKind t =
     (if t = tdByteInt then fastLoadEncByteInt else if t = tdSmallInt then fastLoadEncSmallInt
      else if t = tdInteger then fastLoadEncInteger else if t = tdBigInt then fastLoadEncBigInt
      else if t = tdFloat then fastLoadEncFloat else fastLoadEncDate)"

definition newFastLoadColumnEncoder ::
  "metaItem \<Rightarrow> connectionCapabilities \<Rightarrow> goerror + fastLoadColumnEncoder" where
  "newFastLoadColumnEncoder item capabilities =
     (let t = getTdBasicType (getDataType item); maxLen = getMaxLength item;
          scale = uint (getScale item); fracWidth = (if scale > 0 then scale + 1 else 0);
          e = \<lparr>e_kind = fastLoadEncByteInt, e_cast = [], e_rowBytes = 0, e_maxLen = 0, e_width = 0,
               e_scale = scale, e_wide = False, e_nullText = []\<rparr>;
          timed = (\<lambda>kind width. Inr (e\<lparr>e_kind := kind, e_width := width,
               e_cast := sizedType ''CHAR'' (nat width), e_rowBytes := word_of_int width,
               e_nullText := replicate (nat width) 32\<rparr>))
      in
      if t \<in> set [tdByteInt, tdSmallInt, tdInteger, tdBigInt, tdFloat, tdDateAnsi, tdDateInteger] then
        Inr (e\<lparr>e_kind := fixedKind t, e_cast := fastLoadTypeName t, e_rowBytes := maxLen\<rparr>)
      else if t \<in> set [tdByte, tdVarByte, tdLongVarByte] then
        Inr (e\<lparr>e_kind := fastLoadEncVarbyte, e_cast := sizedType ''VARBYTE'' (unat maxLen),
               e_maxLen := sint maxLen, e_rowBytes := maxLen + 2\<rparr>)
      else if t \<in> set ([tdChar, tdVarchar, tdLongVarchar] @ intervalTypes) then
        Inr (e\<lparr>e_kind := fastLoadEncVarchar, e_cast := sizedType ''VARCHAR'' (unat maxLen),
               e_maxLen := sint maxLen, e_rowBytes := maxLen + 2\<rparr>)
      else if t = tdNumber then
        Inr (e\<lparr>e_kind := fastLoadEncNumber, e_cast := ''NUMBER'', e_rowBytes := 20\<rparr>)
      else if t = tdDecimal then
        (if cap_largeDecimalSupport capabilities
         then Inr (e\<lparr>e_kind := fastLoadEncDecimal, e_wide := True,
                     e_cast := ''DECIMAL(38,'' @ int_str scale @ '')'', e_rowBytes := 16\<rparr>)
         else Inr (e\<lparr>e_kind := fastLoadEncDecimal, e_wide := False,
                     e_cast := ''DECIMAL(18,'' @ int_str scale @ '')'', e_rowBytes := 8\<rparr>))
      else if t = tdTime then timed fastLoadEncTime (8 + fracWidth)
      else if t = tdTimeTZ then timed fastLoadEncTimeTZ (8 + fracWidth + 6)
      else if t = tdTimestamp then timed fastLoadEncTimestamp (19 + fracWidth)
      else if t = tdTimestampTZ then timed fastLoadEncTimestampTZ (19 + fracWidth + 6)
      else Inl (Errorf ''data type %s is not supported'' []))"

definition fastLoadUsingType ::
  "metaItem \<Rightarrow> connectionCapabilities \<Rightarrow> goerror + string \<times> u64" where
  "fastLoadUsingType item capabilities =
     (case newFastLoadColumnEncoder item capabilities of
        Inl err \<Rightarrow> Inl err
      | Inr e \<Rightarrow> Inr (e_cast e, e_rowBytes e))"

fun columnEncoders ::
  "metaItem list \<Rightarrow> connectionCapabilities \<Rightarrow> goerror + fastLoadColumnEncoder list" where
  "columnEncoders [] capabilities = Inr []"
| "columnEncoders (item # items) capabilities =
     (case newFastLoadColumnEncoder item capabilities of
        Inl err \<Rightarrow> Inl (Errorf ''%w: column %d: %w'' [ErrFastLoadUnsupported, err])
      | Inr e \<Rightarrow>
          (case columnEncoders items capabilities of
             Inl err \<Rightarrow> Inl err
           | Inr es \<Rightarrow> Inr (e # es)))"

definition newFastLoadColumnEncoders ::
  "statementInfo \<Rightarrow> connectionCapabilities \<Rightarrow> goerror + fastLoadColumnEncoder list" where
  "newFastLoadColumnEncoders info capabilities =
     columnEncoders (paramMarkerMetaItems info) capabilities"

section \<open>Values\<close>

fun fastLoadNumericValue :: "floatOps \<Rightarrow> gvalue \<Rightarrow> gvalue" where
  "fastLoadNumericValue F (V_int v) = V_int64 v"
| "fastLoadNumericValue F (V_int32 v) = V_int64 (scast v)"
| "fastLoadNumericValue F (V_int16 v) = V_int64 (scast v)"
| "fastLoadNumericValue F (V_int8 v) = V_int64 (scast v)"
| "fastLoadNumericValue F (V_float32 v) = V_float64 (fl_ofFloat32 F v)"
| "fastLoadNumericValue F v = v"

definition truncatedNumber :: "floatOps \<Rightarrow> gvalue \<Rightarrow> goerror + int" where
  "truncatedNumber F v =
     (case numberFromValue (fl_formatE F) v of
        Inl err \<Rightarrow> Inl err
      | Inr (unscaled, scale) \<Rightarrow> Inr (rescaleTruncate unscaled scale 0))"

fun integralValue :: "floatOps \<Rightarrow> gvalue \<Rightarrow> goerror + int" where
  "integralValue F (V_int64 v) = Inr (sint v)"
| "integralValue F (V_int v) = Inr (sint v)"
| "integralValue F (V_int32 v) = Inr (sint v)"
| "integralValue F (V_int16 v) = Inr (sint v)"
| "integralValue F (V_int8 v) = Inr (sint v)"
| "integralValue F (V_bool v) = Inr (if v then 1 else 0)"
| "integralValue F (V_float64 v) = truncatedNumber F (V_float64 v)"
| "integralValue F (V_string v) = truncatedNumber F (V_string v)"
| "integralValue F (V_bytes v) = truncatedNumber F (V_bytes v)"
| "integralValue F _ = Inl (Errorf ''expecting an integer, got %T'' [])"

definition fastLoadIntegral :: "floatOps \<Rightarrow> gvalue \<Rightarrow> int \<Rightarrow> int \<Rightarrow> goerror + int" where
  "fastLoadIntegral F val lo hi =
     (case integralValue F val of
        Inl err \<Rightarrow> Inl err
      | Inr n \<Rightarrow>
          (if \<not> int64_range n \<or> n < lo \<or> n > hi
           then Inl (Errorf ''value %s out of range [%d, %d]'' []) else Inr n))"

fun fastLoadFloat :: "floatOps \<Rightarrow> gvalue \<Rightarrow> goerror + u64" where
  "fastLoadFloat F (V_float64 v) = Inr v"
| "fastLoadFloat F (V_float32 v) = Inr (fl_ofFloat32 F v)"
| "fastLoadFloat F (V_int64 v) = Inr (fl_ofInt64 F v)"
| "fastLoadFloat F (V_int v) = Inr (fl_ofInt64 F v)"
| "fastLoadFloat F (V_string v) = fl_parse F (trimSpace v)"
| "fastLoadFloat F _ = Inl (Errorf ''expecting a float, got %T'' [])"

definition dateNumber :: "int \<Rightarrow> int \<Rightarrow> int \<Rightarrow> u32" where
  "dateNumber y m d = word_of_int ((y - 1900) * 10000 + m * 100 + d)"

fun fastLoadDate :: "gvalue \<Rightarrow> goerror + u32" where
  "fastLoadDate (V_time t) = Inr (dateNumber (t_year t) (t_month t) (t_day t))"
| "fastLoadDate (V_string v) =
     (case parseDateOnly (trimSpace v) of
        None \<Rightarrow> Inl (Errorf ''parsing time'' [])
      | Some (y, m, d) \<Rightarrow> Inr (dateNumber y m d))"
| "fastLoadDate (V_int64 v) = Inr (ucast v)"
| "fastLoadDate _ = Inl (Errorf ''expecting time.Time or yyyy-mm-dd string, got %T'' [])"

fun fastLoadString :: "floatOps \<Rightarrow> gvalue \<Rightarrow> goerror + string" where
  "fastLoadString F (V_string v) = Inr v"
| "fastLoadString F (V_bytes v) = Inr (bytes_str v)"
| "fastLoadString F (V_int64 v) = Inr (int_str (sint v))"
| "fastLoadString F (V_int v) = Inr (int_str (sint v))"
| "fastLoadString F (V_float64 v) = Inr (fl_formatF F v)"
| "fastLoadString F (V_bool v) = Inr (if v then ''true'' else ''false'')"
| "fastLoadString F (V_time t) = Inr (formatDate t @ '' '' @ formatClock t @ formatFraction9 t)"
| "fastLoadString F _ = Inl (Errorf ''expecting a string, got %T'' [])"

definition isTimestampKind :: "fastLoadColumnEncoder \<Rightarrow> bool" where
  "isTimestampKind e \<longleftrightarrow> e_kind e = fastLoadEncTimestamp \<or> e_kind e = fastLoadEncTimestampTZ"

definition isTzKind :: "fastLoadColumnEncoder \<Rightarrow> bool" where
  "isTzKind e \<longleftrightarrow> e_kind e = fastLoadEncTimeTZ \<or> e_kind e = fastLoadEncTimestampTZ"

text \<open>The string case of \<open>temporalText\<close>, after trimming and splitting off the offset.\<close>

definition temporalString :: "fastLoadColumnEncoder \<Rightarrow> string \<Rightarrow> goerror + string" where
  "temporalString e v =
     (let s = trimSpace v; n = length s in
      if isTzKind e \<and> (n < 6 \<or> (s ! (n - 6) \<noteq> CHR ''+'' \<and> s ! (n - 6) \<noteq> CHR ''-''))
      then Inl (Errorf ''time value %q is missing a +hh:mm offset'' [])
      else
        let offset = (if isTzKind e then drop (n - 6) s else []);
            s = (if isTzKind e then take (n - 6) s else s);
            base = (if isTimestampKind e then 19 else 8)
        in if length s < base then Inl (Errorf ''time value %q is too short'' [])
           else
             let frac = take (nat (e_scale e)) (trimPrefix (drop base s) ''.'');
                 text = (if e_scale e > 0
                         then take base s @ ''.'' @ frac @ replicate (nat (e_scale e) - length frac) (CHR ''0'')
                         else take base s)
             in Inr (text @ offset))"

fun temporalText :: "fastLoadColumnEncoder \<Rightarrow> gvalue \<Rightarrow> goerror + string" where
  "temporalText e (V_time t) =
     Inr ((if isTimestampKind e then formatDate t @ '' '' else []) @ formatClock t
          @ (if e_scale e > 0 then formatFraction (e_scale e) t else [])
          @ (if isTzKind e then formatOffset t else []))"
| "temporalText e (V_string v) = temporalString e v"
| "temporalText e _ = Inl (Errorf ''expecting time.Time or string, got %T'' [])"

section \<open>Writing\<close>

text \<open>A write returns the error it reports with the writer; \<open>None\<close> is a panic.\<close>

type_synonym wres = "(goerror option \<times> bufferWriter) option"

definition okw :: "bufferWriter option \<Rightarrow> wres" where "okw w = map_option (Pair None) w"
definition errw :: "goerror \<Rightarrow> bufferWriter \<Rightarrow> wres" where "errw e w = Some (Some e, w)"

definition writeVar :: "fastLoadColumnEncoder \<Rightarrow> byte list \<Rightarrow> bufferWriter \<Rightarrow> wres" where
  "writeVar e b w =
     (if int (length b) > e_maxLen e then errw (Errorf ''value is %d bytes, column allows %d'' []) w
      else okw (do { w \<leftarrow> wr_u16 (word_of_nat (length b)) w; wr_bytes b w }))"

definition writeVarString :: "fastLoadColumnEncoder \<Rightarrow> string \<Rightarrow> bufferWriter \<Rightarrow> wres" where
  "writeVarString e s w =
     (if int (length s) > e_maxLen e then errw (Errorf ''value is %d bytes, column allows %d'' []) w
      else okw (do { w \<leftarrow> wr_u16 (word_of_nat (length s)) w; wr_str s w }))"

definition writeDecimal :: "floatOps \<Rightarrow> fastLoadColumnEncoder \<Rightarrow> gvalue \<Rightarrow> bufferWriter \<Rightarrow> wres" where
  "writeDecimal F e val w =
     (case numberFromValue (fl_formatE F) (fastLoadNumericValue F val) of
        Inl err \<Rightarrow> errw err w
      | Inr (unscaled, scale) \<Rightarrow>
          let unscaled = rescaleHalfUp unscaled scale (e_scale e) in
          if e_wide e then
            (case bigIntToBE16 unscaled of
               None \<Rightarrow> None
             | Some (Inl err) \<Rightarrow> errw err w
             | Some (Inr b) \<Rightarrow> okw (wr_bytes b w))
          else if \<not> int64_range unscaled
          then errw (Errorf ''decimal value %s does not fit in 8 bytes'' []) w
          else okw (wr_u64 (word_of_int unscaled) w))"

definition writeValue :: "floatOps \<Rightarrow> fastLoadColumnEncoder \<Rightarrow> gvalue \<Rightarrow> bufferWriter \<Rightarrow> wres" where
  "writeValue F e val w =
     (case e_kind e of
        fastLoadEncByteInt \<Rightarrow>
          (case fastLoadIntegral F val (- (2 ^ 7)) (2 ^ 7 - 1) of
             Inl err \<Rightarrow> errw err w | Inr v \<Rightarrow> okw (wr_byte (word_of_int v) w))
      | fastLoadEncSmallInt \<Rightarrow>
          (case fastLoadIntegral F val (- (2 ^ 15)) (2 ^ 15 - 1) of
             Inl err \<Rightarrow> errw err w | Inr v \<Rightarrow> okw (wr_u16 (word_of_int v) w))
      | fastLoadEncInteger \<Rightarrow>
          (case fastLoadIntegral F val (- (2 ^ 31)) (2 ^ 31 - 1) of
             Inl err \<Rightarrow> errw err w | Inr v \<Rightarrow> okw (wr_u32 (word_of_int v) w))
      | fastLoadEncBigInt \<Rightarrow>
          (case fastLoadIntegral F val (- (2 ^ 63)) (2 ^ 63 - 1) of
             Inl err \<Rightarrow> errw err w | Inr v \<Rightarrow> okw (wr_u64 (word_of_int v) w))
      | fastLoadEncFloat \<Rightarrow>
          (case fastLoadFloat F val of Inl err \<Rightarrow> errw err w | Inr v \<Rightarrow> okw (wr_u64 v w))
      | fastLoadEncDate \<Rightarrow>
          (case fastLoadDate val of Inl err \<Rightarrow> errw err w | Inr v \<Rightarrow> okw (wr_u32 v w))
      | fastLoadEncDecimal \<Rightarrow> writeDecimal F e val w
      | fastLoadEncNumber \<Rightarrow>
          (case numberFromValue (fl_formatE F) (fastLoadNumericValue F val) of
             Inl err \<Rightarrow> errw err w
           | Inr (unscaled, scale) \<Rightarrow>
               (case encodeNumber unscaled scale of
                  None \<Rightarrow> None
                | Some (Inl err) \<Rightarrow> errw err w
                | Some (Inr b) \<Rightarrow> okw (wr_bytes b w)))
      | fastLoadEncVarchar \<Rightarrow>
          (case as_bytes val of
             Some b \<Rightarrow> writeVar e b w
           | None \<Rightarrow>
               (case fastLoadString F val of Inl err \<Rightarrow> errw err w | Inr s \<Rightarrow> writeVarString e s w))
      | fastLoadEncVarbyte \<Rightarrow>
          (case as_bytes val of
             Some b \<Rightarrow> writeVar e b w
           | None \<Rightarrow> errw (Errorf ''expecting []byte, got %T'' []) w)
      | _ \<Rightarrow>
          (case temporalText e val of
             Inl err \<Rightarrow> errw err w
           | Inr s \<Rightarrow>
               (if int (length s) \<noteq> e_width e
                then errw (Errorf ''time value %q must be %d characters'' []) w
                else okw (wr_str s w))))"

definition writeNull :: "fastLoadColumnEncoder \<Rightarrow> bufferWriter \<Rightarrow> bufferWriter option" where
  "writeNull e w =
     (case e_kind e of
        fastLoadEncNumber \<Rightarrow> wr_byte 0 w
      | fastLoadEncVarchar \<Rightarrow> wr_skip 2 w
      | fastLoadEncVarbyte \<Rightarrow> wr_skip 2 w
      | fastLoadEncTime \<Rightarrow> wr_bytes (e_nullText e) w
      | fastLoadEncTimeTZ \<Rightarrow> wr_bytes (e_nullText e) w
      | fastLoadEncTimestamp \<Rightarrow> wr_bytes (e_nullText e) w
      | fastLoadEncTimestampTZ \<Rightarrow> wr_bytes (e_nullText e) w
      | _ \<Rightarrow> wr_skip (maxWireBytes e) w)"

text \<open>\<open>w.buff[pos] |= 1 << k\<close>\<close>

definition set_bit_at :: "int \<Rightarrow> nat \<Rightarrow> bufferWriter \<Rightarrow> bufferWriter option" where
  "set_bit_at pos k w = do {
     b \<leftarrow> index (w_buff w) pos;
     Some (w\<lparr>w_buff := (w_buff w)[nat pos := or b (push_bit k 1)]\<rparr>) }"

text \<open>The loop over the columns; \<open>bm\<close> is the position of the indicator bytes.\<close>

fun writeColumns ::
  "floatOps \<Rightarrow> int \<Rightarrow> nat \<Rightarrow> (fastLoadColumnEncoder \<times> gvalue) list \<Rightarrow> bufferWriter \<Rightarrow> wres" where
  "writeColumns F bm i [] w = Some (None, w)"
| "writeColumns F bm i ((e, v) # cols) w =
     (if v = V_nil then do {
        w \<leftarrow> set_bit_at (bm + int (i div 8)) (7 - i mod 8) w;
        w \<leftarrow> writeNull e w;
        writeColumns F bm (Suc i) cols w }
      else
        (case writeValue F e v w of
           None \<Rightarrow> None
         | Some (Some err, w) \<Rightarrow> errw (Errorf ''fastload column %d: %w'' [err]) w
         | Some (None, w) \<Rightarrow> writeColumns F bm (Suc i) cols w))"

definition writeFastLoadRow ::
  "floatOps \<Rightarrow> bufferWriter \<Rightarrow> fastLoadColumnEncoder list \<Rightarrow> gvalue list \<Rightarrow> u32 \<Rightarrow> wres" where
  "writeFastLoadRow F w encoders values rowNumber =
     (if length values \<noteq> length encoders
      then errw (Errorf ''fastload row has %d values, expected %d'' []) w
      else do {
        let bitmapStart = wr_position w;
        w \<leftarrow> wr_skip ((int (length encoders) + 1 + 7) div 8) w;
        (err, w) \<leftarrow> writeColumns F bitmapStart 0 (zip encoders values) w;
        case err of
          Some err \<Rightarrow> errw err w
        | None \<Rightarrow> okw (wr_u32 rowNumber w) })"

section \<open>Bounds\<close>

text \<open>Encoders as the constructor builds them, with a column width that a Go integer holds.\<close>

definition encoder_ok :: "fastLoadColumnEncoder \<Rightarrow> bool" where
  "encoder_ok e \<longleftrightarrow> 0 \<le> e_maxLen e \<and>
     (e_kind e \<in> set [fastLoadEncTime, fastLoadEncTimeTZ, fastLoadEncTimestamp, fastLoadEncTimestampTZ]
        \<longrightarrow> 0 < e_width e \<and> int (length (e_nullText e)) = e_width e)"

lemma newFastLoadColumnEncoder_ok:
  assumes "newFastLoadColumnEncoder item caps = Inr e" "0 \<le> sint (getMaxLength item)"
  shows "encoder_ok e"
  using assms
  by (auto simp: newFastLoadColumnEncoder_def encoder_ok_def Let_def fixedKind_def split: if_splits)

text \<open>
  \<open>bounded n w w'\<close>: the write moved forward by at most \<open>n\<close> bytes, and left the length of the buffer
  and everything before the cursor alone.
\<close>

definition bounded :: "int \<Rightarrow> bufferWriter \<Rightarrow> bufferWriter \<Rightarrow> bool" where
  "bounded n w w' \<longleftrightarrow> w_indx w \<le> w_indx w' \<and> w_indx w' \<le> w_indx w + n
     \<and> length (w_buff w') = length (w_buff w)
     \<and> take (nat (w_indx w)) (w_buff w') = take (nat (w_indx w)) (w_buff w)
     \<and> room w' 0"

lemma emit_bounded:
  assumes "room w (int n)" "length bs \<le> n"
  obtains w' where "emit bs w = Some w'" "bounded (int n) w w'"
proof -
  have "room w (int (length bs))" using assms by (simp add: room_def)
  then obtain w' where w': "emit bs w = Some w'" using emit_defined by blast
  have "room w' 0" using room_emit [OF w', of 0] assms by (simp add: room_def)
  then show ?thesis
    using that w' emit_frame [OF w'] assms(2) by (simp add: bounded_def)
qed

lemma bounded_refl: "room w 0 \<Longrightarrow> 0 \<le> n \<Longrightarrow> bounded n w w"
  by (simp add: bounded_def)

lemma bounded_mono: "bounded n w w' \<Longrightarrow> n \<le> m \<Longrightarrow> bounded m w w'"
  by (simp add: bounded_def)

lemma take_prefix: "take b xs = take b ys \<Longrightarrow> a \<le> b \<Longrightarrow> take a xs = take a ys"
proof -
  assume t: "take b xs = take b ys" and le: "a \<le> b"
  have "take a xs = take a (take b xs)" using le by (simp add: min_def)
  also have "\<dots> = take a ys" unfolding t using le by (simp add: min_def)
  finally show ?thesis .
qed

lemma bounded_trans:
  assumes "bounded n w w1" "bounded m w1 w2"
  shows "bounded (n + m) w w2"
proof -
  have i: "nat (w_indx w) \<le> nat (w_indx w1)" using assms(1) by (simp add: bounded_def nat_mono)
  have "take (nat (w_indx w1)) (w_buff w2) = take (nat (w_indx w1)) (w_buff w1)"
    using assms(2) by (simp add: bounded_def)
  from take_prefix [OF this i]
  show ?thesis using assms by (simp add: bounded_def)
qed

lemma emit_within:
  assumes "room w n" "int (length bs) \<le> n"
  shows "\<exists>w'. emit bs w = Some w' \<and> bounded n w w'"
proof -
  have n: "int (nat n) = n" using assms(2) by linarith
  obtain w' where "emit bs w = Some w'" "bounded (int (nat n)) w w'"
    using emit_bounded [of w "nat n" bs] assms n by auto
  then show ?thesis unfolding n by blast
qed

lemma writeNull_bounded:
  assumes "encoder_ok e" "room w (maxWireBytes e)"
  shows "\<exists>w'. writeNull e w = Some w' \<and> bounded (maxWireBytes e) w w'"
proof -
  have null: "wr_bytes (e_nullText e) w = emit (e_nullText e) w" if "0 < e_width e"
    "int (length (e_nullText e)) = e_width e"
    using that by (intro wr_bytes_emit) auto
  have "\<exists>bs. writeNull e w = emit bs w \<and> int (length bs) \<le> maxWireBytes e"
    using assms(1) null
    by (cases "e_kind e") (auto simp: writeNull_def maxWireBytes_def encoder_ok_def wr_skip_emit emit_simps)
  then show ?thesis using emit_within [OF assms(2)] by metis
qed

text \<open>A value write is either an error that leaves the writer alone or one emit.\<close>

definition one_emit :: "int \<Rightarrow> bufferWriter \<Rightarrow> wres \<Rightarrow> bool" where
  "one_emit n w r \<longleftrightarrow> (\<exists>err. r = errw err w) \<or> (\<exists>bs. r = okw (emit bs w) \<and> int (length bs) \<le> n)"

lemma one_emit_bounded:
  assumes "one_emit n w r" "room w n" "0 \<le> n"
  shows "\<exists>err w'. r = Some (err, w') \<and> bounded n w w'"
proof -
  have "room w 0" using assms(2,3) by (simp add: room_def)
  then show ?thesis
    using assms(1) emit_within [OF assms(2)] bounded_refl [of w n] assms(3)
    by (fastforce simp: one_emit_def errw_def okw_def)
qed

lemma one_emit_err [simp]: "one_emit n w (errw e w)"
  by (auto simp: one_emit_def)

lemma one_emit_ok: "m = emit bs w \<Longrightarrow> int (length bs) \<le> n \<Longrightarrow> one_emit n w (okw m)"
  by (auto simp: one_emit_def)

lemma writeVar_one: "one_emit (2 + e_maxLen e) w (writeVar e b w)"
  by (auto simp: writeVar_def emit_simps intro!: one_emit_ok)

lemma wr_str_after_emit:
  assumes "xs \<noteq> []"
  shows "Option.bind (emit xs w) (wr_str s) = emit (xs @ str_bytes s) w"
proof (cases "s = []")
  case True
  then have "wr_str s = Some" by (simp add: wr_str_def fun_eq_iff)
  then show ?thesis using True by (simp add: emit_return str_bytes_def)
next
  case False
  then have "wr_str s = emit (str_bytes s)" by (simp add: wr_str_emit fun_eq_iff)
  then show ?thesis by (simp add: emit_append)
qed

lemma writeVarString_one: "one_emit (2 + e_maxLen e) w (writeVarString e s w)"
proof -
  have "be_enc 2 k \<noteq> []" for k by (metis length_be_enc list.size(3) zero_neq_numeral)
  then show ?thesis
    by (auto simp: writeVarString_def wr_u16_emit wr_str_after_emit intro!: one_emit_ok)
qed

lemma encodeNumber_length:
  assumes "encodeNumber u s = Some (Inr b)"
  shows "b \<noteq> [] \<and> length b \<le> 20"
proof (cases "u = 0")
  case True
  then show ?thesis using assms by (auto simp: encodeNumber_def)
next
  case False
  obtain u' s' k tc where "length tc \<le> 17" "encodeNumber u s = Some (if s' < - 32768 \<or> 32767 < s'
       then Inl (Errorf ''NUMBER scale %d out of range'' []) else Inr (number_image u' s' tc))"
    using encodeNumber_cases [OF False, of s] by metis
  then show ?thesis using assms by (auto simp: number_image_def split: if_splits)
qed

lemma encodeNumber_total: "encodeNumber u s \<noteq> None"
proof (cases "u = 0")
  case False
  then show ?thesis using encodeNumber_cases [OF False, of s] by (metis option.distinct(1))
qed (simp add: encodeNumber_def)

lemma bigIntToBE16_total: "bigIntToBE16 v \<noteq> None"
  by (auto simp: bigIntToBE16_def fillBytes_def nat_less_iff)

lemma writeDecimal_one:
  "e_kind e = fastLoadEncDecimal \<Longrightarrow> one_emit (maxWireBytes e) w (writeDecimal F e v w)"
proof -
  assume k: "e_kind e = fastLoadEncDecimal"
  have wide: "one_emit 16 w (case bigIntToBE16 x of None \<Rightarrow> None | Some (Inl err) \<Rightarrow> errw err w
      | Some (Inr b) \<Rightarrow> okw (wr_bytes b w))" for x
  proof (cases "bigIntToBE16 x")
    case None
    then show ?thesis using bigIntToBE16_total by blast
  next
    case (Some r)
    show ?thesis
    proof (cases r)
      case (Inr b)
      then have "length b = 16" using bigIntToBE16_Inr(1) Some by blast
      then have "wr_bytes b w = emit b w" by (intro wr_bytes_emit) auto
      then show ?thesis using Some Inr \<open>length b = 16\<close> by (auto intro!: one_emit_ok)
    qed (simp add: Some)
  qed
  show ?thesis
    using wide
    by (auto simp: writeDecimal_def maxWireBytes_def k Let_def wr_u64_emit split: sum.splits
        intro!: one_emit_ok)
qed

lemma writeValue_one:
  assumes "encoder_ok e"
  shows "one_emit (maxWireBytes e) w (writeValue F e v w)"
proof -
  have time: "one_emit (e_width e) w (case temporalText e v of Inl err \<Rightarrow> errw err w
      | Inr s \<Rightarrow> if int (length s) \<noteq> e_width e
                then errw (Errorf ''time value %q must be %d characters'' []) w
                else okw (wr_str s w))" if "0 < e_width e"
  proof -
    have "wr_str s w = emit (str_bytes s) w" if "int (length s) = e_width e" for s
      using that \<open>0 < e_width e\<close> by (intro wr_str_emit) auto
    then show ?thesis by (auto split: sum.splits intro!: one_emit_ok)
  qed
  have number: "one_emit 20 w (case encodeNumber a b of None \<Rightarrow> None | Some (Inl err) \<Rightarrow> errw err w
      | Some (Inr bs) \<Rightarrow> okw (wr_bytes bs w))" for a b
    using encodeNumber_total [of a b] encodeNumber_length [of a b]
    by (auto split: option.splits sum.splits intro!: one_emit_ok wr_bytes_emit)
  note one = one_emit_ok [OF wr_byte_emit] one_emit_ok [OF wr_u16_emit] one_emit_ok [OF wr_u32_emit]
    one_emit_ok [OF wr_u64_emit]
  show ?thesis
  proof (cases "e_kind e")
    case fastLoadEncDecimal
    then show ?thesis using writeDecimal_one [OF fastLoadEncDecimal] by (simp add: writeValue_def)
  next
    case fastLoadEncNumber
    then show ?thesis using number
      by (simp add: writeValue_def maxWireBytes_def split: sum.splits prod.splits)
  next
    case fastLoadEncVarchar
    then show ?thesis using writeVar_one writeVarString_one
      by (simp add: writeValue_def maxWireBytes_def split: sum.splits option.splits)
  next
    case fastLoadEncVarbyte
    then show ?thesis using writeVar_one
      by (simp add: writeValue_def maxWireBytes_def split: sum.splits option.splits)
  next
    case fastLoadEncTime
    then show ?thesis using time assms by (simp add: writeValue_def maxWireBytes_def encoder_ok_def)
  next
    case fastLoadEncTimeTZ
    then show ?thesis using time assms by (simp add: writeValue_def maxWireBytes_def encoder_ok_def)
  next
    case fastLoadEncTimestamp
    then show ?thesis using time assms by (simp add: writeValue_def maxWireBytes_def encoder_ok_def)
  next
    case fastLoadEncTimestampTZ
    then show ?thesis using time assms by (simp add: writeValue_def maxWireBytes_def encoder_ok_def)
  qed (simp_all add: writeValue_def maxWireBytes_def one split: sum.splits)
qed

text \<open>The same bound relative to an earlier position, for the writes that go back to the indicators.\<close>

definition grows :: "int \<Rightarrow> int \<Rightarrow> bufferWriter \<Rightarrow> bufferWriter \<Rightarrow> bool" where
  "grows p n w w' \<longleftrightarrow> w_indx w \<le> w_indx w' \<and> w_indx w' \<le> w_indx w + n
     \<and> length (w_buff w') = length (w_buff w)
     \<and> take (nat p) (w_buff w') = take (nat p) (w_buff w) \<and> room w' 0"

lemma bounded_grows: "bounded n w w' \<Longrightarrow> p \<le> w_indx w \<Longrightarrow> grows p n w w'"
  unfolding bounded_def grows_def using take_prefix [of "nat (w_indx w)" "w_buff w'" "w_buff w" "nat p"]
  by (simp add: nat_mono)

lemma grows_trans: "grows p n w w1 \<Longrightarrow> grows p m w1 w2 \<Longrightarrow> grows p (n + m) w w2"
  by (simp add: grows_def)

lemma grows_refl: "room w 0 \<Longrightarrow> 0 \<le> n \<Longrightarrow> grows p n w w"
  by (simp add: grows_def)

lemma grows_room: "grows p n w w1 \<Longrightarrow> room w (n + m) \<Longrightarrow> 0 \<le> m \<Longrightarrow> room w1 m"
  by (simp add: grows_def room_def)

lemma set_bit_at_grows:
  assumes "p \<le> pos" "0 \<le> p" "pos < w_indx w" "room w 0"
  shows "\<exists>w'. set_bit_at pos k w = Some w' \<and> grows p 0 w w' \<and> w_indx w' = w_indx w
    \<and> length (w_buff w') = length (w_buff w)"
  using assms by (simp add: set_bit_at_def index_def room_def grows_def take_update_cancel nat_mono)

lemma maxWireBytes_nonneg: "encoder_ok e \<Longrightarrow> 0 \<le> maxWireBytes e"
  by (cases "e_kind e") (auto simp: encoder_ok_def maxWireBytes_def)

lemma writeColumns_bounded:
  assumes "list_all (\<lambda>(e, v). encoder_ok e) cols"
    "room w (sum_list (map (\<lambda>(e, v). maxWireBytes e) cols))"
    "0 \<le> bm" "bm + (int (i + length cols) + 7) div 8 \<le> w_indx w"
  shows "\<exists>err w'. writeColumns F bm i cols w = Some (err, w')
    \<and> grows bm (sum_list (map (\<lambda>(e, v). maxWireBytes e) cols)) w w'"
  using assms
proof (induction cols arbitrary: i w)
  case Nil
  then show ?case by (simp add: grows_refl)
next
  case (Cons c cols)
  obtain e v where c: "c = (e, v)" by (cases c)
  let ?rest = "sum_list (map (\<lambda>(e, v). maxWireBytes e) cols)"
  have ok: "encoder_ok e" and rest: "0 \<le> ?rest"
    using Cons.prems(1) c by (auto simp: list_all_iff split_def intro!: sum_list_nonneg maxWireBytes_nonneg)
  have r: "room w (maxWireBytes e + ?rest)" using Cons.prems(2) c by simp
  then have re: "room w (maxWireBytes e)" using rest by (simp add: room_def)
  have pos: "bm + int (i div 8) < w_indx w"
  proof -
    have "int (i div 8) < (int (i + length (c # cols)) + 7) div 8" by (simp add: zdiv_int)
    then show ?thesis using Cons.prems(4) by linarith
  qed
  have le: "bm \<le> w_indx w" using pos Cons.prems(3) by (meson le_add_same_cancel1 less_le_trans less_imp_le of_nat_0_le_iff order_trans)
  have step: "\<exists>err w'. writeColumns F bm (Suc i) cols w1 = Some (err, w') \<and> grows bm (maxWireBytes e + ?rest) w w'"
    if g: "grows bm (maxWireBytes e) w w1" for w1
  proof -
    have "\<exists>err w'. writeColumns F bm (Suc i) cols w1 = Some (err, w') \<and> grows bm ?rest w1 w'"
    proof (rule Cons.IH)
      show "list_all (\<lambda>(e, v). encoder_ok e) cols" using Cons.prems(1) by simp
      show "room w1 ?rest" using grows_room [OF g r rest] .
      show "0 \<le> bm" by (rule Cons.prems(3))
      show "bm + (int (Suc i + length cols) + 7) div 8 \<le> w_indx w1"
        using Cons.prems(4) g by (simp add: grows_def)
    qed
    then show ?thesis using grows_trans [OF g] by blast
  qed
  show ?case
  proof (cases "v = V_nil")
    case True
    obtain w0 where w0: "set_bit_at (bm + int (i div 8)) (7 - i mod 8) w = Some w0"
      "grows bm 0 w w0" "w_indx w0 = w_indx w" "length (w_buff w0) = length (w_buff w)"
      using set_bit_at_grows [of bm "bm + int (i div 8)" w "7 - i mod 8"] Cons.prems(3) pos re
        maxWireBytes_nonneg [OF ok] by (auto simp: room_def)
    have "room w0 (maxWireBytes e)" using re w0 by (simp add: room_def)
    then obtain w1 where w1: "writeNull e w0 = Some w1" "bounded (maxWireBytes e) w0 w1"
      using writeNull_bounded [OF ok] by blast
    have "grows bm (0 + maxWireBytes e) w w1"
      using grows_trans [OF w0(2) bounded_grows [OF w1(2)]] le w0(3) by simp
    then show ?thesis using step [of w1] True w0 w1 c by simp
  next
    case False
    obtain err w1 where w1: "writeValue F e v w = Some (err, w1)" "bounded (maxWireBytes e) w w1"
      using one_emit_bounded [OF writeValue_one [OF ok] re maxWireBytes_nonneg [OF ok]] by blast
    have g: "grows bm (maxWireBytes e) w w1" using bounded_grows [OF w1(2) le] .
    have "room w1 0" using g by (simp add: grows_def)
    then have "grows bm (maxWireBytes e + ?rest) w w1"
      using grows_trans [OF g grows_refl [OF _ rest]] by blast
    then show ?thesis using step [OF g] False w1 c by (cases err) (auto simp: errw_def)
  qed
qed

lemma sum_zip_encoders:
  "length values = length encoders \<Longrightarrow>
     sum_list (map (\<lambda>(e, v). maxWireBytes e) (zip encoders values)) = sum_list (map maxWireBytes encoders)"
  by (induction encoders "values" rule: list_induct2') auto

lemma writeFastLoadRow_bounded:
  assumes "list_all encoder_ok encoders" "room w (fastLoadMaxRowBytes encoders)"
  shows "\<exists>err w'. writeFastLoadRow F w encoders values n = Some (err, w')
    \<and> bounded (fastLoadMaxRowBytes encoders) w w' \<and> (err = None \<longrightarrow> w_indx w + 5 \<le> w_indx w')"
proof (cases "length values = length encoders")
  case False
  have "0 \<le> sum_list (map maxWireBytes encoders)"
    using assms(1) by (auto simp: list_all_iff intro!: sum_list_nonneg maxWireBytes_nonneg)
  then have "room w 0" "0 \<le> fastLoadMaxRowBytes encoders"
    using assms(2) by (auto simp: fastLoadMaxRowBytes_def room_def)
  then show ?thesis using False bounded_refl by (simp add: writeFastLoadRow_def errw_def)
next
  case True
  let ?b = "(int (length encoders) + 1 + 7) div 8" let ?s = "sum_list (map maxWireBytes encoders)"
  let ?cols = "zip encoders values"
  have nn: "0 \<le> ?s" using assms(1) by (auto simp: list_all_iff intro!: sum_list_nonneg maxWireBytes_nonneg)
  have b: "1 \<le> ?b" by simp
  have r: "room w (?b + ?s + 4)" using assms(2) by (simp add: fastLoadMaxRowBytes_def ac_simps)
  then have "room w ?b" using nn by (simp add: room_def)
  moreover have "wr_skip ?b w = emit (replicate (nat ?b) 0) w" using b by (intro wr_skip_emit) simp
  ultimately obtain w1 where w1: "wr_skip ?b w = Some w1" "bounded ?b w w1" "w_indx w1 = w_indx w + ?b"
    using emit_within [of w ?b "replicate (nat ?b) 0"] emit_frame(1) [of "replicate (nat ?b) 0" w] b by auto
  have g1: "grows (w_indx w) ?b w w1" using bounded_grows [OF w1(2)] by simp
  have "room w1 (?s + 4)" using grows_room [OF g1, of "?s + 4"] r nn by (simp add: add.assoc)
  moreover have "0 \<le> w_indx w" using r by (simp add: room_def)
  moreover have "list_all (\<lambda>(e, v). encoder_ok e) ?cols"
    using assms(1) by (auto simp: list_all_iff dest: set_zip_leftD)
  ultimately obtain err w2 where w2: "writeColumns F (w_indx w) 0 ?cols w1 = Some (err, w2)"
    "grows (w_indx w) ?s w1 w2"
  proof -
    assume *: "room w1 (?s + 4)" "0 \<le> w_indx w" "list_all (\<lambda>(e, v). encoder_ok e) ?cols"
    have "w_indx w + (int (0 + length ?cols) + 7) div 8 \<le> w_indx w1"
      using w1(3) True by (simp add: zdiv_mono1)
    moreover have "room w1 (sum_list (map (\<lambda>(e, v). maxWireBytes e) ?cols))"
      using *(1) True by (simp add: sum_zip_encoders room_def)
    ultimately show ?thesis
      using writeColumns_bounded [OF *(3) _ *(2), of w1 0 F] that True by (auto simp: sum_zip_encoders)
  qed
  have g2: "grows (w_indx w) (?b + ?s) w w2" using grows_trans [OF g1 w2(2)] .
  have r2: "room w2 4" using grows_room [OF g2, of 4] r by (simp add: ac_simps)
  obtain w3 where w3: "wr_u32 n w2 = Some w3" "bounded 4 w2 w3" "w_indx w3 = w_indx w2 + 4"
    using emit_within [OF r2, of "be_enc 4 (unat n)"] emit_frame(1) [of "be_enc 4 (unat n)" w2]
    by (auto simp: wr_u32_emit)
  have "w_indx w \<le> w_indx w2" using g2 by (simp add: grows_def)
  then have g3: "grows (w_indx w) (?b + ?s + 4) w w3"
    using grows_trans [OF g2 bounded_grows [OF w3(2)]] by simp
  have g2': "grows (w_indx w) (?b + ?s + 4) w w2"
    using grows_trans [OF g2 grows_refl [of w2 4]] g2 by (simp add: grows_def)
  have conv: "grows (w_indx w) k w x \<Longrightarrow> bounded k w x" for k x by (simp add: grows_def bounded_def)
  have m: "fastLoadMaxRowBytes encoders = ?b + ?s + 4" by (simp add: fastLoadMaxRowBytes_def)
  have "w_indx w + 5 \<le> w_indx w3"
    using w3(3) w2(2) w1(3) b by (simp add: grows_def)
  then show ?thesis
    using True w1(1) w2(1) w3(1) conv [OF g3] conv [OF g2'] unfolding m
    by (cases err) (auto simp: writeFastLoadRow_def wr_position_def okw_def errw_def Let_def)
qed

lemma columnEncoders_ok:
  assumes "columnEncoders items caps = Inr encoders"
    "list_all (\<lambda>item. 0 \<le> sint (getMaxLength item)) items"
  shows "list_all encoder_ok encoders"
  using assms
proof (induction items arbitrary: encoders)
  case (Cons item items)
  obtain e es where e: "newFastLoadColumnEncoder item caps = Inr e" "columnEncoders items caps = Inr es"
    "encoders = e # es"
    using Cons.prems(1) by (auto split: sum.splits)
  then show ?case
    using Cons.IH [OF e(2)] Cons.prems(2) newFastLoadColumnEncoder_ok [OF e(1)] by simp
qed simp

text \<open>C17: a bulk-load row never overruns the space set aside for it. For encoders made for the columns of
  the target and any values, with room for the largest row, writing a row returns (no panic), moves the
  cursor by at most the declared maximum, and changes nothing before the row, also when a value is
  rejected half way.\<close>
theorem fastload_row_bounded:
  assumes "columnEncoders items caps = Inr encoders"
    "list_all (\<lambda>item. 0 \<le> sint (getMaxLength item)) items" "room w (fastLoadMaxRowBytes encoders)"
  shows "\<exists>err w'. writeFastLoadRow F w encoders values n = Some (err, w')
    \<and> w_indx w \<le> w_indx w' \<and> w_indx w' \<le> w_indx w + fastLoadMaxRowBytes encoders
    \<and> length (w_buff w') = length (w_buff w)
    \<and> take (nat (w_indx w)) (w_buff w') = take (nat (w_indx w)) (w_buff w)"
proof -
  obtain err w' where "writeFastLoadRow F w encoders values n = Some (err, w')"
    "bounded (fastLoadMaxRowBytes encoders) w w'"
    using writeFastLoadRow_bounded [OF columnEncoders_ok [OF assms(1,2)] assms(3)] by blast
  then show ?thesis unfolding bounded_def by blast
qed

text \<open>A table with an integer and a character column; the second row has a null.\<close>

definition demo_float :: floatOps where
  "demo_float = \<lparr>fl_formatE = (\<lambda>_. []), fl_formatF = (\<lambda>_. []), fl_parse = (\<lambda>_. Inr 0),
     fl_ofInt64 = (\<lambda>_. 0), fl_ofFloat32 = (\<lambda>_. 0)\<rparr>"

definition demo_limited :: "u16 \<Rightarrow> u64 \<Rightarrow> metaItem" where
  "demo_limited t w = MetaLimited \<lparr>ml_itemNumberRcv = 0, ml_itemNumberTrn = 0, ml_dataType = t,
     ml_maxDataBytes = w, ml_numDigits = 0, ml_intervalDigits = 0, ml_fractionalDigits = 0\<rparr>"

definition demo_encoders :: "fastLoadColumnEncoder list" where
  "demo_encoders =
    [\<lparr>e_kind = fastLoadEncInteger, e_cast = ''INTEGER'', e_rowBytes = 4, e_maxLen = 0, e_width = 0,
      e_scale = 0, e_wide = False, e_nullText = []\<rparr>,
     \<lparr>e_kind = fastLoadEncVarchar, e_cast = ''VARCHAR(3)'', e_rowBytes = 5, e_maxLen = 3, e_width = 0,
      e_scale = 0, e_wide = False, e_nullText = []\<rparr>]"

lemma demo_columnEncoders:
  "columnEncoders [demo_limited tdInteger 4, demo_limited tdVarchar 3] caps = Inr demo_encoders"
proof -
  have t: "getTdBasicType tdInteger = tdInteger" "getTdBasicType tdVarchar = tdVarchar" by code_simp+
  have n: "dbNameForDataType tdInteger = ''INTEGER''" "sizedType ''VARCHAR'' 3 = ''VARCHAR(3)''" by code_simp+
  show ?thesis
    by (simp add: demo_limited_def demo_encoders_def newFastLoadColumnEncoder_def t n Let_def
        fastLoadTypeName_def fixedKind_def)
qed

theorem fastload_row_bounded_witness:
  "writeFastLoadRow demo_float (newBufferWriter (replicate 14 9)) demo_encoders [V_nil, V_string ''ab''] 7
     = Some (None, \<lparr>w_buff = [0x80, 0, 0, 0, 0, 0, 2, 97, 98, 0, 0, 0, 7, 9], w_indx = 13\<rparr>)
   \<and> (\<exists>err w'. writeFastLoadRow demo_float (newBufferWriter (replicate 14 9)) demo_encoders
          [V_nil, V_string ''ab''] 7 = Some (err, w')
        \<and> w_indx w' \<le> 14)"
proof
  show "writeFastLoadRow demo_float (newBufferWriter (replicate 14 9)) demo_encoders [V_nil, V_string ''ab''] 7
     = Some (None, \<lparr>w_buff = [0x80, 0, 0, 0, 0, 0, 2, 97, 98, 0, 0, 0, 7, 9], w_indx = 13\<rparr>)"
    by code_simp
  have m: "fastLoadMaxRowBytes demo_encoders = 14"
    by (simp add: fastLoadMaxRowBytes_def demo_encoders_def maxWireBytes_def)
  have r: "room (newBufferWriter (replicate 14 9)) (fastLoadMaxRowBytes demo_encoders)"
    unfolding m by (simp add: room_def newBufferWriter_def)
  have l: "list_all (\<lambda>item. 0 \<le> sint (getMaxLength item)) [demo_limited tdInteger 4, demo_limited tdVarchar 3]"
    by (simp add: demo_limited_def)
  have "w_indx (newBufferWriter b) = 0" for b by (simp add: newBufferWriter_def)
  then show "\<exists>err w'. writeFastLoadRow demo_float (newBufferWriter (replicate 14 9)) demo_encoders
          [V_nil, V_string ''ab''] 7 = Some (err, w') \<and> w_indx w' \<le> 14"
    using fastload_row_bounded [OF demo_columnEncoders l r, of demo_float "[V_nil, V_string ''ab'']" 7] m by auto
qed

end
