(* ===== verification/FastLoadChannel.thy ===== *)
theory FastLoadChannel
  imports FastLoadEncode
begin

text \<open>
  A data session of the bulk loader, src/fastload_data_channel.go: rows are encoded into the current
  batch; full batches go through the bounded Go channel \<open>pending\<close> to the sender goroutine and come back
  through \<open>free\<close>. The caller and the sender run concurrently: \<open>chan_step\<close> has one rule per atomic action
  of either of them. What the server answers to a batch is arbitrary.
\<close>

abbreviation fastLoadParcelHeaderLen :: int where "fastLoadParcelHeaderLen \<equiv> 4"
abbreviation fastLoadMaxParcelLen :: int where "fastLoadMaxParcelLen \<equiv> 65535"
definition fastLoadBuffersPerSession :: nat where "fastLoadBuffersPerSession = 2"
definition fastLoadRespondMaxMessageSize :: u16 where "fastLoadRespondMaxMessageSize = 65104"

definition fastLoadRespondParcel :: parcel where
  "fastLoadRespondParcel = RespondParcel fastLoadRespondMaxMessageSize"

section \<open>Batches\<close>

text \<open>\<open>fastLoadBatch.body\<close> is the buffer of its writer.\<close>

record fastLoadBatch =
  b_w :: bufferWriter
  b_rows :: int

definition batch_reset :: "fastLoadBatch \<Rightarrow> fastLoadBatch" where
  "batch_reset b = b\<lparr>b_w := wr_setPosition 0 (b_w b), b_rows := 0\<rparr>"

definition newBatch :: "int \<Rightarrow> fastLoadBatch" where
  "newBatch bodyLen = \<lparr>b_w = newBufferWriter (replicate (nat bodyLen) 0), b_rows = 0\<rparr>"

text \<open>\<open>binary.BigEndian.PutUint16(body[pos:], v)\<close>\<close>

definition putUint16 :: "int \<Rightarrow> u16 \<Rightarrow> bufferWriter \<Rightarrow> bufferWriter option" where
  "putUint16 pos v w = do {
     w' \<leftarrow> emit (be_enc 2 (unat v)) (wr_setPosition pos w);
     Some (wr_setPosition (w_indx w) w') }"

text \<open>The part of \<open>pushRow\<close> that encodes one row into the current batch.\<close>

definition pushInto ::
  "floatOps \<Rightarrow> fastLoadColumnEncoder list \<Rightarrow> fastLoadBatch \<Rightarrow> u32 \<Rightarrow> gvalue list
     \<Rightarrow> (goerror option \<times> fastLoadBatch) option" where
  "pushInto F encoders b rowNumber vals = do {
     let start = wr_position (b_w b);
     w \<leftarrow> wr_u16 flavorIndicData (b_w b);
     w \<leftarrow> wr_skip 2 w;
     (err, w) \<leftarrow> writeFastLoadRow F w encoders vals rowNumber;
     case err of
       Some err \<Rightarrow> Some (Some (Errorf ''fastload row %d: %w'' [err]), b\<lparr>b_w := wr_setPosition start w\<rparr>)
     | None \<Rightarrow> do {
         w \<leftarrow> putUint16 (start + 2) (word_of_int (wr_position w - start)) w;
         Some (None, b\<lparr>b_w := w, b_rows := b_rows b + 1\<rparr>) } }"

text \<open>A row parcel: flavor, its own length, the row.\<close>

definition row_parcel :: "byte list \<Rightarrow> bool" where
  "row_parcel p \<longleftrightarrow> length p < 65536 \<and>
     take 4 p = be_enc 2 (unat flavorIndicData) @ be_enc 2 (length p) \<and> 4 < length p"

text \<open>The rows a batch holds: its buffer starts with their parcels.\<close>

definition batch_holds :: "int \<Rightarrow> fastLoadBatch \<Rightarrow> byte list list \<Rightarrow> bool" where
  "batch_holds bodyLen b ps \<longleftrightarrow>
     int (length (w_buff (b_w b))) = bodyLen \<and> 0 \<le> w_indx (b_w b) \<and> w_indx (b_w b) \<le> bodyLen
     \<and> take (nat (w_indx (b_w b))) (w_buff (b_w b)) = concat ps
     \<and> b_rows b = int (length ps) \<and> list_all row_parcel ps"

lemma batch_holds_indx: "batch_holds n b ps \<Longrightarrow> w_indx (b_w b) = int (length (concat ps))"
proof -
  assume "batch_holds n b ps"
  then have "length (take (nat (w_indx (b_w b))) (w_buff (b_w b))) = length (concat ps)"
    "nat (w_indx (b_w b)) \<le> length (w_buff (b_w b))" "0 \<le> w_indx (b_w b)"
    by (auto simp: batch_holds_def)
  then show ?thesis by simp
qed

lemma batch_holds_new: "0 \<le> n \<Longrightarrow> batch_holds n (newBatch n) []"
  by (simp add: batch_holds_def newBatch_def newBufferWriter_def)

lemma batch_holds_reset: "batch_holds n b ps \<Longrightarrow> batch_holds n (batch_reset b) []"
  by (simp add: batch_holds_def batch_reset_def wr_setPosition_def)

lemma batch_empty_iff: "batch_holds n b ps \<Longrightarrow> b_rows b = 0 \<longleftrightarrow> ps = []"
  by (simp add: batch_holds_def)

lemma replicate_2: "replicate 2 x = [x, x]"
  by (simp add: numeral_2_eq_2)

lemma pushInto_holds:
  assumes ok: "list_all encoder_ok encoders" and h: "batch_holds bodyLen b ps"
    and room: "fastLoadParcelHeaderLen + fastLoadMaxRowBytes encoders \<le> bodyLen - w_indx (b_w b)"
    and max: "fastLoadParcelHeaderLen + fastLoadMaxRowBytes encoders \<le> fastLoadMaxParcelLen"
  shows "\<exists>err b'. pushInto F encoders b n vals = Some (err, b') \<and>
    (case err of Some _ \<Rightarrow> batch_holds bodyLen b' ps
     | None \<Rightarrow> \<exists>p. row_parcel p \<and> batch_holds bodyLen b' (ps @ [p]))"
proof -
  let ?w = "b_w b" let ?s = "w_indx ?w" let ?B = "w_buff ?w"
  let ?m = "fastLoadMaxRowBytes encoders"
  have s0: "0 \<le> ?s" and L: "int (length ?B) = bodyLen" and pre: "take (nat ?s) ?B = concat ps"
    using h by (auto simp: batch_holds_def)
  have m0: "0 \<le> ?m"
    using ok by (auto simp: fastLoadMaxRowBytes_def list_all_iff intro!: add_nonneg_nonneg sum_list_nonneg maxWireBytes_nonneg)
  let ?h = "be_enc 2 (unat flavorIndicData) @ [0, 0]"
  have r4: "room ?w 4" using room s0 L m0 by (simp add: room_def)
  obtain w1 where w1: "emit ?h ?w = Some w1" "bounded 4 ?w w1"
    using emit_within [OF r4, of ?h] by auto
  have z: "wr_skip 2 = emit [0, 0]" by (rule ext) (simp add: wr_skip_def replicate_2)
  have hd: "Option.bind (wr_u16 flavorIndicData ?w) (wr_skip 2) = Some w1"
    using w1(1) by (simp only: wr_u16_emit z emit_append)
  note f1 = emit_frame [OF w1(1)]
  have i1: "w_indx w1 = ?s + 4" using f1(1) by simp
  have rr: "room w1 ?m" using i1 f1(2) room s0 L by (simp add: room_def)
  obtain err w2 where w2: "writeFastLoadRow F w1 encoders vals n = Some (err, w2)"
    "bounded ?m w1 w2" "err = None \<longrightarrow> w_indx w1 + 5 \<le> w_indx w2"
    using writeFastLoadRow_bounded [OF ok rr] by blast
  have len2: "length (w_buff w2) = length ?B" using w2(2) f1(2) by (simp add: bounded_def)
  have le2: "w_indx w1 \<le> w_indx w2" "w_indx w2 \<le> ?s + 4 + ?m" "w_indx w2 \<le> bodyLen" "0 \<le> w_indx w2"
    using w2(2) i1 len2 L by (auto simp: bounded_def room_def)
  have c: "nat ?s = length (concat ps)" using batch_holds_indx [OF h] by simp
  have t2: "take (nat ?s + 4) (w_buff w2) = concat ps @ ?h"
  proof -
    have "take (nat (w_indx w1)) (w_buff w2) = take (nat (w_indx w1)) (w_buff w1)"
      using w2(2) by (simp add: bounded_def)
    moreover have "nat (w_indx w1) = nat ?s + 4" using i1 s0 by simp
    moreover have "take (nat ?s + 4) (w_buff w1) = concat ps @ ?h"
    proof -
      have "w_buff w1 = (concat ps @ ?h) @ drop (nat ?s + 4) ?B"
        using w1(1) pre by (simp add: emit_Some_iff)
      moreover have "nat ?s + 4 = length (concat ps @ ?h)" using c by (simp del: length_concat)
      ultimately show ?thesis by (simp del: length_concat)
    qed
    ultimately show ?thesis by simp
  qed
  have run: "pushInto F encoders b n vals =
    (case err of Some err \<Rightarrow> Some (Some (Errorf ''fastload row %d: %w'' [err]), b\<lparr>b_w := wr_setPosition ?s w2\<rparr>)
     | None \<Rightarrow> Option.bind (putUint16 (?s + 2) (word_of_int (wr_position w2 - ?s)) w2)
         (\<lambda>w. Some (None, b\<lparr>b_w := w, b_rows := b_rows b + 1\<rparr>)))"
  proof -
    obtain w0 where "wr_u16 flavorIndicData ?w = Some w0" "wr_skip 2 w0 = Some w1"
      using hd by (auto elim: bind_SomeE)
    then show ?thesis by (simp add: pushInto_def wr_position_def w2(1) Let_def split: option.split)
  qed
  show ?thesis
  proof (cases err)
    case (Some e)
    have "take (nat ?s) (w_buff w2) = concat ps"
      using arg_cong [OF t2, of "take (nat ?s)"] c by (simp del: length_concat)
    then have "batch_holds bodyLen (b\<lparr>b_w := wr_setPosition ?s w2\<rparr>) ps"
      using h len2 by (simp add: batch_holds_def wr_setPosition_def)
    then show ?thesis using run Some by simp
  next
    case None
    define n' where "n' = w_indx w2 - ?s"
    let ?n = n' let ?v = "word_of_int ?n :: u16" let ?l = "be_enc 2 (unat ?v)"
    let ?X = "drop (nat ?s + 4) (w_buff w2)"
    have n: "9 \<le> ?n" "?n \<le> 65535" using None w2(3) i1 le2 max by (auto simp: n'_def)
    have v: "unat ?v = nat ?n" using n by (simp add: unsigned_of_int take_bit_int_eq_self)
    have i2: "w_indx w2 = ?s + ?n" by (simp add: n'_def)
    have buff: "w_buff w2 = (concat ps @ be_enc 2 (unat flavorIndicData)) @ [0, 0] @ ?X"
      using append_take_drop_id [of "nat ?s + 4" "w_buff w2"] t2 by simp
    have r2: "room (wr_setPosition (?s + 2) w2) (int (length ?l))"
      using s0 le2 i1 len2 L by (simp add: room_def wr_setPosition_def)
    obtain w3 where w3: "emit ?l (wr_setPosition (?s + 2) w2) = Some w3" using emit_defined [OF r2] by blast
    have b3: "w_buff w3 = concat ps @ be_enc 2 (unat flavorIndicData) @ ?l @ ?X"
    proof -
      have "w_buff w3 = take (nat (?s + 2)) (w_buff w2) @ ?l @ drop (nat (?s + 2) + 2) (w_buff w2)"
        using w3 by (simp add: emit_Some_iff wr_setPosition_def)
      moreover have "nat (?s + 2) = length (concat ps @ be_enc 2 (unat flavorIndicData))"
        using c s0 by (simp del: length_concat)
      moreover have "drop (nat (?s + 2) + 2) (w_buff w2) = ?X"
      proof -
        have "nat (?s + 2) + 2 = nat ?s + 4" using s0 by linarith
        then show ?thesis by (rule arg_cong)
      qed
      moreover have "take (length (concat ps @ be_enc 2 (unat flavorIndicData))) (w_buff w2)
         = concat ps @ be_enc 2 (unat flavorIndicData)" by (subst buff) simp
      ultimately show ?thesis by (simp del: length_concat)
    qed
    let ?p = "be_enc 2 (unat flavorIndicData) @ ?l @ take (nat ?n - 4) ?X"
    have len: "length ?p = nat ?n" using n le2 len2 L s0 i2 by simp
    have "nat ?n < 65536" "4 < nat ?n" using n by linarith+
    then have "row_parcel ?p" using len v by (simp add: row_parcel_def)
    moreover have "take (nat (w_indx w2)) (w_buff w3) = concat (ps @ [?p])"
    proof -
      have "nat (w_indx w2) = length (concat ps) + nat ?n" using c s0 n i2 by (simp add: nat_add_distrib del: length_concat)
      moreover have "take (nat ?n) (be_enc 2 (unat flavorIndicData) @ ?l @ ?X) = ?p" using n by simp
      ultimately show ?thesis by (simp add: b3 del: length_concat)
    qed
    moreover have "length (w_buff w3) = length ?B"
      using emit_frame(2) [OF w3] len2 by (simp add: wr_setPosition_def)
    ultimately have "batch_holds bodyLen (b\<lparr>b_w := wr_setPosition (w_indx w2) w3, b_rows := b_rows b + 1\<rparr>) (ps @ [?p])"
      using h le2 by (simp add: batch_holds_def wr_setPosition_def)
    moreover have "putUint16 (?s + 2) ?v w2 = Some (wr_setPosition (w_indx w2) w3)"
      using w3 by (simp add: putUint16_def)
    ultimately show ?thesis using run None \<open>row_parcel ?p\<close> by (auto simp: wr_position_def n'_def [symmetric])
  qed
qed


section \<open>The channel\<close>

text \<open>
  Where the caller is: outside every method, at one of the points of \<open>pushRow\<close> where it may block or
  observe the sender, in \<open>dispatch\<close> called by a flush, in \<open>wait\<close> with the batches it holds, or in
  \<open>close\<close>. \<open>Panicked\<close> is a run-time panic of the row encoder.
\<close>

datatype fastLoadCaller =
    Idle
  | PushAcquire u32 "gvalue list"
  | PushFit u32 "gvalue list"
  | PushSend u32 "gvalue list"
  | PushReacquire u32 "gvalue list"
  | PushEncode u32 "gvalue list"
  | FlushSend
  | FlushAcquire
  | Waiting "fastLoadBatch list"
  | Closing
  | Finished
  | Panicked

text \<open>Where the sender goroutine (\<open>run\<close>) is, with the batch it has taken.\<close>

datatype fastLoadSender =
    Receiving
  | Checking fastLoadBatch
  | Sending fastLoadBatch
  | Returning fastLoadBatch
  | Done

text \<open>
  \<open>dc_closed\<close>: \<open>pending\<close> is closed. The last two fields are not in the code: the parcels of the rows for
  which \<open>pushRow\<close> returned nil, and the row data handed to the network so far.
\<close>

record fastLoadDataChannel =
  dc_encoders :: "fastLoadColumnEncoder list"
  dc_maxParcelLen :: int
  dc_cur :: "fastLoadBatch option"
  dc_pending :: "fastLoadBatch list"
  dc_free :: "fastLoadBatch list"
  dc_closed :: bool
  dc_rowsAccepted :: u64
  dc_err :: "goerror option"
  dc_broken :: bool
  dc_caller :: fastLoadCaller
  dc_sender :: fastLoadSender
  dc_accepted :: "byte list list"
  dc_sent :: "byte list"

definition startFastLoadDataChannel ::
  "fastLoadColumnEncoder list \<Rightarrow> int \<Rightarrow> goerror + fastLoadDataChannel" where
  "startFastLoadDataChannel encoders bodyLen =
     (let maxParcelLen = fastLoadParcelHeaderLen + fastLoadMaxRowBytes encoders in
      if maxParcelLen > fastLoadMaxParcelLen then
        Inl (Errorf ''%w: potential row size of %d bytes exceeds %d'' [ErrFastLoadUnsupported])
      else if maxParcelLen > bodyLen then
        Inl (Errorf ''%w: potential row size of %d bytes exceeds the %d byte message body'' [ErrFastLoadUnsupported])
      else Inr \<lparr>dc_encoders = encoders, dc_maxParcelLen = maxParcelLen,
                dc_cur = Some (newBatch bodyLen), dc_pending = [],
                dc_free = replicate (fastLoadBuffersPerSession - 1) (newBatch bodyLen),
                dc_closed = False, dc_rowsAccepted = 0, dc_err = None, dc_broken = False,
                dc_caller = Idle, dc_sender = Receiving, dc_accepted = [], dc_sent = []\<rparr>)"

definition fastLoadBodyLen :: "connectionCapabilities \<Rightarrow> Config \<Rightarrow> int" where
  "fastLoadBodyLen caps cfg =
     (let bodyLen = cap_maxRequestMessageBodySize caps;
          bodyLen = (if cfg_MaxMessageSize cfg > 0 \<and> cfg_MaxMessageSize cfg < bodyLen
                     then cfg_MaxMessageSize cfg else bodyLen)
      in bodyLen - getLength fastLoadRespondParcel)"

definition newFastLoadDataChannel ::
  "connectionCapabilities \<Rightarrow> fastLoadColumnEncoder list \<Rightarrow> Config \<Rightarrow> goerror + fastLoadDataChannel" where
  "newFastLoadDataChannel caps encoders cfg = startFastLoadDataChannel encoders (fastLoadBodyLen caps cfg)"

definition setFailure :: "goerror \<Rightarrow> fastLoadDataChannel \<Rightarrow> fastLoadDataChannel" where
  "setFailure err c = (if dc_err c = None then c\<lparr>dc_err := Some err\<rparr> else c)"

definition interrupt :: "goerror \<Rightarrow> fastLoadDataChannel \<Rightarrow> fastLoadDataChannel" where
  "interrupt err c = setFailure err c\<lparr>dc_broken := True\<rparr>"

text \<open>\<open>sendBatch\<close> after an exchange that failed with \<open>err\<close>: the error it returns, and the channel.\<close>

definition sendBatch_failed :: "goerror \<Rightarrow> fastLoadDataChannel \<Rightarrow> goerror \<times> fastLoadDataChannel" where
  "sendBatch_failed err c =
     (if isConnectionError err then
        (case dc_err c of
           Some cause \<Rightarrow> (if isDeadlineErr err then cause else err)
         | None \<Rightarrow> err, c\<lparr>dc_broken := True\<rparr>)
      else (err, c))"

definition rowTooLong :: "fastLoadDataChannel \<Rightarrow> fastLoadBatch \<Rightarrow> bool" where
  "rowTooLong c b \<longleftrightarrow> int (length (w_buff (b_w b))) - wr_position (b_w b) < dc_maxParcelLen c"

definition inHand :: "fastLoadDataChannel \<Rightarrow> nat" where
  "inHand c = (if dc_cur c = None then 0 else 1)"

text \<open>\<open>b.body[:b.w.position()]\<close>, and the part of it a push has added.\<close>

definition batch_body :: "fastLoadBatch \<Rightarrow> byte list" where
  "batch_body b = take (nat (w_indx (b_w b))) (w_buff (b_w b))"

definition pushed_parcel :: "fastLoadBatch \<Rightarrow> fastLoadBatch \<Rightarrow> byte list" where
  "pushed_parcel b b' = drop (nat (w_indx (b_w b))) (batch_body b')"

section \<open>The steps\<close>

text \<open>
  The sender: \<open>for b := range c.pending\<close>. A send into \<open>free\<close> blocks while it is full. The exchange with
  the server has any outcome: a row count or an error.
\<close>

inductive sender_step :: "fastLoadDataChannel \<Rightarrow> fastLoadDataChannel \<Rightarrow> bool" where
  take: "dc_sender c = Receiving \<Longrightarrow> dc_pending c = b # bs \<Longrightarrow>
     sender_step c (c\<lparr>dc_sender := Checking b, dc_pending := bs\<rparr>)"
| stop: "dc_sender c = Receiving \<Longrightarrow> dc_pending c = [] \<Longrightarrow> dc_closed c \<Longrightarrow>
     sender_step c (c\<lparr>dc_sender := Done\<rparr>)"
| clear: "dc_sender c = Checking b \<Longrightarrow> dc_err c = None \<Longrightarrow> sender_step c (c\<lparr>dc_sender := Sending b\<rparr>)"
| skip: "dc_sender c = Checking b \<Longrightarrow> dc_err c = Some e \<Longrightarrow> sender_step c (c\<lparr>dc_sender := Returning b\<rparr>)"
| sent: "dc_sender c = Sending b \<Longrightarrow>
     sender_step c (c\<lparr>dc_sender := Returning b, dc_sent := dc_sent c @ batch_body b,
                      dc_rowsAccepted := dc_rowsAccepted c + n\<rparr>)"
| failed: "dc_sender c = Sending b \<Longrightarrow> sendBatch_failed e c = (err, c') \<Longrightarrow>
     sender_step c (setFailure err (c'\<lparr>dc_sender := Returning b, dc_sent := dc_sent c @ batch_body b\<rparr>))"
| return: "dc_sender c = Returning b \<Longrightarrow> length (dc_free c) < fastLoadBuffersPerSession \<Longrightarrow>
     sender_step c (c\<lparr>dc_sender := Receiving, dc_free := dc_free c @ [batch_reset b]\<rparr>)"

text \<open>The caller. A receive from \<open>free\<close> blocks while it is empty, a send into \<open>pending\<close> while it is full.\<close>

inductive caller_step :: "floatOps \<Rightarrow> fastLoadDataChannel \<Rightarrow> fastLoadDataChannel \<Rightarrow> bool" for F where
  push: "dc_caller c = Idle \<Longrightarrow> \<not> dc_closed c \<Longrightarrow> dc_err c = None \<Longrightarrow>
     caller_step F c (c\<lparr>dc_caller := (if dc_cur c = None then PushAcquire n vs else PushFit n vs)\<rparr>)"
| push_acquire: "dc_caller c = PushAcquire n vs \<Longrightarrow> dc_free c = b # fr \<Longrightarrow>
     caller_step F c (c\<lparr>dc_cur := Some b, dc_free := fr, dc_caller := PushFit n vs\<rparr>)"
| push_fit: "dc_caller c = PushFit n vs \<Longrightarrow> dc_cur c = Some b \<Longrightarrow>
     caller_step F c (c\<lparr>dc_caller :=
       (if rowTooLong c b \<and> b_rows b \<noteq> 0 then PushSend n vs else PushEncode n vs)\<rparr>)"
| push_send: "dc_caller c = PushSend n vs \<Longrightarrow> dc_cur c = Some b \<Longrightarrow>
     length (dc_pending c) < fastLoadBuffersPerSession \<Longrightarrow>
     caller_step F c (c\<lparr>dc_pending := dc_pending c @ [b], dc_cur := None, dc_caller := PushReacquire n vs\<rparr>)"
| push_reacquire: "dc_caller c = PushReacquire n vs \<Longrightarrow> dc_free c = b # fr \<Longrightarrow>
     caller_step F c (c\<lparr>dc_cur := Some b, dc_free := fr, dc_caller := PushEncode n vs\<rparr>)"
| push_done: "dc_caller c = PushEncode n vs \<Longrightarrow> dc_cur c = Some b \<Longrightarrow>
     pushInto F (dc_encoders c) b n vs = Some (None, b') \<Longrightarrow>
     caller_step F c (c\<lparr>dc_cur := Some b', dc_caller := Idle,
                        dc_accepted := dc_accepted c @ [pushed_parcel b b']\<rparr>)"
| push_rejected: "dc_caller c = PushEncode n vs \<Longrightarrow> dc_cur c = Some b \<Longrightarrow>
     pushInto F (dc_encoders c) b n vs = Some (Some e, b') \<Longrightarrow>
     caller_step F c (c\<lparr>dc_cur := Some b', dc_caller := Idle\<rparr>)"
| push_panic: "dc_caller c = PushEncode n vs \<Longrightarrow> dc_cur c = Some b \<Longrightarrow>
     pushInto F (dc_encoders c) b n vs = None \<Longrightarrow> caller_step F c (c\<lparr>dc_caller := Panicked\<rparr>)"
| flush: "dc_caller c = Idle \<Longrightarrow> \<not> dc_closed c \<Longrightarrow> dc_cur c = Some b \<Longrightarrow> b_rows b \<noteq> 0 \<Longrightarrow>
     caller_step F c (c\<lparr>dc_caller := FlushSend\<rparr>)"
| flush_send: "dc_caller c = FlushSend \<Longrightarrow> dc_cur c = Some b \<Longrightarrow>
     length (dc_pending c) < fastLoadBuffersPerSession \<Longrightarrow>
     caller_step F c (c\<lparr>dc_pending := dc_pending c @ [b], dc_cur := None, dc_caller := FlushAcquire\<rparr>)"
| flush_acquire: "dc_caller c = FlushAcquire \<Longrightarrow> dc_free c = b # fr \<Longrightarrow>
     caller_step F c (c\<lparr>dc_cur := Some b, dc_free := fr, dc_caller := Idle\<rparr>)"
| wait_start: "dc_caller c = Idle \<Longrightarrow> caller_step F c (c\<lparr>dc_caller := Waiting []\<rparr>)"
| wait_hold: "dc_caller c = Waiting held \<Longrightarrow> length held + inHand c < fastLoadBuffersPerSession \<Longrightarrow>
     dc_free c = b # fr \<Longrightarrow> caller_step F c (c\<lparr>dc_caller := Waiting (held @ [b]), dc_free := fr\<rparr>)"
| wait_done: "dc_caller c = Waiting held \<Longrightarrow> \<not> length held + inHand c < fastLoadBuffersPerSession \<Longrightarrow>
     caller_step F c (c\<lparr>dc_caller := Idle, dc_free := dc_free c @ held\<rparr>)"
| acquire_interrupted: "(\<exists>n vs. dc_caller c \<in> {PushAcquire n vs, PushReacquire n vs, FlushAcquire}) \<Longrightarrow>
     caller_step F c ((interrupt e c)\<lparr>dc_caller := Idle\<rparr>)"
| wait_interrupted: "dc_caller c = Waiting held \<Longrightarrow> length held + inHand c < fastLoadBuffersPerSession \<Longrightarrow>
     caller_step F c ((interrupt e c)\<lparr>dc_caller := Idle, dc_free := dc_free c @ held\<rparr>)"
| close: "dc_caller c = Idle \<Longrightarrow> \<not> dc_closed c \<Longrightarrow>
     caller_step F c (c\<lparr>dc_closed := True, dc_caller := Closing\<rparr>)"
| close_interrupted: "dc_caller c = Closing \<Longrightarrow> caller_step F c (interrupt e c)"
| close_done: "dc_caller c = Closing \<Longrightarrow> dc_sender c = Done \<Longrightarrow>
     caller_step F c (c\<lparr>dc_caller := Finished\<rparr>)"

definition chan_step :: "floatOps \<Rightarrow> fastLoadDataChannel \<Rightarrow> fastLoadDataChannel \<Rightarrow> bool" where
  "chan_step F c c' \<longleftrightarrow> caller_step F c c' \<or> sender_step c c'"


section \<open>Invariants\<close>

fun caller_held :: "fastLoadCaller \<Rightarrow> fastLoadBatch list" where
  "caller_held (Waiting held) = held"
| "caller_held _ = []"

fun sender_batch :: "fastLoadSender \<Rightarrow> fastLoadBatch list" where
  "sender_batch (Checking b) = [b]"
| "sender_batch (Sending b) = [b]"
| "sender_batch (Returning b) = [b]"
| "sender_batch _ = []"

text \<open>The batches that exist, and whether the caller has one where it needs one.\<close>

definition batch_count :: "fastLoadDataChannel \<Rightarrow> nat" where
  "batch_count c = length (dc_pending c) + length (dc_free c) + inHand c
     + length (sender_batch (dc_sender c)) + length (caller_held (dc_caller c))"

fun caller_needs :: "fastLoadCaller \<Rightarrow> bool \<Rightarrow> bool" where
  "caller_needs (PushFit n vs) has = has"
| "caller_needs (PushSend n vs) has = has"
| "caller_needs (PushEncode n vs) has = has"
| "caller_needs FlushSend has = has"
| "caller_needs (PushAcquire n vs) has = (\<not> has)"
| "caller_needs (PushReacquire n vs) has = (\<not> has)"
| "caller_needs FlushAcquire has = (\<not> has)"
| "caller_needs _ has = True"

definition count_inv :: "fastLoadDataChannel \<Rightarrow> bool" where
  "count_inv c \<longleftrightarrow> batch_count c = fastLoadBuffersPerSession
     \<and> caller_needs (dc_caller c) (dc_cur c \<noteq> None)
     \<and> (dc_sender c = Done \<longrightarrow> dc_pending c = [] \<and> dc_closed c)
     \<and> (dc_closed c \<longleftrightarrow> dc_caller c \<in> {Closing, Finished})"

lemma setFailure_frame [simp]:
  "dc_pending (setFailure e c) = dc_pending c" "dc_free (setFailure e c) = dc_free c"
  "dc_cur (setFailure e c) = dc_cur c" "dc_caller (setFailure e c) = dc_caller c"
  "dc_sender (setFailure e c) = dc_sender c" "dc_closed (setFailure e c) = dc_closed c"
  "dc_accepted (setFailure e c) = dc_accepted c" "dc_sent (setFailure e c) = dc_sent c"
  "dc_encoders (setFailure e c) = dc_encoders c" "dc_maxParcelLen (setFailure e c) = dc_maxParcelLen c"
  "dc_err (setFailure e c) \<noteq> None"
  by (auto simp: setFailure_def)

lemma interrupt_frame [simp]:
  "dc_pending (interrupt e c) = dc_pending c" "dc_free (interrupt e c) = dc_free c"
  "dc_cur (interrupt e c) = dc_cur c" "dc_caller (interrupt e c) = dc_caller c"
  "dc_sender (interrupt e c) = dc_sender c" "dc_closed (interrupt e c) = dc_closed c"
  "dc_accepted (interrupt e c) = dc_accepted c" "dc_sent (interrupt e c) = dc_sent c"
  "dc_encoders (interrupt e c) = dc_encoders c" "dc_maxParcelLen (interrupt e c) = dc_maxParcelLen c"
  "dc_err (interrupt e c) \<noteq> None"
  by (auto simp: interrupt_def)

lemma sendBatch_failed_broken:
  assumes "sendBatch_failed e c = (err, c')"
  shows "c' = c\<lparr>dc_broken := dc_broken c \<or> isConnectionError e\<rparr>"
  using assms by (auto simp: sendBatch_failed_def split: if_splits)

lemma count_inv_caller: "caller_step F c c' \<Longrightarrow> count_inv c \<Longrightarrow> count_inv c'"
  by (induction rule: caller_step.induct)
    (auto simp: count_inv_def batch_count_def inHand_def split: if_splits)

lemma count_inv_sender: "sender_step c c' \<Longrightarrow> count_inv c \<Longrightarrow> count_inv c'"
  by (induction rule: sender_step.induct)
    (auto simp: count_inv_def batch_count_def inHand_def dest!: sendBatch_failed_broken)

section \<open>What the batches hold\<close>

fun sender_holds :: "int \<Rightarrow> fastLoadSender \<Rightarrow> byte list list \<Rightarrow> bool" where
  "sender_holds n (Checking b) ps = batch_holds n b ps"
| "sender_holds n (Sending b) ps = batch_holds n b ps"
| "sender_holds n (Returning b) ps = (ps = [] \<and> (\<exists>qs. batch_holds n b qs))"
| "sender_holds n _ ps = (ps = [])"

definition cur_holds :: "int \<Rightarrow> fastLoadBatch option \<Rightarrow> byte list list \<Rightarrow> bool" where
  "cur_holds n cur ps = (case cur of None \<Rightarrow> ps = [] | Some b \<Rightarrow> batch_holds n b ps)"

text \<open>
  The rows accepted so far are, in order: those sent, those dropped after a failure, those with the
  sender, those pending and those in the current batch.
\<close>

definition split_inv ::
  "int \<Rightarrow> fastLoadDataChannel \<Rightarrow> byte list list \<Rightarrow> byte list list \<Rightarrow> byte list list
     \<Rightarrow> byte list list list \<Rightarrow> byte list list \<Rightarrow> bool" where
  "split_inv n c handed dropped taken pend cur \<longleftrightarrow>
     list_all row_parcel (dc_accepted c)
     \<and> handed @ dropped @ taken @ concat pend @ cur = dc_accepted c
     \<and> dc_sent c = concat handed
     \<and> sender_holds n (dc_sender c) taken
     \<and> list_all2 (batch_holds n) (dc_pending c) pend
     \<and> cur_holds n (dc_cur c) cur
     \<and> (dropped \<noteq> [] \<longrightarrow> dc_err c \<noteq> None \<and> (\<forall>b. dc_sender c \<noteq> Sending b))"

definition encode_room :: "fastLoadDataChannel \<Rightarrow> bool" where
  "encode_room c \<longleftrightarrow>
     (\<forall>m vs b. dc_caller c = PushEncode m vs \<and> dc_cur c = Some b \<longrightarrow> \<not> rowTooLong c b)"

definition fits_inv :: "int \<Rightarrow> fastLoadDataChannel \<Rightarrow> bool" where
  "fits_inv n c \<longleftrightarrow> list_all encoder_ok (dc_encoders c)
     \<and> fastLoadParcelHeaderLen + fastLoadMaxRowBytes (dc_encoders c) = dc_maxParcelLen c
     \<and> dc_maxParcelLen c \<le> fastLoadMaxParcelLen \<and> dc_maxParcelLen c \<le> n
     \<and> list_all (\<lambda>b. batch_holds n b []) (dc_free c @ caller_held (dc_caller c))
     \<and> dc_caller c \<noteq> Panicked
     \<and> encode_room c"

definition chan_inv :: "int \<Rightarrow> fastLoadDataChannel \<Rightarrow> bool" where
  "chan_inv n c \<longleftrightarrow> count_inv c \<and> fits_inv n c \<and> (\<exists>handed dropped taken pend cur. split_inv n c handed dropped taken pend cur)"


lemma batch_body_holds: "batch_holds n b ps \<Longrightarrow> batch_body b = concat ps"
  by (simp add: batch_holds_def batch_body_def)

lemma rowTooLong_empty:
  assumes h: "batch_holds n b ps" and "b_rows b = 0" "dc_maxParcelLen c \<le> n"
  shows "\<not> rowTooLong c b"
proof -
  have "ps = []" using batch_empty_iff [OF h] assms(2) by simp
  then have "w_indx (b_w b) = 0" using batch_holds_indx [OF h] by simp
  then show ?thesis using h assms(3) by (simp add: rowTooLong_def wr_position_def batch_holds_def)
qed

lemma pushInto_keeps:
  assumes f: "fits_inv n c" and h: "batch_holds n b ps" and r: "\<not> rowTooLong c b"
  shows "\<exists>err b'. pushInto F (dc_encoders c) b k vs = Some (err, b') \<and>
    (case err of Some _ \<Rightarrow> batch_holds n b' ps | None \<Rightarrow> batch_holds n b' (ps @ [pushed_parcel b b']))"
proof -
  have "dc_maxParcelLen c \<le> n - w_indx (b_w b)"
    using h r by (simp add: rowTooLong_def wr_position_def batch_holds_def)
  then have "fastLoadParcelHeaderLen + fastLoadMaxRowBytes (dc_encoders c) \<le> n - w_indx (b_w b)"
    using f by (simp add: fits_inv_def)
  moreover have "list_all encoder_ok (dc_encoders c)"
    "fastLoadParcelHeaderLen + fastLoadMaxRowBytes (dc_encoders c) \<le> fastLoadMaxParcelLen"
    using f by (simp_all add: fits_inv_def)
  ultimately obtain err b' where p: "pushInto F (dc_encoders c) b k vs = Some (err, b')"
    "case err of Some _ \<Rightarrow> batch_holds n b' ps | None \<Rightarrow> \<exists>p. row_parcel p \<and> batch_holds n b' (ps @ [p])"
    using pushInto_holds [OF _ h, of "dc_encoders c" F k vs] by blast
  have "pushed_parcel b b' = q" if q: "batch_holds n b' (ps @ [q])" for q
    using batch_body_holds [OF q] batch_holds_indx [OF h] by (simp add: pushed_parcel_def del: length_concat)
  then show ?thesis using p by (cases err) auto
qed

lemma fits_inv_frame:
  assumes "fits_inv n c" "dc_encoders c' = dc_encoders c" "dc_maxParcelLen c' = dc_maxParcelLen c"
    "dc_free c' = dc_free c" "dc_caller c' = dc_caller c" "dc_cur c' = dc_cur c"
  shows "fits_inv n c'"
  using assms by (simp add: fits_inv_def encode_room_def rowTooLong_def)

lemma fits_inv_sender:
  assumes "sender_step c c'" "fits_inv n c" "split_inv n c handed dropped taken pend cur"
  shows "fits_inv n c'"
  using assms
proof (induction rule: sender_step.induct)
  case (return c b)
  then obtain ps where "batch_holds n b ps" by (auto simp: split_inv_def)
  then have "batch_holds n (batch_reset b) []" by (rule batch_holds_reset)
  then show ?case using return by (simp add: fits_inv_def encode_room_def rowTooLong_def)
next
  case (failed c b e err c')
  from failed(3) show ?case
    by (rule fits_inv_frame) (simp_all add: sendBatch_failed_broken [OF failed(2)])
qed (erule fits_inv_frame; simp)+

lemma split_inv_sender:
  assumes "sender_step c c'" "split_inv n c handed dropped taken pend cur"
  shows "\<exists>handed dropped taken pend cur. split_inv n c' handed dropped taken pend cur"
  using assms
proof (induction rule: sender_step.induct)
  case (take c b bs)
  then obtain p ps where "pend = p # ps" by (auto simp: split_inv_def list_all2_Cons1)
  then have "split_inv n (c\<lparr>dc_sender := Checking b, dc_pending := bs\<rparr>) handed dropped p ps cur"
    using take by (auto simp: split_inv_def)
  then show ?case by blast
next
  case (stop c)
  then have "split_inv n (c\<lparr>dc_sender := Done\<rparr>) handed dropped taken pend cur"
    by (auto simp: split_inv_def)
  then show ?case by blast
next
  case (clear c b)
  then have "split_inv n (c\<lparr>dc_sender := Sending b\<rparr>) handed dropped taken pend cur"
    by (auto simp: split_inv_def)
  then show ?case by blast
next
  case (skip c b e)
  then have "split_inv n (c\<lparr>dc_sender := Returning b\<rparr>) handed (dropped @ taken) [] pend cur"
    by (auto simp: split_inv_def)
  then show ?case by blast
next
  case (sent c b k)
  then have "batch_holds n b taken" "dropped = []" by (auto simp: split_inv_def)
  then have "split_inv n (c\<lparr>dc_sender := Returning b, dc_sent := dc_sent c @ batch_body b,
      dc_rowsAccepted := dc_rowsAccepted c + k\<rparr>) (handed @ taken) [] [] pend cur"
    using sent by (auto simp: split_inv_def batch_body_holds)
  then show ?case by blast
next
  case (failed c b e err c')
  then have "batch_holds n b taken" "dropped = []" by (auto simp: split_inv_def)
  then have "split_inv n (setFailure err (c'\<lparr>dc_sender := Returning b, dc_sent := dc_sent c @ batch_body b\<rparr>))
      (handed @ taken) [] [] pend cur"
    using failed by (auto simp: split_inv_def batch_body_holds dest!: sendBatch_failed_broken)
  then show ?case by blast
next
  case (return c b)
  then have "split_inv n (c\<lparr>dc_sender := Receiving, dc_free := dc_free c @ [batch_reset b]\<rparr>) handed dropped [] pend cur"
    by (auto simp: split_inv_def)
  then show ?case by blast
qed


lemma fits_inv_idle:
  assumes "fits_inv n c" "dc_encoders c' = dc_encoders c" "dc_maxParcelLen c' = dc_maxParcelLen c"
    "list_all (\<lambda>b. batch_holds n b []) (dc_free c' @ caller_held (dc_caller c'))"
    "\<forall>m vs. dc_caller c' \<noteq> PushEncode m vs" "dc_caller c' \<noteq> Panicked"
  shows "fits_inv n c'"
  using assms by (simp add: fits_inv_def encode_room_def)

lemma fits_inv_held: "fits_inv n c \<Longrightarrow> list_all (\<lambda>b. batch_holds n b []) (dc_free c @ caller_held (dc_caller c))"
  by (simp add: fits_inv_def)

lemma fits_inv_caller:
  assumes "caller_step F c c'" "fits_inv n c" "split_inv n c handed dropped taken pend cur"
  shows "fits_inv n c'"
  using assms
proof (induction rule: caller_step.induct)
  case (push_fit c k vs b)
  then have h: "batch_holds n b cur" and m: "dc_maxParcelLen c \<le> n"
    by (auto simp: split_inv_def cur_holds_def fits_inv_def)
  have "\<not> rowTooLong c b" if "\<not> (rowTooLong c b \<and> b_rows b \<noteq> 0)"
    using that rowTooLong_empty [OF h _ m] by blast
  then show ?case using push_fit by (auto simp: fits_inv_def encode_room_def rowTooLong_def)
next
  case (push_reacquire c k vs b fr)
  then have h: "batch_holds n b []" and m: "dc_maxParcelLen c \<le> n" by (auto simp: fits_inv_def)
  have "\<not> rowTooLong c b" using rowTooLong_empty [OF h _ m] h by (simp add: batch_empty_iff)
  then show ?case using push_reacquire by (auto simp: fits_inv_def encode_room_def rowTooLong_def)
next
  case (push_panic c k vs b)
  then have "batch_holds n b cur" "\<not> rowTooLong c b"
    by (auto simp: split_inv_def cur_holds_def fits_inv_def encode_room_def)
  then show ?case using pushInto_keeps [OF push_panic(4), of b cur F k vs] push_panic(3) by simp
qed (frule fits_inv_held, erule fits_inv_idle; auto split: if_splits)+

lemma split_inv_frame:
  assumes "split_inv n c handed dropped taken pend cur" "dc_accepted c' = dc_accepted c"
    "dc_sent c' = dc_sent c" "dc_sender c' = dc_sender c" "dc_pending c' = dc_pending c"
    "dc_cur c' = dc_cur c" "dc_err c \<noteq> None \<longrightarrow> dc_err c' \<noteq> None"
  shows "\<exists>handed dropped taken pend cur. split_inv n c' handed dropped taken pend cur"
proof -
  have "split_inv n c' handed dropped taken pend cur" using assms by (simp add: split_inv_def)
  then show ?thesis by blast
qed

lemma split_inv_acquire:
  assumes "split_inv n c handed dropped taken pend cur" "fits_inv n c" "dc_free c = b # fr" "dc_cur c = None"
  shows "\<exists>handed dropped taken pend cur.
    split_inv n (c\<lparr>dc_cur := Some b, dc_free := fr, dc_caller := p\<rparr>) handed dropped taken pend cur"
proof -
  have "split_inv n (c\<lparr>dc_cur := Some b, dc_free := fr, dc_caller := p\<rparr>) handed dropped taken pend []"
    using assms by (auto simp: split_inv_def cur_holds_def fits_inv_def)
  then show ?thesis by blast
qed

lemma split_inv_send:
  assumes "split_inv n c handed dropped taken pend cur" "dc_cur c = Some b"
  shows "\<exists>handed dropped taken pend cur.
    split_inv n (c\<lparr>dc_pending := dc_pending c @ [b], dc_cur := None, dc_caller := p\<rparr>) handed dropped taken pend cur"
proof -
  have "split_inv n (c\<lparr>dc_pending := dc_pending c @ [b], dc_cur := None, dc_caller := p\<rparr>)
      handed dropped taken (pend @ [cur]) []"
    using assms by (auto simp: split_inv_def cur_holds_def intro: list_all2_appendI)
  then show ?thesis by blast
qed

lemma split_inv_caller:
  assumes "caller_step F c c'" "fits_inv n c" "count_inv c" "split_inv n c handed dropped taken pend cur"
  shows "\<exists>handed dropped taken pend cur. split_inv n c' handed dropped taken pend cur"
  using assms
proof (induction rule: caller_step.induct)
  case (push_acquire c k vs b fr)
  then have "dc_cur c = None" by (simp add: count_inv_def)
  then show ?case by (rule split_inv_acquire [OF push_acquire(5,3,2)])
next
  case (push_reacquire c k vs b fr)
  then have "dc_cur c = None" by (simp add: count_inv_def)
  then show ?case by (rule split_inv_acquire [OF push_reacquire(5,3,2)])
next
  case (flush_acquire c b fr)
  then have "dc_cur c = None" by (simp add: count_inv_def)
  then show ?case by (rule split_inv_acquire [OF flush_acquire(5,3,2)])
next
  case (push_send c k vs b)
  show ?case by (rule split_inv_send [OF push_send(6,2)])
next
  case (flush_send c b)
  show ?case by (rule split_inv_send [OF flush_send(6,2)])
next
  case (push_done c k vs b b')
  then have h: "batch_holds n b cur" "\<not> rowTooLong c b"
    by (auto simp: split_inv_def cur_holds_def fits_inv_def encode_room_def)
  have b: "batch_holds n b' (cur @ [pushed_parcel b b'])"
    using pushInto_keeps [OF push_done(4) h, of F k vs] push_done(3) by auto
  then have "row_parcel (pushed_parcel b b')" by (simp add: batch_holds_def)
  then have "split_inv n (c\<lparr>dc_cur := Some b', dc_caller := Idle,
      dc_accepted := dc_accepted c @ [pushed_parcel b b']\<rparr>) handed dropped taken pend (cur @ [pushed_parcel b b'])"
    using push_done b by (simp add: split_inv_def cur_holds_def)
  then show ?case by blast
next
  case (push_rejected c k vs b e b')
  then have h: "batch_holds n b cur" "\<not> rowTooLong c b"
    by (auto simp: split_inv_def cur_holds_def fits_inv_def encode_room_def)
  have "batch_holds n b' cur"
    using pushInto_keeps [OF push_rejected(4) h, of F k vs] push_rejected(3) by auto
  then have "split_inv n (c\<lparr>dc_cur := Some b', dc_caller := Idle\<rparr>) handed dropped taken pend cur"
    using push_rejected by (simp add: split_inv_def cur_holds_def)
  then show ?case by blast
qed (erule split_inv_frame; simp)+

lemma chan_inv_step:
  assumes "chan_step F c c'" "chan_inv n c"
  shows "chan_inv n c'"
proof -
  obtain handed dropped taken pend cur where s: "split_inv n c handed dropped taken pend cur"
    and i: "count_inv c" "fits_inv n c" using assms(2) unfolding chan_inv_def by blast
  from assms(1) consider "caller_step F c c'" | "sender_step c c'" unfolding chan_step_def by blast
  then show ?thesis
  proof cases
    case 1
    then show ?thesis unfolding chan_inv_def
      using count_inv_caller [OF 1 i(1)] fits_inv_caller [OF 1 i(2) s] split_inv_caller [OF 1 i(2,1) s] by (intro conjI)
  next
    case 2
    then show ?thesis unfolding chan_inv_def
      using count_inv_sender [OF 2 i(1)] fits_inv_sender [OF 2 i(2) s] split_inv_sender [OF 2 s] by (intro conjI)
  qed
qed

lemma chan_inv_start:
  assumes "startFastLoadDataChannel encoders n = Inr c" "list_all encoder_ok encoders"
  shows "chan_inv n c"
proof -
  let ?m = "fastLoadParcelHeaderLen + fastLoadMaxRowBytes encoders"
  have m: "0 \<le> fastLoadMaxRowBytes encoders"
    using assms(2) by (auto simp: fastLoadMaxRowBytes_def list_all_iff
        intro!: add_nonneg_nonneg sum_list_nonneg maxWireBytes_nonneg)
  have b: "?m \<le> fastLoadMaxParcelLen" "?m \<le> n"
    using assms(1) by (auto simp: startFastLoadDataChannel_def Let_def split: if_splits)
  then have n: "0 \<le> n" using m by simp
  have c: "c = \<lparr>dc_encoders = encoders, dc_maxParcelLen = ?m,
                dc_cur = Some (newBatch n), dc_pending = [],
                dc_free = [newBatch n],
                dc_closed = False, dc_rowsAccepted = 0, dc_err = None, dc_broken = False,
                dc_caller = Idle, dc_sender = Receiving, dc_accepted = [], dc_sent = []\<rparr>"
    using assms(1) b by (simp add: startFastLoadDataChannel_def Let_def fastLoadBuffersPerSession_def)
  have "count_inv c" by (simp add: c count_inv_def batch_count_def inHand_def fastLoadBuffersPerSession_def)
  moreover have "fits_inv n c"
    using assms(2) b batch_holds_new [OF n] by (simp add: c fits_inv_def encode_room_def)
  moreover have "split_inv n c [] [] [] [] []"
    using batch_holds_new [OF n] by (simp add: c split_inv_def cur_holds_def)
  ultimately show ?thesis unfolding chan_inv_def by blast
qed


section \<open>Delivery and progress\<close>

definition chan_reaches :: "floatOps \<Rightarrow> fastLoadDataChannel \<Rightarrow> fastLoadDataChannel \<Rightarrow> bool" where
  "chan_reaches F = (chan_step F)\<^sup>*\<^sup>*"

lemma chan_inv_reach:
  assumes "chan_reaches F c0 c" "chan_inv n c0"
  shows "chan_inv n c"
  using assms unfolding chan_reaches_def by (induction rule: rtranclp_induct) (auto intro: chan_inv_step)

lemma list_all2_empty_count:
  "list_all2 P [] ys \<Longrightarrow> ys = []"
  by simp

lemma delivery_prefix:
  assumes "chan_inv n c"
  shows "list_all row_parcel (dc_accepted c)
    \<and> (\<exists>k. dc_sent c = concat (take k (dc_accepted c)))"
proof -
  obtain handed dropped taken pend cur where s: "split_inv n c handed dropped taken pend cur"
    using assms unfolding chan_inv_def by blast
  then have "take (length handed) (dc_accepted c) = handed" by (metis append_eq_conv_conj split_inv_def)
  then have "concat (take (length handed) (dc_accepted c)) = dc_sent c" using s by (simp add: split_inv_def)
  then have "\<exists>k. dc_sent c = concat (take k (dc_accepted c))" by metis
  with s show ?thesis by (simp add: split_inv_def)
qed

lemma delivery_complete:
  assumes i: "chan_inv n c" and w: "dc_caller c = Waiting held"
    "\<not> length held + inHand c < fastLoadBuffersPerSession"
    and "dc_err c = None" "\<forall>b. dc_cur c = Some b \<longrightarrow> b_rows b = 0"
  shows "dc_sent c = concat (dc_accepted c)"
proof -
  obtain handed dropped taken pend cur where s: "split_inv n c handed dropped taken pend cur" and k: "count_inv c"
    using i unfolding chan_inv_def by blast
  have "length (dc_pending c) + length (sender_batch (dc_sender c)) + (length held + inHand c)
      \<le> fastLoadBuffersPerSession" "caller_held (dc_caller c) = held"
    using k w(1) by (auto simp: count_inv_def batch_count_def)
  then have "length (dc_pending c) + length (sender_batch (dc_sender c)) = 0" using w(2) by linarith
  then have p: "dc_pending c = []" and q: "sender_batch (dc_sender c) = []" by auto
  have "pend = []" using s p by (simp add: split_inv_def)
  moreover have "taken = []" using s q by (cases "dc_sender c") (auto simp: split_inv_def)
  moreover have "dropped = []" using s assms(4) by (auto simp: split_inv_def)
  moreover have "cur = []"
    using s assms(5) batch_empty_iff by (auto simp: split_inv_def cur_holds_def split: option.splits)
  ultimately show ?thesis using s by (auto simp: split_inv_def)
qed

lemma channels_never_full:
  assumes "chan_inv n c"
  shows "(dc_caller c = FlushSend \<or> (\<exists>k vs. dc_caller c = PushSend k vs)
       \<longrightarrow> length (dc_pending c) < fastLoadBuffersPerSession)
    \<and> (\<forall>b. dc_sender c = Returning b \<longrightarrow> length (dc_free c) < fastLoadBuffersPerSession)"
proof -
  have k: "count_inv c" using assms by (simp add: chan_inv_def)
  have "length (dc_pending c) < fastLoadBuffersPerSession" if "dc_caller c = FlushSend \<or> (\<exists>k vs. dc_caller c = PushSend k vs)"
  proof -
    have "dc_cur c \<noteq> None" using k that by (auto simp: count_inv_def)
    then have "inHand c = 1" by (simp add: inHand_def)
    then show ?thesis using k by (simp add: count_inv_def batch_count_def)
  qed
  moreover have "length (dc_free c) < fastLoadBuffersPerSession" if "dc_sender c = Returning b" for b
    using k that by (simp add: count_inv_def batch_count_def)
  ultimately show ?thesis by blast
qed

text \<open>How many steps the sender has left before it waits for the caller.\<close>

fun sender_phase :: "fastLoadSender \<Rightarrow> nat" where
  "sender_phase Done = 0"
| "sender_phase Receiving = 1"
| "sender_phase (Returning b) = 2"
| "sender_phase (Sending b) = 3"
| "sender_phase (Checking b) = 4"

definition sender_work :: "fastLoadDataChannel \<Rightarrow> nat" where
  "sender_work c = 4 * length (dc_pending c) + sender_phase (dc_sender c)"

text \<open>The caller is not blocked: its channel operation can happen now.\<close>

fun caller_ready_at :: "fastLoadCaller \<Rightarrow> fastLoadDataChannel \<Rightarrow> bool" where
  "caller_ready_at (PushAcquire n vs) c = (dc_free c \<noteq> [])"
| "caller_ready_at (PushReacquire n vs) c = (dc_free c \<noteq> [])"
| "caller_ready_at FlushAcquire c = (dc_free c \<noteq> [])"
| "caller_ready_at (PushSend n vs) c = (length (dc_pending c) < fastLoadBuffersPerSession)"
| "caller_ready_at FlushSend c = (length (dc_pending c) < fastLoadBuffersPerSession)"
| "caller_ready_at (Waiting held) c = (length held + inHand c < fastLoadBuffersPerSession \<longrightarrow> dc_free c \<noteq> [])"
| "caller_ready_at Closing c = (dc_sender c = Done)"
| "caller_ready_at _ c = True"

lemma sender_step_work: "sender_step c c' \<Longrightarrow> Suc (sender_work c') \<le> sender_work c"
  by (induction rule: sender_step.induct) (auto simp: sender_work_def dest!: sendBatch_failed_broken)

lemma sender_run_work: "(sender_step ^^ k) c c' \<Longrightarrow> k + sender_work c' \<le> sender_work c"
proof (induction k arbitrary: c')
  case (Suc k)
  then obtain d where d: "(sender_step ^^ k) c d" "sender_step d c'" by auto
  then show ?case using Suc.IH [OF d(1)] sender_step_work [OF d(2)] by simp
qed simp

lemma sender_run_reaches: "(sender_step ^^ k) c c' \<Longrightarrow> chan_reaches F c c'"
proof (induction k arbitrary: c')
  case (Suc k)
  then obtain d where d: "(sender_step ^^ k) c d" "sender_step d c'" by auto
  then show ?case using Suc.IH [OF d(1)] rtranclp.rtrancl_into_rtrancl [of "chan_step F" c d c']
    by (simp add: chan_reaches_def chan_step_def)
qed (simp add: chan_reaches_def)

lemma sender_stuck:
  assumes i: "chan_inv n c" and stuck: "\<forall>d. \<not> sender_step c d"
  shows "dc_pending c = [] \<and> sender_batch (dc_sender c) = [] \<and> (dc_closed c \<longrightarrow> dc_sender c = Done)"
proof (cases "dc_sender c")
  case Receiving
  have "dc_pending c = []"
  proof (cases "dc_pending c")
    case (Cons b bs)
    then show ?thesis using stuck sender_step.take [OF Receiving Cons] by blast
  qed simp
  moreover have "\<not> dc_closed c" using stuck sender_step.stop [OF Receiving calculation] by blast
  ultimately show ?thesis using Receiving by simp
next
  case (Checking b)
  then show ?thesis using stuck sender_step.clear [OF Checking] sender_step.skip [OF Checking]
    by (cases "dc_err c") blast+
next
  case (Sending b)
  then show ?thesis using stuck sender_step.sent [OF Sending] by blast
next
  case (Returning b)
  have "length (dc_free c) < fastLoadBuffersPerSession" using channels_never_full [OF i] Returning by blast
  then show ?thesis using stuck sender_step.return [OF Returning] by blast
next
  case Done
  then show ?thesis using i by (simp add: chan_inv_def count_inv_def)
qed

lemma drained_ready:
  assumes i: "chan_inv n c" and stuck: "\<forall>d. \<not> sender_step c d"
  shows "caller_ready_at (dc_caller c) c"
proof -
  have d: "dc_pending c = []" "sender_batch (dc_sender c) = []" "dc_closed c \<longrightarrow> dc_sender c = Done"
    using sender_stuck [OF assms] by auto
  have k: "length (dc_free c) + inHand c + length (caller_held (dc_caller c)) = 2"
    "caller_needs (dc_caller c) (dc_cur c \<noteq> None)"
    using i d by (auto simp: chan_inv_def count_inv_def batch_count_def fastLoadBuffersPerSession_def)
  have cl: "dc_caller c = Closing \<longrightarrow> dc_closed c"
    using i by (simp add: chan_inv_def count_inv_def)
  show ?thesis
    using k d cl by (cases "dc_caller c") (auto simp: inHand_def fastLoadBuffersPerSession_def split: if_splits)
qed


lemma start_encoders:
  assumes "columnEncoders items caps = Inr encoders"
    "list_all (\<lambda>item. 0 \<le> sint (getMaxLength item)) items"
    "startFastLoadDataChannel encoders bodyLen = Inr c0" "chan_reaches F c0 c"
  shows "chan_inv bodyLen c"
  using chan_inv_reach [OF assms(4) chan_inv_start [OF assms(3) columnEncoders_ok [OF assms(1,2)]]] .

text \<open>C2: a data session delivers the rows it accepted in order, without loss or duplication, under every
  interleaving of the caller and the sender goroutine and every answer of the server. What has been handed
  to the network is always a prefix of the accepted rows, each a parcel with its right length; when \<open>wait\<close>
  returns without a failure and the current batch is empty, it is all of them. The row encoder never
  panics, and neither goroutine ever blocks sending into a channel.\<close>
theorem fastload_channel_delivery:
  assumes "columnEncoders items caps = Inr encoders"
    "list_all (\<lambda>item. 0 \<le> sint (getMaxLength item)) items"
    "startFastLoadDataChannel encoders bodyLen = Inr c0" "chan_reaches F c0 c"
  shows "list_all row_parcel (dc_accepted c)
    \<and> (\<exists>k. dc_sent c = concat (take k (dc_accepted c)))
    \<and> (\<forall>held. dc_caller c = Waiting held \<and> \<not> length held + inHand c < fastLoadBuffersPerSession
         \<and> dc_err c = None \<and> (\<forall>b. dc_cur c = Some b \<longrightarrow> b_rows b = 0)
         \<longrightarrow> dc_sent c = concat (dc_accepted c))
    \<and> dc_caller c \<noteq> Panicked
    \<and> (dc_caller c = FlushSend \<or> (\<exists>k vs. dc_caller c = PushSend k vs)
         \<longrightarrow> length (dc_pending c) < fastLoadBuffersPerSession)
    \<and> (\<forall>b. dc_sender c = Returning b \<longrightarrow> length (dc_free c) < fastLoadBuffersPerSession)"
proof -
  have i: "chan_inv bodyLen c" by (rule start_encoders [OF assms])
  then have "dc_caller c \<noteq> Panicked" by (simp add: chan_inv_def fits_inv_def)
  then show ?thesis
    using delivery_prefix [OF i] delivery_complete [OF i] channels_never_full [OF i] by blast
qed

text \<open>C16: the sender always catches up. From any reachable state it can take at most \<open>sender_work\<close> steps on
  its own, whatever the server answers; when it can take no more, nothing is pending and the caller,
  wherever it was blocked, can go on.\<close>
theorem fastload_channel_progress:
  assumes "columnEncoders items caps = Inr encoders"
    "list_all (\<lambda>item. 0 \<le> sint (getMaxLength item)) items"
    "startFastLoadDataChannel encoders bodyLen = Inr c0" "chan_reaches F c0 c"
    "(sender_step ^^ k) c c'"
  shows "k \<le> sender_work c
    \<and> ((\<exists>d. sender_step c' d) \<or> (dc_pending c' = [] \<and> caller_ready_at (dc_caller c') c'))"
proof -
  have "chan_reaches F c0 c'"
    using assms(4) sender_run_reaches [OF assms(5), of F] unfolding chan_reaches_def by simp
  then have "chan_inv bodyLen c'" by (rule start_encoders [OF assms(1-3)])
  then have "dc_pending c' = [] \<and> caller_ready_at (dc_caller c') c'" if "\<forall>d. \<not> sender_step c' d"
    using sender_stuck drained_ready that by blast
  then show ?thesis using sender_run_work [OF assms(5)] by auto
qed

text \<open>One row pushed into a session of the table above and flushed; its batch is with the sender.\<close>

definition demo_batch :: fastLoadBatch where
  "demo_batch = \<lparr>b_w = \<lparr>w_buff = [0, 68, 0, 17, 0, 0, 0, 0, 5, 0, 2, 97, 98, 0, 0, 0, 1, 0, 0, 0],
                          w_indx = 17\<rparr>, b_rows = 1\<rparr>"

definition demo_chan :: fastLoadDataChannel where
  "demo_chan = \<lparr>dc_encoders = demo_encoders, dc_maxParcelLen = 18, dc_cur = Some (newBatch 20),
     dc_pending = [], dc_free = [newBatch 20], dc_closed = False, dc_rowsAccepted = 0, dc_err = None,
     dc_broken = False, dc_caller = Idle, dc_sender = Receiving, dc_accepted = [], dc_sent = []\<rparr>"

definition demo_row :: "byte list" where
  "demo_row = [0, 68, 0, 17, 0, 0, 0, 0, 5, 0, 2, 97, 98, 0, 0, 0, 1]"

definition demo_flushing :: fastLoadDataChannel where
  "demo_flushing = demo_chan\<lparr>dc_cur := None, dc_pending := [demo_batch], dc_caller := FlushAcquire,
     dc_accepted := [demo_row]\<rparr>"

lemma demo_push:
  "pushInto demo_float demo_encoders (newBatch 20) 1 [V_int64 5, V_string ''ab''] = Some (None, demo_batch)"
  by code_simp

lemma demo_start: "startFastLoadDataChannel demo_encoders 20 = Inr demo_chan"
  by code_simp

lemma demo_not_long: "rowTooLong demo_chan (newBatch 20) = False"
  by code_simp

lemma demo_reach: "chan_reaches demo_float demo_chan demo_flushing"
proof -
  let ?F = demo_float and ?vs = "[V_int64 5, V_string ''ab'']"
  have m: "pushed_parcel (newBatch 20) demo_batch = demo_row" by code_simp
  let ?c1 = "demo_chan\<lparr>dc_caller := PushFit 1 ?vs\<rparr>" and ?c2 = "demo_chan\<lparr>dc_caller := PushEncode 1 ?vs\<rparr>"
  let ?c3 = "demo_chan\<lparr>dc_cur := Some demo_batch, dc_accepted := [demo_row]\<rparr>"
  let ?c4 = "?c3\<lparr>dc_caller := FlushSend\<rparr>"
  have "chan_step ?F demo_chan ?c1"
    using caller_step.push [of demo_chan ?F 1 ?vs] by (simp add: chan_step_def demo_chan_def)
  moreover have "chan_step ?F ?c1 ?c2"
    using caller_step.push_fit [of ?c1 1 ?vs "newBatch 20" ?F] demo_not_long
    by (simp add: chan_step_def demo_chan_def rowTooLong_def newBatch_def)
  moreover have "chan_step ?F ?c2 ?c3"
    using caller_step.push_done [of ?c2 1 ?vs "newBatch 20" ?F demo_batch] demo_push
    by (simp add: chan_step_def demo_chan_def m)
  moreover have "chan_step ?F ?c3 ?c4"
    using caller_step.flush [of ?c3 demo_batch ?F] by (simp add: chan_step_def demo_chan_def demo_batch_def)
  moreover have "chan_step ?F ?c4 demo_flushing"
    using caller_step.flush_send [of ?c4 demo_batch ?F]
    by (simp add: chan_step_def demo_flushing_def demo_chan_def fastLoadBuffersPerSession_def)
  ultimately show ?thesis unfolding chan_reaches_def
    by (meson rtranclp.rtrancl_refl rtranclp.rtrancl_into_rtrancl)
qed

lemma demo_limits: "list_all (\<lambda>item. 0 \<le> sint (getMaxLength item)) [demo_limited tdInteger 4, demo_limited tdVarchar 3]"
  by (simp add: demo_limited_def)

theorem fastload_channel_delivery_witness:
  "dc_accepted demo_flushing = [demo_row] \<and> list_all row_parcel (dc_accepted demo_flushing)
   \<and> (\<exists>k. dc_sent demo_flushing = concat (take k (dc_accepted demo_flushing)))"
  using fastload_channel_delivery [OF demo_columnEncoders demo_limits demo_start demo_reach]
  by (simp add: demo_flushing_def)

theorem fastload_channel_progress_witness:
  "sender_work demo_flushing = 5
   \<and> (\<exists>c'. sender_step demo_flushing c' \<and> (1 :: nat) \<le> sender_work demo_flushing)"
proof -
  have "dc_sender demo_flushing = Receiving" "dc_pending demo_flushing = [demo_batch]"
    by (simp_all add: demo_flushing_def demo_chan_def)
  then have s: "sender_step demo_flushing (demo_flushing\<lparr>dc_sender := Checking demo_batch, dc_pending := []\<rparr>)"
    by (rule sender_step.take)
  then have "(sender_step ^^ 1) demo_flushing (demo_flushing\<lparr>dc_sender := Checking demo_batch, dc_pending := []\<rparr>)"
    by (simp add: eq_OO)
  from fastload_channel_progress [OF demo_columnEncoders demo_limits demo_start demo_reach this]
  have "1 \<le> sender_work demo_flushing" by blast
  with s show ?thesis by (auto simp: sender_work_def demo_flushing_def demo_chan_def)
qed

end
