(* ===== verification/Connection.thy ===== *)
theory Connection
  imports LanHeader Dsn RequestParcels ParcelWalk Td2 Params
begin

text \<open>
  The connection, src/connection.go, src/packet.go and src/context.go: its state, the computations on
  it, and the messages it writes to and reads from its socket.

  A method of the connection is a function of the connection that returns a Go error or a result with
  the connection it leaves; \<open>None\<close> is a panic or a run that does not return. The socket is a script:
  the chunks reads will deliver (with their errors), and the outcomes of the writes to come; a write
  with no scripted outcome succeeds; \<open>cn_closeErr\<close> is what closing the socket will return. Deadlines only
  change what the script may hold. What has been handed to the socket is recorded in \<open>cn_written\<close>.
\<close>

section \<open>State\<close>

datatype transactionMode = teraMode | ansiMode

datatype gssContext = GssTd2 td2GssContext | GssTd2Tls

text \<open>Code that is not part of the driver: AES-GCM, and \<open>asn1.Unmarshal\<close> of an object identifier.\<close>

record env =
  v_seal :: "byte list \<Rightarrow> byte list \<Rightarrow> byte list \<Rightarrow> byte list"
  v_open :: "byte list \<Rightarrow> byte list \<Rightarrow> byte list \<Rightarrow> goerror + byte list"
  v_oidString :: "byte list \<Rightarrow> string option"

text \<open>A pointer that may be nil is an \<open>option\<close>; of \<open>currentTransaction\<close> only that matters.\<close>

record teradataConnection =
  cn_connectionID :: string
  cn_script :: read_script
  cn_sends :: "(int \<times> goerror option) list"
  cn_written :: "byte list list"
  cn_socketClosed :: bool
  cn_closeErr :: "goerror option"
  cn_config :: Config
  cn_buffer :: readBuffer
  cn_writeBuffer :: writeBuffer
  cn_requestNo :: int
  cn_authNonce :: u64
  cn_sessionNo :: u32
  cn_isTlsConn :: bool
  cn_remoteHost :: string
  cn_remotePort :: int
  cn_gss :: "gssContext option"
  cn_capabilities :: "connectionCapabilities option"
  cn_closed :: bool
  cn_bad :: bool
  cn_transactionMode :: transactionMode
  cn_transactionInProgress :: bool
  cn_currentTransaction :: bool
  cn_policy :: securityPolicy
  cn_logonSequenceNumber :: int

section \<open>Computations\<close>

text \<open>Over any state: the connection alone here, an object and its connection in other theories.\<close>

type_synonym ('s, 'a) comp = "'s \<Rightarrow> ((goerror + 'a) \<times> 's) option"
type_synonym 'a act = "(teradataConnection, 'a) comp"

definition ret :: "'a \<Rightarrow> ('s, 'a) comp" where "ret x c = Some (Inr x, c)"
definition fail :: "goerror \<Rightarrow> ('s, 'a) comp" where "fail e c = Some (Inl e, c)"

text \<open>\<open>bnd\<close> returns early on an error, as \<open>if err != nil { return err }\<close> does; \<open>attempt\<close> hands the error on.\<close>

definition bnd :: "('s, 'a) comp \<Rightarrow> ('a \<Rightarrow> ('s, 'b) comp) \<Rightarrow> ('s, 'b) comp" where
  "bnd m f c = (case m c of None \<Rightarrow> None | Some (Inl e, c) \<Rightarrow> Some (Inl e, c) | Some (Inr x, c) \<Rightarrow> f x c)"

definition attempt :: "('s, 'a) comp \<Rightarrow> (goerror + 'a \<Rightarrow> ('s, 'b) comp) \<Rightarrow> ('s, 'b) comp" where
  "attempt m f c = (case m c of None \<Rightarrow> None | Some (r, c) \<Rightarrow> f r c)"

definition gets :: "('s \<Rightarrow> 'a) \<Rightarrow> ('s, 'a) comp" where "gets f c = Some (Inr (f c), c)"
definition modify :: "('s \<Rightarrow> 's) \<Rightarrow> ('s, unit) comp" where "modify f c = Some (Inr (), f c)"

text \<open>A computation that may panic but neither fails nor changes the state, and one on the second part of
  the state.\<close>

definition pure :: "'a option \<Rightarrow> ('s, 'a) comp" where "pure x c = map_option (\<lambda>y. (Inr y, c)) x"

definition zoom :: "('c, 'a) comp \<Rightarrow> ('s \<times> 'c, 'a) comp" where
  "zoom m s = map_option (\<lambda>(r, c). (r, (fst s, c))) (m (snd s))"

text \<open>\<open>c.capabilities\<close>, dereferenced.\<close>

definition capabilities :: "connectionCapabilities act" where
  "capabilities c = map_option (\<lambda>k. (Inr k, c)) (cn_capabilities c)"

definition usable :: "teradataConnection \<Rightarrow> bool" where
  "usable c \<longleftrightarrow> \<not> (cn_closed c \<or> cn_bad c)"

definition check_usable :: "unit act" where
  "check_usable c = (if usable c then ret () c else fail ErrBadConn c)"

definition IsValid :: "teradataConnection \<Rightarrow> bool" where
  "IsValid c \<longleftrightarrow> \<not> cn_closed c \<and> \<not> cn_bad c"

definition ResetSession :: "unit act" where
  "ResetSession c = (if cn_bad c then fail ErrBadConn c else ret () c)"

definition markUnusable :: "goerror \<Rightarrow> 'a act" where
  "markUnusable err c = Some (Inl err, c\<lparr>cn_bad := True\<rparr>)"

text \<open>\<open>return c.markUnusable(err)\<close> after a failing call.\<close>

definition bad_on_error :: "'a act \<Rightarrow> 'a act" where
  "bad_on_error m = attempt m (\<lambda>r. case r of Inl err \<Rightarrow> markUnusable err | Inr x \<Rightarrow> ret x)"

section \<open>Numbers and headers\<close>

definition nextAuthNonce :: "u64 act" where
  "nextAuthNonce c = (let n = cn_authNonce c + 1 in Some (Inr n, c\<lparr>cn_authNonce := n\<rparr>))"

definition nextRequestNumber :: "u32 act" where
  "nextRequestNumber c = (let n = cn_requestNo c + 1 in Some (Inr (word_of_int n), c\<lparr>cn_requestNo := n\<rparr>))"

definition sameRequestNumber :: "u32 act" where
  "sameRequestNumber c = Some (Inr (word_of_int (cn_requestNo c)), c)"

definition lanHeaderFor :: "byte \<Rightarrow> byte \<Rightarrow> u32 \<Rightarrow> u32 \<Rightarrow> lanHeader" where
  "lanHeaderFor kind byteVar requestNo sessionNo =
     newLanHeader\<lparr>lh_kind := kind, lh_byteVar := byteVar, lh_hostCharSet := 0xFF,
                  lh_requestNo := requestNo, lh_sessionNo := sessionNo\<rparr>"

definition withNonce :: "lanHeader \<Rightarrow> lanHeader act" where
  "withNonce h = bnd nextAuthNonce (\<lambda>n. ret (h\<lparr>lh_authNonce := be_enc 8 (unat n)\<rparr>))"

definition newLanHeaderLogoff :: "lanHeader act" where
  "newLanHeaderLogoff = bnd (gets cn_sessionNo) (\<lambda>s. withNonce (lanHeaderFor lanHeaderTypeLogoff 7 0 s))"

definition newLanHeaderConnect :: "lanHeader act" where
  "newLanHeaderConnect = bnd (gets cn_sessionNo) (\<lambda>s. ret (lanHeaderFor lanHeaderTypeConnect 7 0 s))"

definition newLanHeaderStart :: "lanHeader act" where
  "newLanHeaderStart = bnd nextRequestNumber (\<lambda>n. bnd (gets cn_sessionNo) (\<lambda>s.
     withNonce (lanHeaderFor lanHeaderTypeStart 7 n s)))"

definition newLanHeaderContinue :: "lanHeader act" where
  "newLanHeaderContinue = bnd sameRequestNumber (\<lambda>n. bnd (gets cn_sessionNo) (\<lambda>s.
     withNonce (lanHeaderFor lanHeaderTypeContinue 7 n s)))"

definition newLanHeaderCancel :: "u32 \<Rightarrow> lanHeader act" where
  "newLanHeaderCancel requestNo = bnd (gets cn_sessionNo) (\<lambda>s.
     withNonce (lanHeaderFor lanHeaderTypeContinue 0 requestNo s))"

section \<open>Writing a message\<close>

text \<open>\<open>netConn.Write\<close>, with the outcome the script has for it.\<close>

definition net_write :: "byte list \<Rightarrow> teradataConnection \<Rightarrow> (int \<times> goerror option) \<times> teradataConnection" where
  "net_write data c =
     (case cn_sends c of
        [] \<Rightarrow> ((int (length data), None), c\<lparr>cn_written := cn_written c @ [data]\<rparr>)
      | (n, e) # rest \<Rightarrow>
          let k = max 0 (min n (int (length data)))
          in ((k, e), c\<lparr>cn_written := cn_written c @ [take (nat k) data], cn_sends := rest\<rparr>))"

definition writeLanMessageRaw :: "byte list \<Rightarrow> unit act" where
  "writeLanMessageRaw data c =
     (if \<not> usable c then fail ErrBadConn c
      else
        let ((n, err), c) = net_write data c
        in case err of
             Some err \<Rightarrow> markUnusable err c
           | None \<Rightarrow> if n \<noteq> int (length data) then markUnusable ErrShortWrite c else ret () c)"

definition gss_wrap :: "env \<Rightarrow> byte list \<Rightarrow> byte list act" where
  "gss_wrap E data c =
     (case cn_gss c of
        None \<Rightarrow> None
      | Some GssTd2Tls \<Rightarrow> map_option (\<lambda>r. (r, c)) (td2Tls_wrap data)
      | Some (GssTd2 x) \<Rightarrow>
          (case wrap (v_seal E) x data of
             None \<Rightarrow> None
           | Some (Inl err) \<Rightarrow> Some (Inl err, c)
           | Some (Inr (d, x)) \<Rightarrow> Some (Inr d, c\<lparr>cn_gss := Some (GssTd2 x)\<rparr>)))"

definition gss_unwrap :: "env \<Rightarrow> byte list \<Rightarrow> byte list act" where
  "gss_unwrap E data c =
     (case cn_gss c of
        None \<Rightarrow> None
      | Some GssTd2Tls \<Rightarrow> map_option (\<lambda>r. (r, c)) (td2Tls_unwrap data)
      | Some (GssTd2 x) \<Rightarrow> map_option (\<lambda>r. (r, c)) (unwrap (v_open E) x data))"

definition encrypts :: "teradataConnection \<Rightarrow> byte \<Rightarrow> bool" where
  "encrypts c kind \<longleftrightarrow> cn_gss c \<noteq> None \<and> \<not> cn_isTlsConn c \<and>
     (if kind \<in> {3, 4} then True
      else if kind \<in> {1, 2, 10, 11, 12} then False
      else cfg_EncryptData (cn_config c) \<or> sp_securityRequired (cn_policy c))"

text \<open>The loop over the parcels; a gap a parcel leaves is padded with zeros.\<close>

fun writeParcels :: "parcel list \<Rightarrow> bufferWriter \<Rightarrow> bufferWriter option" where
  "writeParcels [] w = Some w"
| "writeParcels (p # ps) w = do {
     let pos = wr_position w;
     w \<leftarrow> parcel_write p w;
     w \<leftarrow> (if wr_position w < pos + getLength p then wr_skip (pos + getLength p - wr_position w) w
           else Some w);
     writeParcels ps w }"

definition put16 :: "int \<Rightarrow> u16 \<Rightarrow> byte list \<Rightarrow> byte list option" where
  "put16 pos v b =
     (if 0 \<le> pos \<and> pos + 2 \<le> int (length b)
      then Some (take (nat pos) b @ be_enc 2 (unat v) @ drop (nat pos + 2) b) else None)"

text \<open>The body length in the header at \<open>wsOffset\<close>, its high and low halves.\<close>

definition putBodyLen :: "int \<Rightarrow> int \<Rightarrow> byte list \<Rightarrow> byte list option" where
  "putBodyLen wsOffset n buff = do {
     buff \<leftarrow> put16 (wsOffset + 3) (word_of_int (drop_bit 16 n)) buff;
     put16 (wsOffset + 8) (word_of_int (n AND 0xFFFF)) buff }"

definition bodyLength :: "parcel list \<Rightarrow> int" where
  "bodyLength bodyParts = sum_list (map getLength bodyParts)"

definition frameMessage :: "bool \<Rightarrow> lanHeader \<Rightarrow> parcel list \<Rightarrow> byte list \<Rightarrow> (int \<times> byte list) option" where
  "frameMessage isTlsConn header bodyParts buff = do {
     (wsOffset, w) \<leftarrow> writeWsFrameHeader isTlsConn (newBufferWriter buff) (lanHeaderLen + bodyLength bodyParts);
     w \<leftarrow> lanHeader_write header w wsOffset 0;
     w \<leftarrow> writeParcels bodyParts w;
     Some (wsOffset, w_buff w) }"

definition transmit :: "env \<Rightarrow> bool \<Rightarrow> int \<Rightarrow> int \<Rightarrow> byte list \<Rightarrow> unit act" where
  "transmit E enc wsOffset bodyLen buff =
     (if enc then
        bnd (pure (slice buff 24 (int (length buff)))) (\<lambda>plain.
        bnd (gss_wrap E plain) (\<lambda>wrapped.
        bnd (pure (putBodyLen wsOffset (int (length wrapped) - 28) buff)) (\<lambda>buff.
        writeLanMessageRaw (take 24 buff @ wrapped))))
      else
        bnd (pure (putBodyLen wsOffset bodyLen buff)) writeLanMessageRaw)"

text \<open>\<open>writeLanMessage\<close>; no caller passes a nil header, and no parcel's \<open>write\<close> returns an error.\<close>

definition writeLanMessage :: "env \<Rightarrow> lanHeader \<Rightarrow> parcel list \<Rightarrow> unit act" where
  "writeLanMessage E header bodyParts c =
     (if \<not> usable c then fail ErrBadConn c
      else
        let enc = encrypts c (lh_kind header);
            header = header\<lparr>lh_encrypted := enc\<rparr>;
            bodyLen = bodyLength bodyParts; packetLen = lanHeaderLen + bodyLen
        in do {
          (buff, wb) \<leftarrow> wb_take (cn_writeBuffer c) (packetLen + getWsFrameLength (cn_isTlsConn c) packetLen);
          (wsOffset, buff) \<leftarrow> frameMessage (cn_isTlsConn c) header bodyParts buff;
          transmit E enc wsOffset bodyLen buff (c\<lparr>cn_writeBuffer := wb\<rparr>) })"

section \<open>Reading a message\<close>

definition read_op ::
  "(readBuffer \<Rightarrow> read_script \<Rightarrow> ((goerror + 'a) \<times> readBuffer \<times> read_script) option) \<Rightarrow> 'a act" where
  "read_op f c = do {
     (r, b, cs) \<leftarrow> f (cn_buffer c) (cn_script c);
     Some (r, c\<lparr>cn_buffer := b, cn_script := cs\<rparr>) }"

definition control_handler :: "env \<Rightarrow> (securityPolicy, unit) handler" where
  "control_handler E flavor n alt r policy =
     (case responseParcelFactory (v_oidString E) flavor of
        Inl _ \<Rightarrow> Some (Inl policy)
      | Inr fromBuffer \<Rightarrow>
          map_option (\<lambda>(p, _). Inl (case p of RP_securityPolicy sp \<Rightarrow> sp | _ \<Rightarrow> policy)) (fromBuffer r n))"

text \<open>The parcels behind the message body: a security policy is adopted.\<close>

definition readControlData :: "env \<Rightarrow> byte list \<Rightarrow> int \<Rightarrow> u32 \<Rightarrow> unit act" where
  "readControlData E parcelData parcelEnd len c =
     (if unat len = 0 then ret () c
      else do {
        x \<leftarrow> walk (control_handler E) (newBufferReader parcelData parcelEnd (parcelEnd + uint len)) (cn_policy c);
        case x of Inl policy \<Rightarrow> ret () (c\<lparr>cn_policy := policy\<rparr>) | Inr _ \<Rightarrow> None })"

text \<open>The part of the message that holds its parcels: the bytes, where they start and end.\<close>

definition openBody :: "env \<Rightarrow> byte list \<Rightarrow> lanHeader \<Rightarrow> (byte list \<times> int \<times> int \<times> u32) act" where
  "openBody E data header =
     (if lh_msgType header AND 0x80 \<noteq> 0 then
        bnd (gets cn_gss) (\<lambda>gss.
        if gss = None then markUnusable ErrNoSecureChannel
        else
          bnd (pure (slice data 24 (int (length data)))) (\<lambda>sealed.
          bnd (bad_on_error (gss_unwrap E sealed)) (\<lambda>plaintext.
            if int (length plaintext) < lanHeaderLen - 24 then markUnusable ErrInternal
            else
              let controlDataLength = u32_of (take 4 (drop 16 plaintext))
              in ret (plaintext, lanHeaderLen - 24, int (length plaintext) - uint controlDataLength,
                      controlDataLength))))
      else
        ret (data, lanHeaderLen, lh_msgLen header - uint (lh_controlDataLength header),
             lh_controlDataLength header))"

definition readLanMessageRawInto :: "env \<Rightarrow> bool \<Rightarrow> (byte list \<times> int \<times> int \<times> lanHeader) act" where
  "readLanMessageRawInto E own =
     bnd (gets cn_isTlsConn) (\<lambda>isTls.
     bnd (if isTls then bnd (bad_on_error (read_op readWsFrameHeader)) (\<lambda>_. ret ()) else ret ()) (\<lambda>_.
     bnd (bad_on_error (read_op (\<lambda>b. peek b lanHeaderLen))) (\<lambda>headerBuff.
     bnd (bad_on_error (\<lambda>c. Some (lanHeaderFromBuffer headerBuff, c))) (\<lambda>header.
     bnd (bad_on_error (read_op (\<lambda>b. readNext b (lh_msgLen header)))) (\<lambda>data.
     bnd (modify (\<lambda>c. c\<lparr>cn_transactionInProgress := (lh_byteVar header AND 1 = 1)\<rparr>)) (\<lambda>_.
     bnd (openBody E data header) (\<lambda>(parcelData, parcelStart, parcelEnd, controlDataLength).
     bnd (readControlData E parcelData parcelEnd controlDataLength) (\<lambda>_.
     bnd (pure (if own \<and> lh_msgType header AND 0x80 = 0 then slice parcelData 0 parcelEnd else Some parcelData))
       (\<lambda>parcelData.
     ret (parcelData, parcelStart, parcelEnd, header\<lparr>lh_controlDataLength := controlDataLength\<rparr>))))))))))"

definition readLanMessageRaw :: "env \<Rightarrow> (byte list \<times> int \<times> int \<times> lanHeader) act" where
  "readLanMessageRaw E = readLanMessageRawInto E False"

definition readLanMessageRawOwned :: "env \<Rightarrow> (byte list \<times> int \<times> int \<times> lanHeader) act" where
  "readLanMessageRawOwned E = readLanMessageRawInto E True"

definition readLanMessage :: "env \<Rightarrow> (responseParcel list \<times> lanHeader) act" where
  "readLanMessage E =
     bnd (readLanMessageRaw E) (\<lambda>(parcelData, parcelStart, parcelEnd, header).
     bnd (pure (readParcels (v_oidString E) (newBufferReader parcelData parcelStart parcelEnd))) (\<lambda>r.
     case r of Inl err \<Rightarrow> fail err | Inr parcels \<Rightarrow> ret (parcels, header)))"

section \<open>Cancelling\<close>

text \<open>The scan of one message for the end of the request.\<close>

partial_function (option) scanEndRequest :: "bufferReader \<Rightarrow> bool option" where
  "scanEndRequest reader =
     (if isDone reader then Some False
      else do {
        let parcelStart = rd_position reader;
        (flavor, parcelLen, alt, r) \<leftarrow> readParcelHeader reader;
        if flavor = flavorEndRequest then Some True
        else scanEndRequest (rd_seek (parcelStart + parcelLen) r) })"

partial_function (option) drainLoop ::
  "env \<Rightarrow> teradataConnection \<Rightarrow> ((goerror + unit) \<times> teradataConnection) option" where
  "drainLoop E c = do {
     (r, c) \<leftarrow> readLanMessageRaw E c;
     case r of
       Inl err \<Rightarrow> Some (Inl err, c)
     | Inr (d, start, end', _) \<Rightarrow> do {
         e \<leftarrow> checkErrorParcel (newBufferReader d start end');
         case e of
           Some err \<Rightarrow> Some (Inl err, c)
         | None \<Rightarrow> do {
             found \<leftarrow> scanEndRequest (newBufferReader d start end');
             if found then Some (Inr (), c) else drainLoop E c } } }"

definition sendCancelAndDrain :: "env \<Rightarrow> u32 \<Rightarrow> unit act" where
  "sendCancelAndDrain E requestNo =
     bnd (newLanHeaderCancel requestNo) (\<lambda>header.
     bnd (writeLanMessage E header [CancelParcel]) (\<lambda>_.
     drainLoop E))"

text \<open>\<open>runCancelable\<close> with a context that can be cancelled: \<open>ctxErr\<close> is its error when \<open>fn\<close> has
  returned, \<open>None\<close> while it is live. \<open>Background\<close> has no \<open>Done\<close> channel.\<close>

datatype goContext = Background | Cancellable "goerror option"

definition runCancelable :: "goContext \<Rightarrow> ('s, 'a) comp \<Rightarrow> ('s, 'a) comp" where
  "runCancelable ctx fn =
     (case ctx of
        Background \<Rightarrow> fn
      | Cancellable ctxErr \<Rightarrow> attempt fn (\<lambda>r.
          case (ctxErr, r) of
            (Some cerr, Inl err) \<Rightarrow> if isDeadlineErr err then fail cerr else fail err
          | (_, Inl err) \<Rightarrow> fail err
          | (_, Inr x) \<Rightarrow> ret x))"


section \<open>Errors of a read\<close>

text \<open>Every error of such a computation leaves the connection marked bad.\<close>

definition marks :: "'a act \<Rightarrow> bool" where
  "marks m \<longleftrightarrow> (\<forall>c e c'. m c = Some (Inl e, c') \<longrightarrow> cn_bad c')"

named_theorems marks_intros \<open>computations whose errors mark the connection\<close>

lemma marks_bnd [marks_intros]: "marks m \<Longrightarrow> (\<And>x. marks (f x)) \<Longrightarrow> marks (bnd m f)"
  unfolding marks_def bnd_def by (auto split: option.splits sum.splits)

lemma marks_ret [marks_intros]: "marks (ret x)" by (simp add: marks_def ret_def)
lemma marks_gets [marks_intros]: "marks (gets f)" by (simp add: marks_def gets_def)
lemma marks_modify [marks_intros]: "marks (modify f)" by (simp add: marks_def modify_def)
lemma marks_pure [marks_intros]: "marks (pure x)" by (auto simp: marks_def pure_def)
lemma marks_markUnusable [marks_intros]: "marks (markUnusable e)" by (simp add: marks_def markUnusable_def)

lemma marks_bad_on_error [marks_intros]: "marks (bad_on_error m)"
  by (auto simp: marks_def bad_on_error_def attempt_def markUnusable_def ret_def split: option.splits sum.splits)

lemma marks_if [marks_intros]: "marks m \<Longrightarrow> marks n \<Longrightarrow> marks (if b then m else n)"
  by simp

lemma marks_openBody [marks_intros]: "marks (openBody E data header)"
  unfolding openBody_def Let_def by (intro marks_intros)

lemma marks_readControlData [marks_intros]: "marks (readControlData E d n l)"
  by (auto simp: marks_def readControlData_def ret_def elim!: bind_SomeE split: sum.splits)

lemma marks_readLanMessageRawInto: "marks (readLanMessageRawInto E own)"
  unfolding readLanMessageRawInto_def case_prod_beta by (intro marks_intros)

text \<open>C23: an error on the read path is final: when reading a message fails, for whatever reason (transport,
  malformed frame, missing security context, decryption), the connection is marked bad, so \<open>IsValid\<close> is
  false, \<open>ResetSession\<close> fails and nothing is written on it any more.\<close>
theorem read_error_marks_bad:
  assumes "readLanMessageRawInto E own c = Some (Inl e, c')"
  shows "\<not> IsValid c' \<and> ResetSession c' = Some (Inl ErrBadConn, c')
    \<and> (\<forall>h ps. writeLanMessage E h ps c' = Some (Inl ErrBadConn, c'))"
proof -
  have "cn_bad c'" using marks_readLanMessageRawInto assms unfolding marks_def by blast
  then show ?thesis by (simp add: IsValid_def ResetSession_def fail_def writeLanMessage_def usable_def)
qed


section \<open>The bytes of a message\<close>

definition parcels_image :: "parcel list \<Rightarrow> byte list" where
  "parcels_image ps = concat (map parcel_image ps)"

lemma length_parcels_image:
  "list_all parcel_ok ps \<Longrightarrow> int (length (parcels_image ps)) = bodyLength ps"
  by (induction ps) (simp_all add: parcels_image_def bodyLength_def parcel_image_length)

lemma writeParcels_emit:
  assumes "list_all parcel_ok ps" "room w 0"
  shows "writeParcels ps w = emit (parcels_image ps) w"
  using assms
proof (induction ps arbitrary: w)
  case Nil
  then show ?case by (cases w) (simp add: parcels_image_def emit_def)
next
  case (Cons p ps)
  then have ok: "parcel_ok p" "list_all parcel_ok ps" by simp_all
  have len: "int (length (parcel_image p)) = getLength p" using parcel_image_length [OF ok(1)] .
  show ?case
  proof (cases "emit (parcel_image p) w")
    case None
    then have "emit (parcels_image (p # ps)) w = None"
      by (auto simp: emit_None_iff room_def parcels_image_def)
    then show ?thesis using None parcel_write_emit [OF ok(1)] by simp
  next
    case (Some w1)
    have i: "w_indx w1 = w_indx w + getLength p" using emit_frame(1) [OF Some] len by simp
    have "room w1 0" using Some by (auto simp: emit_Some_iff room_def)
    then have "writeParcels ps w1 = emit (parcels_image ps) w1" by (rule Cons.IH [OF ok(2)])
    moreover have "emit (parcels_image (p # ps)) w = Option.bind (emit (parcel_image p) w) (emit (parcels_image ps))"
      by (simp add: emit_append parcels_image_def)
    ultimately show ?thesis
      using Some parcel_write_emit [OF ok(1)] i by (simp add: wr_position_def)
  qed
qed

text \<open>A frame laid out in zeroed space of exactly its size.\<close>

lemma emit_exact:
  "length b = length xs \<Longrightarrow> emit xs (newBufferWriter b) = Some \<lparr>w_buff = xs, w_indx = int (length xs)\<rparr>"
  by (simp add: emit_def room_def newBufferWriter_def)

definition ws_prefix :: "bool \<Rightarrow> int \<Rightarrow> byte list" where
  "ws_prefix isTls n = (if isTls then ws_image n else [])"

lemma length_ws_prefix: "int (length (ws_prefix isTls n)) = getWsFrameLength isTls n"
  by (simp add: ws_prefix_def length_ws_image getWsFrameLength_def)

lemma frameMessage_image:
  assumes ok: "list_all parcel_ok ps" "wf_lanHeader h" and n: "0 \<le> bodyLength ps" "bodyLength ps < 2 ^ 31"
    and b: "int (length buff) = 52 + bodyLength ps + getWsFrameLength isTls (52 + bodyLength ps)"
  shows "frameMessage isTls h ps buff =
    Some (getWsFrameLength isTls (52 + bodyLength ps),
          ws_prefix isTls (52 + bodyLength ps) @ lan_image h 0 @ parcels_image ps)"
proof -
  let ?n = "52 + bodyLength ps" let ?ws = "ws_prefix isTls ?n" and ?o = "getWsFrameLength isTls (52 + bodyLength ps)"
  let ?w0 = "newBufferWriter buff"
  have lo: "int (length ?ws) = ?o" by (rule length_ws_prefix)
  have total: "length buff = length (?ws @ lan_image h 0 @ parcels_image ps)"
    using b lo length_lan_image [OF ok(2), of 0] length_parcels_image [OF ok(1)] by simp
  have ws: "writeWsFrameHeader isTls ?w0 ?n = map_option (Pair ?o) (emit ?ws ?w0)"
  proof (cases isTls)
    case True
    then show ?thesis using writeWsFrameHeader_image [of ?n ?w0] n by (simp add: ws_prefix_def)
  next
    case False
    then show ?thesis
      by (simp add: ws_prefix_def writeWsFrameHeader_def getWsFrameLength_def emit_def room_def newBufferWriter_def)
  qed
  obtain w1 where w1: "emit ?ws ?w0 = Some w1"
    using emit_defined [of ?w0 ?ws] total by (auto simp: room_def newBufferWriter_def)
  have i1: "w_indx w1 = ?o" using emit_frame(1) [OF w1] lo by (simp add: newBufferWriter_def)
  have hd: "lanHeader_write h w1 ?o 0 = emit (lan_image h 0) w1" by (rule lanHeader_write_image [OF ok(2) i1])
  obtain w2 where w2: "emit (lan_image h 0) w1 = Some w2"
    using emit_defined [of w1 "lan_image h 0"] emit_frame(2) [OF w1] i1 total lo
    by (auto simp: room_def newBufferWriter_def)
  have "room w2 0" using w2 by (auto simp: emit_Some_iff room_def)
  then have ps: "writeParcels ps w2 = emit (parcels_image ps) w2" by (rule writeParcels_emit [OF ok(1)])
  have "Option.bind (Option.bind (emit ?ws ?w0) (emit (lan_image h 0))) (emit (parcels_image ps)) =
      emit (?ws @ lan_image h 0 @ parcels_image ps) ?w0"
    by (simp add: emit_append)
  also have "\<dots> = Some \<lparr>w_buff = ?ws @ lan_image h 0 @ parcels_image ps, w_indx = int (length buff)\<rparr>"
    using emit_exact [OF total] total by simp
  finally have w3: "emit (parcels_image ps) w2 =
      Some \<lparr>w_buff = ?ws @ lan_image h 0 @ parcels_image ps, w_indx = int (length buff)\<rparr>"
    using w1 w2 by simp
  show ?thesis
    by (simp add: frameMessage_def lanHeaderLen_def ws w1 hd w2 ps w3)
qed

lemma put16_at:
  assumes "length pre = nat pos" "0 \<le> pos" "length old = 2"
  shows "put16 pos v (pre @ old @ rest) = Some (pre @ be_enc 2 (unat v) @ rest)"
  using assms by (simp add: put16_def)

lemma putBodyLen_image:
  assumes h: "wf_lanHeader h" and o: "int (length ws) = wsOffset"
  shows "putBodyLen wsOffset n (ws @ lan_image h 0 @ rest) = Some (ws @ lan_image h n @ rest)"
proof -
  let ?a = "[copVersion, if lh_encrypted h then copClassRequest OR copEncryptFlag else copClassRequest, lh_kind h]"
  let ?b = "[lh_byteVar h] @ be_enc 2 (unat (lh_wordVar h))"
  let ?c = "replicate 6 0 @ be_enc 4 (unat (lh_correlationTag h)) @ be_enc 4 (unat (lh_sessionNo h))
     @ lh_authNonce h @ be_enc 4 (unat (lh_requestNo h)) @ [lh_unionGTW h, lh_hostCharSet h] @ replicate 14 0"
  let ?hi = "\<lambda>n. be_enc 2 (unat (word_of_int (drop_bit 16 n) :: u16))"
  let ?lo = "\<lambda>n. be_enc 2 (unat (word_of_int (n AND 0xFFFF) :: u16))"
  have img: "lan_image h k = ?a @ ?hi k @ ?b @ ?lo k @ ?c" for k by (simp add: lan_image_def)
  have "put16 (wsOffset + 3) (word_of_int (drop_bit 16 n)) (ws @ lan_image h 0 @ rest) =
      Some ((ws @ ?a) @ ?hi n @ ?b @ ?lo 0 @ ?c @ rest)"
    using put16_at [of "ws @ ?a" "wsOffset + 3" "?hi 0" "word_of_int (drop_bit 16 n)" "?b @ ?lo 0 @ ?c @ rest"] o
    by (simp add: img nat_add_distrib)
  moreover have "put16 (wsOffset + 8) (word_of_int (n AND 0xFFFF)) ((ws @ ?a) @ ?hi n @ ?b @ ?lo 0 @ ?c @ rest) =
      Some ((ws @ ?a @ ?hi n @ ?b) @ ?lo n @ ?c @ rest)"
    using put16_at [of "ws @ ?a @ ?hi n @ ?b" "wsOffset + 8" "?lo 0" "word_of_int (n AND 0xFFFF)" "?c @ rest"] o
    by (simp add: nat_add_distrib)
  ultimately show ?thesis by (simp add: putBodyLen_def img)
qed


lemma wrap_longer:
  assumes "wrap seal x d = Some (Inr (e, x'))" "gcm_law seal opn"
  shows "length d + 16 \<le> length e"
proof -
  obtain q hs e0 hdr e3 where q: "wrapRequest x d = Some (Inr q)" "encodeDerConstructed 0 [e0, hdr, e3] = Some e"
    "encode_all [(0, False, take (length d + 16) (seal (wq_key q) (wq_nonce q) (wq_padded q))),
       (1, True, concat hs), (3, False, drop (length d + 16) (seal (wq_key q) (wq_nonce q) (wq_padded q)))]
     = Some [e0, hdr, e3]"
    using wrap_Inr [OF assms(1)] by metis
  have l: "length (seal (wq_key q) (wq_nonce q) (wq_padded q)) = length d + 32"
    using assms(1) q(1) by (auto simp: wrap_def Let_def split: if_splits)
  then have "length d + 16 \<le> length e0" using q(3) by (auto simp: encode_all_Cons)
  moreover have "length e0 \<le> length e"
    using q(2) by (auto simp: encodeDerConstructed_def encodeDerTLV_def Let_def split: if_splits)
  ultimately show ?thesis by simp
qed

text \<open>What \<open>transmit\<close> hands to the socket when the write succeeds.\<close>

definition sentBy :: "teradataConnection \<Rightarrow> byte list \<Rightarrow> teradataConnection \<Rightarrow> bool" where
  "sentBy c msg c' \<longleftrightarrow> cn_written c' = cn_written c @ [msg]"

definition plainMessage :: "bool \<Rightarrow> lanHeader \<Rightarrow> parcel list \<Rightarrow> byte list" where
  "plainMessage isTls h ps =
     ws_prefix isTls (52 + bodyLength ps) @ lan_image h (bodyLength ps) @ parcels_image ps"

definition sealedMessage :: "lanHeader \<Rightarrow> byte list \<Rightarrow> byte list" where
  "sealedMessage h e = take 24 (lan_image h (int (length e) - 28)) @ e"

lemma bodyLength_nonneg: "list_all parcel_ok ps \<Longrightarrow> 0 \<le> bodyLength ps"
  using length_parcels_image [of ps] by linarith

lemma ws_length_bounds: "0 \<le> getWsFrameLength b n \<and> getWsFrameLength b n \<le> 10"
  by (simp add: getWsFrameLength_def)

lemma raw_write_ok:
  "usable c \<Longrightarrow> cn_sends c = [] \<Longrightarrow>
     writeLanMessageRaw m c = Some (Inr (), c\<lparr>cn_written := cn_written c @ [m]\<rparr>)"
  by (simp add: writeLanMessageRaw_def net_write_def ret_def)

lemma writeLanMessage_frame:
  assumes u: "usable c" and ok: "list_all parcel_ok ps" "wf_lanHeader h" and n: "bodyLength ps < 2 ^ 31"
  obtains wb where "writeLanMessage E h ps c =
    transmit E (encrypts c (lh_kind h)) (getWsFrameLength (cn_isTlsConn c) (52 + bodyLength ps)) (bodyLength ps)
      (ws_prefix (cn_isTlsConn c) (52 + bodyLength ps) @ lan_image (h\<lparr>lh_encrypted := encrypts c (lh_kind h)\<rparr>) 0
        @ parcels_image ps) (c\<lparr>cn_writeBuffer := wb\<rparr>)"
proof -
  let ?n = "52 + bodyLength ps" let ?l = "?n + getWsFrameLength (cn_isTlsConn c) ?n"
  let ?h = "h\<lparr>lh_encrypted := encrypts c (lh_kind h)\<rparr>"
  have l: "0 \<le> ?l" using bodyLength_nonneg [OF ok(1)] ws_length_bounds [of "cn_isTlsConn c" ?n] by linarith
  obtain b wb where b: "wb_take (cn_writeBuffer c) ?l = Some (b, wb)" "int (length b) = ?l"
  proof (cases "?l \<le> int (length (wb_store (cn_writeBuffer c)))")
    case True
    then show ?thesis using that l by (simp add: wb_take_def slice_def Let_def)
  next
    case False
    then show ?thesis using that l by (simp add: wb_take_def Let_def)
  qed
  have "wf_lanHeader ?h" using ok(2) by (simp add: wf_lanHeader_def)
  from frameMessage_image [OF ok(1) this bodyLength_nonneg [OF ok(1)] n, of b "cn_isTlsConn c"] b(2)
  have "frameMessage (cn_isTlsConn c) ?h ps b = Some (getWsFrameLength (cn_isTlsConn c) ?n,
      ws_prefix (cn_isTlsConn c) ?n @ lan_image ?h 0 @ parcels_image ps)" by simp
  then show ?thesis using that [of wb] u b(1) by (simp add: writeLanMessage_def Let_def lanHeaderLen_def)
qed

lemma writeLanMessage_clear:
  assumes "usable c" "cn_sends c = []" "list_all parcel_ok ps" "wf_lanHeader h" "bodyLength ps < 2 ^ 31"
    and e: "\<not> encrypts c (lh_kind h)"
  shows "\<exists>wb. writeLanMessage E h ps c = Some (Inr (), c\<lparr>cn_writeBuffer := wb,
      cn_written := cn_written c @ [plainMessage (cn_isTlsConn c) (h\<lparr>lh_encrypted := False\<rparr>) ps]\<rparr>)"
proof -
  let ?h = "h\<lparr>lh_encrypted := False\<rparr>" let ?n = "52 + bodyLength ps"
  obtain wb where w: "writeLanMessage E h ps c =
    transmit E False (getWsFrameLength (cn_isTlsConn c) ?n) (bodyLength ps)
      (ws_prefix (cn_isTlsConn c) ?n @ lan_image ?h 0 @ parcels_image ps) (c\<lparr>cn_writeBuffer := wb\<rparr>)"
    using writeLanMessage_frame [OF assms(1,3-5), of E thesis] e by simp
  have h: "wf_lanHeader ?h" using assms(4) by (simp add: wf_lanHeader_def)
  have u: "usable (c\<lparr>cn_writeBuffer := wb\<rparr>)" using assms(1) by (simp add: usable_def)
  show ?thesis
    by (rule exI [of _ wb])
      (use raw_write_ok [OF u] assms(2) in
        \<open>simp add: w transmit_def bnd_def pure_def putBodyLen_image [OF h length_ws_prefix] plainMessage_def\<close>)
qed

lemma writeLanMessage_plain:
  assumes "usable c" "cn_sends c = []" "list_all parcel_ok ps" "wf_lanHeader h" "bodyLength ps < 2 ^ 31"
    and "\<not> encrypts c (lh_kind h)"
  shows "\<exists>c'. writeLanMessage E h ps c = Some (Inr (), c')
    \<and> sentBy c (plainMessage (cn_isTlsConn c) (h\<lparr>lh_encrypted := False\<rparr>) ps) c'"
  using writeLanMessage_clear [OF assms, of E] by (auto simp: sentBy_def)

lemma writeLanMessage_sealed:
  assumes "usable c" "cn_sends c = []" "list_all parcel_ok ps" "wf_lanHeader h" "bodyLength ps < 2 ^ 31"
    and e: "encrypts c (lh_kind h)" and g: "cn_gss c = Some (GssTd2 x)"
    and w: "wrap (v_seal E) x (drop 24 (lan_image (h\<lparr>lh_encrypted := True\<rparr>) 0 @ parcels_image ps)) = Some (Inr (m, x'))"
  shows "\<exists>c'. writeLanMessage E h ps c = Some (Inr (), c')
    \<and> sentBy c (sealedMessage (h\<lparr>lh_encrypted := True\<rparr>) m) c' \<and> cn_gss c' = Some (GssTd2 x')"
proof -
  let ?h = "h\<lparr>lh_encrypted := True\<rparr>" let ?n = "52 + bodyLength ps"
  have t: "\<not> cn_isTlsConn c" using e by (simp add: encrypts_def)
  obtain wb where s: "writeLanMessage E h ps c =
    transmit E True 0 (bodyLength ps) (lan_image ?h 0 @ parcels_image ps) (c\<lparr>cn_writeBuffer := wb\<rparr>)"
    using writeLanMessage_frame [OF assms(1,3-5), of E thesis] e t
    by (simp add: ws_prefix_def getWsFrameLength_def)
  have h: "wf_lanHeader ?h" using assms(4) by (simp add: wf_lanHeader_def)
  have l: "length (lan_image ?h k) = 52" for k by (rule length_lan_image [OF h])
  have sl: "slice (lan_image ?h 0 @ parcels_image ps) 24 (int (length (lan_image ?h 0 @ parcels_image ps))) =
      Some (drop 24 (lan_image ?h 0 @ parcels_image ps))"
    using l [of 0] by (simp add: slice_def)
  have u: "usable (c\<lparr>cn_writeBuffer := wb, cn_gss := Some (GssTd2 x')\<rparr>)" using assms(1) by (simp add: usable_def)
  have p: "putBodyLen 0 (int (length m) - 28) (lan_image ?h 0 @ parcels_image ps) =
      Some (lan_image ?h (int (length m) - 28) @ parcels_image ps)"
    using putBodyLen_image [OF h, of "[]" 0] by simp
  let ?c = "c\<lparr>cn_writeBuffer := wb\<rparr>"
  have "gss_wrap E (drop 24 (lan_image ?h 0 @ parcels_image ps)) ?c = Some (Inr m, ?c\<lparr>cn_gss := Some (GssTd2 x')\<rparr>)"
    by (simp add: gss_wrap_def g w del: drop_append)
  moreover have "take 24 (lan_image ?h (int (length m) - 28) @ parcels_image ps) @ m = sealedMessage ?h m"
    using l [of "int (length m) - 28"] by (simp add: sealedMessage_def)
  moreover have "writeLanMessageRaw (sealedMessage ?h m) (?c\<lparr>cn_gss := Some (GssTd2 x')\<rparr>) =
      Some (Inr (), ?c\<lparr>cn_gss := Some (GssTd2 x'), cn_written := cn_written c @ [sealedMessage ?h m]\<rparr>)"
    using raw_write_ok [OF u] assms(2) by simp
  ultimately show ?thesis
    unfolding s transmit_def bnd_def pure_def sl by (simp add: sentBy_def p del: drop_append take_append)
qed


section \<open>Reading it back\<close>

lemma peek_exact:
  assumes "healthy cs" "incoming b cs = d @ rest" "n = int (length d)"
  shows "\<exists>b' cs'. peek b n cs = Some (Inr d, b', cs') \<and> healthy cs' \<and> incoming b' cs' = d @ rest"
proof -
  obtain b' cs' where f: "fill b n cs = Some (None, b', cs')" "healthy cs'"
    using fill_enough [OF assms(1), of n b] assms(2,3) by auto
  have i: "incoming b' cs' = d @ rest" and len: "n \<le> int (length (rb_pending b'))"
    using fill_sound(1,2) [OF f(1)] assms(2) by auto
  then have "take (length d) (rb_pending b') = d"
    using assms(3) by (simp add: incoming_def append_eq_append_conv_if split: if_splits)
  then have "slice (rb_pending b') 0 n = Some d" using len assms(3) by (simp add: slice_def)
  then show ?thesis using f i by (simp add: peek_def)
qed

lemma lanHeader_prefix:
  assumes "length d = 52" "take 24 d = take 24 (lan_image h n)" "wf_lanHeader h" "0 \<le> n" "n < 2 ^ 32"
  shows "\<exists>hdr. lanHeaderFromBuffer d = Inr hdr \<and> lh_msgType hdr = (if lh_encrypted h then 0x81 else 1)
    \<and> lh_msgLen hdr = n + 52"
proof -
  let ?i = "lan_image h n"
  have l: "length ?i = 52" by (rule length_lan_image [OF assms(3)])
  have nth: "d ! k = ?i ! k" if "k < 24" for k using nth_take [of k 24 d] nth_take [of k 24 ?i] assms(2) that by simp
  have sl: "take m (drop k d) = take m (drop k ?i)" if "k + m \<le> 24" for k m
  proof -
    have "take m (drop k (take 24 d)) = take m (drop k (take 24 ?i))" using assms(2) by simp
    then show ?thesis using that by (simp add: drop_take min_def split: if_splits)
  qed
  from lanHeaderFromBuffer_image [OF assms(3-5)]
  have "lh_msgType (projr (lanHeaderFromBuffer ?i)) = (if lh_encrypted h then 0x81 else 1)"
    "lh_msgLen (projr (lanHeaderFromBuffer ?i)) = n + 52" by simp_all
  then show ?thesis
    using l assms(1) nth [of 1] sl [of 3 2] sl [of 8 2]
    by (simp add: lanHeaderFromBuffer_def lanHeaderLen_def Let_def)
qed

lemma bnd_run: "m c = Some (Inr x, c') \<Longrightarrow> bnd m f c = f x c'"
  by (simp add: bnd_def)

lemma bad_on_error_run: "m c = Some (Inr x, c') \<Longrightarrow> bad_on_error m c = Some (Inr x, c')"
  by (simp add: bad_on_error_def attempt_def ret_def)

lemma read_op_run: "f (cn_buffer c) (cn_script c) = Some (r, b, cs) \<Longrightarrow>
    read_op f c = Some (r, c\<lparr>cn_buffer := b, cn_script := cs\<rparr>)"
  by (simp add: read_op_def)

text \<open>A connection whose socket will deliver \<open>bs\<close> without errors.\<close>

definition receives :: "teradataConnection \<Rightarrow> byte list \<Rightarrow> bool" where
  "receives d bs \<longleftrightarrow> healthy (cn_script d) \<and> incoming (cn_buffer d) (cn_script d) = bs"

lemma read_ws_prefix:
  assumes "receives d (ws_prefix (cn_isTlsConn d) n @ rest)" "0 \<le> n" "n < 2 ^ 32"
  shows "\<exists>b cs. (if cn_isTlsConn d then bnd (bad_on_error (read_op readWsFrameHeader)) (\<lambda>_. ret ()) else ret ()) d
      = Some (Inr (), d\<lparr>cn_buffer := b, cn_script := cs\<rparr>) \<and> receives (d\<lparr>cn_buffer := b, cn_script := cs\<rparr>) rest"
proof (cases "cn_isTlsConn d")
  case True
  then obtain b cs where "readWsFrameHeader (cn_buffer d) (cn_script d) = Some (Inr (word_of_int n), b, cs)"
    "healthy cs" "incoming b cs = rest"
    using readWsFrameHeader_image [of "cn_script d" "cn_buffer d" n rest] assms
    by (auto simp: receives_def ws_prefix_def)
  then show ?thesis using True
    by (intro exI [of _ b] exI [of _ cs]) (simp add: bnd_def bad_on_error_def attempt_def read_op_def ret_def receives_def)
next
  case False
  then show ?thesis using assms(1)
    by (intro exI [of _ "cn_buffer d"] exI [of _ "cn_script d"]) (simp add: ret_def ws_prefix_def)
qed

text \<open>The frame of one message read: header and body, with the header parsed.\<close>

lemma read_frame:
  assumes r: "receives d (ws_prefix (cn_isTlsConn d) (int (length m)) @ m @ rest)"
    and h: "lanHeaderFromBuffer (take 52 m) = Inr header" "lh_msgLen header = int (length m)" "52 \<le> length m"
    and l: "length m < 2 ^ 32"
  shows "\<exists>b cs. readLanMessageRawInto E own d =
      bnd (modify (\<lambda>c. c\<lparr>cn_transactionInProgress := (lh_byteVar header AND 1 = 1)\<rparr>)) (\<lambda>_.
      bnd (openBody E m header) (\<lambda>(parcelData, parcelStart, parcelEnd, controlDataLength).
      bnd (readControlData E parcelData parcelEnd controlDataLength) (\<lambda>_.
      bnd (pure (if own \<and> lh_msgType header AND 0x80 = 0 then slice parcelData 0 parcelEnd else Some parcelData))
        (\<lambda>parcelData.
      ret (parcelData, parcelStart, parcelEnd, header\<lparr>lh_controlDataLength := controlDataLength\<rparr>)))))
      (d\<lparr>cn_buffer := b, cn_script := cs\<rparr>)
    \<and> receives (d\<lparr>cn_buffer := b, cn_script := cs\<rparr>) rest"
proof -
  obtain b0 cs0 where w: "(if cn_isTlsConn d then bnd (bad_on_error (read_op readWsFrameHeader)) (\<lambda>_. ret ()) else ret ()) d
      = Some (Inr (), d\<lparr>cn_buffer := b0, cn_script := cs0\<rparr>)" "receives (d\<lparr>cn_buffer := b0, cn_script := cs0\<rparr>) (m @ rest)"
    using read_ws_prefix [OF r] l by auto
  have "healthy cs0" "incoming b0 cs0 = take 52 m @ drop 52 m @ rest" using w(2) by (simp_all add: receives_def)
  from peek_exact [OF this, of 52] h(3) obtain b1 cs1 where
    p: "peek b0 lanHeaderLen cs0 = Some (Inr (take 52 m), b1, cs1)" "healthy cs1" "incoming b1 cs1 = m @ rest"
    by (auto simp: lanHeaderLen_def)
  from readNext_exact [OF p(2,3)] h(2) obtain b2 cs2 where
    n: "readNext b1 (lh_msgLen header) cs1 = Some (Inr m, b2, cs2)" "healthy cs2" "incoming b2 cs2 = rest" by auto
  let ?d0 = "d\<lparr>cn_buffer := b0, cn_script := cs0\<rparr>" and ?d1 = "d\<lparr>cn_buffer := b1, cn_script := cs1\<rparr>"
  have s1: "bad_on_error (read_op (\<lambda>b. peek b lanHeaderLen)) ?d0 = Some (Inr (take 52 m), ?d1)"
    using read_op_run [of "\<lambda>b. peek b lanHeaderLen" ?d0] p(1) by (simp add: bad_on_error_run)
  have s2: "bad_on_error (\<lambda>c. Some (lanHeaderFromBuffer (take 52 m), c)) ?d1 = Some (Inr header, ?d1)"
    using h(1) by (simp add: bad_on_error_run)
  have s3: "bad_on_error (read_op (\<lambda>b. readNext b (lh_msgLen header))) ?d1 = Some (Inr m, d\<lparr>cn_buffer := b2, cn_script := cs2\<rparr>)"
    using read_op_run [of "\<lambda>b. readNext b (lh_msgLen header)" ?d1] n(1) by (simp add: bad_on_error_run)
  have s0: "gets cn_isTlsConn d = Some (Inr (cn_isTlsConn d), d)" by (simp add: gets_def)
  note steps = bnd_run [of "gets cn_isTlsConn" d, OF s0]
    bnd_run [of "if cn_isTlsConn d then bnd (bad_on_error (read_op readWsFrameHeader)) (\<lambda>_. ret ()) else ret ()" d, OF w(1)]
    bnd_run [of "bad_on_error (read_op (\<lambda>b. peek b lanHeaderLen))" ?d0, OF s1]
    bnd_run [of "bad_on_error (\<lambda>c. Some (lanHeaderFromBuffer (take 52 m), c))" ?d1, OF s2]
    bnd_run [of "bad_on_error (read_op (\<lambda>b. readNext b (lh_msgLen header)))" ?d1, OF s3]
  show ?thesis
    using n(2,3) unfolding readLanMessageRawInto_def
    by (intro exI [of _ b2] exI [of _ cs2]) (simp only: steps, simp add: receives_def)
qed


text \<open>The reader ends up with the parcels' bytes between the positions it returns.\<close>

definition readsParcels :: "env \<Rightarrow> bool \<Rightarrow> teradataConnection \<Rightarrow> byte list \<Rightarrow> byte list \<Rightarrow> bool" where
  "readsParcels E own d body rest \<longleftrightarrow> (\<exists>data start end' header d'.
     readLanMessageRawInto E own d = Some (Inr (data, start, end', header), d')
     \<and> slice data start end' = Some body \<and> receives d' rest)"

lemma controlData_none: "readControlData E m n 0 c = Some (Inr (), c)"
  by (simp add: readControlData_def ret_def)

lemma read_plain:
  assumes r: "receives d (plainMessage (cn_isTlsConn d) h ps @ rest)" and h: "wf_lanHeader h" "\<not> lh_encrypted h"
    and ok: "list_all parcel_ok ps" and n: "bodyLength ps < 2 ^ 31"
  shows "readsParcels E own d (parcels_image ps) rest"
proof -
  let ?n = "bodyLength ps" let ?m = "lan_image h ?n @ parcels_image ps"
  have l: "length (lan_image h ?n) = 52" by (rule length_lan_image [OF h(1)])
  have len: "int (length ?m) = 52 + ?n" using l length_parcels_image [OF ok] by simp
  have "plainMessage (cn_isTlsConn d) h ps @ rest = ws_prefix (cn_isTlsConn d) (int (length ?m)) @ ?m @ rest"
    by (simp only: plainMessage_def len append_assoc)
  then have r': "receives d (ws_prefix (cn_isTlsConn d) (int (length ?m)) @ ?m @ rest)" using r by (simp only:)
  obtain hdr where hdr: "lanHeaderFromBuffer (take 52 ?m) = Inr hdr" "lh_msgType hdr = 1" "lh_msgLen hdr = ?n + 52"
    "lh_controlDataLength hdr = 0"
    using lanHeaderFromBuffer_image [OF h(1) bodyLength_nonneg [OF ok]] n l h(2) by simp
  have "length ?m < 2 ^ 32" "52 \<le> length ?m" "lh_msgLen hdr = int (length ?m)" using len n l hdr(3) by simp_all
  from read_frame [OF r' hdr(1) this(3,2,1), of E own] obtain b cs where
    f: "readLanMessageRawInto E own d =
      bnd (modify (\<lambda>c. c\<lparr>cn_transactionInProgress := (lh_byteVar hdr AND 1 = 1)\<rparr>)) (\<lambda>_.
      bnd (openBody E ?m hdr) (\<lambda>(parcelData, parcelStart, parcelEnd, controlDataLength).
      bnd (readControlData E parcelData parcelEnd controlDataLength) (\<lambda>_.
      bnd (pure (if own \<and> lh_msgType hdr AND 0x80 = 0 then slice parcelData 0 parcelEnd else Some parcelData))
        (\<lambda>parcelData.
      ret (parcelData, parcelStart, parcelEnd, hdr\<lparr>lh_controlDataLength := controlDataLength\<rparr>)))))
      (d\<lparr>cn_buffer := b, cn_script := cs\<rparr>)"
    "receives (d\<lparr>cn_buffer := b, cn_script := cs\<rparr>) rest"
    by auto
  have sl: "slice ?m 0 (?n + 52) = Some ?m" using len by (simp add: slice_def)
  have "readLanMessageRawInto E own d = Some (Inr (?m, 52, ?n + 52, hdr\<lparr>lh_controlDataLength := 0\<rparr>),
      d\<lparr>cn_buffer := b, cn_script := cs, cn_transactionInProgress := (lh_byteVar hdr AND 1 = 1)\<rparr>)"
    unfolding f(1)
    by (simp add: bnd_def modify_def openBody_def hdr ret_def lanHeaderLen_def controlData_none pure_def sl)
  moreover have "slice ?m 52 (?n + 52) = Some (parcels_image ps)" using len l by (simp add: slice_def)
  ultimately show ?thesis using f(2) unfolding readsParcels_def receives_def by fastforce
qed

lemma read_sealed:
  assumes r: "receives d (sealedMessage h e @ rest)" and h: "wf_lanHeader h" "lh_encrypted h"
    and ok: "list_all parcel_ok ps" and t: "\<not> cn_isTlsConn d"
    and g: "cn_gss d = Some (GssTd2 y)"
    and u: "unwrap (v_open E) y e = Some (Inr (drop 24 (lan_image h 0 @ parcels_image ps)))"
    and len: "28 \<le> length e" "length e < 2 ^ 31"
  shows "readsParcels E own d (parcels_image ps) rest"
proof -
  let ?n = "int (length e) - 28" let ?m = "sealedMessage h e"
  let ?p = "drop 24 (lan_image h 0) @ parcels_image ps"
  have l: "length (lan_image h k) = 52" for k by (rule length_lan_image [OF h(1)])
  have lm: "length ?m = 24 + length e" using l by (simp add: sealedMessage_def)
  have lp: "length ?p = 28 + length (parcels_image ps)" using l by simp
  have r': "receives d (ws_prefix (cn_isTlsConn d) (int (length ?m)) @ ?m @ rest)" using r t by (simp add: ws_prefix_def)
  have "take 24 (take 52 ?m) = take 24 (lan_image h ?n)" using l by (simp add: sealedMessage_def)
  from lanHeader_prefix [OF _ this h(1)] lm len h(2) obtain hdr where
    hdr: "lanHeaderFromBuffer (take 52 ?m) = Inr hdr" "lh_msgType hdr = 0x81" "lh_msgLen hdr = int (length ?m)"
    by auto
  have "length ?m < 2 ^ 32" using lm len by simp
  from read_frame [OF r' hdr(1,3) _ this, of E own] lm len obtain b cs where
    f: "readLanMessageRawInto E own d =
      bnd (modify (\<lambda>c. c\<lparr>cn_transactionInProgress := (lh_byteVar hdr AND 1 = 1)\<rparr>)) (\<lambda>_.
      bnd (openBody E ?m hdr) (\<lambda>(parcelData, parcelStart, parcelEnd, controlDataLength).
      bnd (readControlData E parcelData parcelEnd controlDataLength) (\<lambda>_.
      bnd (pure (if own \<and> lh_msgType hdr AND 0x80 = 0 then slice parcelData 0 parcelEnd else Some parcelData))
        (\<lambda>parcelData.
      ret (parcelData, parcelStart, parcelEnd, hdr\<lparr>lh_controlDataLength := controlDataLength\<rparr>)))))
      (d\<lparr>cn_buffer := b, cn_script := cs\<rparr>)"
    "receives (d\<lparr>cn_buffer := b, cn_script := cs\<rparr>) rest"
    by auto
  have s: "slice ?m 24 (int (length ?m)) = Some e" using lm l by (simp add: slice_def sealedMessage_def)
  have z: "u32_of (take 4 (drop 16 ?p)) = 0"
  proof -
    have "drop 16 ?p = drop 40 (lan_image h 0) @ parcels_image ps" using l by simp
    moreover have "take 4 (drop 40 (lan_image h 0)) = replicate 4 0"
      using h(1) by (simp add: lan_image_def wf_lanHeader_def)
    ultimately show ?thesis using l by (simp add: u32_of_def)
  qed
  have u': "unwrap (v_open E) y e = Some (Inr ?p)" using u l by simp
  let ?d = "d\<lparr>cn_buffer := b, cn_script := cs, cn_transactionInProgress := (lh_byteVar hdr AND 1 = 1)\<rparr>"
  have "bad_on_error (gss_unwrap E e) ?d = Some (Inr ?p, ?d)"
    by (rule bad_on_error_run) (simp add: gss_unwrap_def g u')
  then have o': "openBody E ?m hdr ?d = Some (Inr (?p, 28, int (length ?p), 0), ?d)"
    using lp z
    by (simp add: openBody_def hdr bnd_def [of "gets _"] gets_def g bnd_def [of "pure _"] pure_def s
        bnd_def [of "bad_on_error _"] lanHeaderLen_def Let_def ret_def del: drop_append)
  have "readLanMessageRawInto E own d = Some (Inr (?p, 28, int (length ?p), hdr\<lparr>lh_controlDataLength := 0\<rparr>), ?d)"
    unfolding f(1)
    by (simp add: bnd_def [of "modify _"] modify_def bnd_def [of "openBody _ _ _"] o' bnd_def [of "readControlData _ _ _ _"]
        controlData_none bnd_def [of "pure _"] pure_def hdr ret_def del: length_append length_drop)
  moreover have "slice ?p 28 (int (length ?p)) = Some (parcels_image ps)" using l by (simp add: slice_def)
  ultimately show ?thesis using f(2) unfolding readsParcels_def receives_def by fastforce
qed

text \<open>The sender's context can wrap a message; the other end has the same secret and options.\<close>

definition secured :: "env \<Rightarrow> teradataConnection \<Rightarrow> byte list \<Rightarrow> bool" where
  "secured E c clear \<longleftrightarrow> gcm_law (v_seal E) (v_open E) \<and>
     (case cn_gss c of
        Some (GssTd2 x) \<Rightarrow> length (c_qopOptions x) < 2 ^ 31
          \<and> (case wrap (v_seal E) x clear of Some (Inr (e, _)) \<Rightarrow> length e < 2 ^ 31 | _ \<Rightarrow> False)
      | _ \<Rightarrow> False)"

fun gss_shared :: "gssContext \<Rightarrow> gssContext" where
  "gss_shared (GssTd2 x) = GssTd2 (x\<lparr>c_wrapSeqNum := 0\<rparr>)"
| "gss_shared GssTd2Tls = GssTd2Tls"

definition peer_of :: "teradataConnection \<Rightarrow> teradataConnection \<Rightarrow> bool" where
  "peer_of c d \<longleftrightarrow> cn_isTlsConn d = cn_isTlsConn c
     \<and> map_option gss_shared (cn_gss d) = map_option gss_shared (cn_gss c)"

lemma securedE:
  assumes "secured E c clear"
  obtains x e x' where "cn_gss c = Some (GssTd2 x)" "wrap (v_seal E) x clear = Some (Inr (e, x'))"
    "length clear + 16 \<le> length e" "length e < 2 ^ 31"
    "\<forall>d. peer_of c d \<longrightarrow> (\<exists>y. cn_gss d = Some (GssTd2 y) \<and> unwrap (v_open E) y e = Some (Inr clear))"
proof -
  obtain gc where "cn_gss c = Some gc" using assms by (cases "cn_gss c") (auto simp: secured_def)
  with assms obtain x where g: "cn_gss c = Some (GssTd2 x)" by (cases gc) (auto simp: secured_def)
  with assms obtain e x' where w: "wrap (v_seal E) x clear = Some (Inr (e, x'))" "length e < 2 ^ 31"
    and p: "length (c_qopOptions x) < 2 ^ 31" and law: "gcm_law (v_seal E) (v_open E)"
    by (auto simp: secured_def split: option.splits sum.splits)
  have "wrap_ok (v_seal E) (v_open E) x e" using law p w(2) by (simp add: wrap_ok_def)
  then have u: "unwrap (v_open E) x e = Some (Inr clear)" by (rule wrap_unwrap [OF _ w(1)])
  have "\<exists>y. cn_gss d = Some (GssTd2 y) \<and> unwrap (v_open E) y e = Some (Inr clear)" if d: "peer_of c d" for d
  proof -
    obtain gd where "cn_gss d = Some gd" using d g by (auto simp: peer_of_def)
    with d g obtain y where y: "cn_gss d = Some (GssTd2 y)" "y\<lparr>c_wrapSeqNum := 0\<rparr> = x\<lparr>c_wrapSeqNum := 0\<rparr>"
      by (cases gd) (auto simp: peer_of_def)
    then show ?thesis using u unwrap_peer [OF y(2)] by metis
  qed
  then show ?thesis using that [OF g w(1) wrap_longer [OF w(1) law] w(2)] by blast
qed

lemma writes_readable:
  assumes "usable c" "cn_sends c = []" "list_all parcel_ok ps" "wf_lanHeader h" "bodyLength ps < 2 ^ 31"
    and "encrypts c (lh_kind h) \<longrightarrow> secured E c (drop 24 (lan_image (h\<lparr>lh_encrypted := True\<rparr>) 0 @ parcels_image ps))"
  shows "\<exists>c' msg. writeLanMessage E h ps c = Some (Inr (), c') \<and> cn_written c' = cn_written c @ [msg]
    \<and> (\<forall>d rest own. peer_of c d \<and> receives d (msg @ rest) \<longrightarrow> readsParcels E own d (parcels_image ps) rest)"
proof (cases "encrypts c (lh_kind h)")
  case False
  have wf: "wf_lanHeader (h\<lparr>lh_encrypted := False\<rparr>)" using assms(4) by (simp add: wf_lanHeader_def)
  let ?m = "plainMessage (cn_isTlsConn c) (h\<lparr>lh_encrypted := False\<rparr>) ps"
  obtain c' where c': "writeLanMessage E h ps c = Some (Inr (), c')" "cn_written c' = cn_written c @ [?m]"
    using writeLanMessage_plain [OF assms(1-5) False, of E] unfolding sentBy_def by blast
  have "readsParcels E own d (parcels_image ps) rest" if "peer_of c d" "receives d (?m @ rest)" for d rest own
    using read_plain [of d "h\<lparr>lh_encrypted := False\<rparr>" ps rest E own] that wf assms(3,5) by (simp add: peer_of_def)
  then show ?thesis using c' by blast
next
  case True
  then have t: "\<not> cn_isTlsConn c" by (simp add: encrypts_def)
  let ?h = "h\<lparr>lh_encrypted := True\<rparr>" let ?clear = "drop 24 (lan_image ?h 0 @ parcels_image ps)"
  have wf: "wf_lanHeader ?h" using assms(4) by (simp add: wf_lanHeader_def)
  have "secured E c ?clear" using assms(6) True by blast
  then obtain x e x' where s: "cn_gss c = Some (GssTd2 x)" "wrap (v_seal E) x ?clear = Some (Inr (e, x'))"
    "length ?clear + 16 \<le> length e" "length e < 2 ^ 31"
    "\<forall>d. peer_of c d \<longrightarrow> (\<exists>y. cn_gss d = Some (GssTd2 y) \<and> unwrap (v_open E) y e = Some (Inr ?clear))"
    by (rule securedE)
  have len: "28 \<le> length e" using s(3) length_lan_image [OF wf, of 0] by simp
  obtain c' where c': "writeLanMessage E h ps c = Some (Inr (), c')" "cn_written c' = cn_written c @ [sealedMessage ?h e]"
    using writeLanMessage_sealed [OF assms(1-5) True s(1,2)] unfolding sentBy_def by blast
  have "readsParcels E own d (parcels_image ps) rest"
    if p: "peer_of c d" and r: "receives d (sealedMessage ?h e @ rest)" for d rest own
  proof -
    obtain y where y: "cn_gss d = Some (GssTd2 y)" "unwrap (v_open E) y e = Some (Inr ?clear)" using s(5) p by blast
    have "\<not> cn_isTlsConn d" using p t by (simp add: peer_of_def)
    then show ?thesis using read_sealed [OF r wf _ assms(3) _ y len s(4)] by simp
  qed
  then show ?thesis using c' by blast
qed


text \<open>C6: a message that one end writes is the message the other end reads. Writing any parcels on a usable
  connection succeeds and appends one frame to what went out; whether the frame travels in the clear,
  in a WebSocket frame under TLS or sealed by a TD2 context, any peer that receives it, followed by
  anything, returns exactly the parcels' bytes and leaves the stream behind the frame untouched.\<close>
theorem lan_message_roundtrip:
  assumes "usable c" "cn_sends c = []" "list_all parcel_ok ps" "wf_lanHeader h" "bodyLength ps < 2 ^ 31"
    and "encrypts c (lh_kind h) \<longrightarrow> secured E c (drop 24 (lan_image (h\<lparr>lh_encrypted := True\<rparr>) 0 @ parcels_image ps))"
  shows "\<exists>c' msg. writeLanMessage E h ps c = Some (Inr (), c') \<and> cn_written c' = cn_written c @ [msg]
    \<and> (\<forall>d rest own. peer_of c d \<and> receives d (msg @ rest) \<longrightarrow> readsParcels E own d (parcels_image ps) rest)"
  by (rule writes_readable [OF assms])

text \<open>A TD2 session that encrypts its data, and its other end.\<close>

definition demo_env :: env where
  "demo_env = \<lparr>v_seal = demo_seal, v_open = demo_open, v_oidString = (\<lambda>_. None)\<rparr>"

definition demo_conn :: teradataConnection where
  "demo_conn = \<lparr>cn_connectionID = ''c1'', cn_script = [], cn_sends = [], cn_written = [], cn_socketClosed = False, cn_closeErr = None,
     cn_config = NewConfig\<lparr>cfg_EncryptData := True\<rparr>, cn_buffer = newReadBuffer,
     cn_writeBuffer = \<lparr>wb_store = []\<rparr>, cn_requestNo = 0, cn_authNonce = 0, cn_sessionNo = 7,
     cn_isTlsConn = False, cn_remoteHost = ''h'', cn_remotePort = 1025,
     cn_gss = Some (GssTd2 demo_ctx), cn_capabilities = None, cn_closed = False, cn_bad = False,
     cn_transactionMode = teraMode, cn_transactionInProgress = False, cn_currentTransaction = False,
     cn_policy = \<lparr>sp_securityRequired = False, sp_confidentialityRequired = False, sp_securityLevel = 0\<rparr>,
     cn_logonSequenceNumber = 0\<rparr>"

definition demo_start :: lanHeader where
  "demo_start = (lanHeaderFor lanHeaderTypeStart 7 1 7)\<lparr>lh_authNonce := be_enc 8 1\<rparr>"

lemma demo_secured:
  "secured demo_env demo_conn (drop 24 (lan_image (demo_start\<lparr>lh_encrypted := True\<rparr>) 0 @ parcels_image [RequestParcel (str_bytes ''BT'')]))"
proof -
  have "(case wrap demo_seal demo_ctx (drop 24 (lan_image (demo_start\<lparr>lh_encrypted := True\<rparr>) 0
      @ parcels_image [RequestParcel (str_bytes ''BT'')])) of Some (Inr (e, _)) \<Rightarrow> length e < 200 | _ \<Rightarrow> False)"
    by code_simp
  then show ?thesis using demo_law
    by (auto simp: secured_def demo_env_def demo_conn_def split: option.splits sum.splits) (simp add: demo_ctx_def)
qed


theorem lan_message_roundtrip_witness:
  "\<exists>c' msg. writeLanMessage demo_env demo_start [RequestParcel (str_bytes ''BT'')] demo_conn = Some (Inr (), c')
    \<and> cn_written c' = [msg]
    \<and> readsParcels demo_env True (demo_conn\<lparr>cn_script := [(msg @ [9, 9], None)]\<rparr>) [0, 1, 0, 6, 66, 84] [9, 9]"
proof -
  let ?ps = "[RequestParcel (str_bytes ''BT'')]"
  have h: "usable demo_conn" "cn_sends demo_conn = []" "list_all parcel_ok ?ps" "wf_lanHeader demo_start"
    "bodyLength ?ps < 2 ^ 31" "parcels_image ?ps = [0, 1, 0, 6, 66, 84]" "cn_written demo_conn = []"
    by (simp_all add: usable_def demo_conn_def demo_start_def lanHeaderFor_def wf_lanHeader_def, code_simp+)
  have s: "encrypts demo_conn (lh_kind demo_start) \<longrightarrow> secured demo_env demo_conn
      (drop 24 (lan_image (demo_start\<lparr>lh_encrypted := True\<rparr>) 0 @ parcels_image ?ps))"
    using demo_secured by blast
  obtain c' msg where w: "writeLanMessage demo_env demo_start ?ps demo_conn = Some (Inr (), c')"
    "cn_written c' = cn_written demo_conn @ [msg]"
    "\<forall>d rest own. peer_of demo_conn d \<and> receives d (msg @ rest) \<longrightarrow> readsParcels demo_env own d (parcels_image ?ps) rest"
    using lan_message_roundtrip [OF h(1-5) s] by blast
  let ?d = "demo_conn\<lparr>cn_script := [(msg @ [9, 9], None)]\<rparr>"
  have "peer_of demo_conn ?d" by (simp add: peer_of_def)
  moreover have "receives ?d (msg @ [9, 9])"
    by (simp add: receives_def healthy_def incoming_def script_bytes_def demo_conn_def newReadBuffer_def)
  ultimately have "readsParcels demo_env True ?d (parcels_image ?ps) [9, 9]" using w(3) by blast
  then show ?thesis using w(1,2) h(6,7) by auto
qed

theorem read_error_marks_bad_witness:
  "\<exists>c'. readLanMessageRawInto demo_env False (demo_conn\<lparr>cn_script := [([3, 1], None)]\<rparr>) = Some (Inl ErrUnexpectedEOF, c')
     \<and> \<not> IsValid c'"
proof -
  let ?c = "demo_conn\<lparr>cn_script := [([3, 1], None)]\<rparr>"
  have "fill_loop 52 4096 [] [([3, 1], None)] = Some ([3, 1], Some ErrUnexpectedEOF, [])"
    using fill_loop_short [of 52 4096 "[([3, 1], None)]" "[]"] by (simp add: healthy_def script_bytes_def)
  then obtain b where "peek newReadBuffer 52 [([3, 1], None)] = Some (Inl ErrUnexpectedEOF, b, [])"
    by (simp add: peek_def fill_def newReadBuffer_def fill_dest_len_def defaultBufSize_def)
  moreover have "cn_isTlsConn ?c = False" "cn_buffer ?c = newReadBuffer" "cn_script ?c = [([3, 1], None)]"
    by (simp_all add: demo_conn_def)
  ultimately obtain c' where r: "readLanMessageRawInto demo_env False ?c = Some (Inl ErrUnexpectedEOF, c')"
    by (simp add: readLanMessageRawInto_def bnd_def gets_def ret_def bad_on_error_def attempt_def read_op_def
        lanHeaderLen_def markUnusable_def)
  from read_error_marks_bad [OF r] r show ?thesis by blast
qed

section \<open>Closed and bad connections stay silent\<close>

text \<open>A computation that writes nothing on an unusable connection, and leaves it unusable; \<open>g\<close> finds the
  connection in the state.\<close>

definition quiet_in :: "('s \<Rightarrow> teradataConnection) \<Rightarrow> ('s, 'a) comp \<Rightarrow> bool" where
  "quiet_in g m \<longleftrightarrow> (\<forall>c r c'. \<not> usable (g c) \<longrightarrow> m c = Some (r, c')
     \<longrightarrow> \<not> usable (g c') \<and> cn_written (g c') = cn_written (g c))"

abbreviation quiet :: "'a act \<Rightarrow> bool" where "quiet \<equiv> quiet_in (\<lambda>c. c)"

lemmas quiet_def = quiet_in_def [of "\<lambda>c. c"]

named_theorems quiet_intros \<open>computations that keep an unusable connection silent\<close>

lemma quietD:
  "quiet_in g m \<Longrightarrow> \<not> usable (g c) \<Longrightarrow> m c = Some (r, c') \<Longrightarrow>
     \<not> usable (g c') \<and> cn_written (g c') = cn_written (g c)"
  unfolding quiet_in_def by blast

lemma quiet_bnd [quiet_intros]:
  assumes "quiet_in g m" "\<And>x. quiet_in g (f x)"
  shows "quiet_in g (bnd m f)"
  unfolding quiet_in_def
proof (intro allI impI)
  fix c r c' assume u: "\<not> usable (g c)" and b: "bnd m f c = Some (r, c')"
  from b show "\<not> usable (g c') \<and> cn_written (g c') = cn_written (g c)"
    unfolding bnd_def using quietD [OF assms(1) u] quietD [OF assms(2)]
    by (auto split: option.splits sum.splits)
qed

lemma quiet_attempt [quiet_intros]:
  assumes "quiet_in g m" "\<And>x. quiet_in g (f x)"
  shows "quiet_in g (attempt m f)"
  unfolding quiet_in_def
proof (intro allI impI)
  fix c r c' assume u: "\<not> usable (g c)" and b: "attempt m f c = Some (r, c')"
  from b show "\<not> usable (g c') \<and> cn_written (g c') = cn_written (g c)"
    unfolding attempt_def using quietD [OF assms(1) u] quietD [OF assms(2)]
    by (auto split: option.splits)
qed

lemma quiet_ret [quiet_intros]: "quiet_in g (ret x)" by (simp add: quiet_in_def ret_def)
lemma quiet_fail [quiet_intros]: "quiet_in g (fail x)" by (simp add: quiet_in_def fail_def)
lemma quiet_gets [quiet_intros]: "quiet_in g (gets f)" by (simp add: quiet_in_def gets_def)
lemma quiet_pure [quiet_intros]: "quiet_in g (pure x)" by (auto simp: quiet_in_def pure_def)
lemma quiet_zoom [quiet_intros]: "quiet_in g m \<Longrightarrow> quiet_in (\<lambda>s. g (snd s)) (zoom m)"
  by (auto simp: quiet_in_def zoom_def)

lemma quiet_modify_fst [quiet_intros]:
  "(\<And>s. snd (f s) = snd s) \<Longrightarrow> quiet_in (\<lambda>s. g (snd s)) (modify f)"
  unfolding quiet_in_def modify_def by (metis option.inject prod.inject)

lemma quiet_capabilities [quiet_intros]: "quiet capabilities" by (auto simp: quiet_def capabilities_def)
lemma quiet_check_usable [quiet_intros]: "quiet check_usable" by (simp add: quiet_def check_usable_def fail_def)
lemma quiet_markUnusable [quiet_intros]: "quiet (markUnusable e)" by (auto simp: quiet_def markUnusable_def usable_def)
lemma quiet_nextAuthNonce [quiet_intros]: "quiet nextAuthNonce"
  by (auto simp: quiet_def nextAuthNonce_def Let_def usable_def)
lemma quiet_nextRequestNumber [quiet_intros]: "quiet nextRequestNumber"
  by (auto simp: quiet_def nextRequestNumber_def Let_def usable_def)
lemma quiet_sameRequestNumber [quiet_intros]: "quiet sameRequestNumber"
  by (auto simp: quiet_def sameRequestNumber_def)

lemma quiet_modify:
  assumes "\<And>c. \<not> usable c \<Longrightarrow> \<not> usable (f c)" "\<And>c. cn_written (f c) = cn_written c"
  shows "quiet (modify f)"
  using assms by (simp add: quiet_def modify_def)

lemma quiet_if [quiet_intros]: "quiet_in g m \<Longrightarrow> quiet_in g n \<Longrightarrow> quiet_in g (if b then m else n)" by simp

lemma quiet_case_sum [quiet_intros]:
  "(\<And>e. quiet_in h (f e)) \<Longrightarrow> (\<And>x. quiet_in h (g x)) \<Longrightarrow> quiet_in h (case r of Inl e \<Rightarrow> f e | Inr x \<Rightarrow> g x)"
  by (simp split: sum.split)

lemma quiet_case_option [quiet_intros]:
  "quiet_in h f \<Longrightarrow> (\<And>x. quiet_in h (g x)) \<Longrightarrow> quiet_in h (case r of None \<Rightarrow> f | Some x \<Rightarrow> g x)"
  by (simp split: option.split)

lemma quiet_withNonce [quiet_intros]: "quiet (withNonce h)"
  unfolding withNonce_def by (intro quiet_intros)

lemmas header_defs = newLanHeaderLogoff_def newLanHeaderConnect_def newLanHeaderStart_def
  newLanHeaderContinue_def newLanHeaderCancel_def

lemma quiet_headers [quiet_intros]:
  "quiet newLanHeaderLogoff" "quiet newLanHeaderConnect" "quiet newLanHeaderStart"
  "quiet newLanHeaderContinue" "quiet (newLanHeaderCancel n)"
  unfolding header_defs by (intro quiet_intros)+

lemma quiet_writeLanMessage [quiet_intros]: "quiet (writeLanMessage E h ps)"
  by (simp add: quiet_def writeLanMessage_def fail_def)

lemma quiet_bad_on_error [quiet_intros]: "quiet m \<Longrightarrow> quiet (bad_on_error m)"
  unfolding bad_on_error_def by (intro quiet_intros)

lemma quiet_read_op [quiet_intros]: "quiet (read_op f)"
  by (auto simp: quiet_def read_op_def usable_def elim!: bind_SomeE)

lemma quiet_gss_unwrap [quiet_intros]: "quiet (gss_unwrap E d)"
  by (auto simp: quiet_def gss_unwrap_def split: option.splits gssContext.splits)

lemma quiet_readControlData [quiet_intros]: "quiet (readControlData E d n l)"
  by (auto simp: quiet_def readControlData_def ret_def usable_def elim!: bind_SomeE split: sum.splits if_splits)

lemma quiet_openBody [quiet_intros]: "quiet (openBody E d h)"
  unfolding openBody_def Let_def by (intro quiet_intros)

lemma quiet_readLanMessageRawInto [quiet_intros]: "quiet (readLanMessageRawInto E own)"
  unfolding readLanMessageRawInto_def case_prod_beta
  by (intro quiet_intros quiet_modify) (auto simp: usable_def quiet_def)

lemma quiet_readLanMessage [quiet_intros]:
  "quiet (readLanMessageRaw E)" "quiet (readLanMessageRawOwned E)" "quiet (readLanMessage E)"
  unfolding readLanMessage_def readLanMessageRaw_def readLanMessageRawOwned_def case_prod_beta
  by (intro quiet_intros)+

lemma quiet_drainLoop [quiet_intros]: "quiet (drainLoop E)"
proof -
  have "\<forall>r c'. drainLoop E c = Some (r, c') \<longrightarrow> \<not> usable c \<longrightarrow> \<not> usable c' \<and> cn_written c' = cn_written c" for c
  proof (intro allI impI)
    fix r c' assume d: "drainLoop E c = Some (r, c')" and u: "\<not> usable c"
    have "\<not> usable c \<longrightarrow> \<not> usable (snd (r, c')) \<and> cn_written (snd (r, c')) = cn_written c"
    proof (rule drainLoop.raw_induct [OF _ d])
      fix f E c y
      assume IH: "\<And>E c y. f E c = Some y \<Longrightarrow> \<not> usable c \<longrightarrow> \<not> usable (snd y) \<and> cn_written (snd y) = cn_written c"
        and eq: "readLanMessageRaw E c \<bind> (\<lambda>(r, c). case r of Inl err \<Rightarrow> Some (Inl err, c)
          | Inr (d, start, end', _) \<Rightarrow> checkErrorParcel (newBufferReader d start end') \<bind>
              (\<lambda>e. case e of Some err \<Rightarrow> Some (Inl err, c)
                 | None \<Rightarrow> scanEndRequest (newBufferReader d start end') \<bind>
                     (\<lambda>found. if found then Some (Inr (), c) else f E c))) = Some y"
      show "\<not> usable c \<longrightarrow> \<not> usable (snd y) \<and> cn_written (snd y) = cn_written c"
      proof
        assume u: "\<not> usable c"
        obtain r1 c1 where r1: "readLanMessageRaw E c = Some (r1, c1)" using eq by (auto elim: bind_SomeE)
        note q = quietD [OF quiet_readLanMessage(1) u r1]
        show "\<not> usable (snd y) \<and> cn_written (snd y) = cn_written c"
          using eq r1 q IH [of E c1 y] by (auto split: sum.splits option.splits if_splits elim!: bind_SomeE)
      qed
    qed
    with u show "\<not> usable c' \<and> cn_written c' = cn_written c" by simp
  qed
  then show ?thesis unfolding quiet_def by blast
qed

lemma quiet_sendCancelAndDrain [quiet_intros]: "quiet (sendCancelAndDrain E n)"
  unfolding sendCancelAndDrain_def by (intro quiet_intros)

lemma quiet_runCancelable [quiet_intros]: "quiet_in g m \<Longrightarrow> quiet_in g (runCancelable ctx m)"
  unfolding runCancelable_def
  by (cases ctx) (auto intro!: quiet_intros split: option.split sum.split)

end
