(* ===== verification/Session.thy ===== *)
theory Session
  imports Connection Rows
begin

text \<open>
  The SQL a connection runs for itself, src/connection.go: preparing a statement, inline statements,
  control queries, transactions, \<open>Ping\<close> and \<open>Close\<close>, with the exchange each of them makes with the
  server.
\<close>

section \<open>Operations\<close>

text \<open>The request that every one of them sends: options, the SQL text, and the size of the response.\<close>

definition sendRequest :: "env \<Rightarrow> (Config \<Rightarrow> connectionCapabilities \<Rightarrow> parcel) \<Rightarrow> string \<Rightarrow> unit act" where
  "sendRequest E options query =
     bnd newLanHeaderStart (\<lambda>header.
     bnd capabilities (\<lambda>caps.
     bnd (gets cn_config) (\<lambda>cfg.
     writeLanMessage E header [options cfg caps, newIndicRequestParcel query, newRespondParcel caps cfg])))"

record teradataStatement =
  st_query :: string
  st_requestNo :: u32
  st_isOpenKeep :: bool
  st_statementInfo :: "statementInfo option"

fun is_flavor :: "u16 \<Rightarrow> responseParcel \<Rightarrow> bool" where
  "is_flavor f RP_statementInfoEnd = (f = flavorStementInfoEnd)"
| "is_flavor f RP_endRequest = (f = flavorEndRequest)"
| "is_flavor f (RP_endStatement n) = (f = flavorEndStatement)"
| "is_flavor f _ = False"

definition prepare :: "env \<Rightarrow> string \<Rightarrow> teradataStatement act" where
  "prepare E query =
     bnd check_usable (\<lambda>_.
     bnd (sendRequest E newOptionsParcelPrepare query) (\<lambda>_.
     bnd (readLanMessage E) (\<lambda>(parcels, _).
     case findParcel as_statementInfo parcels of
       None \<Rightarrow> fail ErrInvalidResponse
     | Some statementInfo \<Rightarrow>
         if \<not> list_ex (is_flavor flavorStementInfoEnd) parcels \<or> \<not> list_ex (is_flavor flavorEndRequest) parcels
            \<or> \<not> list_ex (is_flavor flavorEndStatement) parcels
         then fail ErrInvalidResponse
         else ret \<lparr>st_query = query, st_requestNo = 0, st_isOpenKeep = False, st_statementInfo = Some statementInfo\<rparr>)))"

definition execSessionSQL :: "env \<Rightarrow> string \<Rightarrow> statementInfo option act" where
  "execSessionSQL E query =
     bnd check_usable (\<lambda>_.
     bnd (sendRequest E newOptionsParcelExecute query) (\<lambda>_.
     bnd (readLanMessage E) (\<lambda>(respParcels, _).
     ret (findParcel as_statementInfo respParcels))))"

definition check_open :: "unit act" where
  "check_open = bnd (gets cn_closed) (\<lambda>closed. if closed then fail ErrBadConn else ret ())"

definition execSessionUpdate :: "env \<Rightarrow> string \<Rightarrow> u64 act" where
  "execSessionUpdate E query =
     bnd check_open (\<lambda>_.
     bnd (sendRequest E newOptionsParcelExecute query) (\<lambda>_.
     bnd (readLanMessage E) (\<lambda>(respParcels, _).
     ret (case activityCountFromStatusParcels respParcels of Some n \<Rightarrow> n | None \<Rightarrow> 0))))"

text \<open>The columns of a control query's row; a description that is not a full one is passed over.\<close>

fun sessionColumns ::
  "byte list \<Rightarrow> nat \<Rightarrow> metaItem list \<Rightarrow> bufferReader \<Rightarrow> gvalue list \<Rightarrow> (goerror + gvalue list) option" where
  "sessionColumns nulls col [] r rowData = Some (Inr rowData)"
| "sessionColumns nulls col (MetaFull a meta # metas) r rowData = do {
     nul \<leftarrow> isNull nulls col;
     (v, r) \<leftarrow> produceColumnValue r meta nul;
     case v of
       Inl err \<Rightarrow> Some (Inl err)
     | Inr v \<Rightarrow> sessionColumns nulls (Suc col) metas r (rowData @ [v]) }"
| "sessionColumns nulls col (_ # metas) r rowData = sessionColumns nulls (Suc col) metas r rowData"

text \<open>The state of the loop: the row so far, whether it is complete, the column descriptions (nil before
  they have come).\<close>

type_synonym queryState = "gvalue list \<times> bool \<times> metaItem list option"

definition query_handler :: "(queryState, goerror) handler" where
  "query_handler flavor n alt r s =
     (let (rowData, rowDone, columnMetas) = s in
      if rowDone then Some (Inl s)
      else if flavor = flavorStatementInfo then
        map_option (\<lambda>(si, _). Inl (rowData, rowDone, Some (resultSetColumnMetaItems si)))
          (statementInfo_fromBuffer r n)
      else if flavor \<in> {flavorRecord, flavorMultiPartRecord} then
        (case columnMetas of
           None \<Rightarrow> Some (Inr (Errorf ''internal: resultset missing column metadata'' []))
         | Some metas \<Rightarrow> do {
             (nulls, r) \<leftarrow> rd_bytes ((int (length metas) + 7) div 8) r;
             v \<leftarrow> sessionColumns nulls 0 metas r rowData;
             Some (case v of Inl err \<Rightarrow> Inr err | Inr rowData \<Rightarrow> Inl (rowData, rowDone, columnMetas)) })
      else if flavor = flavorMultiPartEnd then Some (Inl (rowData, True, columnMetas))
      else Some (Inl s))"

definition execSessionQuery :: "env \<Rightarrow> string \<Rightarrow> gvalue list act" where
  "execSessionQuery E query =
     bnd check_open (\<lambda>_.
     bnd (sendRequest E newOptionsParcelInline query) (\<lambda>_.
     bnd (readLanMessageRaw E) (\<lambda>(parcelData, parcelStart, parcelEnd, _).
     let reader = newBufferReader parcelData parcelStart parcelEnd in
     bnd (pure (checkErrorParcel reader)) (\<lambda>e.
     case e of
       Some err \<Rightarrow> fail err
     | None \<Rightarrow>
         bnd (pure (walk query_handler reader ([], False, None))) (\<lambda>x.
         case x of Inr err \<Rightarrow> fail err | Inl (rowData, _, _) \<Rightarrow> ret rowData)))))"

section \<open>Transactions\<close>

definition setTransaction :: "bool \<Rightarrow> unit act" where
  "setTransaction t = modify (\<lambda>c. c\<lparr>cn_currentTransaction := t\<rparr>)"

definition Begin :: "env \<Rightarrow> unit act" where
  "Begin E =
     bnd (gets (\<lambda>c. (cn_currentTransaction c, cn_transactionMode c, cn_transactionInProgress c)))
       (\<lambda>(current, mode, inProgress).
     if current then fail ErrTransactionInProgress
     else bnd (if mode = teraMode \<and> \<not> inProgress then bnd (execSessionSQL E ''BT'') (\<lambda>_. ret ()) else ret ())
       (\<lambda>_. setTransaction True))"

text \<open>The loop of \<open>Commit\<close>: it sends ET as long as the server reports a transaction in progress.\<close>

partial_function (option) commitLoop ::
  "env \<Rightarrow> teradataConnection \<Rightarrow> ((goerror + unit) \<times> teradataConnection) option" where
  "commitLoop E c =
     (if \<not> cn_transactionInProgress c then Some (Inr (), c)
      else do {
        (r, c) \<leftarrow> execSessionSQL E ''ET'' c;
        case r of Inl err \<Rightarrow> Some (Inl err, c) | Inr _ \<Rightarrow> commitLoop E c })"

definition Commit :: "env \<Rightarrow> unit act" where
  "Commit E =
     bnd (gets cn_transactionMode) (\<lambda>mode.
     bnd (if mode = teraMode then commitLoop E
          else bnd (execSessionSQL E ''COMMIT WORK'') (\<lambda>_. ret ())) (\<lambda>_.
     setTransaction False))"

definition Rollback :: "env \<Rightarrow> unit act" where
  "Rollback E =
     bnd (gets cn_transactionMode) (\<lambda>mode.
     attempt (execSessionSQL E (if mode = teraMode then ''ABORT'' else ''ROLLBACK WORK'')) (\<lambda>r.
     case r of
       Inl err \<Rightarrow> if isTeradataErrorCode err 3514 then setTransaction False else fail err
     | Inr _ \<Rightarrow> setTransaction False))"

section \<open>Ping and Close\<close>

definition Ping :: "env \<Rightarrow> unit act" where
  "Ping E =
     bnd check_open (\<lambda>_.
     attempt (execSessionSQL E ''--isValid'') (\<lambda>r.
     case r of
       Inl err \<Rightarrow> if isConnectionError err then markUnusable err else ret ()
     | Inr _ \<Rightarrow> ret ()))"

text \<open>\<open>netConn.Close\<close>, and \<open>Close\<close>, whose deferred function closes the socket whatever happened before.\<close>

definition closeSocket :: "unit act" where
  "closeSocket c = (case cn_closeErr c of
       None \<Rightarrow> Some (Inr (), c\<lparr>cn_socketClosed := True\<rparr>)
     | Some err \<Rightarrow> Some (Inl err, c\<lparr>cn_socketClosed := True\<rparr>))"

definition logoff :: "env \<Rightarrow> unit act" where
  "logoff E =
     bnd newLanHeaderLogoff (\<lambda>header.
     bnd (writeLanMessage E header [LogoffParcel]) (\<lambda>_.
     bnd (readLanMessage E) (\<lambda>_. ret ())))"

definition Close :: "env \<Rightarrow> unit act" where
  "Close E =
     bnd (gets cn_closed) (\<lambda>closed.
     if closed then ret ()
     else
       bnd (modify (\<lambda>c. c\<lparr>cn_closed := True\<rparr>)) (\<lambda>_.
       bnd (gets cn_bad) (\<lambda>bad.
       if bad then closeSocket
       else attempt (logoff E) (\<lambda>r.
         case r of
           Inl err \<Rightarrow> attempt closeSocket (\<lambda>_. fail err)
         | Inr _ \<Rightarrow> closeSocket))))"

section \<open>Silence\<close>

lemma quiet_sendRequest [quiet_intros]: "quiet (sendRequest E p q)"
  unfolding sendRequest_def by (intro quiet_intros)

lemma quiet_check_open [quiet_intros]: "quiet check_open"
  unfolding check_open_def by (intro quiet_intros)

lemma quiet_sql [quiet_intros]:
  "quiet (prepare E q)" "quiet (execSessionSQL E q)" "quiet (execSessionUpdate E q)" "quiet (execSessionQuery E q)"
  unfolding prepare_def execSessionSQL_def execSessionUpdate_def execSessionQuery_def case_prod_beta Let_def
  by (intro quiet_intros)+

lemma quiet_setTransaction [quiet_intros]: "quiet (setTransaction t)"
  unfolding setTransaction_def by (rule quiet_modify) (simp_all add: usable_def)

lemma quiet_commitLoop [quiet_intros]: "quiet (commitLoop E)"
proof -
  have "execSessionSQL E q c = Some (r, c') \<Longrightarrow> r = Inl ErrBadConn" if "\<not> usable c" for q c r c'
    using that by (simp add: execSessionSQL_def bnd_def check_usable_def fail_def)
  then show ?thesis unfolding quiet_def
    by (subst commitLoop.simps) (fastforce split: if_splits elim!: bind_SomeE dest: quietD [OF quiet_sql(2)])
qed

lemma quiet_transactions [quiet_intros]: "quiet (Begin E)" "quiet (Commit E)" "quiet (Rollback E)"
  unfolding Begin_def Commit_def Rollback_def case_prod_beta by (intro quiet_intros)+

lemma quiet_closeSocket [quiet_intros]: "quiet closeSocket"
  by (auto simp: quiet_def closeSocket_def usable_def split: option.splits)

lemma quiet_Ping [quiet_intros]: "quiet (Ping E)"
  unfolding Ping_def by (intro quiet_intros)

lemma quiet_logoff [quiet_intros]: "quiet (logoff E)"
  unfolding logoff_def by (intro quiet_intros)

lemma quiet_Close [quiet_intros]: "quiet (Close E)"
  unfolding Close_def by (intro quiet_intros quiet_modify) (simp_all add: usable_def)


section \<open>Close\<close>

text \<open>C39: \<open>Close\<close> never logs off. It marks the connection closed first, and the logoff message it then tries
  to write is refused for that reason, so on every healthy connection \<open>Close\<close> writes nothing, closes the
  socket and returns a bad-connection error.\<close>
theorem close_never_logs_off:
  assumes "usable c"
  shows "\<exists>c'. Close E c = Some (Inl ErrBadConn, c') \<and> cn_written c' = cn_written c
    \<and> cn_closed c' \<and> cn_socketClosed c' \<and> cn_script c' = cn_script c"
  using assms
  by (auto simp: Close_def bnd_def gets_def modify_def attempt_def logoff_def newLanHeaderLogoff_def withNonce_def
      nextAuthNonce_def ret_def writeLanMessage_def usable_def fail_def closeSocket_def Let_def split: option.split)

theorem close_never_logs_off_witness:
  "\<exists>c'. Close demo_env demo_conn = Some (Inl ErrBadConn, c') \<and> cn_written c' = []"
  using close_never_logs_off [of demo_conn demo_env] by (auto simp: usable_def demo_conn_def)

section \<open>Exchanges\<close>

text \<open>A response in the clear: the parcels \<open>cs\<close> behind the header \<open>h\<close>.\<close>

definition answer_bytes :: "bool \<Rightarrow> lanHeader \<Rightarrow> chunk list \<Rightarrow> byte list" where
  "answer_bytes isTls h cs =
     (let n = int (length (chunks_image cs))
      in ws_prefix isTls (52 + n) @ lan_image h n @ chunks_image cs)"

definition understood :: "(byte list \<Rightarrow> string option) \<Rightarrow> chunk list \<Rightarrow> responseParcel list \<Rightarrow> bool" where
  "understood oid cs ps \<longleftrightarrow> cs \<noteq> [] \<and> list_all chunk_ok cs \<and> length (chunks_image cs) < 2 ^ 31
     \<and> findParcel as_error ps = None
     \<and> (\<exists>qs. ps = List.map_filter id qs \<and> list_all2 (\<lambda>c q. case q of
           Some p \<Rightarrow> self_contained oid c p
         | None \<Rightarrow> (\<exists>e. responseParcelFactory oid (fst (snd c)) = Inl e)) cs qs)"

definition plain_header :: "lanHeader \<Rightarrow> bool" where
  "plain_header h \<longleftrightarrow> wf_lanHeader h \<and> \<not> lh_encrypted h"

lemma readRaw_answer:
  assumes r: "receives d (answer_bytes (cn_isTlsConn d) h cs @ rest)" and h: "plain_header h"
    and n: "length (chunks_image cs) < 2 ^ 31"
  shows "\<exists>data header b bs. readLanMessageRawInto E own d =
      Some (Inr (data, 52, 52 + int (length (chunks_image cs)), header),
        d\<lparr>cn_buffer := b, cn_script := bs, cn_transactionInProgress := (lh_byteVar h AND 1 = 1)\<rparr>)
    \<and> newBufferReader data 52 (52 + int (length (chunks_image cs)))
        = rdr (lan_image h (int (length (chunks_image cs)))) (chunks_image cs @ [])
            (52 + int (length (chunks_image cs)))
    \<and> receives (d\<lparr>cn_buffer := b, cn_script := bs, cn_transactionInProgress := (lh_byteVar h AND 1 = 1)\<rparr>) rest"
proof -
  let ?body = "chunks_image cs" let ?n = "int (length ?body)" let ?m = "lan_image h ?n @ ?body"
  have wf: "wf_lanHeader h" "\<not> lh_encrypted h" using h by (simp_all add: plain_header_def)
  have l: "length (lan_image h ?n) = 52" by (rule length_lan_image [OF wf(1)])
  have "answer_bytes (cn_isTlsConn d) h cs @ rest = ws_prefix (cn_isTlsConn d) (int (length ?m)) @ ?m @ rest"
    using l by (simp add: answer_bytes_def Let_def)
  then have r': "receives d (ws_prefix (cn_isTlsConn d) (int (length ?m)) @ ?m @ rest)" using r by simp
  obtain hdr where hdr: "lanHeaderFromBuffer (take 52 ?m) = Inr hdr" "lh_msgType hdr = 1"
    "lh_msgLen hdr = int (length ?m)" "lh_controlDataLength hdr = 0" "lh_byteVar hdr = lh_byteVar h"
    using lanHeaderFromBuffer_image [OF wf(1), of ?n] n l wf(2) by simp
  have len: "length ?m < 2 ^ 32" "52 \<le> length ?m" using n l by simp_all
  from read_frame [OF r' hdr(1,3) len(2,1), of E own] obtain b bs where
    f: "readLanMessageRawInto E own d =
      bnd (modify (\<lambda>c. c\<lparr>cn_transactionInProgress := (lh_byteVar hdr AND 1 = 1)\<rparr>)) (\<lambda>_.
      bnd (openBody E ?m hdr) (\<lambda>(parcelData, parcelStart, parcelEnd, controlDataLength).
      bnd (readControlData E parcelData parcelEnd controlDataLength) (\<lambda>_.
      bnd (pure (if own \<and> lh_msgType hdr AND 0x80 = 0 then slice parcelData 0 parcelEnd else Some parcelData))
        (\<lambda>parcelData.
      ret (parcelData, parcelStart, parcelEnd, hdr\<lparr>lh_controlDataLength := controlDataLength\<rparr>)))))
      (d\<lparr>cn_buffer := b, cn_script := bs\<rparr>)"
    "receives (d\<lparr>cn_buffer := b, cn_script := bs\<rparr>) rest"
    by auto
  let ?d = "d\<lparr>cn_buffer := b, cn_script := bs, cn_transactionInProgress := (lh_byteVar h AND 1 = 1)\<rparr>"
  have m: "int (length ?m) = 52 + ?n" using l by simp
  have "slice ?m 0 (int (length ?m)) = Some ?m" by (simp add: slice_def)
  then have raw: "readLanMessageRawInto E own d =
      Some (Inr (?m, 52, 52 + ?n, hdr\<lparr>lh_controlDataLength := 0\<rparr>), ?d)"
    unfolding f(1) m [symmetric]
    by (simp add: bnd_def modify_def openBody_def hdr ret_def lanHeaderLen_def controlData_none pure_def)
  moreover have "newBufferReader ?m 52 (52 + ?n) = rdr (lan_image h ?n) (?body @ []) (52 + ?n)"
    using l by (simp add: newBufferReader_def rdr_def)
  moreover have "receives ?d rest" using f(2) by (simp add: receives_def)
  ultimately show ?thesis by blast
qed

lemma readLanMessage_answer:
  assumes r: "receives d (answer_bytes (cn_isTlsConn d) h cs @ rest)" and h: "plain_header h"
    and u: "understood (v_oidString E) cs ps"
  shows "\<exists>header b bs. readLanMessage E d =
      Some (Inr (ps, header), d\<lparr>cn_buffer := b, cn_script := bs, cn_transactionInProgress := (lh_byteVar h AND 1 = 1)\<rparr>)
    \<and> receives (d\<lparr>cn_buffer := b, cn_script := bs, cn_transactionInProgress := (lh_byteVar h AND 1 = 1)\<rparr>) rest"
proof -
  let ?body = "chunks_image cs" let ?n = "int (length ?body)"
  have n: "length ?body < 2 ^ 31" using u by (simp add: understood_def)
  from readRaw_answer [OF r h n, of E False] obtain data header b bs where
    raw: "readLanMessageRawInto E False d = Some (Inr (data, 52, 52 + ?n, header),
        d\<lparr>cn_buffer := b, cn_script := bs, cn_transactionInProgress := (lh_byteVar h AND 1 = 1)\<rparr>)"
    "newBufferReader data 52 (52 + ?n) = rdr (lan_image h ?n) (?body @ []) (52 + ?n)"
    "receives (d\<lparr>cn_buffer := b, cn_script := bs, cn_transactionInProgress := (lh_byteVar h AND 1 = 1)\<rparr>) rest"
    by blast
  have l: "length (lan_image h ?n) = 52" by (rule length_lan_image) (use h in \<open>simp add: plain_header_def\<close>)
  obtain qs where qs: "ps = List.map_filter id qs" "list_all2 (\<lambda>c q. case q of
           Some p \<Rightarrow> self_contained (v_oidString E) c p
         | None \<Rightarrow> (\<exists>e. responseParcelFactory (v_oidString E) (fst (snd c)) = Inl e)) cs qs"
    "cs \<noteq> []" "list_all chunk_ok cs" "findParcel as_error ps = None"
    using u unfolding understood_def by blast
  have "readParcels (v_oidString E) (newBufferReader data 52 (52 + ?n)) = Some (Inr ps)"
    unfolding raw(2)
    using readParcels_chunks [OF qs(3,4) _ qs(2), of "52 + ?n" "lan_image h ?n" "[]"] qs(1,5) l by simp
  then show ?thesis
    using raw(1,3) by (intro exI [of _ header] exI [of _ b] exI [of _ bs])
      (simp add: readLanMessage_def readLanMessageRaw_def bnd_def pure_def ret_def)
qed

text \<open>The request of an inline statement, and what stays the same across an exchange.\<close>

definition startMessage :: "teradataConnection \<Rightarrow> nat \<Rightarrow> parcel list \<Rightarrow> byte list" where
  "startMessage c k ps =
     plainMessage (cn_isTlsConn c)
       ((lanHeaderFor lanHeaderTypeStart 7 (word_of_int (cn_requestNo c + int k)) (cn_sessionNo c))
          \<lparr>lh_authNonce := be_enc 8 (unat (cn_authNonce c + of_nat k)), lh_encrypted := False\<rparr>) ps"

definition requestMessage :: "teradataConnection \<Rightarrow> connectionCapabilities \<Rightarrow> nat \<Rightarrow> string \<Rightarrow> byte list" where
  "requestMessage c caps k query = startMessage c k
     [newOptionsParcelExecute (cn_config c) caps, newIndicRequestParcel query, newRespondParcel caps (cn_config c)]"

definition same_session :: "teradataConnection \<Rightarrow> teradataConnection \<Rightarrow> bool" where
  "same_session c d \<longleftrightarrow> usable d = usable c \<and> cn_sends d = cn_sends c \<and> cn_capabilities d = cn_capabilities c
     \<and> cn_config d = cn_config c \<and> cn_isTlsConn d = cn_isTlsConn c \<and> cn_gss d = cn_gss c \<and> cn_policy d = cn_policy c
     \<and> cn_sessionNo d = cn_sessionNo c \<and> cn_transactionMode d = cn_transactionMode c
     \<and> cn_currentTransaction d = cn_currentTransaction c"

text \<open>A session in the clear that can send.\<close>

definition in_clear :: "teradataConnection \<Rightarrow> connectionCapabilities \<Rightarrow> bool" where
  "in_clear c caps \<longleftrightarrow> usable c \<and> cn_sends c = [] \<and> cn_capabilities c = Some caps
     \<and> \<not> encrypts c lanHeaderTypeStart"

lemma options_length: "getLength (newOptionsParcelExecute cfg caps) \<le> 25 \<and> parcel_ok (newOptionsParcelExecute cfg caps)"
  by (simp add: newOptionsParcelExecute_def newOptionsParcel_def options_getLength_def parcelHeaderLen_def Let_def)

text \<open>Sending a message with the next nonce.\<close>

lemma clear_write:
  assumes c: "in_clear c caps" and k: "encrypts c (lh_kind h) = encrypts c lanHeaderTypeStart" and wf: "wf_lanHeader h"
    and ok: "list_all parcel_ok ps" and len: "bodyLength ps < 2 ^ 31"
    and d: "d = c\<lparr>cn_requestNo := n, cn_authNonce := m\<rparr>"
  shows "\<exists>wb. writeLanMessage E h ps d = Some (Inr (), d\<lparr>cn_writeBuffer := wb,
      cn_written := cn_written c @ [plainMessage (cn_isTlsConn c) (h\<lparr>lh_encrypted := False\<rparr>) ps]\<rparr>)"
proof -
  have u: "usable d" "cn_sends d = []" using c by (simp_all add: d in_clear_def usable_def)
  have "encrypts d k = encrypts c k" for k by (simp add: d encrypts_def)
  then have "\<not> encrypts d (lh_kind h)" using c k by (simp add: in_clear_def)
  from writeLanMessage_clear [OF u ok wf len this, of E] show ?thesis by (simp add: d)
qed

lemma start_request:
  assumes c: "in_clear c caps" and ok: "list_all parcel_ok ps" and len: "bodyLength ps < 2 ^ 31"
  shows "\<exists>h wb. newLanHeaderStart c = Some (Inr h,
        c\<lparr>cn_requestNo := cn_requestNo c + 1, cn_authNonce := cn_authNonce c + 1\<rparr>)
    \<and> writeLanMessage E h ps (c\<lparr>cn_requestNo := cn_requestNo c + 1, cn_authNonce := cn_authNonce c + 1\<rparr>) =
      Some (Inr (), c\<lparr>cn_requestNo := cn_requestNo c + 1, cn_authNonce := cn_authNonce c + 1,
        cn_writeBuffer := wb, cn_written := cn_written c @ [startMessage c 1 ps]\<rparr>)"
proof -
  let ?c1 = "c\<lparr>cn_requestNo := cn_requestNo c + 1, cn_authNonce := cn_authNonce c + 1\<rparr>"
  let ?h = "(lanHeaderFor lanHeaderTypeStart 7 (word_of_int (cn_requestNo c + 1)) (cn_sessionNo c))
     \<lparr>lh_authNonce := be_enc 8 (unat (cn_authNonce c + 1))\<rparr>"
  have "encrypts c (lh_kind ?h) = encrypts c lanHeaderTypeStart" "wf_lanHeader ?h"
    by (simp_all add: lanHeaderFor_def wf_lanHeader_def)
  from clear_write [OF c this ok len refl, where E = E and n = "cn_requestNo c + 1" and m = "cn_authNonce c + 1"]
  obtain wb where "writeLanMessage E ?h ps ?c1 = Some (Inr (), ?c1\<lparr>cn_writeBuffer := wb,
      cn_written := cn_written c @ [plainMessage (cn_isTlsConn c) (?h\<lparr>lh_encrypted := False\<rparr>) ps]\<rparr>)" by blast
  moreover have "plainMessage (cn_isTlsConn c) (?h\<lparr>lh_encrypted := False\<rparr>) ps = startMessage c 1 ps"
    by (simp add: startMessage_def)
  moreover have "newLanHeaderStart c = Some (Inr ?h, ?c1)"
    by (simp add: newLanHeaderStart_def nextRequestNumber_def nextAuthNonce_def withNonce_def
        bnd_def gets_def ret_def Let_def)
  ultimately show ?thesis by (intro exI [of _ ?h] exI [of _ wb]) simp
qed

text \<open>Asking for more of the current request.\<close>

definition continueMessage :: "teradataConnection \<Rightarrow> parcel list \<Rightarrow> byte list" where
  "continueMessage c ps =
     plainMessage (cn_isTlsConn c)
       ((lanHeaderFor lanHeaderTypeContinue 7 (word_of_int (cn_requestNo c)) (cn_sessionNo c))
          \<lparr>lh_authNonce := be_enc 8 (unat (cn_authNonce c + 1)), lh_encrypted := False\<rparr>) ps"

lemma continue_request:
  assumes c: "in_clear c caps" and ok: "list_all parcel_ok ps" and len: "bodyLength ps < 2 ^ 31"
  shows "\<exists>h wb. newLanHeaderContinue c = Some (Inr h, c\<lparr>cn_authNonce := cn_authNonce c + 1\<rparr>)
    \<and> writeLanMessage E h ps (c\<lparr>cn_authNonce := cn_authNonce c + 1\<rparr>) =
      Some (Inr (), c\<lparr>cn_authNonce := cn_authNonce c + 1,
        cn_writeBuffer := wb, cn_written := cn_written c @ [continueMessage c ps]\<rparr>)"
proof -
  let ?c1 = "c\<lparr>cn_authNonce := cn_authNonce c + 1\<rparr>"
  let ?h = "(lanHeaderFor lanHeaderTypeContinue 7 (word_of_int (cn_requestNo c)) (cn_sessionNo c))
     \<lparr>lh_authNonce := be_enc 8 (unat (cn_authNonce c + 1))\<rparr>"
  have k: "encrypts c (lh_kind ?h) = encrypts c lanHeaderTypeStart" "wf_lanHeader ?h"
    by (simp_all add: lanHeaderFor_def wf_lanHeader_def encrypts_def lanHeaderTypeStart_def lanHeaderTypeContinue_def)
  have "?c1 = c\<lparr>cn_requestNo := cn_requestNo c, cn_authNonce := cn_authNonce c + 1\<rparr>" by simp
  from clear_write [OF c k ok len this, where E = E] obtain wb where
    "writeLanMessage E ?h ps ?c1 = Some (Inr (), ?c1\<lparr>cn_writeBuffer := wb,
      cn_written := cn_written c @ [plainMessage (cn_isTlsConn c) (?h\<lparr>lh_encrypted := False\<rparr>) ps]\<rparr>)" by blast
  moreover have "plainMessage (cn_isTlsConn c) (?h\<lparr>lh_encrypted := False\<rparr>) ps = continueMessage c ps"
    by (simp add: continueMessage_def)
  moreover have "newLanHeaderContinue c = Some (Inr ?h, ?c1)"
    by (simp add: newLanHeaderContinue_def sameRequestNumber_def nextAuthNonce_def withNonce_def
        bnd_def gets_def ret_def Let_def)
  ultimately show ?thesis by (intro exI [of _ ?h] exI [of _ wb]) simp
qed

lemma execSessionSQL_exchange:
  assumes c: "in_clear c caps" and q: "length (normalizeStatementText query) < 2 ^ 30"
    and r: "receives c (answer_bytes (cn_isTlsConn c) h cs @ rest)" and h: "plain_header h"
    and u: "understood (v_oidString E) cs ps"
  shows "\<exists>c'. execSessionSQL E query c = Some (Inr (findParcel as_statementInfo ps), c')
    \<and> cn_written c' = cn_written c @ [requestMessage c caps 1 query]
    \<and> cn_transactionInProgress c' = (lh_byteVar h AND 1 = 1)
    \<and> cn_requestNo c' = cn_requestNo c + 1 \<and> cn_authNonce c' = cn_authNonce c + 1
    \<and> receives c' rest \<and> same_session c c'"
proof -
  let ?c1 = "c\<lparr>cn_requestNo := cn_requestNo c + 1, cn_authNonce := cn_authNonce c + 1\<rparr>"
  let ?ps = "[newOptionsParcelExecute (cn_config c) caps, newIndicRequestParcel query, newRespondParcel caps (cn_config c)]"
  have ok: "list_all parcel_ok ?ps" using options_length by (simp add: newIndicRequestParcel_def newRespondParcel_def)
  have len: "bodyLength ?ps < 2 ^ 31"
    using q options_length [of "cn_config c" caps]
    by (simp add: bodyLength_def newIndicRequestParcel_def newRespondParcel_def request_getLength_def
        respond_getLength_def parcelHeaderLen_def)
  obtain h0 wb where w: "newLanHeaderStart c = Some (Inr h0, ?c1)"
    "writeLanMessage E h0 ?ps ?c1 = Some (Inr (), ?c1\<lparr>cn_writeBuffer := wb,
      cn_written := cn_written c @ [requestMessage c caps 1 query]\<rparr>)"
    using start_request [OF c ok len, of E] unfolding requestMessage_def by auto
  let ?c2 = "?c1\<lparr>cn_writeBuffer := wb, cn_written := cn_written c @ [requestMessage c caps 1 query]\<rparr>"
  have sr: "sendRequest E newOptionsParcelExecute query c = Some (Inr (), ?c2)"
    using c w by (simp add: sendRequest_def bnd_def gets_def capabilities_def in_clear_def)
  have "receives ?c2 (answer_bytes (cn_isTlsConn ?c2) h cs @ rest)" using r by (simp add: receives_def)
  from readLanMessage_answer [OF this h u] obtain header b bs where
    a: "readLanMessage E ?c2 =
      Some (Inr (ps, header), ?c2\<lparr>cn_buffer := b, cn_script := bs, cn_transactionInProgress := (lh_byteVar h AND 1 = 1)\<rparr>)"
    "receives (?c2\<lparr>cn_buffer := b, cn_script := bs, cn_transactionInProgress := (lh_byteVar h AND 1 = 1)\<rparr>) rest"
    by blast
  let ?f = "?c2\<lparr>cn_buffer := b, cn_script := bs, cn_transactionInProgress := (lh_byteVar h AND 1 = 1)\<rparr>"
  have "usable c" using c by (simp add: in_clear_def)
  then have "execSessionSQL E query c = Some (Inr (findParcel as_statementInfo ps), ?f)"
    by (simp add: execSessionSQL_def bnd_def check_usable_def ret_def sr a(1) del: One_nat_def)
  moreover have "same_session c ?f" by (simp add: same_session_def usable_def)
  moreover have "cn_written ?f = cn_written c @ [requestMessage c caps 1 query]"
    "cn_transactionInProgress ?f = (lh_byteVar h AND 1 = 1)"
    "cn_requestNo ?f = cn_requestNo c + 1" "cn_authNonce ?f = cn_authNonce c + 1" by simp_all
  ultimately show ?thesis using a(2) by blast
qed


lemma same_session_encrypts: "same_session c d \<Longrightarrow> encrypts d k = encrypts c k"
  unfolding same_session_def encrypts_def by simp

lemma in_clear_same: "in_clear c caps \<Longrightarrow> same_session c d \<Longrightarrow> in_clear d caps"
  using same_session_encrypts [of c d lanHeaderTypeStart] unfolding in_clear_def same_session_def by simp

lemma same_session_trans: "same_session c d \<Longrightarrow> same_session d e \<Longrightarrow> same_session c e"
  by (simp add: same_session_def)

lemma requestMessage_shift:
  assumes "same_session c d" "cn_requestNo d = cn_requestNo c + 1" "cn_authNonce d = cn_authNonce c + 1"
  shows "requestMessage d caps k q = requestMessage c caps (Suc k) q"
  using assms by (simp add: requestMessage_def startMessage_def same_session_def algebra_simps)

section \<open>Transactions\<close>

text \<open>A run of answers: the server's header and parcels, with what the driver makes of them.\<close>

type_synonym answer = "lanHeader \<times> chunk list"

definition answers_bytes :: "bool \<Rightarrow> answer list \<Rightarrow> byte list" where
  "answers_bytes isTls as = concat (map (\<lambda>(h, cs). answer_bytes isTls h cs) as)"

definition accepted :: "env \<Rightarrow> bool \<Rightarrow> answer \<Rightarrow> bool" where
  "accepted E inProgress a \<longleftrightarrow> plain_header (fst a) \<and> (lh_byteVar (fst a) AND 1 = 1) = inProgress
     \<and> (\<exists>ps. understood (v_oidString E) (snd a) ps)"

lemma normalize_ET: "normalizeStatementText ''ET'' = ''ET''"
  by code_simp

lemma commitLoop_run:
  assumes "in_clear c caps" "cn_transactionInProgress c" "list_all (accepted E True) before" "accepted E False final"
    "receives c (answers_bytes (cn_isTlsConn c) (before @ [final]) @ rest)"
  shows "\<exists>c'. commitLoop E c = Some (Inr (), c')
    \<and> cn_written c' = cn_written c @ map (\<lambda>k. requestMessage c caps (Suc k) ''ET'') [0..<Suc (length before)]
    \<and> \<not> cn_transactionInProgress c' \<and> receives c' rest \<and> same_session c c'"
  using assms
proof (induction before arbitrary: c)
  case Nil
  have q: "length (normalizeStatementText ''ET'') < 2 ^ 30" using normalize_ET by simp
  obtain ps where a: "plain_header (fst final)" "lh_byteVar (fst final) AND 1 \<noteq> 1" "understood (v_oidString E) (snd final) ps"
    using Nil.prems(4) by (auto simp: accepted_def)
  have "receives c (answer_bytes (cn_isTlsConn c) (fst final) (snd final) @ rest)"
    using Nil.prems(5) by (simp add: answers_bytes_def case_prod_beta)
  from execSessionSQL_exchange [OF Nil.prems(1) q this a(1,3)] obtain c' where
    e: "execSessionSQL E ''ET'' c = Some (Inr (findParcel as_statementInfo ps), c')"
    "cn_written c' = cn_written c @ [requestMessage c caps 1 ''ET'']"
    "cn_transactionInProgress c' = (lh_byteVar (fst final) AND 1 = 1)" "receives c' rest" "same_session c c'"
    by blast
  have "commitLoop E c' = Some (Inr (), c')" using e(3) a(2) by (subst commitLoop.simps) simp
  then have "commitLoop E c = Some (Inr (), c')" using Nil.prems(2) e(1) by (subst commitLoop.simps) simp
  then show ?case using e a(2) by auto
next
  case (Cons a before)
  have q: "length (normalizeStatementText ''ET'') < 2 ^ 30" using normalize_ET by simp
  obtain ps where a: "plain_header (fst a)" "lh_byteVar (fst a) AND 1 = 1" "understood (v_oidString E) (snd a) ps"
    using Cons.prems(3) by (auto simp: accepted_def)
  have "receives c (answer_bytes (cn_isTlsConn c) (fst a) (snd a)
      @ (answers_bytes (cn_isTlsConn c) (before @ [final]) @ rest))"
    using Cons.prems(5) by (simp add: answers_bytes_def case_prod_beta)
  from execSessionSQL_exchange [OF Cons.prems(1) q this a(1,3)] obtain d where
    e: "execSessionSQL E ''ET'' c = Some (Inr (findParcel as_statementInfo ps), d)"
    "cn_written d = cn_written c @ [requestMessage c caps 1 ''ET'']"
    "cn_transactionInProgress d = (lh_byteVar (fst a) AND 1 = 1)"
    "cn_requestNo d = cn_requestNo c + 1" "cn_authNonce d = cn_authNonce c + 1"
    "receives d (answers_bytes (cn_isTlsConn c) (before @ [final]) @ rest)" "same_session c d"
    by blast
  have t: "cn_isTlsConn d = cn_isTlsConn c" using e(7) by (simp add: same_session_def)
  have p: "list_all (accepted E True) before" "cn_transactionInProgress d"
    "receives d (answers_bytes (cn_isTlsConn d) (before @ [final]) @ rest)"
    using Cons.prems(3) e(3,6) a(2) t by simp_all
  from Cons.IH [OF in_clear_same [OF Cons.prems(1) e(7)] p(2,1) Cons.prems(4) p(3)] obtain c' where
    f: "commitLoop E d = Some (Inr (), c')"
    "cn_written c' = cn_written d @ map (\<lambda>k. requestMessage d caps (Suc k) ''ET'') [0..<Suc (length before)]"
    "\<not> cn_transactionInProgress c'" "receives c' rest" "same_session d c'"
    by blast
  have "commitLoop E c = Some (Inr (), c')" using Cons.prems(2) e(1) f(1) by (subst commitLoop.simps) simp
  moreover have "map (\<lambda>k. requestMessage c caps (Suc k) ''ET'') [0..<Suc (length (a # before))] =
      requestMessage c caps 1 ''ET'' # map (\<lambda>k. requestMessage d caps (Suc k) ''ET'') [0..<Suc (length before)]"
    using requestMessage_shift [OF e(7,4,5)]
    by (simp add: upt_conv_Cons map_Suc_upt [symmetric] del: upt_Suc)
  ultimately show ?case using f(2-4) e(2) same_session_trans [OF e(7) f(5)] by auto
qed

text \<open>C12: committing in TERA mode sends ET once for every answer that still reports a transaction in progress,
  and stops with the first that does not. The ETs are the only messages sent, numbered consecutively,
  each with a fresh nonce; the answers are consumed exactly, and the connection has no transaction left.\<close>
theorem commit_sends_et:
  assumes "in_clear c caps" "cn_transactionMode c = teraMode" "cn_transactionInProgress c"
    "list_all (accepted E True) before" "accepted E False final"
    "receives c (answers_bytes (cn_isTlsConn c) (before @ [final]) @ rest)"
  shows "\<exists>c'. Commit E c = Some (Inr (), c')
    \<and> cn_written c' = cn_written c @ map (\<lambda>k. requestMessage c caps (Suc k) ''ET'') [0..<Suc (length before)]
    \<and> \<not> cn_transactionInProgress c' \<and> \<not> cn_currentTransaction c' \<and> receives c' rest"
proof -
  obtain c' where "commitLoop E c = Some (Inr (), c')"
    "cn_written c' = cn_written c @ map (\<lambda>k. requestMessage c caps (Suc k) ''ET'') [0..<Suc (length before)]"
    "\<not> cn_transactionInProgress c'" "receives c' rest"
    using commitLoop_run [OF assms(1,3-6)] by blast
  then show ?thesis
    by (simp add: Commit_def bnd_def gets_def assms(2) setTransaction_def modify_def receives_def)
qed

definition demo_caps :: connectionCapabilities where
  "demo_caps = newConnectionCapabilities newConfigResponse"

text \<open>A session in the clear inside a transaction; the server answers twice, the second time with the
  transaction gone.\<close>

definition demo_answer :: "byte \<Rightarrow> answer" where
  "demo_answer flag = (zeroLanHeader\<lparr>lh_byteVar := flag\<rparr>, [(False, flavorEndStatement, [0, 1]), (False, flavorEndRequest, [])])"

definition demo_tx :: teradataConnection where
  "demo_tx = demo_conn\<lparr>cn_gss := None, cn_capabilities := Some demo_caps, cn_transactionInProgress := True,
     cn_currentTransaction := True,
     cn_script := [(answers_bytes False [demo_answer 1, demo_answer 0], None)]\<rparr>"

lemma demo_accepted: "accepted demo_env (flag AND 1 = 1) (demo_answer flag)"
proof -
  let ?cs = "[(False, flavorEndStatement, [0, 1] @ []), (False, flavorEndRequest, [])] :: chunk list"
  have "self_contained (v_oidString demo_env) (False, flavorEndStatement, [0, 1] @ []) (RP_endStatement (u16_of [0, 1]))"
    by (rule self_contained_endStatement) simp
  then have "list_all2 (\<lambda>c q. case q of Some p \<Rightarrow> self_contained (v_oidString demo_env) c p
      | None \<Rightarrow> (\<exists>e. responseParcelFactory (v_oidString demo_env) (fst (snd c)) = Inl e)) ?cs
      [Some (RP_endStatement (u16_of [0, 1])), Some RP_endRequest]"
    using self_contained_plain(1) by simp
  moreover have "[RP_endStatement (u16_of [0, 1]), RP_endRequest] =
      List.map_filter id [Some (RP_endStatement (u16_of [0, 1])), Some RP_endRequest]"
    by (simp add: List.map_filter_simps)
  ultimately have "understood (v_oidString demo_env) ?cs [RP_endStatement (u16_of [0, 1]), RP_endRequest]"
    unfolding understood_def
    by (intro conjI exI [of _ "[Some (RP_endStatement (u16_of [0, 1])), Some RP_endRequest]"])
      (simp_all add: chunk_len.simps chunks_image_def chunk_image_def)
  then show ?thesis
    by (auto simp: accepted_def demo_answer_def plain_header_def wf_lanHeader_def zeroLanHeader_def)
qed

theorem commit_sends_et_witness:
  "\<exists>c'. Commit demo_env demo_tx = Some (Inr (), c')
    \<and> cn_written c' = [requestMessage demo_tx demo_caps 1 ''ET'', requestMessage demo_tx demo_caps 2 ''ET'']
    \<and> \<not> cn_transactionInProgress c' \<and> \<not> cn_currentTransaction c'"
proof -
  have c: "in_clear demo_tx demo_caps" "cn_transactionMode demo_tx = teraMode" "cn_transactionInProgress demo_tx"
    "cn_written demo_tx = []"
    by (simp_all add: in_clear_def usable_def encrypts_def demo_tx_def demo_conn_def)
  have r: "receives demo_tx (answers_bytes (cn_isTlsConn demo_tx) ([demo_answer 1] @ [demo_answer 0]) @ [])"
    by (simp add: receives_def healthy_def incoming_def script_bytes_def demo_tx_def demo_conn_def newReadBuffer_def)
  have a: "list_all (accepted demo_env True) [demo_answer 1]" "accepted demo_env False (demo_answer 0)"
    using demo_accepted [of 1] demo_accepted [of 0] by simp_all
  from commit_sends_et [OF c(1-3) a r] obtain c' where "Commit demo_env demo_tx = Some (Inr (), c')"
    "cn_written c' = cn_written demo_tx @ map (\<lambda>k. requestMessage demo_tx demo_caps (Suc k) ''ET'') [0..<Suc (length [demo_answer 1])]"
    "\<not> cn_transactionInProgress c'" "\<not> cn_currentTransaction c'"
    by blast
  then show ?thesis using c(4) by (simp add: numeral_2_eq_2)
qed

end
