(* ===== verification/Statement.thy ===== *)
theory Statement
  imports Session
begin

text \<open>
  Prepared statements, src/statement.go and src/lob.go: binding, the request an execution sends, its
  result, and the fetch of a LOB by its locator. A statement operation runs on the statement paired with its
  connection, a LOB operation on the handle paired with it.
\<close>

section \<open>What the request asks for\<close>

definition isLobReceivable :: "connectionCapabilities \<Rightarrow> bool" where
  "isLobReceivable caps \<longleftrightarrow> cap_statementInfoSupport caps \<ge> 1 \<and> cap_slobClientToServerSupport caps \<ge> 1"

definition isKeepResponses :: "connectionCapabilities \<Rightarrow> Config \<Rightarrow> bool" where
  "isKeepResponses caps config \<longleftrightarrow> cap_lobSupport caps \<and> cfg_LOBSupport config"

definition getRespondParcel :: "connectionCapabilities \<Rightarrow> Config \<Rightarrow> parcel" where
  "getRespondParcel caps config =
     (let useKeepResp = cap_lobSupport caps \<and> cfg_LOBSupport config; aphSupport = cap_aphSupport caps in
      if useKeepResp \<and> aphSupport then newBigKeepRespondParcel caps config
      else if aphSupport then newBigRespondParcel caps config
      else if useKeepResp then newKeepRespondParcel caps config
      else newRespondParcel caps config)"

section \<open>Binding\<close>

record namedValue =
  nv_name :: string
  nv_ordinal :: int
  nv_value :: gvalue

text \<open>The loop over the arguments; \<open>n\<close> is \<open>len(args)\<close>.\<close>

fun bindValues :: "int \<Rightarrow> namedValue list \<Rightarrow> gvalue list \<Rightarrow> goerror + gvalue list" where
  "bindValues n [] vals = Inr vals"
| "bindValues n (a # args) vals =
     (if nv_name a \<noteq> [] then Inl (Errorf ''named parameters are not supported'' [])
      else if nv_ordinal a < 1 \<or> nv_ordinal a > n then Inl (Errorf ''invalid parameter ordinal %d'' [])
      else bindValues n args (vals[nat (nv_ordinal a - 1) := nv_value a]))"

definition namedValuesToValues :: "namedValue list \<Rightarrow> goerror + gvalue list" where
  "namedValuesToValues args = bindValues (int (length args)) args (replicate (length args) V_nil)"

text \<open>\<open>paramMarkerMetaItems\<close> dereferences the statement's information, \<open>NumInput\<close> checks it first.\<close>

definition paramMetas :: "teradataStatement \<Rightarrow> metaItem list option" where
  "paramMetas stmt = map_option paramMarkerMetaItems (st_statementInfo stmt)"

definition NumInput :: "teradataStatement \<Rightarrow> int" where
  "NumInput stmt =
     (case st_statementInfo stmt of None \<Rightarrow> 0 | Some si \<Rightarrow> int (length (paramMarkerMetaItems si)))"

section \<open>The request of an execution\<close>

text \<open>
  The parcels are placed in a slice of \<open>parcelLen\<close> nil interfaces. \<open>put\<close> is an assignment to one of its
  elements, which panics outside the slice.
\<close>

definition put :: "int \<Rightarrow> parcel \<Rightarrow> parcel option list \<Rightarrow> parcel option list option" where
  "put i p slots = (if 0 \<le> i \<and> i < int (length slots) then Some (slots[nat i := Some p]) else None)"

fun putAll :: "int \<Rightarrow> parcel list \<Rightarrow> parcel option list \<Rightarrow> parcel option list option" where
  "putAll i [] slots = Some slots"
| "putAll i (p # ps) slots = do { slots \<leftarrow> put i p slots; putAll (i + 1) ps slots }"

text \<open>A slot left nil makes \<open>writeLanMessage\<close> call a method of a nil interface, a panic.\<close>

definition filled :: "parcel option list \<Rightarrow> parcel list option" where
  "filled slots = those slots"

definition parcelCount :: "connectionCapabilities \<Rightarrow> int \<Rightarrow> int" where
  "parcelCount caps parmLen =
     (let parcelLen = (if parmLen > 0 then if cap_statementInfoRequestSupport caps then 6 else 5 else 3)
      in if isLobReceivable caps then parcelLen + 1 else parcelLen)"

definition executeParcels ::
  "(u64 \<Rightarrow> string) \<Rightarrow> connectionCapabilities \<Rightarrow> Config \<Rightarrow> string \<Rightarrow> metaItem list \<Rightarrow> gvalue list \<Rightarrow> bool
     \<Rightarrow> (goerror + parcel option list) option" where
  "executeParcels formatFloat caps config query metas args isQuery = do {
     let parmLen = int (length metas);
     let parcelLen = parcelCount caps parmLen;
     slots \<leftarrow> put 0 (newOptionsParcelExecute config caps) (replicate (nat parcelLen) None);
     slots \<leftarrow> put 1 (newIndicRequestParcel query) slots;
     x \<leftarrow> (if parmLen > 0 then do {
              paramParcels \<leftarrow> createParamParcels formatFloat caps args metas;
              case paramParcels of
                Inl err \<Rightarrow> Some (Inl err)
              | Inr ps \<Rightarrow> map_option Inr (putAll 2 ps slots) }
          else Some (Inr slots));
     case x of
       Inl err \<Rightarrow> Some (Inl err)
     | Inr slots \<Rightarrow> do {
         slots \<leftarrow> (if isLobReceivable caps then put (parcelLen - 2) (newSlobRespondParcel caps config) slots
                   else Some slots);
         slots \<leftarrow> put (parcelLen - 1)
                    (if isQuery then getRespondParcel caps config else newRespondParcel caps config) slots;
         Some (Inr slots) } }"

type_synonym 'a stmt_act = "(teradataStatement \<times> teradataConnection, 'a) comp"

definition stmt_sendCancelAndDrain :: "env \<Rightarrow> unit stmt_act" where
  "stmt_sendCancelAndDrain E =
     bnd (gets fst) (\<lambda>stmt.
     attempt (zoom (sendCancelAndDrain E (st_requestNo stmt))) (\<lambda>r.
     bnd (modify (\<lambda>(stmt, c). (stmt\<lparr>st_isOpenKeep := False\<rparr>, c))) (\<lambda>_.
     case r of Inl err \<Rightarrow> fail err | Inr _ \<Rightarrow> ret ())))"

definition stmt_Close :: "env \<Rightarrow> unit stmt_act" where
  "stmt_Close E =
     bnd (gets fst) (\<lambda>stmt. if st_isOpenKeep stmt then stmt_sendCancelAndDrain E else ret ())"

definition cancelOpenKeep :: "env \<Rightarrow> unit stmt_act" where
  "cancelOpenKeep E =
     bnd (gets fst) (\<lambda>stmt.
     if st_isOpenKeep stmt then
       attempt (stmt_sendCancelAndDrain E) (\<lambda>r.
         case r of Inl err \<Rightarrow> if isTeradataError err then ret () else fail err | Inr _ \<Rightarrow> ret ())
     else ret ())"

definition execute :: "(u64 \<Rightarrow> string) \<Rightarrow> env \<Rightarrow> gvalue list \<Rightarrow> bool \<Rightarrow> unit stmt_act" where
  "execute formatFloat E args isQuery =
     bnd (cancelOpenKeep E) (\<lambda>_.
     bnd (gets fst) (\<lambda>stmt.
     bnd (pure (paramMetas stmt)) (\<lambda>metas.
     if length metas \<noteq> length args then fail (Errorf ''query expects %d params, %d provided'' [])
     else
       bnd (zoom capabilities) (\<lambda>caps.
       bnd (zoom (gets cn_config)) (\<lambda>config.
       bnd (pure (executeParcels formatFloat caps config (st_query stmt) metas args isQuery)) (\<lambda>x.
       case x of
         Inl err \<Rightarrow> fail err
       | Inr slots \<Rightarrow>
           bnd (modify (\<lambda>(stmt, c). (stmt\<lparr>st_isOpenKeep :=
                  isLobReceivable caps \<and> isKeepResponses caps config \<and> isQuery\<rparr>, c))) (\<lambda>_.
           bnd (zoom newLanHeaderStart) (\<lambda>header.
           bnd (pure (filled slots)) (\<lambda>parcels.
           bnd (zoom (writeLanMessage E header parcels)) (\<lambda>_.
           bnd (zoom sameRequestNumber) (\<lambda>n.
           modify (\<lambda>(stmt, c). (stmt\<lparr>st_requestNo := n\<rparr>, c)))))))))))))"

section \<open>Exec and Query\<close>

record teradataResult =
  res_lastInsertId :: u64
  res_rowsAffected :: u64

definition LastInsertId :: "teradataResult \<Rightarrow> int" where "LastInsertId r = sint (res_lastInsertId r)"
definition RowsAffected :: "teradataResult \<Rightarrow> int" where "RowsAffected r = sint (res_rowsAffected r)"

definition Exec :: "(u64 \<Rightarrow> string) \<Rightarrow> env \<Rightarrow> gvalue list \<Rightarrow> teradataResult stmt_act" where
  "Exec formatFloat E args =
     bnd (execute formatFloat E args False) (\<lambda>_.
     bnd (zoom (readLanMessage E)) (\<lambda>(parcels, _).
     case findParcel as_status parcels of
       Some st \<Rightarrow> ret \<lparr>res_lastInsertId = 0,
         res_rowsAffected = ss_activityCount st + ss_mergeInsertCount st + ss_mergeUpdateCount st
           + ss_mergeDeleteCount st\<rparr>
     | None \<Rightarrow>
         (case findParcel as_success parcels of
            Some su \<Rightarrow> ret \<lparr>res_lastInsertId = 0, res_rowsAffected = word_of_int (su_activityCount su)\<rparr>
          | None \<Rightarrow> fail ErrInvalidResponse)))"

definition ExecContext ::
  "(u64 \<Rightarrow> string) \<Rightarrow> env \<Rightarrow> goContext \<Rightarrow> namedValue list \<Rightarrow> teradataResult stmt_act" where
  "ExecContext formatFloat E ctx args =
     (case namedValuesToValues args of
        Inl err \<Rightarrow> fail err
      | Inr vals \<Rightarrow> runCancelable ctx (Exec formatFloat E vals))"

section \<open>Silence\<close>

lemma quiet_modify_pair [quiet_intros]:
  "quiet_in (\<lambda>s. g (snd s)) (modify (\<lambda>(a, c). (f a, c)))"
  by (rule quiet_modify_fst) (simp add: case_prod_beta)

lemma quiet_stmt_cancel [quiet_intros]: "quiet_in snd (stmt_sendCancelAndDrain E)"
  unfolding stmt_sendCancelAndDrain_def by (intro quiet_intros)

lemma quiet_prod [quiet_intros]: "(\<And>x y. quiet_in g (f x y)) \<Longrightarrow> quiet_in g (case p of (x, y) \<Rightarrow> f x y)"
  by (simp split: prod.split)

lemma quiet_statement [quiet_intros]:
  "quiet_in snd (stmt_Close E)" "quiet_in snd (cancelOpenKeep E)" "quiet_in snd (execute fmt E args q)"
  "quiet_in snd (Exec fmt E args)" "quiet_in snd (ExecContext fmt E ctx nargs)"
proof -
  show *: "quiet_in snd (stmt_Close E)" "quiet_in snd (cancelOpenKeep E)"
    unfolding stmt_Close_def cancelOpenKeep_def by (intro quiet_intros)+
  show e: "quiet_in snd (execute fmt E args q)" for args q
    unfolding execute_def by (intro quiet_intros *)
  show "quiet_in snd (Exec fmt E args)" for args
    unfolding Exec_def by (intro quiet_intros e)
  then show "quiet_in snd (ExecContext fmt E ctx nargs)"
    unfolding ExecContext_def by (intro quiet_intros)
qed

section \<open>The parcels of a request\<close>

text \<open>What the slot arithmetic is meant to build: the options, the SQL text, the bound parameters, the LOB
  limits when LOBs can be received, and the size of the response.\<close>

definition requestParcels ::
  "connectionCapabilities \<Rightarrow> Config \<Rightarrow> string \<Rightarrow> parcel list \<Rightarrow> bool \<Rightarrow> parcel list" where
  "requestParcels caps config query params isQuery =
     [newOptionsParcelExecute config caps, newIndicRequestParcel query] @ params
     @ (if isLobReceivable caps then [newSlobRespondParcel caps config] else [])
     @ [if isQuery then getRespondParcel caps config else newRespondParcel caps config]"

definition boundParcels ::
  "(u64 \<Rightarrow> string) \<Rightarrow> connectionCapabilities \<Rightarrow> metaItem list \<Rightarrow> gvalue list \<Rightarrow> (goerror + parcel list) option"
where
  "boundParcels fmt caps metas args =
     (if metas = [] then Some (Inr []) else createParamParcels fmt caps args metas)"

lemma createParamParcels_length:
  "createParamParcels fmt caps args metas = Some (Inr ps) \<Longrightarrow>
     length ps = (if cap_statementInfoRequestSupport caps then 3 else 2)"
  by (auto simp: createParamParcels_def split: option.splits sum.splits)

lemma executeParcels_slots:
  "executeParcels fmt caps config query metas args isQuery =
     map_option (map_sum id (\<lambda>ps. map Some (requestParcels caps config query ps isQuery)))
       (boundParcels fmt caps metas args)"
proof (cases "metas = []")
  case True
  then show ?thesis
    by (simp add: executeParcels_def boundParcels_def parcelCount_def requestParcels_def put_def Let_def
        numeral_eq_Suc nat_add_distrib)
next
  case False
  show ?thesis
  proof (cases "createParamParcels fmt caps args metas")
    case None
    with False show ?thesis
      by (simp add: executeParcels_def boundParcels_def parcelCount_def put_def Let_def)
  next
    case (Some x)
    show ?thesis
    proof (cases x)
      case (Inl e)
      with False Some show ?thesis
        by (simp add: executeParcels_def boundParcels_def parcelCount_def put_def Let_def)
    next
      case (Inr ps)
      have l: "length ps = (if cap_statementInfoRequestSupport caps then 3 else 2)"
        using createParamParcels_length Some Inr by simp
      consider p q r where "ps = [p, q, r]" "cap_statementInfoRequestSupport caps"
        | p q where "ps = [p, q]" "\<not> cap_statementInfoRequestSupport caps"
        using l by (cases "cap_statementInfoRequestSupport caps") (auto simp: length_Suc_conv numeral_eq_Suc)
      then show ?thesis
        using False Some Inr
        by cases (simp_all add: executeParcels_def boundParcels_def parcelCount_def requestParcels_def put_def
            Let_def numeral_eq_Suc nat_add_distrib)
    qed
  qed
qed

lemma filled_map_Some [simp]: "filled (map Some ps) = Some ps"
  by (induction ps) (auto simp: filled_def)

text \<open>The execution written with the list it is meant to send.\<close>

definition sendExecution ::
  "(u64 \<Rightarrow> string) \<Rightarrow> env \<Rightarrow> gvalue list \<Rightarrow> bool \<Rightarrow> unit stmt_act" where
  "sendExecution fmt E args isQuery =
     bnd (gets fst) (\<lambda>stmt.
     bnd (pure (paramMetas stmt)) (\<lambda>metas.
     if length metas \<noteq> length args then fail (Errorf ''query expects %d params, %d provided'' [])
     else
       bnd (zoom capabilities) (\<lambda>caps.
       bnd (zoom (gets cn_config)) (\<lambda>config.
       bnd (pure (boundParcels fmt caps metas args)) (\<lambda>x.
       case x of
         Inl err \<Rightarrow> fail err
       | Inr params \<Rightarrow>
           bnd (modify (\<lambda>(stmt, c). (stmt\<lparr>st_isOpenKeep :=
                  isLobReceivable caps \<and> isKeepResponses caps config \<and> isQuery\<rparr>, c))) (\<lambda>_.
           bnd (zoom newLanHeaderStart) (\<lambda>header.
           bnd (zoom (writeLanMessage E header (requestParcels caps config (st_query stmt) params isQuery))) (\<lambda>_.
           bnd (zoom sameRequestNumber) (\<lambda>n.
           modify (\<lambda>(stmt, c). (stmt\<lparr>st_requestNo := n\<rparr>, c)))))))))))"

lemma bnd_pure_Some [simp]: "bnd (pure (Some x)) f = f x"
  by (rule ext) (simp add: bnd_def pure_def)

lemma bnd_pure_None: "bnd (pure None) f = (\<lambda>s. None)"
  by (rule ext) (simp add: bnd_def pure_def)

lemma bnd_pure_map: "bnd (pure (map_option h x)) f = bnd (pure x) (\<lambda>y. f (h y))"
  by (cases x) (simp_all add: bnd_pure_None)

lemma sum_case_map: "(case map_sum f g x of Inl a \<Rightarrow> p a | Inr b \<Rightarrow> q b) = (case x of Inl a \<Rightarrow> p (f a) | Inr b \<Rightarrow> q (g b))"
  by (cases x) simp_all

lemma execute_sends: "execute fmt E args isQuery = bnd (cancelOpenKeep E) (\<lambda>_. sendExecution fmt E args isQuery)"
  unfolding execute_def sendExecution_def executeParcels_slots bnd_pure_map sum_case_map
    id_def filled_map_Some bnd_pure_Some ..

text \<open>C4: an execution sends what it is meant to. The computed slots of the request are all filled, so
  building the parcel slice by index is the same as listing the parcels: options, SQL text, bound parameters,
  LOB limits when LOBs can be received, response size. Every other step is unchanged, for every statement,
  connection and argument list.\<close>
theorem execute_builds_request:
  "execute fmt E args isQuery = bnd (cancelOpenKeep E) (\<lambda>_. sendExecution fmt E args isQuery)"
  by (rule execute_sends)

section \<open>Executing a statement\<close>

lemma zoom_run: "m c = Some (r, c') \<Longrightarrow> zoom m (s, c) = Some (r, (s, c'))"
  by (simp add: zoom_def)

lemma boundParcels_ok:
  "boundParcels fmt caps metas args = Some (Inr ps) \<Longrightarrow> list_all parcel_ok ps"
  by (auto simp: boundParcels_def createParamParcels_def split: if_splits option.splits sum.splits)

lemma requestParcels_ok: "list_all parcel_ok ps \<Longrightarrow> list_all parcel_ok (requestParcels caps config query ps q)"
  using options_length
  by (auto simp: requestParcels_def newIndicRequestParcel_def newRespondParcel_def getRespondParcel_def
      newSlobRespondParcel_def newBigKeepRespondParcel_def newBigRespondParcel_def newKeepRespondParcel_def Let_def)

lemma sendExecution_run:
  assumes c: "in_clear c caps" and metas: "paramMetas stmt = Some metas" "length metas = length args"
    and ps: "boundParcels fmt caps metas args = Some (Inr params)"
    and len: "bodyLength (requestParcels caps (cn_config c) (st_query stmt) params isQuery) < 2 ^ 31"
  shows "\<exists>wb. sendExecution fmt E args isQuery (stmt, c) = Some (Inr (),
      (stmt\<lparr>st_requestNo := word_of_int (cn_requestNo c + 1), st_isOpenKeep := isLobReceivable caps
          \<and> isKeepResponses caps (cn_config c) \<and> isQuery\<rparr>,
       c\<lparr>cn_requestNo := cn_requestNo c + 1, cn_authNonce := cn_authNonce c + 1, cn_writeBuffer := wb,
         cn_written := cn_written c
           @ [startMessage c 1 (requestParcels caps (cn_config c) (st_query stmt) params isQuery)]\<rparr>))"
proof -
  obtain h wb where "newLanHeaderStart c = Some (Inr h,
        c\<lparr>cn_requestNo := cn_requestNo c + 1, cn_authNonce := cn_authNonce c + 1\<rparr>)"
    "writeLanMessage E h (requestParcels caps (cn_config c) (st_query stmt) params isQuery)
       (c\<lparr>cn_requestNo := cn_requestNo c + 1, cn_authNonce := cn_authNonce c + 1\<rparr>) =
      Some (Inr (), c\<lparr>cn_requestNo := cn_requestNo c + 1, cn_authNonce := cn_authNonce c + 1,
        cn_writeBuffer := wb, cn_written := cn_written c
          @ [startMessage c 1 (requestParcels caps (cn_config c) (st_query stmt) params isQuery)]\<rparr>)"
    using start_request [OF c requestParcels_ok [OF boundParcels_ok [OF ps]] len, of E] by blast
  then show ?thesis
    using c metas ps
    by (intro exI [of _ wb])
      (simp add: sendExecution_def bnd_def gets_def pure_def zoom_def capabilities_def in_clear_def modify_def
        sameRequestNumber_def)
qed

definition resultOf :: "responseParcel list \<Rightarrow> goerror + teradataResult" where
  "resultOf ps = (case activityCountFromStatusParcels ps of
      Some n \<Rightarrow> Inr \<lparr>res_lastInsertId = 0, res_rowsAffected = n\<rparr> | None \<Rightarrow> Inl ErrInvalidResponse)"

text \<open>C5: \<open>Exec\<close> on a session in the clear sends one start message with the next request number, holding the
  statement's text and the bound arguments, reads one answer, and reports the number of rows its status (or else
  its success parcel) counts, an invalid-response error when there is neither. The statement remembers the
  request number and the rest of the stream is left unread.\<close>
theorem exec_exchange:
  assumes c: "in_clear c caps" and keep: "\<not> st_isOpenKeep stmt"
    and metas: "paramMetas stmt = Some metas" "length metas = length args"
    and ps: "boundParcels fmt caps metas args = Some (Inr params)"
    and len: "bodyLength (requestParcels caps (cn_config c) (st_query stmt) params False) < 2 ^ 31"
    and r: "receives c (answer_bytes (cn_isTlsConn c) h cs @ rest)" and h: "plain_header h"
    and u: "understood (v_oidString E) cs parcels"
  shows "\<exists>c'. Exec fmt E args (stmt, c) = Some (resultOf parcels,
        (stmt\<lparr>st_requestNo := word_of_int (cn_requestNo c + 1), st_isOpenKeep := False\<rparr>, c'))
    \<and> cn_written c' = cn_written c
        @ [startMessage c 1 (requestParcels caps (cn_config c) (st_query stmt) params False)]
    \<and> cn_requestNo c' = cn_requestNo c + 1 \<and> cn_transactionInProgress c' = (lh_byteVar h AND 1 = 1)
    \<and> receives c' rest \<and> same_session c c'"
proof -
  obtain wb where s: "sendExecution fmt E args False (stmt, c) = Some (Inr (),
      (stmt\<lparr>st_requestNo := word_of_int (cn_requestNo c + 1), st_isOpenKeep := False\<rparr>,
       c\<lparr>cn_requestNo := cn_requestNo c + 1, cn_authNonce := cn_authNonce c + 1, cn_writeBuffer := wb,
         cn_written := cn_written c
           @ [startMessage c 1 (requestParcels caps (cn_config c) (st_query stmt) params False)]\<rparr>))"
    using sendExecution_run [OF c metas ps len] by auto
  let ?c2 = "c\<lparr>cn_requestNo := cn_requestNo c + 1, cn_authNonce := cn_authNonce c + 1, cn_writeBuffer := wb,
         cn_written := cn_written c
           @ [startMessage c 1 (requestParcels caps (cn_config c) (st_query stmt) params False)]\<rparr>"
  have "receives ?c2 (answer_bytes (cn_isTlsConn ?c2) h cs @ rest)" using r by (simp add: receives_def)
  from readLanMessage_answer [OF this h u] obtain header b bs where
    a: "readLanMessage E ?c2 =
      Some (Inr (parcels, header), ?c2\<lparr>cn_buffer := b, cn_script := bs, cn_transactionInProgress := (lh_byteVar h AND 1 = 1)\<rparr>)"
    "receives (?c2\<lparr>cn_buffer := b, cn_script := bs, cn_transactionInProgress := (lh_byteVar h AND 1 = 1)\<rparr>) rest"
    by blast
  have "same_session c (?c2\<lparr>cn_buffer := b, cn_script := bs, cn_transactionInProgress := (lh_byteVar h AND 1 = 1)\<rparr>)"
    by (simp add: same_session_def usable_def)
  then show ?thesis
    using s a keep
    by (intro exI [of _ "?c2\<lparr>cn_buffer := b, cn_script := bs, cn_transactionInProgress := (lh_byteVar h AND 1 = 1)\<rparr>"])
      (simp add: Exec_def execute_sends cancelOpenKeep_def bnd_def gets_def ret_def fail_def zoom_def resultOf_def
        activityCountFromStatusParcels_def split: option.split)
qed

text \<open>An insertion of one integer, and the server's answer: one row.\<close>

definition demo_stmt :: teradataStatement where
  "demo_stmt = \<lparr>st_query = ''INS t(?)'', st_requestNo = 0, st_isOpenKeep = False,
     st_statementInfo = Some (newStatementInfo\<lparr>si_metaItems := (replicate 6 [])[0 := [MetaFull 0 (demo_meta 497 4 0 0)]]\<rparr>)\<rparr>"

definition demo_success :: "chunk list" where
  "demo_success = [(False, flavorSuccess, [0, 1] @ [0, 0, 0, 1] @ [0, 0] @ [0, 0] @ [0, 2] @ []), (False, flavorEndRequest, [])]"

definition demo_counted :: "responseParcel list" where
  "demo_counted = [RP_success \<lparr>su_statementNumber = 1, su_activityCount = 1, su_lastWarning = 0, su_fieldCount = 0,
     su_activityType = 2\<rparr>, RP_endRequest]"

definition demo_exec :: teradataConnection where
  "demo_exec = demo_tx\<lparr>cn_script := [(answer_bytes False zeroLanHeader demo_success, None)]\<rparr>"

lemma demo_success_understood: "understood (v_oidString demo_env) demo_success demo_counted"
proof -
  have s: "self_contained (v_oidString demo_env) (hd demo_success) (hd demo_counted)"
    using self_contained_success [of "[0, 1]" "[0, 0, 0, 1]" "[0, 0]" "[0, 0]" "[0, 2]" "v_oidString demo_env" False "[]"]
    by (simp add: demo_success_def demo_counted_def u16_of_def u32_of_def be_val_Cons)
  show ?thesis
    unfolding understood_def
    using s self_contained_plain(1)
    by (intro conjI exI [of _ "map Some demo_counted"])
      (simp_all add: demo_success_def demo_counted_def chunk_len.simps chunks_image_def chunk_image_def
        List.map_filter_simps)
qed

definition demo_bound :: "paramDescriptor" where
  "demo_bound = \<lparr>p_dataType = 497, p_length = 4, p_precision = 0, p_intervalDigits = 0, p_scale = 0,
     p_isNull = False, p_encoded = [0, 0, 0, 7]\<rparr>"

theorem exec_exchange_witness:
  "\<exists>c'. Exec (\<lambda>_. []) demo_env [V_int64 7] (demo_stmt, demo_exec) =
      Some (Inr \<lparr>res_lastInsertId = 0, res_rowsAffected = 1\<rparr>, (demo_stmt\<lparr>st_requestNo := 1\<rparr>, c'))
    \<and> cn_written c' = [startMessage demo_exec 1 (requestParcels demo_caps (cn_config demo_exec) ''INS t(?)''
         [DataInfoParcel [demo_bound], IndicDataParcel [demo_bound]] False)]"
proof -
  let ?params = "[DataInfoParcel [demo_bound], IndicDataParcel [demo_bound]]"
  have c: "in_clear demo_exec demo_caps" "cn_written demo_exec = []" "cn_requestNo demo_exec = 0"
    by (simp_all add: in_clear_def usable_def encrypts_def demo_exec_def demo_tx_def demo_conn_def)
  have m: "paramMetas demo_stmt = Some [MetaFull 0 (demo_meta 497 4 0 0)]"
    by (simp add: paramMetas_def demo_stmt_def paramMarkerMetaItems_def newStatementInfo_def)
  have ps: "boundParcels (\<lambda>_. []) demo_caps [MetaFull 0 (demo_meta 497 4 0 0)] [V_int64 7] = Some (Inr ?params)"
    by code_simp
  have l: "bodyLength (requestParcels demo_caps (cn_config demo_exec) (st_query demo_stmt) ?params False) < 2 ^ 31"
    proof -
    have n: "length (normalizeStatementText ''INS t(?)'') < 100" "\<not> isLobReceivable demo_caps" by code_simp+
    then show ?thesis
      using options_length [of "cn_config demo_exec" demo_caps]
      by (simp add: bodyLength_def requestParcels_def newIndicRequestParcel_def newRespondParcel_def
          request_getLength_def respond_getLength_def parcelHeaderLen_def dataInfo_getLength_def
          indicData_getLength_def demo_bound_def demo_stmt_def)
  qed
  have r: "receives demo_exec (answer_bytes (cn_isTlsConn demo_exec) zeroLanHeader demo_success @ [])"
    by (simp add: receives_def healthy_def incoming_def script_bytes_def demo_exec_def demo_tx_def demo_conn_def
        newReadBuffer_def)
  have h: "plain_header zeroLanHeader" by (simp add: plain_header_def wf_lanHeader_def zeroLanHeader_def)
  have res: "resultOf demo_counted = Inr \<lparr>res_lastInsertId = 0, res_rowsAffected = 1\<rparr>"
    by (simp add: resultOf_def demo_counted_def activityCountFromStatusParcels_def)
  have k: "\<not> st_isOpenKeep demo_stmt" "st_query demo_stmt = ''INS t(?)''"
    "demo_stmt\<lparr>st_requestNo := word_of_int (0 + 1), st_isOpenKeep := False\<rparr> = demo_stmt\<lparr>st_requestNo := 1\<rparr>"
    by (simp_all add: demo_stmt_def)
  show ?thesis
    using exec_exchange [OF c(1) k(1) m _ ps l r h demo_success_understood] unfolding c(2,3) res k(2,3) by auto
qed

end
