(* ===== verification/RowSet.thy ===== *)
theory RowSet
  imports Statement
begin

text \<open>
  The rows of a query, src/rows.go, and the LOBs fetched for them, src/lob.go. A result set runs on its own
  state paired with its statement and its connection. The slice \<open>dest\<close> that \<open>Next\<close> fills is passed in and
  returned; after an error its contents are not used.
\<close>

section \<open>LOBs by locator\<close>

definition lobSelectQuery :: string where "lobSelectQuery = ''SELECT ?''"

type_synonym 'a lob_act = "(terataBaseLob \<times> teradataConnection, 'a) comp"

definition set_fst :: "('s \<Rightarrow> 's) \<Rightarrow> ('s \<times> 'c, unit) comp" where "set_fst f = modify (\<lambda>(s, c). (f s, c))"

definition lobRequest :: "env \<Rightarrow> unit lob_act" where
  "lobRequest E =
     bnd (gets fst) (\<lambda>l.
     bnd (zoom capabilities) (\<lambda>caps.
     bnd (zoom (gets cn_config)) (\<lambda>config.
     if \<not> lb_started l then
       bnd (zoom newLanHeaderStart) (\<lambda>header.
       bnd (zoom (writeLanMessage E header
              [newOptionsParcelLobSelect config caps, newIndicRequestParcel lobSelectQuery,
               LobRequestDataInfoParcel (lb_dataType l), LobRequestIndicDataParcel (lb_locatorData l),
               newSlobRespondParcel caps config, getRespondParcel caps config])) (\<lambda>_.
       bnd (zoom sameRequestNumber) (\<lambda>n. set_fst (\<lambda>l. l\<lparr>lb_requestNo := n\<rparr>))))
     else
       bnd (zoom newLanHeaderContinue) (\<lambda>header.
       zoom (writeLanMessage E header [getRespondParcel caps config])))))"

text \<open>
  One parcel of the answer. The handle and whether the end of the request has come are the loop's state; an
  error is returned with the handle as it stands.
\<close>

definition lobRecord :: "int \<Rightarrow> bool \<Rightarrow> bufferReader \<Rightarrow> terataBaseLob \<Rightarrow> (terataBaseLob \<times> goerror option) option" where
  "lobRecord parcelLen alt r l = do {
     let bodyLen = parcelLen - parcelHeaderLen;
     let bodyLen = (if alt then bodyLen - 4 else bodyLen);
     (bodyLen, r, l) \<leftarrow>
       (if \<not> lb_nullIndicatorRead l \<and> bodyLen > 0
        then do { (_, r) \<leftarrow> rd_u8 r; Some (bodyLen - 1, r, l\<lparr>lb_nullIndicatorRead := True\<rparr>) }
        else Some (bodyLen, r, l));
     (e, r, l) \<leftarrow>
       (if \<not> lb_lengthRead l \<and> bodyLen \<ge> 8
        then do {
          (lobLen, r) \<leftarrow> rd_u64 r;
          (e, l) \<leftarrow> lob_start (lob_setLength lobLen (l\<lparr>lb_lengthRead := True\<rparr>));
          Some (e, r, l) }
        else Some (None, r, l));
     case e of
       Some err \<Rightarrow> Some (l, Some err)
     | None \<Rightarrow> do {
         (d, _) \<leftarrow> rd_bytes (bodyLen - 8) r;
         (e, l) \<leftarrow> lob_append d l;
         Some (l, e) } }"

definition lob_handler :: "(terataBaseLob \<times> bool, terataBaseLob \<times> goerror) handler" where
  "lob_handler flavor n alt r s =
     (let (l, lastRead) = s in
      if flavor \<in> {flavorRecord, flavorMultiPartRecord} then
        (case lobRecord n alt r l of
           None \<Rightarrow> None
         | Some (l, Some err) \<Rightarrow> Some (Inr (l, err))
         | Some (l, None) \<Rightarrow> Some (Inl (l, lastRead)))
      else if flavor = flavorEndRequest then Some (Inl (l, True))
      else Some (Inl s))"

text \<open>What follows the request: the answer, and the cancel that releases it when its end has come.\<close>

definition lobAnswer :: "env \<Rightarrow> unit lob_act" where
  "lobAnswer E =
     bnd (zoom (readLanMessageRaw E)) (\<lambda>(parcelData, parcelStart, parcelEnd, _).
     let reader = newBufferReader parcelData parcelStart parcelEnd in
     bnd (pure (checkErrorParcel reader)) (\<lambda>e.
     case e of
       Some err \<Rightarrow> fail err
     | None \<Rightarrow>
         bnd (gets fst) (\<lambda>l.
         bnd (pure (walk lob_handler reader (l, False))) (\<lambda>x.
         case x of
           Inr (l, err) \<Rightarrow> bnd (set_fst (\<lambda>_. l)) (\<lambda>_. fail err)
         | Inl (l, lastRead) \<Rightarrow>
             bnd (set_fst (\<lambda>_. l)) (\<lambda>_.
             if lastRead then
               attempt (zoom (sendCancelAndDrain E (lb_requestNo l))) (\<lambda>r.
               case r of
                 Inl err \<Rightarrow> if isTeradataError err then set_fst (snd \<circ> lob_complete) else fail err
               | Inr _ \<Rightarrow> set_fst (snd \<circ> lob_complete))
             else ret ())))))"

text \<open>The deferred function cancels the request after an error of the answer, and ignores how that ends.\<close>

definition lob_fetch :: "env \<Rightarrow> goContext \<Rightarrow> unit lob_act" where
  "lob_fetch E ctx =
     bnd (gets id) (\<lambda>(l, c).
     if \<not> lb_conn l \<or> \<not> usable c then fail ErrBadConn
     else runCancelable ctx
       (bnd (lobRequest E) (\<lambda>_.
        attempt (lobAnswer E) (\<lambda>r.
        case r of
          Inl err \<Rightarrow>
            bnd (set_fst (\<lambda>l. l\<lparr>lb_started := False\<rparr>)) (\<lambda>_.
            bnd (gets fst) (\<lambda>l.
            attempt (zoom (sendCancelAndDrain E (lb_requestNo l))) (\<lambda>_. fail err)))
        | Inr _ \<Rightarrow> ret ()))))"

text \<open>The loop of \<open>GetBytesContext\<close>; the \<open>k\<close>-th fetch ends with the context as \<open>ctxs k\<close> says.\<close>

partial_function (option) fetchAll ::
  "env \<Rightarrow> (nat \<Rightarrow> goContext) \<Rightarrow> nat \<Rightarrow> terataBaseLob \<times> teradataConnection
     \<Rightarrow> ((goerror + unit) \<times> terataBaseLob \<times> teradataConnection) option" where
  "fetchAll E ctxs k s = do {
     (r, s) \<leftarrow> lob_fetch E (ctxs k) s;
     case r of
       Inl err \<Rightarrow> Some (Inl err, s)
     | Inr _ \<Rightarrow> if lb_done (fst s) then Some (Inr (), s) else fetchAll E ctxs (Suc k) s }"

definition GetBytesContext :: "env \<Rightarrow> (nat \<Rightarrow> goContext) \<Rightarrow> byte list lob_act" where
  "GetBytesContext E ctxs =
     bnd (gets fst) (\<lambda>l.
     if lb_done l \<and> lb_data l \<noteq> None then ret (lob_bytes l)
     else bnd (fetchAll E ctxs 0) (\<lambda>_. gets (lob_bytes \<circ> fst)))"

definition GetBytes :: "env \<Rightarrow> byte list lob_act" where "GetBytes E = GetBytesContext E (\<lambda>_. Background)"

definition GetStringContext :: "env \<Rightarrow> (nat \<Rightarrow> goContext) \<Rightarrow> string lob_act" where
  "GetStringContext E ctxs = bnd (GetBytesContext E ctxs) (\<lambda>d. ret (bytes_str d))"

definition GetString :: "env \<Rightarrow> string lob_act" where "GetString E = GetStringContext E (\<lambda>_. Background)"

section \<open>The result set\<close>

text \<open>\<open>rw_ctx\<close> is the context the rows are watched by, with the error it has when it is asked; \<open>rw_watching\<close>
  says whether the watcher's stop channel is set.\<close>

record tdRowData =
  rw_columnMeta :: "metaFull list"
  rw_columns :: "string list"
  rw_reader :: bufferReader
  rw_parcelStart :: int
  rw_parcelEnd :: int
  rw_readDone :: bool
  rw_ctx :: "goContext option"
  rw_watching :: bool

type_synonym 'a rows_act = "(tdRowData \<times> teradataStatement \<times> teradataConnection, 'a) comp"

text \<open>The columns must all have a full description.\<close>

fun fullItems :: "metaItem list \<Rightarrow> metaFull list option" where
  "fullItems [] = Some []"
| "fullItems (MetaFull a m # items) = map_option ((#) m) (fullItems items)"
| "fullItems (_ # items) = None"

definition newTdRowData :: "statementInfo \<Rightarrow> byte list \<Rightarrow> int \<Rightarrow> int \<Rightarrow> (goerror + tdRowData) option" where
  "newTdRowData stmtInfo data start end' =
     (case fullItems (resultSetColumnMetaItems stmtInfo) of
        None \<Rightarrow> Some (Inl ErrInternal)
      | Some metas \<Rightarrow> do {
          let reader = newBufferReader data start end';
          e \<leftarrow> checkErrorParcel reader;
          Some (case e of
              Some err \<Rightarrow> Inl err
            | None \<Rightarrow> Inr \<lparr>rw_columnMeta = metas, rw_columns = map getColumnName metas, rw_reader = reader,
                rw_parcelStart = start, rw_parcelEnd = end', rw_readDone = False, rw_ctx = None,
                rw_watching = False\<rparr>) })"

definition Query :: "(u64 \<Rightarrow> string) \<Rightarrow> env \<Rightarrow> gvalue list \<Rightarrow> tdRowData stmt_act" where
  "Query formatFloat E args =
     bnd (execute formatFloat E args True) (\<lambda>_.
     bnd (zoom (readLanMessageRawOwned E)) (\<lambda>(parcelData, parcelStart, parcelEnd, _).
     bnd (gets fst) (\<lambda>stmt.
     bnd (pure (Option.bind (st_statementInfo stmt) (\<lambda>si. newTdRowData si parcelData parcelStart parcelEnd))) (\<lambda>x.
     case x of Inl err \<Rightarrow> fail err | Inr rows \<Rightarrow> ret rows))))"

definition startCtxWatcher :: "goContext \<Rightarrow> tdRowData \<Rightarrow> tdRowData" where
  "startCtxWatcher ctx rows =
     (if ctx = Background then rows else rows\<lparr>rw_ctx := Some ctx, rw_watching := True\<rparr>)"

definition stopCtxWatcher :: "tdRowData \<Rightarrow> tdRowData" where
  "stopCtxWatcher rows = (if rw_watching rows then rows\<lparr>rw_watching := False\<rparr> else rows)"

definition QueryContext ::
  "(u64 \<Rightarrow> string) \<Rightarrow> env \<Rightarrow> goContext \<Rightarrow> namedValue list \<Rightarrow> tdRowData stmt_act" where
  "QueryContext formatFloat E ctx args =
     (case namedValuesToValues args of
        Inl err \<Rightarrow> fail err
      | Inr vals \<Rightarrow>
          bnd (runCancelable ctx (Query formatFloat E vals)) (\<lambda>rows. ret (startCtxWatcher ctx rows)))"

definition Columns :: "tdRowData \<Rightarrow> string list" where "Columns rows = rw_columns rows"

definition rows_Close :: "env \<Rightarrow> unit rows_act" where
  "rows_Close E =
     bnd (set_fst stopCtxWatcher) (\<lambda>_.
     bnd (gets fst) (\<lambda>rows.
     if rw_readDone rows then ret ()
     else
       bnd (pure (scanEndRequest (rw_reader rows))) (\<lambda>found.
       bnd (set_fst (\<lambda>rows. rows\<lparr>rw_readDone := True\<rparr>)) (\<lambda>_.
       if found then ret () else zoom (stmt_sendCancelAndDrain E)))))"

section \<open>Next\<close>

text \<open>The error of the context the rows are watched by.\<close>

fun watchErr :: "goContext option \<Rightarrow> goerror option" where
  "watchErr (Some (Cancellable e)) = e"
| "watchErr _ = None"

definition fetchMore :: "env \<Rightarrow> unit rows_act" where
  "fetchMore E =
     bnd (zoom (zoom newLanHeaderContinue)) (\<lambda>header.
     bnd (zoom (zoom capabilities)) (\<lambda>caps.
     bnd (zoom (zoom (gets cn_config))) (\<lambda>config.
     bnd (zoom (zoom (writeLanMessage E header [getRespondParcel caps config]))) (\<lambda>_.
     attempt (zoom (zoom (readLanMessageRawOwned E))) (\<lambda>r.
     case r of
       Inl err \<Rightarrow>
         bnd (gets fst) (\<lambda>rows.
         case watchErr (rw_ctx rows) of
           Some cerr \<Rightarrow> if isDeadlineErr err then fail cerr else fail err
         | None \<Rightarrow> fail err)
     | Inr (parcelData, parcelStart, parcelEnd, _) \<Rightarrow>
         set_fst (\<lambda>rows. rows\<lparr>rw_reader := newBufferReader parcelData parcelStart parcelEnd,
           rw_parcelStart := parcelStart, rw_parcelEnd := parcelEnd\<rparr>))))))"

text \<open>An operation on the LOB in column \<open>i\<close> of \<open>dest\<close>, if there is one there; its error is dropped.\<close>

definition on_lob ::
  "int \<Rightarrow> (terataBaseLob \<Rightarrow> (goerror option \<times> terataBaseLob) option) \<Rightarrow> gvalue list \<Rightarrow> gvalue list option" where
  "on_lob i f dest =
     (if i \<noteq> -1 \<and> i < int (length dest) then do {
        d \<leftarrow> index dest i;
        case lob_of d of
          None \<Rightarrow> Some dest
        | Some l \<Rightarrow> do { (_, l) \<leftarrow> f l; Some (dest[nat i := set_lob l d]) } }
      else Some dest)"

text \<open>What one parcel does: the loop goes on with \<open>dest\<close>, the next column and the LOB being filled; the row is
  complete; an error; or the end of the request.\<close>

datatype rowStep = GoOn "gvalue list" int int | RowDone "gvalue list" | RowError goerror | RowsEnd

definition rowParcel ::
  "(byte list \<Rightarrow> string option) \<Rightarrow> metaFull list \<Rightarrow> bufferReader \<Rightarrow> gvalue list \<Rightarrow> int \<Rightarrow> int
     \<Rightarrow> (bufferReader \<times> rowStep) option" where
  "rowParcel oidString metas reader dest indx lobMetaItem = do {
     let parcelStart = rd_position reader;
     (flavor, parcelLen, alt, r) \<leftarrow> readParcelHeader reader;
     let end' = rd_seek (parcelStart + parcelLen);
     if flavor \<in> {flavorRecord, flavorMultiPartRecord} then do {
       (x, r, dest) \<leftarrow> processRow metas r dest indx;
       Some (end' r, case x of
           Inl err \<Rightarrow> RowError err
         | Inr indx \<Rightarrow> if flavor = flavorRecord then RowDone dest else GoOn dest indx lobMetaItem) }
     else if flavor = flavorMultiPartEnd then Some (end' r, RowDone dest)
     else if flavor = flavorEndRequest then Some (r, RowsEnd)
     else if flavor = flavorStartSlobData then do {
       (item, r) \<leftarrow> startSlobData_fromBuffer r;
       dest \<leftarrow> on_lob (item - 1) lob_start dest;
       Some (end' r, GoOn dest indx (item - 1)) }
     else if flavor = flavorSlobData then do {
       let bodyLen = (if alt then parcelLen - parcelHeaderLen - 4 else parcelLen - parcelHeaderLen);
       let r = rd_skip 8 r;
       dest \<leftarrow> on_lob lobMetaItem
                (\<lambda>l. do { (d, _) \<leftarrow> rd_bytes (bodyLen - 8) r; lob_append d l }) dest;
       Some (end' r, GoOn dest indx lobMetaItem) }
     else if flavor = flavorEndSlobData then do {
       dest \<leftarrow> on_lob lobMetaItem (\<lambda>l. Some (lob_complete l)) dest;
       Some (end' r, GoOn dest indx (-1)) }
     else
       (case responseParcelFactory oidString flavor of
          Inl _ \<Rightarrow> Some (end' r, GoOn dest indx lobMetaItem)
        | Inr fromBuffer \<Rightarrow> do {
            (_, r) \<leftarrow> fromBuffer r parcelLen;
            Some (end' r, GoOn dest indx lobMetaItem) }) }"

text \<open>An operation on an object that is used up by it.\<close>

definition with_object :: "'o \<Rightarrow> ('o \<times> 'c, 'a) comp \<Rightarrow> ('c, 'a) comp" where
  "with_object x m c = map_option (\<lambda>(r, _, c). (r, c)) (m (x, c))"

text \<open>The loop of \<open>finalizeRow\<close>: LOBs become their text or their bytes.\<close>

fun fetchColumns :: "env \<Rightarrow> gvalue list \<Rightarrow> gvalue list act" where
  "fetchColumns E [] = ret []"
| "fetchColumns E (d # ds) =
     bnd (case d of
            V_clob l \<Rightarrow> bnd (with_object l (GetString E)) (\<lambda>s. ret (V_string s))
          | V_blob l \<Rightarrow> bnd (with_object l (GetBytes E)) (\<lambda>b. ret (V_bytes b))
          | _ \<Rightarrow> ret d) (\<lambda>d.
     bnd (fetchColumns E ds) (\<lambda>ds. ret (d # ds)))"

definition finalizeRow :: "env \<Rightarrow> gvalue list \<Rightarrow> gvalue list act" where
  "finalizeRow E dest =
     bnd (gets cn_config) (\<lambda>config. if \<not> cfg_LOBPrefetch config then ret dest else fetchColumns E dest)"

text \<open>One round of the loop; \<open>Inl\<close> is a finished row.\<close>

definition nextRound ::
  "env \<Rightarrow> gvalue list \<Rightarrow> int \<Rightarrow> int \<Rightarrow> (gvalue list + gvalue list \<times> int \<times> int) rows_act" where
  "nextRound E dest indx lobMetaItem =
     bnd (gets (isDone \<circ> rw_reader \<circ> fst)) (\<lambda>out.
     bnd (if out then fetchMore E else ret ()) (\<lambda>_.
     bnd (gets fst) (\<lambda>rows.
     bnd (pure (rowParcel (v_oidString E) (rw_columnMeta rows) (rw_reader rows) dest indx lobMetaItem))
       (\<lambda>(reader, step).
     bnd (set_fst (\<lambda>rows. rows\<lparr>rw_reader := reader\<rparr>)) (\<lambda>_.
     case step of
       RowError err \<Rightarrow> fail err
     | RowsEnd \<Rightarrow> bnd (set_fst (\<lambda>rows. rows\<lparr>rw_readDone := True\<rparr>)) (\<lambda>_. fail EOF)
     | RowDone dest \<Rightarrow> bnd (zoom (zoom (finalizeRow E dest))) (\<lambda>dest. ret (Inl dest))
     | GoOn dest indx lobMetaItem \<Rightarrow> ret (Inr (dest, indx, lobMetaItem)))))))"

partial_function (option) nextLoop ::
  "env \<Rightarrow> gvalue list \<Rightarrow> int \<Rightarrow> int \<Rightarrow> tdRowData \<times> teradataStatement \<times> teradataConnection
     \<Rightarrow> ((goerror + gvalue list) \<times> tdRowData \<times> teradataStatement \<times> teradataConnection) option" where
  "nextLoop E dest indx lobMetaItem s = do {
     (r, s) \<leftarrow> nextRound E dest indx lobMetaItem s;
     case r of
       Inl err \<Rightarrow> Some (Inl err, s)
     | Inr (Inl dest) \<Rightarrow> Some (Inr dest, s)
     | Inr (Inr x) \<Rightarrow>
         if isDone (rw_reader (fst s)) then Some (Inl ErrInvalidRead, s)
         else nextLoop E (fst x) (fst (snd x)) (snd (snd x)) s }"

definition Next :: "env \<Rightarrow> gvalue list \<Rightarrow> gvalue list rows_act" where
  "Next E dest =
     bnd (gets (rw_readDone \<circ> fst)) (\<lambda>readDone. if readDone then fail EOF else nextLoop E dest 0 (-1))"

section \<open>Shared facts\<close>

definition endChunk :: chunk where "endChunk = (False, flavorEndRequest, [])"

lemma chunks_image_pos: "cs \<noteq> [] \<Longrightarrow> 0 < length (chunks_image cs)"
proof (cases cs)
  case (Cons c cs')
  then show ?thesis using length_chunk_image [of c] chunk_len_ge [of c] by (auto simp: chunks_image_def)
qed simp

definition demo_rows :: tdRowData where
  "demo_rows = \<lparr>rw_columnMeta = demo_columns, rw_columns = [], rw_reader = newBufferReader [] 0 0,
     rw_parcelStart = 0, rw_parcelEnd = 0, rw_readDone = False, rw_ctx = None, rw_watching = False\<rparr>"

section \<open>Silence\<close>

lemma quiet_set_fst [quiet_intros]: "quiet_in (\<lambda>s. g (snd s)) (set_fst f)"
  unfolding set_fst_def by (rule quiet_modify_pair)

lemma quiet_with_object [quiet_intros]: "quiet_in (\<lambda>s. g (snd s)) m \<Longrightarrow> quiet_in g (with_object x m)"
  by (auto simp: quiet_in_def with_object_def)

lemma quiet_lob [quiet_intros]:
  "quiet_in snd (lobRequest E)" "quiet_in snd (lobAnswer E)" "quiet_in snd (lob_fetch E ctx)"
proof -
  show r: "quiet_in snd (lobRequest E)" unfolding lobRequest_def by (intro quiet_intros)
  show a: "quiet_in snd (lobAnswer E)" unfolding lobAnswer_def Let_def by (intro quiet_intros)
  show "quiet_in snd (lob_fetch E ctx)" unfolding lob_fetch_def by (intro quiet_intros r a)
qed

lemma lob_fetch_unusable: "\<not> usable c \<Longrightarrow> lob_fetch E ctx (l, c) = Some (Inl ErrBadConn, (l, c))"
  by (simp add: lob_fetch_def bnd_def gets_def fail_def)

lemma quiet_fetchAll [quiet_intros]: "quiet_in snd (fetchAll E ctxs k)"
  unfolding quiet_in_def
proof (intro allI impI)
  fix s r s' assume "\<not> usable (snd s)" "fetchAll E ctxs k s = Some (r, s')"
  then show "\<not> usable (snd s') \<and> cn_written (snd s') = cn_written (snd s)"
    using lob_fetch_unusable [of "snd s" E "ctxs k" "fst s"] by (simp add: fetchAll.simps)
qed

lemma quiet_GetBytes [quiet_intros]:
  "quiet_in snd (GetBytesContext E ctxs)" "quiet_in snd (GetStringContext E ctxs)"
  "quiet_in snd (GetBytes E)" "quiet_in snd (GetString E)"
  unfolding GetBytesContext_def GetBytes_def GetStringContext_def GetString_def by (intro quiet_intros)+

lemma quiet_case_gvalue [quiet_intros]:
  assumes "\<And>l. quiet_in g (a l)" "\<And>l. quiet_in g (b l)" "quiet_in g m"
  shows "quiet_in g (case d of V_clob l \<Rightarrow> a l | V_blob l \<Rightarrow> b l | _ \<Rightarrow> m)"
  using assms by (cases d) simp_all

lemma quiet_finalizeRow [quiet_intros]: "quiet (finalizeRow E dest)"
proof -
  have "quiet_in snd (GetString E)" "quiet_in snd (GetBytes E)" by (intro quiet_intros)+
  then have "quiet (fetchColumns E ds)" for ds
    by (induction ds) (auto intro!: quiet_intros)
  then show ?thesis unfolding finalizeRow_def by (intro quiet_intros)
qed

lemma quiet_query [quiet_intros]: "quiet_in snd (Query fmt E args)" "quiet_in snd (QueryContext fmt E ctx nargs)"
proof -
  show q: "quiet_in snd (Query fmt E args)" for args unfolding Query_def by (intro quiet_intros)
  show "quiet_in snd (QueryContext fmt E ctx nargs)" unfolding QueryContext_def by (intro quiet_intros q)
qed

lemma quiet_fetchMore [quiet_intros]: "quiet_in (\<lambda>s. snd (snd s)) (fetchMore E)"
  unfolding fetchMore_def by (intro quiet_intros)

lemma quiet_rowStep [quiet_intros]:
  assumes "\<And>e. quiet_in g (a e)" "quiet_in g b" "\<And>d. quiet_in g (f d)" "\<And>d i j. quiet_in g (h d i j)"
  shows "quiet_in g (case s of RowError e \<Rightarrow> a e | RowsEnd \<Rightarrow> b | RowDone d \<Rightarrow> f d | GoOn d i j \<Rightarrow> h d i j)"
  using assms by (cases s) simp_all

lemma quiet_nextRound [quiet_intros]: "quiet_in (\<lambda>s. snd (snd s)) (nextRound E dest indx item)"
  unfolding nextRound_def by (intro quiet_intros)

lemma nextLoop_silent:
  assumes n: "nextLoop E dest indx item s = Some y" and u: "\<not> usable (snd (snd s))"
  shows "\<not> usable (snd (snd (snd y))) \<and> cn_written (snd (snd (snd y))) = cn_written (snd (snd s))"
proof -
  have "\<not> usable (snd (snd s)) \<longrightarrow>
      \<not> usable (snd (snd (snd y))) \<and> cn_written (snd (snd (snd y))) = cn_written (snd (snd s))"
  proof (rule nextLoop.raw_induct [OF _ n])
    fix f E dest indx item s y
    assume IH: "\<And>E dest indx item s y. f E dest indx item s = Some y \<Longrightarrow> \<not> usable (snd (snd s)) \<longrightarrow>
          \<not> usable (snd (snd (snd y))) \<and> cn_written (snd (snd (snd y))) = cn_written (snd (snd s))"
      and eq: "nextRound E dest indx item s \<bind> (\<lambda>(r, s). case r of Inl err \<Rightarrow> Some (Inl err, s)
          | Inr (Inl dest) \<Rightarrow> Some (Inr dest, s)
          | Inr (Inr x) \<Rightarrow> if isDone (rw_reader (fst s)) then Some (Inl ErrInvalidRead, s)
              else f E (fst x) (fst (snd x)) (snd (snd x)) s) = Some y"
    show "\<not> usable (snd (snd s)) \<longrightarrow>
        \<not> usable (snd (snd (snd y))) \<and> cn_written (snd (snd (snd y))) = cn_written (snd (snd s))"
    proof
      assume u: "\<not> usable (snd (snd s))"
      obtain r1 s1 where r1: "nextRound E dest indx item s = Some (r1, s1)" using eq by (auto elim: bind_SomeE)
      note q = quietD [OF quiet_nextRound u r1]
      show "\<not> usable (snd (snd (snd y))) \<and> cn_written (snd (snd (snd y))) = cn_written (snd (snd s))"
        using eq r1 q IH [of _ _ _ _ s1 y] by (auto split: sum.splits if_splits)
    qed
  qed
  then show ?thesis using u by simp
qed

lemma quiet_rows [quiet_intros]:
  "quiet_in (\<lambda>s. snd (snd s)) (Next E dest)" "quiet_in (\<lambda>s. snd (snd s)) (rows_Close E)"
proof -
  have "quiet_in (\<lambda>s. snd (snd s)) (nextLoop E dest indx item)" for indx item
    unfolding quiet_in_def by (auto dest: nextLoop_silent)
  then show "quiet_in (\<lambda>s. snd (snd s)) (Next E dest)"
    unfolding Next_def by (intro quiet_intros)
  show "quiet_in (\<lambda>s. snd (snd s)) (rows_Close E)"
    unfolding rows_Close_def by (intro quiet_intros)
qed

section \<open>Cancelling\<close>

lemma scanEndRequest_chunks:
  assumes "list_all chunk_ok cs" "l = int (length pre) + int (length (chunks_image cs))"
  shows "scanEndRequest (rdr pre (chunks_image cs @ suf) l) = Some (list_ex (\<lambda>c. fst (snd c) = flavorEndRequest) cs)"
  using assms
proof (induction cs arbitrary: pre)
  case Nil
  then show ?case by (simp add: scanEndRequest.simps isDone_def rdr_def chunks_image_def)
next
  case (Cons c cs)
  obtain a f b where c: "c = (a, f, b)" by (cases c)
  let ?r = "rdr pre (chunk_image c @ (chunks_image cs @ suf)) l"
  have nd: "\<not> isDone ?r"
    using Cons.prems(2) chunks_image_pos [of "c # cs"] by (simp add: isDone_def rdr_def)
  have h: "readParcelHeader ?r = Some (f, chunk_len c, a, rdr (pre @ chunk_hdr c) (b @ chunks_image cs @ suf) l)"
    using readParcelHeader_chunk [of a f b pre "chunks_image cs @ suf" l] Cons.prems(1) c by simp
  have "rd_seek (int (length pre) + chunk_len c) (rdr (pre @ chunk_hdr c) (b @ chunks_image cs @ suf) l)
      = rdr (pre @ chunk_image c) (chunks_image cs @ suf) l"
    using length_chunk_image [of c] by (simp add: rd_seek_def rdr_def chunk_image_def c)
  then have "scanEndRequest ?r = (if f = flavorEndRequest then Some True
      else scanEndRequest (rdr (pre @ chunk_image c) (chunks_image cs @ suf) l))"
    using nd h by (subst scanEndRequest.simps) (simp add: rd_position_def)
  then show ?case
    using Cons.IH [of "pre @ chunk_image c"] Cons.prems by (auto simp: chunks_image_def c)
qed

lemma checkErrorParcel_clean:
  assumes "cs \<noteq> []" "list_all chunk_ok cs" "l = int (length pre) + int (length (chunks_image cs))"
    "list_all (\<lambda>c. \<not> is_error_chunk c) cs"
  shows "checkErrorParcel (rdr pre (chunks_image cs @ suf) l) = Some None"
proof -
  have f: "find is_error_chunk cs = None" using assms(4) by (simp add: find_None_iff list_all_iff)
  have "run_chunks checkError_handler pre cs suf l () = Some (Inl ())"
    using run_checkError [of cs pre suf l] assms(4) f by (simp add: list_all_iff)
  then show ?thesis using walk_chunks [OF assms(1-3), of checkError_handler suf "()"] by (simp add: checkErrorParcel_def)
qed

definition cancelMessage :: "teradataConnection \<Rightarrow> u32 \<Rightarrow> byte list" where
  "cancelMessage c n =
     plainMessage (cn_isTlsConn c)
       ((lanHeaderFor lanHeaderTypeContinue 0 n (cn_sessionNo c))
          \<lparr>lh_authNonce := be_enc 8 (unat (cn_authNonce c + 1)), lh_encrypted := False\<rparr>) [CancelParcel]"

text \<open>A message without errors that ends the request.\<close>

definition ends_request :: "chunk list \<Rightarrow> bool" where
  "ends_request cs \<longleftrightarrow> list_all chunk_ok cs \<and> list_all (\<lambda>c. \<not> is_error_chunk c) cs
     \<and> list_ex (\<lambda>c. fst (snd c) = flavorEndRequest) cs \<and> length (chunks_image cs) < 2 ^ 31"

lemma cancel_run:
  assumes c: "in_clear c caps" and r: "receives c (answer_bytes (cn_isTlsConn c) h cs @ rest)"
    and h: "plain_header h" and cs: "ends_request cs"
  shows "\<exists>c'. sendCancelAndDrain E n c = Some (Inr (), c') \<and> cn_written c' = cn_written c @ [cancelMessage c n]
    \<and> receives c' rest \<and> same_session c c'"
proof -
  let ?c1 = "c\<lparr>cn_authNonce := cn_authNonce c + 1\<rparr>"
  let ?h = "(lanHeaderFor lanHeaderTypeContinue 0 n (cn_sessionNo c))\<lparr>lh_authNonce := be_enc 8 (unat (cn_authNonce c + 1))\<rparr>"
  have k: "encrypts c (lh_kind ?h) = encrypts c lanHeaderTypeStart" "wf_lanHeader ?h"
    by (simp_all add: lanHeaderFor_def wf_lanHeader_def encrypts_def lanHeaderTypeStart_def lanHeaderTypeContinue_def)
  have ps: "list_all parcel_ok [CancelParcel]" "bodyLength [CancelParcel] < 2 ^ 31"
    by (simp_all add: bodyLength_def parcelHeaderLen_def)
  have "?c1 = c\<lparr>cn_requestNo := cn_requestNo c, cn_authNonce := cn_authNonce c + 1\<rparr>" by simp
  from clear_write [OF c k ps this, where E = E] obtain wb where
    w: "writeLanMessage E ?h [CancelParcel] ?c1 = Some (Inr (), ?c1\<lparr>cn_writeBuffer := wb,
      cn_written := cn_written c @ [cancelMessage c n]\<rparr>)"
    by (auto simp: cancelMessage_def)
  let ?c2 = "?c1\<lparr>cn_writeBuffer := wb, cn_written := cn_written c @ [cancelMessage c n]\<rparr>"
  have n: "length (chunks_image cs) < 2 ^ 31" using cs by (simp add: ends_request_def)
  have "receives ?c2 (answer_bytes (cn_isTlsConn ?c2) h cs @ rest)" using r by (simp add: receives_def)
  from readRaw_answer [OF this h n, of E False] obtain data header b bs where
    a: "readLanMessageRawInto E False ?c2 = Some (Inr (data, 52, 52 + int (length (chunks_image cs)), header),
        ?c2\<lparr>cn_buffer := b, cn_script := bs, cn_transactionInProgress := (lh_byteVar h AND 1 = 1)\<rparr>)"
    "newBufferReader data 52 (52 + int (length (chunks_image cs)))
        = rdr (lan_image h (int (length (chunks_image cs)))) (chunks_image cs @ [])
            (52 + int (length (chunks_image cs)))"
    "receives (?c2\<lparr>cn_buffer := b, cn_script := bs, cn_transactionInProgress := (lh_byteVar h AND 1 = 1)\<rparr>) rest"
    by blast
  let ?c3 = "?c2\<lparr>cn_buffer := b, cn_script := bs, cn_transactionInProgress := (lh_byteVar h AND 1 = 1)\<rparr>"
  have l: "length (lan_image h (int (length (chunks_image cs)))) = 52"
    by (rule length_lan_image) (use h in \<open>simp add: plain_header_def\<close>)
  have e: "checkErrorParcel (newBufferReader data 52 (52 + int (length (chunks_image cs)))) = Some None"
    unfolding a(2) by (rule checkErrorParcel_clean) (use cs l in \<open>auto simp: ends_request_def\<close>)
  have s: "scanEndRequest (newBufferReader data 52 (52 + int (length (chunks_image cs)))) = Some True"
    unfolding a(2)
    by (subst scanEndRequest_chunks) (use cs l in \<open>auto simp: ends_request_def\<close>)
  have "newLanHeaderCancel n c = Some (Inr ?h, ?c1)"
    by (simp add: newLanHeaderCancel_def nextAuthNonce_def withNonce_def bnd_def gets_def ret_def Let_def)
  then have "sendCancelAndDrain E n c = Some (Inr (), ?c3)"
    using w a(1) e s by (simp add: sendCancelAndDrain_def bnd_def drainLoop.simps readLanMessageRaw_def)
  moreover have "same_session c ?c3" by (simp add: same_session_def usable_def)
  ultimately show ?thesis using a(3) by (intro exI [of _ ?c3]) simp
qed

section \<open>Fetching a LOB\<close>

text \<open>The first record of a LOB: the null indicator, the length of the LOB, and its bytes.\<close>

definition lobChunk :: "bool \<Rightarrow> byte \<Rightarrow> byte list \<Rightarrow> chunk" where
  "lobChunk a z data = (a, flavorRecord, [z] @ be_enc 8 (length data) @ data)"

lemma lob_first_record:
  assumes "0 < length data" "length data < 2 ^ 48" "\<not> lb_nullIndicatorRead l" "\<not> lb_lengthRead l" "lb_dataIndex l = 0"
    and n: "n = (if a then 8 else 4) + 9 + int (length data)"
  shows "lobRecord n a (rdr pre (([z] @ be_enc 8 (length data) @ data) @ suf) m) l =
    Some (l\<lparr>lb_nullIndicatorRead := True, lb_lengthRead := True, lb_length := of_nat (length data),
      lb_started := True, lb_data := Some data, lb_dataIndex := int (length data)\<rparr>, None)"
proof -
  have w: "unat (word_of_nat (length data) :: u64) = length data" using assms(2) by (simp add: unat_of_nat)
  have e: "be_enc 8 (length data) = be_enc 8 (unat (word_of_nat (length data) :: u64))" by (simp only: w)
  have u1: "rd_u8 (rdr pre (z # be_enc 8 (length data) @ data @ suf) m)
      = Some (z, rdr (pre @ [z]) (be_enc 8 (length data) @ data @ suf) m)"
    by (simp add: rd_u8_def rdr_def index_def nth_append)
  have u2: "rd_u64 (rdr (pre @ [z]) (be_enc 8 (length data) @ data @ suf) m)
      = Some (word_of_nat (length data), rdr (pre @ [z] @ be_enc 8 (length data)) (data @ suf) m)"
    unfolding e by (simp add: rdr_simps)
  have u3: "rd_bytes (int (length data)) (rdr (pre @ [z] @ be_enc 8 (length data)) (data @ suf) m)
      = Some (data, rdr (pre @ [z] @ be_enc 8 (length data) @ data) suf m)"
    using rd_bytes_rdr [of "int (length data)" data] by simp
  have ne: "(word_of_nat (length data) :: u64) \<noteq> 0" using assms(1) w by (metis unat_0 less_numeral_extra(3))
  let ?l = "l\<lparr>lb_nullIndicatorRead := True, lb_lengthRead := True, lb_length := word_of_nat (length data),
      lb_data := Some (replicate (length data) 0), lb_started := True\<rparr>"
  have s: "lob_start (lob_setLength (word_of_nat (length data)) (l\<lparr>lb_nullIndicatorRead := True, lb_lengthRead := True\<rparr>))
      = Some (None, ?l)"
    using ne assms(2) by (simp add: lob_start_def lob_setLength_def makeBytes_def w)
  have ap: "lob_append data ?l = Some (None, ?l\<lparr>lb_data := Some data, lb_dataIndex := int (length data)\<rparr>)"
    using lob_append_fits [of ?l "replicate (length data) 0" 0 data] assms(5) by simp
  show ?thesis
    using assms(3,4) u1 u2 u3 s ap by (simp add: lobRecord_def n parcelHeaderLen_def)
qed

text \<open>A later record is read as if it, too, began with a length: its last eight bytes are lost.\<close>

lemma lob_later_record:
  assumes "lb_nullIndicatorRead l" "lb_lengthRead l" "lb_data l = Some d" "lb_dataIndex l = int i"
    "i + length data \<le> length d" "length lost = 8" and n: "n = (if a then 8 else 4) + int (length (data @ lost))"
  shows "lobRecord n a (rdr pre ((data @ lost) @ suf) m) l =
    Some (l\<lparr>lb_data := Some (take i d @ data @ drop (i + length data) d), lb_dataIndex := int (i + length data)\<rparr>, None)"
  using assms lob_append_fits [OF assms(3,4,5)] rd_bytes_rdr [of "int (length data)" data pre "lost @ suf" m]
  by (simp add: lobRecord_def parcelHeaderLen_def)

definition lobParcels :: "connectionCapabilities \<Rightarrow> Config \<Rightarrow> terataBaseLob \<Rightarrow> parcel list" where
  "lobParcels caps config l =
     [newOptionsParcelLobSelect config caps, newIndicRequestParcel lobSelectQuery,
      LobRequestDataInfoParcel (lb_dataType l), LobRequestIndicDataParcel (lb_locatorData l),
      newSlobRespondParcel caps config, getRespondParcel caps config]"

lemma lobParcels_ok:
  assumes "length (lb_locatorData l) < 2 ^ 30"
  shows "list_all parcel_ok (lobParcels caps config l) \<and> bodyLength (lobParcels caps config l) < 2 ^ 31"
proof -
  have n: "length (normalizeStatementText lobSelectQuery) < 100" by code_simp
  have o: "getLength (newOptionsParcelLobSelect config caps) \<le> 25" "parcel_ok (newOptionsParcelLobSelect config caps)"
    by (simp_all add: newOptionsParcelLobSelect_def newOptionsParcel_def options_getLength_def parcelHeaderLen_def Let_def)
  have r: "parcel_ok (getRespondParcel caps config)" "getLength (getRespondParcel caps config) \<le> 8"
    by (simp_all add: getRespondParcel_def newBigKeepRespondParcel_def newBigRespondParcel_def newKeepRespondParcel_def
      newRespondParcel_def Let_def respond_getLength_def bigRespond_getLength_def parcelHeaderLen_def)
  show ?thesis
    using n o r assms
    by (simp add: lobParcels_def bodyLength_def newIndicRequestParcel_def newSlobRespondParcel_def
        request_getLength_def lobRequestDataInfo_getLength_def lobRequestIndicData_getLength_def
        slobRespond_getLength_def parcelHeaderLen_def)
qed

text \<open>A handle that has just come with a row.\<close>

definition fresh_lob :: "terataBaseLob \<Rightarrow> bool" where
  "fresh_lob l \<longleftrightarrow> lb_conn l \<and> \<not> lb_done l \<and> \<not> lb_started l \<and> \<not> lb_nullIndicatorRead l \<and> \<not> lb_lengthRead l
     \<and> lb_dataIndex l = 0"

definition filled_lob :: "terataBaseLob \<Rightarrow> u32 \<Rightarrow> byte list \<Rightarrow> terataBaseLob" where
  "filled_lob l n data = l\<lparr>lb_requestNo := n, lb_nullIndicatorRead := True, lb_lengthRead := True,
     lb_length := of_nat (length data), lb_started := True, lb_data := Some data, lb_dataIndex := int (length data)\<rparr>"

lemma lob_walk:
  assumes "fresh_lob l" "0 < length data" "length data < 2 ^ 48" "chunk_ok (lobChunk a z data)"
    "m = int (length pre) + int (length (chunks_image [lobChunk a z data, endChunk]))"
  shows "walk lob_handler (rdr pre (chunks_image [lobChunk a z data, endChunk] @ suf) m) (l\<lparr>lb_requestNo := n\<rparr>, False)
    = Some (Inl (filled_lob l n data, True))"
proof -
  have ok: "list_all chunk_ok [lobChunk a z data, endChunk]" "[lobChunk a z data, endChunk] \<noteq> []"
    using assms(4) by (simp_all add: endChunk_def chunk_len.simps)
  have len: "chunk_len (lobChunk a z data) = (if a then 8 else 4) + 9 + int (length data)"
    by (simp add: lobChunk_def chunk_len.simps)
  have "lobRecord (chunk_len (lobChunk a z data)) a
      (rdr (pre @ chunk_hdr (lobChunk a z data)) (([z] @ be_enc 8 (length data) @ data) @ (chunks_image [endChunk] @ suf)) m)
      (l\<lparr>lb_requestNo := n\<rparr>) = Some (filled_lob l n data, None)"
    using assms(1) by (subst lob_first_record [OF assms(2,3) _ _ _ len]) (simp_all add: fresh_lob_def filled_lob_def)
  then have rc: "run_chunks lob_handler pre [lobChunk a z data, endChunk] suf m (l\<lparr>lb_requestNo := n\<rparr>, False)
      = Some (Inl (filled_lob l n data, True))"
    by (simp add: lob_handler_def endChunk_def lobChunk_def)
  show ?thesis by (rule trans [OF walk_chunks [OF ok(2,1) assms(5)] rc])
qed

lemma lob_fetch_run:
  assumes c: "in_clear c caps" and l: "fresh_lob l" "length (lb_locatorData l) < 2 ^ 30"
    and d: "0 < length data" "length data < 2 ^ 30" "chunk_ok (lobChunk a z data)"
    and h: "plain_header h1" "plain_header h2" and cs: "ends_request cs"
    and r: "receives c (answer_bytes (cn_isTlsConn c) h1 [lobChunk a z data, endChunk]
              @ answer_bytes (cn_isTlsConn c) h2 cs @ rest)"
  shows "\<exists>c'. lob_fetch E Background (l, c) = Some (Inr (),
      (snd (lob_complete (filled_lob l (word_of_int (cn_requestNo c + 1)) data)), c'))
    \<and> cn_written c' = cn_written c @ [startMessage c 1 (lobParcels caps (cn_config c) l),
        cancelMessage (c\<lparr>cn_authNonce := cn_authNonce c + 1\<rparr>) (word_of_int (cn_requestNo c + 1))]
    \<and> receives c' rest \<and> same_session c c'"
proof -
  let ?ps = "lobParcels caps (cn_config c) l" let ?cs = "[lobChunk a z data, endChunk]"
  let ?n = "word_of_int (cn_requestNo c + 1) :: u32" let ?len = "int (length (chunks_image ?cs))"
  note ps = lobParcels_ok [OF l(2), of caps "cn_config c"]
  obtain h0 wb where w: "newLanHeaderStart c = Some (Inr h0,
        c\<lparr>cn_requestNo := cn_requestNo c + 1, cn_authNonce := cn_authNonce c + 1\<rparr>)"
    "writeLanMessage E h0 ?ps (c\<lparr>cn_requestNo := cn_requestNo c + 1, cn_authNonce := cn_authNonce c + 1\<rparr>) =
      Some (Inr (), c\<lparr>cn_requestNo := cn_requestNo c + 1, cn_authNonce := cn_authNonce c + 1,
        cn_writeBuffer := wb, cn_written := cn_written c @ [startMessage c 1 ?ps]\<rparr>)"
    using start_request [OF c conjunct1 [OF ps] conjunct2 [OF ps], of E] by blast
  let ?c2 = "c\<lparr>cn_requestNo := cn_requestNo c + 1, cn_authNonce := cn_authNonce c + 1,
        cn_writeBuffer := wb, cn_written := cn_written c @ [startMessage c 1 ?ps]\<rparr>"
  have req: "lobRequest E (l, c) = Some (Inr (), (l\<lparr>lb_requestNo := ?n\<rparr>, ?c2))"
    using c w l(1)
    by (simp add: lobRequest_def bnd_def gets_def zoom_def capabilities_def in_clear_def set_fst_def modify_def
        sameRequestNumber_def fresh_lob_def lobParcels_def)
  have "int (length (chunk_image (lobChunk a z data))) \<le> 17 + int (length data)" "int (length (chunk_image endChunk)) = 4"
    unfolding length_chunk_image by (simp_all add: lobChunk_def endChunk_def chunk_len.simps)
  then have len: "length (chunks_image ?cs) < 2 ^ 31"
    using d(2) by (simp add: chunks_image_def)
  have "receives ?c2 (answer_bytes (cn_isTlsConn ?c2) h1 ?cs @ answer_bytes (cn_isTlsConn c) h2 cs @ rest)"
    using r by (simp add: receives_def)
  from readRaw_answer [OF this h(1) len, of E False] obtain data' header b bs where
    a: "readLanMessageRawInto E False ?c2 = Some (Inr (data', 52, 52 + ?len, header),
        ?c2\<lparr>cn_buffer := b, cn_script := bs, cn_transactionInProgress := (lh_byteVar h1 AND 1 = 1)\<rparr>)"
    "newBufferReader data' 52 (52 + ?len) = rdr (lan_image h1 ?len) (chunks_image ?cs @ []) (52 + ?len)"
    "receives (?c2\<lparr>cn_buffer := b, cn_script := bs, cn_transactionInProgress := (lh_byteVar h1 AND 1 = 1)\<rparr>)
       (answer_bytes (cn_isTlsConn c) h2 cs @ rest)"
    by blast
  let ?c3 = "?c2\<lparr>cn_buffer := b, cn_script := bs, cn_transactionInProgress := (lh_byteVar h1 AND 1 = 1)\<rparr>"
  have pre: "length (lan_image h1 ?len) = 52"
    by (rule length_lan_image) (use h(1) in \<open>simp add: plain_header_def\<close>)
  have e: "checkErrorParcel (newBufferReader data' 52 (52 + ?len)) = Some None"
    unfolding a(2)
    by (rule checkErrorParcel_clean)
      (use d(3) pre in \<open>simp_all add: is_error_chunk_def is_error_flavor_def lobChunk_def endChunk_def chunk_len.simps\<close>)
  have walk: "walk lob_handler (newBufferReader data' 52 (52 + ?len)) (l\<lparr>lb_requestNo := ?n\<rparr>, False)
      = Some (Inl (filled_lob l ?n data, True))"
    unfolding a(2) by (rule lob_walk [OF l(1) d(1) _ d(3)]) (use d(2) pre in simp_all)
  have same: "same_session c ?c3" by (simp add: same_session_def usable_def)
  have "receives ?c3 (answer_bytes (cn_isTlsConn ?c3) h2 cs @ rest)" using a(3) by simp
  from cancel_run [OF in_clear_same [OF c same] this h(2) cs, of E ?n] obtain c4 where
    k: "sendCancelAndDrain E ?n ?c3 = Some (Inr (), c4)" "cn_written c4 = cn_written ?c3 @ [cancelMessage ?c3 ?n]"
    "receives c4 rest" "same_session ?c3 c4" by blast
  have req_n: "lb_requestNo (filled_lob l n data) = n" for n by (simp add: filled_lob_def)
  have "lobAnswer E (l\<lparr>lb_requestNo := ?n\<rparr>, ?c2)
      = Some (Inr (), (snd (lob_complete (filled_lob l ?n data)), c4))"
    using a(1) e walk k(1)
    by (simp add: lobAnswer_def bnd_def attempt_def zoom_def pure_def gets_def set_fst_def modify_def
        readLanMessageRaw_def req_n Let_def)
  moreover have "usable c" using c by (simp add: in_clear_def)
  ultimately have "lob_fetch E Background (l, c) = Some (Inr (), (snd (lob_complete (filled_lob l ?n data)), c4))"
    using l(1) req by (simp add: lob_fetch_def runCancelable_def bnd_def attempt_def gets_def ret_def fresh_lob_def)
  moreover have "cancelMessage ?c3 ?n = cancelMessage (c\<lparr>cn_authNonce := cn_authNonce c + 1\<rparr>) ?n"
    by (simp add: cancelMessage_def)
  ultimately show ?thesis
    using k(2,3) same_session_trans [OF same k(4)] by (intro exI [of _ c4]) simp
qed

text \<open>C14: a LOB that the server sends in one record is fetched whole. On a session in the clear, \<open>GetBytes\<close> of a
  handle that has just come with a row sends one request with the handle's locator, takes from the answer the
  length and exactly the bytes of the LOB, releases the request with one cancel message and its
  acknowledgement, and leaves the handle complete and without its connection, whatever length the row
  had announced.\<close>
theorem lob_fetched_whole:
  assumes "in_clear c caps" "fresh_lob l" "length (lb_locatorData l) < 2 ^ 30"
    and "0 < length data" "length data < 2 ^ 30" "chunk_ok (lobChunk a z data)"
    and "plain_header h1" "plain_header h2" "ends_request cs"
    and "receives c (answer_bytes (cn_isTlsConn c) h1 [lobChunk a z data, endChunk]
              @ answer_bytes (cn_isTlsConn c) h2 cs @ rest)"
  shows "\<exists>l' c'. GetBytes E (l, c) = Some (Inr data, (l', c')) \<and> lb_done l' \<and> lb_data l' = Some data \<and> \<not> lb_conn l'
    \<and> cn_written c' = cn_written c @ [startMessage c 1 (lobParcels caps (cn_config c) l),
        cancelMessage (c\<lparr>cn_authNonce := cn_authNonce c + 1\<rparr>) (word_of_int (cn_requestNo c + 1))]
    \<and> receives c' rest \<and> same_session c c'"
proof -
  let ?l = "snd (lob_complete (filled_lob l (word_of_int (cn_requestNo c + 1)) data))"
  obtain c' where f: "lob_fetch E Background (l, c) = Some (Inr (), (?l, c'))"
    "cn_written c' = cn_written c @ [startMessage c 1 (lobParcels caps (cn_config c) l),
        cancelMessage (c\<lparr>cn_authNonce := cn_authNonce c + 1\<rparr>) (word_of_int (cn_requestNo c + 1))]"
    "receives c' rest" "same_session c c'"
    using lob_fetch_run [OF assms] by blast
  have l: "lb_done ?l" "lb_data ?l = Some data" "\<not> lb_conn ?l"
    by (simp_all add: lob_complete_def filled_lob_def)
  have "fetchAll E (\<lambda>_. Background) 0 (l, c) = Some (Inr (), (?l, c'))"
    using f(1) l(1) by (simp add: fetchAll.simps)
  then have "GetBytes E (l, c) = Some (Inr data, (?l, c'))"
    using assms(2) l(2) by (simp add: GetBytes_def GetBytesContext_def bnd_def gets_def fresh_lob_def lob_bytes_def)
  then show ?thesis using f(2-4) l by blast
qed

definition demo_lob :: terataBaseLob where
  "demo_lob = newLob tdClobLocator 3 [1, 2, 3, 4] True"

definition demo_lob_conn :: teradataConnection where
  "demo_lob_conn = demo_tx\<lparr>cn_script := [(answer_bytes False zeroLanHeader [lobChunk False 0 [104, 105], endChunk]
     @ answer_bytes False zeroLanHeader [endChunk], None)]\<rparr>"

theorem lob_fetched_whole_witness:
  "\<exists>l' c'. GetBytes demo_env (demo_lob, demo_lob_conn) = Some (Inr [104, 105], (l', c')) \<and> lb_done l'
    \<and> length (cn_written c') = 2"
proof -
  have c: "in_clear demo_lob_conn demo_caps" "cn_written demo_lob_conn = []"
    by (simp_all add: in_clear_def usable_def encrypts_def demo_lob_conn_def demo_tx_def demo_conn_def)
  have l: "fresh_lob demo_lob" "length (lb_locatorData demo_lob) < 2 ^ 30"
    by (simp_all add: fresh_lob_def demo_lob_def newLob_def)
  have h: "plain_header zeroLanHeader" by (simp add: plain_header_def wf_lanHeader_def zeroLanHeader_def)
  have k: "chunk_ok (lobChunk False 0 [104, 105])" by (simp add: lobChunk_def chunk_len.simps)
  have e: "ends_request [endChunk]"
    by (simp add: ends_request_def endChunk_def chunk_len.simps is_error_chunk_def is_error_flavor_def
        chunks_image_def chunk_image_def)
  have r: "receives demo_lob_conn (answer_bytes (cn_isTlsConn demo_lob_conn) zeroLanHeader [lobChunk False 0 [104, 105], endChunk]
      @ answer_bytes (cn_isTlsConn demo_lob_conn) zeroLanHeader [endChunk] @ [])"
    by (simp add: receives_def healthy_def incoming_def script_bytes_def demo_lob_conn_def demo_tx_def demo_conn_def
        newReadBuffer_def)
  from lob_fetched_whole [OF c(1) l _ _ k h h e r, of demo_env] show ?thesis by (auto simp: c(2))
qed

end
