(* ===== verification/RowStream.thy ===== *)
theory RowStream
  imports RowSet
begin

text \<open>
  The rows of a result over all the messages it comes in (\<open>Next\<close>, src/rows.go): how the parcels of the messages
  make up rows, and that successive calls of \<open>Next\<close> return these rows.
\<close>

section \<open>Reading a row\<close>

text \<open>A record body that is one row of the given columns, wherever it stands and whatever was in \<open>dest\<close>.\<close>

definition decodes :: "metaFull list \<Rightarrow> byte list \<Rightarrow> gvalue list \<Rightarrow> bool" where
  "decodes metas body row \<longleftrightarrow> (\<forall>pre suf l dest. length dest = length metas \<longrightarrow>
     (\<exists>r. processRow metas (rdr pre (body @ suf) l) dest 0 = Some (Inr (int (length metas)), r, row)
        \<and> r_buff r = pre @ body @ suf \<and> r_len r = l))"

lemma params_decodes:
  assumes "describeParams fmt vs (map2 MetaFull as ms) = Some (Inr ds)"
    "length as = length ms" "list_all2 column_ok ms vs"
  shows "decodes ms (nullmap ds @ concat (map p_encoded ds)) (map2 (column_value fmt) ms vs)"
  unfolding decodes_def
proof (intro allI impI)
  fix pre suf :: "byte list" and l and dest :: "gvalue list" assume d: "length dest = length ms"
  have len: "length ds = length ms" using describeParams_length [OF assms(1)] assms(2) by simp
  have n: "rd_bytes ((int (length ms) + 7) div 8) (rdr pre (nullmap ds @ concat (map p_encoded ds) @ suf) l)
      = Some (nullmap ds, rdr (pre @ nullmap ds) (concat (map p_encoded ds) @ suf) l)"
    by (rule rd_bytes_rdr) (simp add: length_nullmap len zdiv_int)
  have "\<forall>i < length ms. isNull (nullmap ds) (0 + i) = Some (vs ! i = V_nil)"
    using isNull_nullmap [of _ ds] describeParams_null [OF assms(1)] len assms(2) by simp
  from processColumns_params [OF assms(1-3) this d, of "pre @ nullmap ds" suf l "[]"] n
  show "\<exists>r. processRow ms (rdr pre ((nullmap ds @ concat (map p_encoded ds)) @ suf) l) dest 0
      = Some (Inr (int (length ms)), r, map2 (column_value fmt) ms vs)
    \<and> r_buff r = pre @ (nullmap ds @ concat (map p_encoded ds)) @ suf \<and> r_len r = l"
    by (simp add: processRow_def rdr_def)
qed

section \<open>Rows in order\<close>

text \<open>\<open>n\<close> calls of \<open>Next\<close> with the same slice, and what each of them returns.\<close>

fun fetchRows ::
  "env \<Rightarrow> nat \<Rightarrow> gvalue list \<Rightarrow> tdRowData \<times> teradataStatement \<times> teradataConnection
     \<Rightarrow> ((goerror + gvalue list) list \<times> tdRowData \<times> teradataStatement \<times> teradataConnection) option" where
  "fetchRows E 0 dest s = Some ([], s)"
| "fetchRows E (Suc n) dest s = do {
     (r, s) \<leftarrow> Next E dest s;
     (rs, s) \<leftarrow> fetchRows E n dest s;
     Some (r # rs, s) }"

lemma fetchRows_add:
  assumes "fetchRows E m dest s = Some (xs, s')" "fetchRows E n dest s' = Some (ys, s'')"
  shows "fetchRows E (m + n) dest s = Some (xs @ ys, s'')"
  using assms
proof (induction m arbitrary: s xs)
  case 0
  then show ?case by simp
next
  case (Suc m)
  obtain r s1 rs where "Next E dest s = Some (r, s1)" "fetchRows E m dest s1 = Some (rs, s')" "xs = r # rs"
    using Suc.prems(1) by (auto elim!: bind_SomeE)
  then show ?case using Suc.IH [of s1 rs] Suc.prems(2) by simp
qed

text \<open>The reader in front of the parcels \<open>cs\<close>, the last of its message.\<close>

definition at :: "tdRowData \<Rightarrow> chunk list \<Rightarrow> bool" where
  "at rows cs \<longleftrightarrow> (\<exists>pre. rw_reader rows = rdr pre (chunks_image cs) (int (length pre) + int (length (chunks_image cs))))"

lemma isDone_at: "at rows cs \<Longrightarrow> isDone (rw_reader rows) = (cs = [])"
  using chunks_image_pos [of cs] by (cases "cs = []") (auto simp: at_def isDone_def, simp add: chunks_image_def)

lemma nextRound_ready:
  assumes "\<not> isDone (rw_reader rows)"
    "rowParcel (v_oidString E) (rw_columnMeta rows) (rw_reader rows) dest indx item = Some (reader, step)"
  shows "nextRound E dest indx item (rows, st, c) =
    (case step of
       RowError err \<Rightarrow> fail err
     | RowsEnd \<Rightarrow> bnd (set_fst (\<lambda>rows. rows\<lparr>rw_readDone := True\<rparr>)) (\<lambda>_. fail EOF)
     | RowDone dest \<Rightarrow> bnd (zoom (zoom (finalizeRow E dest))) (\<lambda>dest. ret (Inl dest))
     | GoOn dest indx item \<Rightarrow> ret (Inr (dest, indx, item))) (rows\<lparr>rw_reader := reader\<rparr>, st, c)"
  using assms by (simp add: nextRound_def bnd_def gets_def ret_def pure_def set_fst_def modify_def)

lemma Next_done: "rw_readDone rows \<Longrightarrow> Next E dest (rows, st, c) = Some (Inl EOF, (rows, st, c))"
  by (simp add: Next_def bnd_def gets_def fail_def)

lemma Next_fetch:
  assumes "isDone (rw_reader rows)" "fetchMore E (rows, st, c) = Some (Inr (), (rows', st, c'))"
    "\<not> isDone (rw_reader rows')" "\<not> rw_readDone rows" "\<not> rw_readDone rows'"
  shows "Next E dest (rows, st, c) = Next E dest (rows', st, c')"
proof -
  have "nextRound E dest 0 (-1) (rows, st, c) = nextRound E dest 0 (-1) (rows', st, c')"
    using assms by (simp add: nextRound_def bnd_def gets_def ret_def)
  then show ?thesis using assms by (simp add: Next_def bnd_def gets_def nextLoop.simps)
qed

lemma respondParcels_ok: "list_all parcel_ok [getRespondParcel caps config] \<and> bodyLength [getRespondParcel caps config] < 2 ^ 31"
  by (simp add: getRespondParcel_def newBigKeepRespondParcel_def newBigRespondParcel_def newKeepRespondParcel_def
      newRespondParcel_def bodyLength_def Let_def respond_getLength_def bigRespond_getLength_def parcelHeaderLen_def)

text \<open>The request for more rows.\<close>

definition moreMessage :: "teradataConnection \<Rightarrow> connectionCapabilities \<Rightarrow> nat \<Rightarrow> byte list" where
  "moreMessage c caps k =
     continueMessage (c\<lparr>cn_authNonce := cn_authNonce c + of_nat k\<rparr>) [getRespondParcel caps (cn_config c)]"

lemma fetchMore_run:
  assumes c: "in_clear c caps" and r: "receives c (answer_bytes (cn_isTlsConn c) h cs @ rest)"
    and h: "plain_header h" and n: "length (chunks_image cs) < 2 ^ 31"
  shows "\<exists>rows' c'. fetchMore E (rows, st, c) = Some (Inr (), (rows', st, c')) \<and> at rows' cs
    \<and> rw_columnMeta rows' = rw_columnMeta rows \<and> rw_readDone rows' = rw_readDone rows
    \<and> cn_written c' = cn_written c @ [moreMessage c caps 0]
    \<and> cn_requestNo c' = cn_requestNo c \<and> cn_authNonce c' = cn_authNonce c + 1
    \<and> receives c' rest \<and> same_session c c'"
proof -
  let ?ps = "[getRespondParcel caps (cn_config c)]"
  obtain h0 wb where w: "newLanHeaderContinue c = Some (Inr h0, c\<lparr>cn_authNonce := cn_authNonce c + 1\<rparr>)"
    "writeLanMessage E h0 ?ps (c\<lparr>cn_authNonce := cn_authNonce c + 1\<rparr>) =
      Some (Inr (), c\<lparr>cn_authNonce := cn_authNonce c + 1,
        cn_writeBuffer := wb, cn_written := cn_written c @ [continueMessage c ?ps]\<rparr>)"
    using continue_request [OF c conjunct1 [OF respondParcels_ok] conjunct2 [OF respondParcels_ok], of E] by blast
  let ?c2 = "c\<lparr>cn_authNonce := cn_authNonce c + 1, cn_writeBuffer := wb,
    cn_written := cn_written c @ [continueMessage c ?ps]\<rparr>"
  have "receives ?c2 (answer_bytes (cn_isTlsConn ?c2) h cs @ rest)" using r by (simp add: receives_def)
  from readRaw_answer [OF this h n, of E True] obtain data header b bs where
    a: "readLanMessageRawInto E True ?c2 = Some (Inr (data, 52, 52 + int (length (chunks_image cs)), header),
        ?c2\<lparr>cn_buffer := b, cn_script := bs, cn_transactionInProgress := (lh_byteVar h AND 1 = 1)\<rparr>)"
    "newBufferReader data 52 (52 + int (length (chunks_image cs)))
        = rdr (lan_image h (int (length (chunks_image cs)))) (chunks_image cs @ [])
            (52 + int (length (chunks_image cs)))"
    "receives (?c2\<lparr>cn_buffer := b, cn_script := bs, cn_transactionInProgress := (lh_byteVar h AND 1 = 1)\<rparr>) rest"
    by blast
  let ?c3 = "?c2\<lparr>cn_buffer := b, cn_script := bs, cn_transactionInProgress := (lh_byteVar h AND 1 = 1)\<rparr>"
  let ?rows = "rows\<lparr>rw_reader := newBufferReader data 52 (52 + int (length (chunks_image cs))), rw_parcelStart := 52,
    rw_parcelEnd := 52 + int (length (chunks_image cs))\<rparr>"
  have l: "length (lan_image h (int (length (chunks_image cs)))) = 52"
    by (rule length_lan_image) (use h in \<open>simp add: plain_header_def\<close>)
  have "fetchMore E (rows, st, c) = Some (Inr (), (?rows, st, ?c3))"
    using c w a(1)
    by (simp add: fetchMore_def bnd_def attempt_def zoom_def gets_def capabilities_def in_clear_def set_fst_def
        modify_def readLanMessageRawOwned_def)
  moreover have "at ?rows cs"
    unfolding at_def a(2)
    by (rule exI [of _ "lan_image h (int (length (chunks_image cs)))"]) (simp add: a(2) l)
  moreover have "same_session c ?c3" by (simp add: same_session_def usable_def)
  moreover have "cn_written ?c3 = cn_written c @ [moreMessage c caps 0]" by (simp add: moreMessage_def)
  ultimately show ?thesis
    using a(3) by (intro exI [of _ ?rows] exI [of _ ?c3]) simp
qed

section \<open>How parcels make up rows\<close>

text \<open>A parcel that is not about rows: its flavor is unknown to the driver, or its content is read within the message.\<close>

definition passes :: "(byte list \<Rightarrow> string option) \<Rightarrow> chunk \<Rightarrow> bool" where
  "passes oid c \<longleftrightarrow> chunk_ok c \<and> fst (snd c) \<notin> {flavorRecord, flavorMultiPartRecord, flavorMultiPartEnd,
       flavorEndRequest, flavorStartSlobData, flavorSlobData, flavorEndSlobData}
     \<and> (case responseParcelFactory oid (fst (snd c)) of
          Inl _ \<Rightarrow> True
        | Inr fromBuffer \<Rightarrow> \<forall>pre s l. \<exists>p r. fromBuffer (rdr (pre @ chunk_hdr c) (snd (snd c) @ s) l) (chunk_len c) = Some (p, r)
            \<and> r_buff r = pre @ chunk_image c @ s \<and> r_len r = l)"

text \<open>What can come between the record of a row and the end of the row: the data of its LOBs, in pieces, and parcels that
  are not about rows. A \<open>bool\<close> says whether a parcel has a long header.\<close>

datatype rowEvent =
    Passed chunk
  | LobStart bool u32 "byte list"
  | LobPiece bool "byte list" "byte list"
  | LobEnd bool "byte list"

fun eventChunk :: "rowEvent \<Rightarrow> chunk" where
  "eventChunk (Passed c) = c"
| "eventChunk (LobStart a n b) = (a, flavorStartSlobData, be_enc 4 (unat n) @ b)"
| "eventChunk (LobPiece a h d) = (a, flavorSlobData, h @ d)"
| "eventChunk (LobEnd a b) = (a, flavorEndSlobData, b)"

fun event_ok :: "(byte list \<Rightarrow> string option) \<Rightarrow> rowEvent \<Rightarrow> bool" where
  "event_ok oid (Passed c) \<longleftrightarrow> passes oid c"
| "event_ok oid (LobPiece a h d) \<longleftrightarrow> chunk_ok (a, flavorSlobData, h @ d) \<and> length h = 8"
| "event_ok oid e \<longleftrightarrow> chunk_ok (eventChunk e)"

text \<open>What it does to the values of the row, and to the number of the column whose LOB is being filled (\<open>-1\<close>: none).\<close>

fun eventEffect :: "rowEvent \<Rightarrow> gvalue list \<times> int \<Rightarrow> (gvalue list \<times> int) option" where
  "eventEffect (Passed c) s = Some s"
| "eventEffect (LobStart a n b) (row, item) = map_option (\<lambda>row. (row, uint n - 1)) (on_lob (uint n - 1) lob_start row)"
| "eventEffect (LobPiece a h d) (row, item) = map_option (\<lambda>row. (row, item)) (on_lob item (lob_append d) row)"
| "eventEffect (LobEnd a b) (row, item) = map_option (\<lambda>row. (row, -1)) (on_lob item (\<lambda>l. Some (lob_complete l)) row)"

fun eventsEffect :: "rowEvent list \<Rightarrow> gvalue list \<times> int \<Rightarrow> (gvalue list \<times> int) option" where
  "eventsEffect [] s = Some s"
| "eventsEffect (e # es) s = Option.bind (eventEffect e s) (eventsEffect es)"

text \<open>The value a LOB that has come whole is turned into when LOBs are fetched beforehand.\<close>

fun settled :: "gvalue \<Rightarrow> gvalue option" where
  "settled (V_clob l) = (if lb_done l \<and> lb_data l \<noteq> None then Some (V_string (bytes_str (lob_bytes l))) else None)"
| "settled (V_blob l) = (if lb_done l \<and> lb_data l \<noteq> None then Some (V_bytes (lob_bytes l)) else None)"
| "settled v = Some v"

text \<open>The parcels of one row: those before it that are not about it; then its record in one parcel, or a multi-part record,
  what comes with it, and the parcel that ends it.\<close>

type_synonym rowGroup = "chunk list \<times> (bool \<times> byte list) \<times> (rowEvent list \<times> bool \<times> byte list) option"

fun groupChunks :: "rowGroup \<Rightarrow> chunk list" where
  "groupChunks (before, (a, b), None) = before @ [(a, flavorRecord, b)]"
| "groupChunks (before, (a, b), Some (es, a', b')) =
     before @ (a, flavorMultiPartRecord, b) # map eventChunk es @ [(a', flavorMultiPartEnd, b')]"

fun group_ok :: "(byte list \<Rightarrow> string option) \<Rightarrow> rowGroup \<Rightarrow> bool" where
  "group_ok oid (before, (a, b), None) \<longleftrightarrow> list_all (passes oid) before \<and> chunk_ok (a, flavorRecord, b)"
| "group_ok oid (before, (a, b), Some (es, a', b')) \<longleftrightarrow> list_all (passes oid) before
     \<and> chunk_ok (a, flavorMultiPartRecord, b) \<and> list_all (event_ok oid) es \<and> chunk_ok (a', flavorMultiPartEnd, b')"

text \<open>The row they make up.\<close>

fun groupRow :: "bool \<Rightarrow> metaFull list \<Rightarrow> rowGroup \<Rightarrow> gvalue list \<Rightarrow> bool" where
  "groupRow prefetch metas (before, (a, b), rest) row \<longleftrightarrow>
     (\<exists>row1 row2 item. decodes metas b row1
        \<and> (case rest of None \<Rightarrow> row2 = row1 | Some (es, _) \<Rightarrow> eventsEffect es (row1, -1) = Some (row2, item))
        \<and> (if prefetch then those (map settled row2) = Some row else row = row2))"

text \<open>How the last message goes on behind its last row: the end of the request, and anything after it; or the message stops
  behind a parcel that completes no row.\<close>

datatype rowTail =
    Ended "chunk list" bool "byte list" "chunk list"
  | Broken "chunk list" "((bool \<times> byte list) \<times> rowEvent list) option"

fun tailChunks :: "rowTail \<Rightarrow> chunk list" where
  "tailChunks (Ended before a b after) = before @ (a, flavorEndRequest, b) # after"
| "tailChunks (Broken before None) = before"
| "tailChunks (Broken before (Some ((a, b), es))) = before @ (a, flavorMultiPartRecord, b) # map eventChunk es"

fun tail_ok :: "(byte list \<Rightarrow> string option) \<Rightarrow> metaFull list \<Rightarrow> rowTail \<Rightarrow> bool" where
  "tail_ok oid metas (Ended before a b after) \<longleftrightarrow> list_all (passes oid) before \<and> chunk_ok (a, flavorEndRequest, b)"
| "tail_ok oid metas (Broken before None) \<longleftrightarrow> before \<noteq> [] \<and> list_all (passes oid) before"
| "tail_ok oid metas (Broken before (Some ((a, b), es))) \<longleftrightarrow> list_all (passes oid) before
     \<and> chunk_ok (a, flavorMultiPartRecord, b) \<and> list_all (event_ok oid) es
     \<and> (\<exists>row s. decodes metas b row \<and> eventsEffect es (row, -1) = Some s)"

fun ended :: "rowTail \<Rightarrow> bool" where
  "ended (Ended _ _ _ _) \<longleftrightarrow> True"
| "ended (Broken _ _) \<longleftrightarrow> False"

section \<open>One parcel\<close>

lemma at_Cons:
  assumes "at rows (c # cs)"
  obtains pre l where "rw_reader rows = rdr pre (chunk_image c @ chunks_image cs) l"
    "at (rows\<lparr>rw_reader := rdr (pre @ chunk_image c) (chunks_image cs) l\<rparr>) cs"
proof -
  obtain pre where "rw_reader rows = rdr pre (chunk_image c @ chunks_image cs)
      (int (length pre) + int (length (chunks_image (c # cs))))" (is "_ = rdr pre _ ?l")
    using assms by (auto simp: at_def chunks_image_def)
  moreover have "at (rows\<lparr>rw_reader := rdr (pre @ chunk_image c) (chunks_image cs) ?l\<rparr>) cs"
    by (auto simp: at_def chunks_image_def intro!: exI [of _ "pre @ chunk_image c"])
  ultimately show thesis by (rule that)
qed

lemma seek_chunk:
  "r_buff r = pre @ chunk_image c @ suf \<Longrightarrow> r_len r = l \<Longrightarrow>
     rd_seek (int (length pre) + chunk_len c) r = rdr (pre @ chunk_image c) suf l"
  using length_chunk_image [of c] by (simp add: rd_seek_def rdr_def)

lemma seek_in_chunk:
  "rd_seek (int (length pre) + chunk_len c) (rdr (pre @ chunk_hdr c @ x) y l) = rdr (pre @ chunk_image c) suf l"
  if "x @ y = snd (snd c) @ suf"
  using that by (intro seek_chunk) (simp_all add: chunk_image_def)

lemma header_chunk:
  "chunk_ok c \<Longrightarrow> readParcelHeader (rdr pre (chunk_image c @ suf) l) =
     Some (fst (snd c), chunk_len c, fst c, rdr (pre @ chunk_hdr c) (snd (snd c) @ suf) l)"
  using readParcelHeader_chunk [of "fst c" "fst (snd c)" "snd (snd c)" pre suf l] by simp

lemma rowParcel_passed:
  assumes "passes oid c"
  shows "rowParcel oid metas (rdr pre (chunk_image c @ suf) l) row indx item
    = Some (rdr (pre @ chunk_image c) suf l, GoOn row indx item)"
proof (cases "responseParcelFactory oid (fst (snd c))")
  case (Inl e)
  then show ?thesis
    using assms seek_in_chunk [of "[]" "snd (snd c) @ suf" c suf pre l]
    by (auto simp: rowParcel_def passes_def header_chunk)
next
  case (Inr f)
  then obtain p r where "f (rdr (pre @ chunk_hdr c) (snd (snd c) @ suf) l) (chunk_len c) = Some (p, r)"
    "r_buff r = pre @ chunk_image c @ suf" "r_len r = l" using assms by (fastforce simp: passes_def)
  then show ?thesis using assms Inr seek_chunk [of r pre c suf l] by (auto simp: rowParcel_def passes_def header_chunk)
qed

lemma rowParcel_event:
  assumes "event_ok oid e" "eventEffect e (row, item) = Some (row', item')"
  shows "rowParcel oid metas (rdr pre (chunk_image (eventChunk e) @ suf) l) row indx item
    = Some (rdr (pre @ chunk_image (eventChunk e)) suf l, GoOn row' indx item')"
proof (cases e)
  case (Passed c)
  then show ?thesis using assms rowParcel_passed by simp
next
  case (LobStart a n b)
  let ?c = "(a, flavorStartSlobData, be_enc 4 (unat n) @ b)"
  have "chunk_ok ?c" using assms LobStart by simp
  from header_chunk [OF this] show ?thesis
    using assms(2) LobStart seek_in_chunk [of "be_enc 4 (unat n)" "b @ suf" ?c suf pre l]
    by (auto simp: rowParcel_def startSlobData_fromBuffer_def rdr_simps)
next
  case (LobPiece a h d)
  let ?c = "(a, flavorSlobData, h @ d)"
  have ok: "chunk_ok ?c" and h: "int (length h) = 8" using assms LobPiece by auto
  have len: "(if a then chunk_len ?c - parcelHeaderLen - 4 else chunk_len ?c - parcelHeaderLen) - 8 = int (length d)"
    using h by (simp add: chunk_len.simps parcelHeaderLen_def)
  have skip: "rd_skip 8 (rdr (pre @ chunk_hdr ?c) (h @ d @ suf) l) = rdr ((pre @ chunk_hdr ?c) @ h) (d @ suf) l"
    by (rule rd_skip_rdr) (simp add: h)
  have bytes: "rd_bytes (int (length d)) (rdr ((pre @ chunk_hdr ?c) @ h) (d @ suf) l)
      = Some (d, rdr (((pre @ chunk_hdr ?c) @ h) @ d) suf l)" by (rule rd_bytes_rdr) simp
  show ?thesis
    using assms(2) LobPiece header_chunk [OF ok, of pre suf l] seek_in_chunk [of h "d @ suf" ?c suf pre l]
    by (auto simp: rowParcel_def Let_def len skip bytes [unfolded append_assoc] simp del: chunk_hdr.simps)
next
  case (LobEnd a b)
  let ?c = "(a, flavorEndSlobData, b)"
  have "chunk_ok ?c" using assms LobEnd by simp
  from header_chunk [OF this] show ?thesis
    using assms(2) LobEnd seek_in_chunk [of "[]" "b @ suf" ?c suf pre l]
    by (auto simp: rowParcel_def)
qed

lemma rowParcel_record:
  assumes "chunk_ok (a, f, b)" "f \<in> {flavorRecord, flavorMultiPartRecord}" "decodes metas b row1" "length dest = length metas"
  shows "rowParcel oid metas (rdr pre (chunk_image (a, f, b) @ suf) l) dest 0 item
    = Some (rdr (pre @ chunk_image (a, f, b)) suf l,
        if f = flavorRecord then RowDone row1 else GoOn row1 (int (length metas)) item)"
proof -
  obtain r where "processRow metas (rdr (pre @ chunk_hdr (a, f, b)) (b @ suf) l) dest 0 = Some (Inr (int (length metas)), r, row1)"
    "r_buff r = (pre @ chunk_hdr (a, f, b)) @ b @ suf" "r_len r = l"
    using assms(3,4) unfolding decodes_def by fastforce
  then show ?thesis
    using header_chunk [OF assms(1), of pre suf l] assms(2) seek_chunk [of r pre "(a, f, b)" suf l]
    by (auto simp: rowParcel_def chunk_image_def)
qed

lemma fetchColumns_settled: "those (map settled ds) = Some ds' \<Longrightarrow> fetchColumns E ds c = Some (Inr ds', c)"
proof (induction ds arbitrary: ds')
  case Nil
  then show ?case by (simp add: ret_def)
next
  case (Cons d ds)
  then obtain v vs where v: "settled d = Some v" "those (map settled ds) = Some vs" "ds' = v # vs"
    by (auto split: option.splits)
  have "(case d of
            V_clob l \<Rightarrow> bnd (with_object l (GetString E)) (\<lambda>s. ret (V_string s))
          | V_blob l \<Rightarrow> bnd (with_object l (GetBytes E)) (\<lambda>b. ret (V_bytes b))
          | _ \<Rightarrow> ret d) c = Some (Inr v, c)"
    using v(1)
    by (cases d) (auto simp: bnd_def ret_def gets_def with_object_def GetString_def GetStringContext_def GetBytes_def
        GetBytesContext_def split: if_splits)
  then show ?case using Cons.IH [OF v(2)] v(3) by (simp add: bnd_def ret_def)
qed

lemma finalizeRow_settled:
  "(if cfg_LOBPrefetch (cn_config c) then those (map settled row2) = Some row else row = row2) \<Longrightarrow>
     finalizeRow E row2 c = Some (Inr row, c)"
  using fetchColumns_settled by (auto simp: finalizeRow_def bnd_def gets_def ret_def split: if_splits)

section \<open>One row\<close>

text \<open>The loop behind a parcel that does not complete the row: it goes on, or the message is over.\<close>

definition behind ::
  "env \<Rightarrow> chunk list \<Rightarrow> gvalue list \<Rightarrow> int \<Rightarrow> int \<Rightarrow> tdRowData \<times> teradataStatement \<times> teradataConnection
     \<Rightarrow> ((goerror + gvalue list) \<times> tdRowData \<times> teradataStatement \<times> teradataConnection) option" where
  "behind E cs row indx item s = (if cs = [] then Some (Inl ErrInvalidRead, s) else nextLoop E row indx item s)"

lemma nextLoop_go:
  assumes "at rows (c # cs)" and step: "\<And>pre suf l. rowParcel (v_oidString E) (rw_columnMeta rows)
      (rdr pre (chunk_image c @ suf) l) row indx item = Some (rdr (pre @ chunk_image c) suf l, GoOn row' indx' item')"
  shows "\<exists>reader. at (rows\<lparr>rw_reader := reader\<rparr>) cs
    \<and> nextLoop E row indx item (rows, st, d) = behind E cs row' indx' item' (rows\<lparr>rw_reader := reader\<rparr>, st, d)"
proof -
  obtain pre l where r: "rw_reader rows = rdr pre (chunk_image c @ chunks_image cs) l"
    "at (rows\<lparr>rw_reader := rdr (pre @ chunk_image c) (chunks_image cs) l\<rparr>) cs" by (rule at_Cons [OF assms(1)])
  have nd: "\<not> isDone (rw_reader rows)" using isDone_at [OF assms(1)] by simp
  note step' = step [of pre "chunks_image cs" l, folded r(1)]
  from nextRound_ready [OF nd step'] r(2) isDone_at [OF r(2)] show ?thesis
    by (intro exI [of _ "rdr (pre @ chunk_image c) (chunks_image cs) l"])
      (simp add: nextLoop.simps [of E row indx item] behind_def ret_def)
qed

lemma nextLoop_done:
  assumes "at rows (c # cs)" and step: "\<And>pre suf l. rowParcel (v_oidString E) (rw_columnMeta rows)
      (rdr pre (chunk_image c @ suf) l) row indx item = Some (rdr (pre @ chunk_image c) suf l, RowDone row')"
    and "finalizeRow E row' d = Some (Inr row'', d)"
  shows "\<exists>reader. at (rows\<lparr>rw_reader := reader\<rparr>) cs
    \<and> nextLoop E row indx item (rows, st, d) = Some (Inr row'', (rows\<lparr>rw_reader := reader\<rparr>, st, d))"
proof -
  obtain pre l where r: "rw_reader rows = rdr pre (chunk_image c @ chunks_image cs) l"
    "at (rows\<lparr>rw_reader := rdr (pre @ chunk_image c) (chunks_image cs) l\<rparr>) cs" by (rule at_Cons [OF assms(1)])
  have nd: "\<not> isDone (rw_reader rows)" using isDone_at [OF assms(1)] by simp
  note step' = step [of pre "chunks_image cs" l, folded r(1)]
  from nextRound_ready [OF nd step'] r(2) assms(3) show ?thesis
    by (intro exI [of _ "rdr (pre @ chunk_image c) (chunks_image cs) l"])
      (simp add: nextLoop.simps [of E row indx item] bnd_def zoom_def ret_def)
qed

lemma nextLoop_events:
  assumes "at rows (map eventChunk es @ cs)" "list_all (event_ok (v_oidString E)) es"
    "eventsEffect es (row, item) = Some (row', item')" "es \<noteq> [] \<or> cs \<noteq> []"
  shows "\<exists>reader. at (rows\<lparr>rw_reader := reader\<rparr>) cs
    \<and> nextLoop E row indx item (rows, st, d) = behind E cs row' indx item' (rows\<lparr>rw_reader := reader\<rparr>, st, d)"
  using assms
proof (induction es arbitrary: rows row item)
  case Nil
  then show ?case by (intro exI [of _ "rw_reader rows"]) (simp add: behind_def)
next
  case (Cons e es)
  obtain row1 item1 where e: "eventEffect e (row, item) = Some (row1, item1)"
    "eventsEffect es (row1, item1) = Some (row', item')" using Cons.prems(3) by (auto simp: bind_eq_Some_conv)
  have ok: "event_ok (v_oidString E) e" using Cons.prems(2) by simp
  obtain reader where g: "at (rows\<lparr>rw_reader := reader\<rparr>) (map eventChunk es @ cs)"
    "nextLoop E row indx item (rows, st, d)
      = behind E (map eventChunk es @ cs) row1 indx item1 (rows\<lparr>rw_reader := reader\<rparr>, st, d)"
    using nextLoop_go [OF _ rowParcel_event [OF ok e(1)], of rows "map eventChunk es @ cs"] Cons.prems(1) by force
  show ?case
  proof (cases "es = [] \<and> cs = []")
    case True
    then show ?thesis using g by (auto simp: behind_def)
  next
    case False
    then show ?thesis using Cons.IH [OF g(1) _ e(2)] Cons.prems(2) g(2) by (auto simp: behind_def)
  qed
qed

lemma passed_events:
  "list_all (event_ok oid) (map Passed cs) = list_all (passes oid) cs" "map (eventChunk \<circ> Passed) cs = cs"
  "eventsEffect (map Passed cs) s = Some s"
  by (induction cs) (simp_all add: comp_def)

lemma nextLoop_passed:
  assumes "at rows (before @ cs)" "list_all (passes (v_oidString E)) before" "before \<noteq> [] \<or> cs \<noteq> []"
  shows "\<exists>reader. at (rows\<lparr>rw_reader := reader\<rparr>) cs
    \<and> nextLoop E row indx item (rows, st, d) = behind E cs row indx item (rows\<lparr>rw_reader := reader\<rparr>, st, d)"
  using nextLoop_events [of rows "map Passed before" cs E row item row item indx st d] assms
  by (simp add: passed_events)

lemma nextLoop_multi:
  assumes "at rows ((a, flavorMultiPartRecord, b) # map eventChunk es @ cs)" "chunk_ok (a, flavorMultiPartRecord, b)"
    "list_all (event_ok (v_oidString E)) es" "decodes (rw_columnMeta rows) b row1" "length dest = length (rw_columnMeta rows)"
    "eventsEffect es (row1, -1) = Some (row2, item2)"
  shows "\<exists>reader. at (rows\<lparr>rw_reader := reader\<rparr>) cs \<and> nextLoop E dest 0 (-1) (rows, st, d)
    = behind E cs row2 (int (length (rw_columnMeta rows))) item2 (rows\<lparr>rw_reader := reader\<rparr>, st, d)"
proof -
  have "rowParcel (v_oidString E) (rw_columnMeta rows) (rdr pre (chunk_image (a, flavorMultiPartRecord, b) @ suf) l) dest 0 (-1)
      = Some (rdr (pre @ chunk_image (a, flavorMultiPartRecord, b)) suf l, GoOn row1 (int (length (rw_columnMeta rows))) (-1))"
    for pre suf l
    using rowParcel_record [OF assms(2) _ assms(4,5)] by simp
  from nextLoop_go [OF assms(1) this] obtain reader where g: "at (rows\<lparr>rw_reader := reader\<rparr>) (map eventChunk es @ cs)"
    "nextLoop E dest 0 (-1) (rows, st, d) = behind E (map eventChunk es @ cs) row1 (int (length (rw_columnMeta rows))) (-1)
       (rows\<lparr>rw_reader := reader\<rparr>, st, d)" by blast
  show ?thesis
  proof (cases "es = [] \<and> cs = []")
    case True
    then show ?thesis using g by (auto simp: behind_def)
  next
    case False
    then show ?thesis using nextLoop_events [OF g(1) assms(3,6)] g(2) by (auto simp: behind_def)
  qed
qed

lemma rowParcel_multiEnd:
  assumes "chunk_ok (a, flavorMultiPartEnd, b)"
  shows "rowParcel oid metas (rdr pre (chunk_image (a, flavorMultiPartEnd, b) @ suf) l) row indx item
    = Some (rdr (pre @ chunk_image (a, flavorMultiPartEnd, b)) suf l, RowDone row)"
  using header_chunk [OF assms, of pre suf l] seek_in_chunk [of "[]" "b @ suf" "(a, flavorMultiPartEnd, b)" suf pre l]
  by (simp add: rowParcel_def)

lemma Next_loop: "\<not> rw_readDone rows \<Longrightarrow> Next E dest (rows, st, d) = nextLoop E dest 0 (-1) (rows, st, d)"
  by (simp add: Next_def bnd_def gets_def)

lemma Next_group:
  assumes at: "at rows (groupChunks g @ cs)" and ok: "group_ok (v_oidString E) g"
    and row: "groupRow (cfg_LOBPrefetch (cn_config d)) (rw_columnMeta rows) g row" "length dest = length (rw_columnMeta rows)"
    and nd: "\<not> rw_readDone rows"
  shows "\<exists>reader. Next E dest (rows, st, d) = Some (Inr row, (rows\<lparr>rw_reader := reader\<rparr>, st, d))
    \<and> at (rows\<lparr>rw_reader := reader\<rparr>) cs"
proof -
  obtain before a b rest where g: "g = (before, (a, b), rest)" by (cases g) auto
  obtain row1 row2 item where r: "decodes (rw_columnMeta rows) b row1"
    "case rest of None \<Rightarrow> row2 = row1 | Some (es, _) \<Rightarrow> eventsEffect es (row1, -1) = Some (row2, item)"
    "finalizeRow E row2 d = Some (Inr row, d)"
    using row(1) finalizeRow_settled unfolding g groupRow.simps by blast
  show ?thesis
  proof (cases rest)
    case None
    have o: "list_all (passes (v_oidString E)) before" "chunk_ok (a, flavorRecord, b)" using ok g None by simp_all
    obtain reader where p: "at (rows\<lparr>rw_reader := reader\<rparr>) ((a, flavorRecord, b) # cs)"
      "nextLoop E dest 0 (-1) (rows, st, d) = nextLoop E dest 0 (-1) (rows\<lparr>rw_reader := reader\<rparr>, st, d)"
      using nextLoop_passed [of rows before "(a, flavorRecord, b) # cs" E dest 0 "-1" st d] at o g None
      by (auto simp: behind_def)
    have "rowParcel (v_oidString E) (rw_columnMeta (rows\<lparr>rw_reader := reader\<rparr>))
        (rdr pre (chunk_image (a, flavorRecord, b) @ suf) l) dest 0 (-1)
        = Some (rdr (pre @ chunk_image (a, flavorRecord, b)) suf l, RowDone row1)" for pre suf l
      using rowParcel_record [OF o(2) _ r(1) row(2)] by simp
    from nextLoop_done [OF p(1) this, of d row st] r(2,3) None p(2) show ?thesis
      by (auto simp: Next_loop [OF nd])
  next
    case (Some x)
    obtain es a' b' where x: "x = (es, a', b')" by (cases x)
    let ?cs = "(a', flavorMultiPartEnd, b') # cs" and ?m = "(a, flavorMultiPartRecord, b)"
    have o: "list_all (passes (v_oidString E)) before" "chunk_ok ?m" "list_all (event_ok (v_oidString E)) es"
      "chunk_ok (a', flavorMultiPartEnd, b')" using ok g Some x by simp_all
    obtain reader where p: "at (rows\<lparr>rw_reader := reader\<rparr>) (?m # map eventChunk es @ ?cs)"
      "nextLoop E dest 0 (-1) (rows, st, d) = nextLoop E dest 0 (-1) (rows\<lparr>rw_reader := reader\<rparr>, st, d)"
      using nextLoop_passed [of rows before "?m # map eventChunk es @ ?cs" E dest 0 "-1" st d] at o g Some x
      by (auto simp: behind_def)
    have e: "eventsEffect es (row1, -1) = Some (row2, item)" using r(2) Some x by simp
    have "decodes (rw_columnMeta (rows\<lparr>rw_reader := reader\<rparr>)) b row1"
      "length dest = length (rw_columnMeta (rows\<lparr>rw_reader := reader\<rparr>))" using r(1) row(2) by simp_all
    from nextLoop_multi [OF p(1) o(2,3) this e, of st d] obtain reader2 where
      q: "at (rows\<lparr>rw_reader := reader2\<rparr>) ?cs"
      "nextLoop E dest 0 (-1) (rows\<lparr>rw_reader := reader\<rparr>, st, d)
        = nextLoop E row2 (int (length (rw_columnMeta rows))) item (rows\<lparr>rw_reader := reader2\<rparr>, st, d)"
      by (auto simp: behind_def)
    from nextLoop_done [OF q(1) rowParcel_multiEnd [OF o(4)] r(3), of "int (length (rw_columnMeta rows))" item st] p(2) q(2) show ?thesis
      by (auto simp: Next_loop [OF nd])
  qed
qed

lemma Next_end:
  assumes at: "at rows (tailChunks (Ended before a b after))" and ok: "tail_ok (v_oidString E) metas (Ended before a b after)"
    and nd: "\<not> rw_readDone rows"
  shows "\<exists>reader. Next E dest (rows, st, d) = Some (Inl EOF, (rows\<lparr>rw_reader := reader, rw_readDone := True\<rparr>, st, d))"
proof -
  let ?c = "(a, flavorEndRequest, b)"
  obtain reader where p: "at (rows\<lparr>rw_reader := reader\<rparr>) (?c # after)"
    "nextLoop E dest 0 (-1) (rows, st, d) = nextLoop E dest 0 (-1) (rows\<lparr>rw_reader := reader\<rparr>, st, d)"
    using nextLoop_passed [of rows before "?c # after" E dest 0 "-1" st d] at ok by (auto simp: behind_def)
  let ?rows = "rows\<lparr>rw_reader := reader\<rparr>"
  obtain pre l where r: "rw_reader ?rows = rdr pre (chunk_image ?c @ chunks_image after) l" by (rule at_Cons [OF p(1)])
  have "chunk_ok ?c" using ok by simp
  from header_chunk [OF this, of pre "chunks_image after" l]
  have step: "rowParcel (v_oidString E) (rw_columnMeta ?rows) (rw_reader ?rows) dest 0 (-1)
      = Some (rdr (pre @ chunk_hdr ?c) (b @ chunks_image after) l, RowsEnd)"
    unfolding r by (simp add: rowParcel_def)
  have "\<not> isDone (rw_reader ?rows)" using isDone_at [OF p(1)] by simp
  from nextRound_ready [OF this step, of st d] p(2) show ?thesis
    by (simp add: Next_loop [OF nd] nextLoop.simps [of E dest 0] bnd_def set_fst_def modify_def fail_def del: chunk_hdr.simps)
      (rule exI, rule refl)
qed

lemma Next_broken:
  assumes at: "at rows (tailChunks (Broken before part))" and ok: "tail_ok (v_oidString E) (rw_columnMeta rows) (Broken before part)"
    and d: "length dest = length (rw_columnMeta rows)" and nd: "\<not> rw_readDone rows"
  shows "\<exists>reader. Next E dest (rows, st, d) = Some (Inl ErrInvalidRead, (rows\<lparr>rw_reader := reader\<rparr>, st, d))"
proof (cases part)
  case None
  then show ?thesis
    using nextLoop_passed [of rows before "[]" E dest 0 "-1" st d] at ok by (auto simp: behind_def Next_loop [OF nd])
next
  case (Some x)
  obtain a b es where x: "x = ((a, b), es)" by (cases x) auto
  let ?m = "(a, flavorMultiPartRecord, b)"
  obtain row1 row2 item where o: "list_all (passes (v_oidString E)) before" "chunk_ok ?m" "list_all (event_ok (v_oidString E)) es"
    "decodes (rw_columnMeta rows) b row1" "eventsEffect es (row1, -1) = Some (row2, item)"
    using ok Some x by auto
  obtain reader where p: "at (rows\<lparr>rw_reader := reader\<rparr>) (?m # map eventChunk es @ [])"
    "nextLoop E dest 0 (-1) (rows, st, d) = nextLoop E dest 0 (-1) (rows\<lparr>rw_reader := reader\<rparr>, st, d)"
    using nextLoop_passed [of rows before "?m # map eventChunk es" E dest 0 "-1" st d] at o(1) Some x
    by (auto simp: behind_def)
  have "decodes (rw_columnMeta (rows\<lparr>rw_reader := reader\<rparr>)) b row1"
    "length dest = length (rw_columnMeta (rows\<lparr>rw_reader := reader\<rparr>))" using o(4) d by simp_all
  from nextLoop_multi [OF p(1) o(2,3) this o(5), of st d] p(2) show ?thesis
    by (auto simp: behind_def Next_loop [OF nd])
qed

section \<open>A result\<close>

lemma page_rows:
  assumes "at rows (concat (map groupChunks groups) @ cs)" "list_all (group_ok (v_oidString E)) groups"
    "list_all2 (groupRow (cfg_LOBPrefetch (cn_config d)) (rw_columnMeta rows)) groups rws"
    "length dest = length (rw_columnMeta rows)" "\<not> rw_readDone rows"
  shows "\<exists>reader. fetchRows E (length groups) dest (rows, st, d) = Some (map Inr rws, (rows\<lparr>rw_reader := reader\<rparr>, st, d))
    \<and> at (rows\<lparr>rw_reader := reader\<rparr>) cs"
  using assms
proof (induction groups arbitrary: rows rws)
  case Nil
  then show ?case by (auto intro!: exI [of _ "rw_reader rows"])
next
  case (Cons g groups)
  obtain row rws' where rws: "rws = row # rws'" "groupRow (cfg_LOBPrefetch (cn_config d)) (rw_columnMeta rows) g row"
    "list_all2 (groupRow (cfg_LOBPrefetch (cn_config d)) (rw_columnMeta rows)) groups rws'"
    using Cons.prems(3) by (auto simp: list_all2_Cons1)
  obtain reader where n: "Next E dest (rows, st, d) = Some (Inr row, (rows\<lparr>rw_reader := reader\<rparr>, st, d))"
    "at (rows\<lparr>rw_reader := reader\<rparr>) (concat (map groupChunks groups) @ cs)"
    using Next_group [of rows g "concat (map groupChunks groups) @ cs" E d row dest st] Cons.prems rws(2) by auto
  from Cons.IH [OF n(2), of rws'] Cons.prems rws(3) obtain reader' where
    "fetchRows E (length groups) dest (rows\<lparr>rw_reader := reader\<rparr>, st, d)
      = Some (map Inr rws', (rows\<lparr>rw_reader := reader'\<rparr>, st, d))"
    "at (rows\<lparr>rw_reader := reader'\<rparr>) cs" by auto
  then show ?case using n(1) rws(1) by (intro exI [of _ reader']) simp
qed

text \<open>A message after the first: its header and its rows. The tail stands behind the rows of the last one.\<close>

type_synonym page = "lanHeader \<times> rowGroup list"

definition pageChunks :: "rowTail \<Rightarrow> rowGroup list \<Rightarrow> page list \<Rightarrow> chunk list" where
  "pageChunks t groups later = concat (map groupChunks groups) @ (if later = [] then tailChunks t else [])"

fun laterBytes :: "rowTail \<Rightarrow> bool \<Rightarrow> page list \<Rightarrow> byte list" where
  "laterBytes t isTls [] = []"
| "laterBytes t isTls ((h, groups) # later) = answer_bytes isTls h (pageChunks t groups later) @ laterBytes t isTls later"

fun pages_ok :: "(byte list \<Rightarrow> string option) \<Rightarrow> rowTail \<Rightarrow> page list \<Rightarrow> bool" where
  "pages_ok oid t [] \<longleftrightarrow> True"
| "pages_ok oid t ((h, groups) # later) \<longleftrightarrow> plain_header h \<and> (groups \<noteq> [] \<or> later = [])
     \<and> list_all (group_ok oid) groups \<and> length (chunks_image (pageChunks t groups later)) < 2 ^ 31 \<and> pages_ok oid t later"

text \<open>What the calls behind the last row return: the end of the data, as often as they are made, or an error.\<close>

definition afterRows :: "rowTail \<Rightarrow> nat \<Rightarrow> (goerror + gvalue list) list" where
  "afterRows t k = (if ended t then replicate (Suc k) (Inl EOF) else [Inl ErrInvalidRead])"

lemma afterRows_nonempty [simp]: "afterRows t k \<noteq> []"
  by (simp add: afterRows_def)

lemma tailChunks_nonempty: "tail_ok oid metas t \<Longrightarrow> tailChunks t \<noteq> []"
  by (cases "(oid, metas, t)" rule: tail_ok.cases) auto

lemma groupChunks_nonempty: "groupChunks g \<noteq> []"
  by (cases g rule: groupChunks.cases) auto

lemma pageChunks_nonempty:
  "groups \<noteq> [] \<or> later = [] \<Longrightarrow> tail_ok oid metas t \<Longrightarrow> pageChunks t groups later \<noteq> []"
  using tailChunks_nonempty groupChunks_nonempty by (cases groups) (auto simp: pageChunks_def)

lemma fetchRows_done:
  "rw_readDone rows \<Longrightarrow> fetchRows E k dest (rows, st, c) = Some (replicate k (Inl EOF), (rows, st, c))"
  by (induction k) (simp_all add: Next_done)

lemma tail_rows:
  assumes "at rows (tailChunks t)" "tail_ok (v_oidString E) (rw_columnMeta rows) t"
    "length dest = length (rw_columnMeta rows)" "\<not> rw_readDone rows"
  shows "\<exists>reader. fetchRows E (length (afterRows t k)) dest (rows, st, d)
    = Some (afterRows t k, (rows\<lparr>rw_reader := reader, rw_readDone := ended t\<rparr>, st, d))"
proof (cases t)
  case (Ended before a b after)
  obtain reader where e: "Next E dest (rows, st, d) = Some (Inl EOF, (rows\<lparr>rw_reader := reader, rw_readDone := True\<rparr>, st, d))"
    using Next_end assms unfolding Ended by blast
  show ?thesis
    using e fetchRows_done [of "rows\<lparr>rw_reader := reader, rw_readDone := True\<rparr>"]
    by (intro exI [of _ reader]) (simp add: Ended afterRows_def)
next
  case (Broken before part)
  obtain reader where "Next E dest (rows, st, d) = Some (Inl ErrInvalidRead, (rows\<lparr>rw_reader := reader\<rparr>, st, d))"
    using Next_broken assms unfolding Broken by blast
  then show ?thesis using assms(4) by (intro exI [of _ reader]) (simp add: Broken afterRows_def)
qed

lemma moreMessage_Suc:
  "same_session c d \<Longrightarrow> cn_requestNo d = cn_requestNo c \<Longrightarrow> cn_authNonce d = cn_authNonce c + 1 \<Longrightarrow>
     moreMessage d caps k = moreMessage c caps (Suc k)"
  by (simp add: moreMessage_def continueMessage_def same_session_def algebra_simps)

lemma all_rows:
  assumes "at rows (pageChunks t groups later)" "list_all (group_ok (v_oidString E)) groups" "pages_ok (v_oidString E) t later"
    "tail_ok (v_oidString E) (rw_columnMeta rows) t"
    "list_all2 (groupRow (cfg_LOBPrefetch (cn_config c)) (rw_columnMeta rows)) (groups @ concat (map snd later)) rws"
    "length dest = length (rw_columnMeta rows)" "\<not> rw_readDone rows" "in_clear c caps"
    "receives c (laterBytes t (cn_isTlsConn c) later @ rest)"
  shows "\<exists>rows' c'. fetchRows E (length rws + length (afterRows t k)) dest (rows, st, c)
      = Some (map Inr rws @ afterRows t k, (rows', st, c'))
    \<and> rw_readDone rows' = ended t \<and> receives c' rest \<and> same_session c c'
    \<and> cn_written c' = cn_written c @ map (moreMessage c caps) [0..<length later]"
  using assms
proof (induction later arbitrary: rows groups rws c)
  case Nil
  have rws: "list_all2 (groupRow (cfg_LOBPrefetch (cn_config c)) (rw_columnMeta rows)) groups rws" using Nil.prems(5) by simp
  have len: "length groups = length rws" using list_all2_lengthD [OF rws] by simp
  have at: "at rows (concat (map groupChunks groups) @ tailChunks t)" using Nil.prems(1) by (simp add: pageChunks_def)
  from page_rows [OF at Nil.prems(2) rws Nil.prems(6,7), of st] obtain reader where
    p: "fetchRows E (length rws) dest (rows, st, c) = Some (map Inr rws, (rows\<lparr>rw_reader := reader\<rparr>, st, c))"
    "at (rows\<lparr>rw_reader := reader\<rparr>) (tailChunks t)" by (auto simp: len)
  have "tail_ok (v_oidString E) (rw_columnMeta (rows\<lparr>rw_reader := reader\<rparr>)) t"
    "length dest = length (rw_columnMeta (rows\<lparr>rw_reader := reader\<rparr>))" "\<not> rw_readDone (rows\<lparr>rw_reader := reader\<rparr>)"
    using Nil.prems(4,6,7) by simp_all
  from tail_rows [OF p(2) this, of k st c] obtain reader' where
    "fetchRows E (length (afterRows t k)) dest (rows\<lparr>rw_reader := reader\<rparr>, st, c)
      = Some (afterRows t k, (rows\<lparr>rw_reader := reader', rw_readDone := ended t\<rparr>, st, c))" by auto
  from fetchRows_add [OF p(1) this] show ?case
    using Nil.prems(9)
    by (intro exI [of _ "rows\<lparr>rw_reader := reader', rw_readDone := ended t\<rparr>"] exI [of _ c])
      (simp add: same_session_def)
next
  case (Cons pg later)
  obtain h groups2 where pg: "pg = (h, groups2)" by (cases pg)
  have pg_ok: "plain_header h" "list_all (group_ok (v_oidString E)) groups2" "pages_ok (v_oidString E) t later"
    "length (chunks_image (pageChunks t groups2 later)) < 2 ^ 31" "groups2 \<noteq> [] \<or> later = []"
    using Cons.prems(3) pg by simp_all
  let ?row = "groupRow (cfg_LOBPrefetch (cn_config c)) (rw_columnMeta rows)"
  have "list_all2 ?row (groups @ (groups2 @ concat (map snd later))) rws" using Cons.prems(5) pg by simp
  then obtain rws1 rws2 where rws: "rws = rws1 @ rws2" "list_all2 ?row groups rws1"
    "list_all2 ?row (groups2 @ concat (map snd later)) rws2"
    unfolding list_all2_append1 [of _ groups] by blast
  have len: "length groups = length rws1" using list_all2_lengthD [OF rws(2)] by simp
  have at: "at rows (concat (map groupChunks groups) @ [])" using Cons.prems(1) by (simp add: pageChunks_def)
  from page_rows [OF at Cons.prems(2) rws(2) Cons.prems(6,7), of st] obtain reader where
    p: "fetchRows E (length rws1) dest (rows, st, c) = Some (map Inr rws1, (rows\<lparr>rw_reader := reader\<rparr>, st, c))"
    "at (rows\<lparr>rw_reader := reader\<rparr>) []" by (auto simp: len)
  let ?rows = "rows\<lparr>rw_reader := reader\<rparr>"
  have r: "receives c (answer_bytes (cn_isTlsConn c) h (pageChunks t groups2 later) @ laterBytes t (cn_isTlsConn c) later @ rest)"
    using Cons.prems(9) pg by simp
  from fetchMore_run [OF Cons.prems(8) r pg_ok(1,4), of E ?rows st] obtain rows' c' where
    f: "fetchMore E (?rows, st, c) = Some (Inr (), (rows', st, c'))" "at rows' (pageChunks t groups2 later)"
    "rw_columnMeta rows' = rw_columnMeta rows" "rw_readDone rows' = rw_readDone rows"
    "cn_written c' = cn_written c @ [moreMessage c caps 0]" "cn_requestNo c' = cn_requestNo c"
    "cn_authNonce c' = cn_authNonce c + 1" "receives c' (laterBytes t (cn_isTlsConn c) later @ rest)"
    "same_session c c'" by auto
  have ne: "\<not> isDone (rw_reader rows')" using isDone_at [OF f(2)] pageChunks_nonempty [OF pg_ok(5) Cons.prems(4)] by simp
  have same: "in_clear c' caps" "cn_config c' = cn_config c" "cn_isTlsConn c' = cn_isTlsConn c"
    using in_clear_same [OF Cons.prems(8) f(9)] f(9) by (simp_all add: same_session_def)
  have eq: "fetchRows E (length rws2 + length (afterRows t k)) dest (?rows, st, c)
      = fetchRows E (length rws2 + length (afterRows t k)) dest (rows', st, c')"
    using Next_fetch [OF _ f(1) ne] isDone_at [OF p(2)] Cons.prems(7) f(4)
    by (cases "length rws2 + length (afterRows t k)") (simp_all add: afterRows_nonempty)
  have "tail_ok (v_oidString E) (rw_columnMeta rows') t"
    "list_all2 (groupRow (cfg_LOBPrefetch (cn_config c')) (rw_columnMeta rows')) (groups2 @ concat (map snd later)) rws2"
    "length dest = length (rw_columnMeta rows')" "\<not> rw_readDone rows'"
    "receives c' (laterBytes t (cn_isTlsConn c') later @ rest)"
    using Cons.prems(4,6,7) rws(3) f(3,4,8) same(2,3) by simp_all
  from Cons.IH [OF f(2) pg_ok(2,3) this(1-4) same(1) this(5)] obtain rows2 c2 where
    i: "fetchRows E (length rws2 + length (afterRows t k)) dest (rows', st, c')
      = Some (map Inr rws2 @ afterRows t k, (rows2, st, c2))"
    "rw_readDone rows2 = ended t" "receives c2 rest" "same_session c' c2"
    "cn_written c2 = cn_written c' @ map (moreMessage c' caps) [0..<length later]" by auto
  have m: "moreMessage c' caps j = moreMessage c caps (Suc j)" for j
    by (rule moreMessage_Suc [OF f(9,6,7)])
  have "cn_written c2 = cn_written c @ map (moreMessage c caps) [0..<length (pg # later)]"
    using i(5) f(5) by (simp add: m map_Suc_upt [symmetric] upt_conv_Cons comp_def del: upt_Suc)
  then show ?case
    using fetchRows_add [OF p(1) i(1) [folded eq]] i(2,3) same_session_trans [OF f(9) i(4)] rws(1)
    by (intro exI [of _ rows2] exI [of _ c2]) (simp add: add.assoc)
qed

text \<open>An error parcel is one of those that are passed over; only the first message of a result is searched for one.\<close>

lemma passes_error:
  "f \<in> {flavorError, flavorFailure} \<Longrightarrow> length n = 2 \<Longrightarrow> length i = 2 \<Longrightarrow> length e = 2 \<Longrightarrow> length k = 2 \<Longrightarrow>
     length m = unat (u16_of k) \<Longrightarrow> uint (u16_of k) < 65524 \<Longrightarrow> passes oid (False, f, n @ i @ e @ k @ m)"
  by (auto simp: passes_def chunk_len.simps responseParcelFactory_def map_fst_def error_fromBuffer_def rd_u16_bytes
      rd_bytes_rdr asciiString_def chunk_image_def simp del: chunk_hdr.simps)

text \<open>A row is read from one record: a second one goes on behind the last element of \<open>dest\<close>, and panics.\<close>

lemma second_record_fails:
  "metas \<noteq> [] \<Longrightarrow> processRow metas r dest (int (length dest)) \<noteq> Some (Inr i, r', dest')"
  by (cases metas) (auto simp: processRow_def bind_eq_Some_conv index_def split: sum.splits)

section \<open>An example\<close>

text \<open>One CLOB column. The first message: a Success parcel, and a row with its CLOB in two pieces and an unknown parcel
  between them. The second: a null in one record, an EndStatement parcel, the end.\<close>

lemma passes_success:
  "length n = 2 \<Longrightarrow> length c = 4 \<Longrightarrow> length w = 2 \<Longrightarrow> length f = 2 \<Longrightarrow> length t = 2 \<Longrightarrow>
     passes oid (False, flavorSuccess, n @ c @ w @ f @ t)"
  by (simp add: passes_def chunk_len.simps responseParcelFactory_def map_fst_def success_fromBuffer_def rd_u16_bytes
      rd_u32_bytes chunk_image_def del: chunk_hdr.simps)

lemma passes_endStatement: "length n = 2 \<Longrightarrow> passes oid (False, flavorEndStatement, n)"
  by (simp add: passes_def chunk_len.simps responseParcelFactory_def map_fst_def endStatement_fromBuffer_def rd_u16_bytes
      chunk_image_def del: chunk_hdr.simps)

lemma passes_unknown: "length b < 60000 \<Longrightarrow> passes oid (False, 999, b)"
  by (simp add: passes_def chunk_len.simps responseParcelFactory_def)

definition demo_clobColumn :: "metaFull list" where "demo_clobColumn = [demo_meta 425 0 0 0]"

definition demo_locator :: "byte list" where "demo_locator = [0] @ be_enc 2 (unat (10 :: u16)) @ be_enc 8 (unat (3 :: u64)) @ [9, 9]"

definition demo_handle :: terataBaseLob where
  "demo_handle = newLob 425 3 (be_enc 8 (unat (3 :: u64)) @ [9, 9]) True"

lemma clob_type: "getTdBasicType 425 = 424" "m_dataType (demo_meta 425 0 0 0) = 425"
  by code_simp+

lemma demo_locator_decodes: "decodes demo_clobColumn demo_locator [V_clob demo_handle]"
  unfolding decodes_def
proof (intro allI impI)
  fix pre suf :: "byte list" and l and dest :: "gvalue list" assume "length dest = length demo_clobColumn"
  then obtain d where d: "dest = [d]" by (auto simp: demo_clobColumn_def length_Suc_conv)
  let ?n = "be_enc 8 (unat (3 :: u64)) @ [9, 9]" and ?pre = "(pre @ [0]) @ be_enc 2 (unat (10 :: u16))"
  have b: "rd_bytes 1 (rdr pre ([0] @ be_enc 2 (unat (10 :: u16)) @ ?n @ suf) l)
      = Some ([0], rdr (pre @ [0]) (be_enc 2 (unat (10 :: u16)) @ ?n @ suf) l)"
    by (rule rd_bytes_rdr) simp
  have u: "rd_u16 (rdr (pre @ [0]) (be_enc 2 (unat (10 :: u16)) @ ?n @ suf) l) = Some (10, rdr ?pre (?n @ suf) l)"
    by (rule rd_u16_rdr)
  have q: "rd_u64 (rdr ?pre (?n @ suf) l) = Some (3, rdr (?pre @ be_enc 8 (unat (3 :: u64))) ([9, 9] @ suf) l)"
    using rd_u64_rdr [of ?pre 3 "[9, 9] @ suf" l] by simp
  have s: "rd_seek (int (length ?pre)) (rdr (?pre @ be_enc 8 (unat (3 :: u64))) ([9, 9] @ suf) l) = rdr ?pre (?n @ suf) l"
    by (simp add: rd_seek_def rdr_def)
  have y: "rd_bytes 10 (rdr ?pre (?n @ suf) l) = Some (?n, rdr (?pre @ ?n) suf l)"
    by (rule rd_bytes_rdr) simp
  have loc: "readLocator (demo_meta 425 0 0 0) False (rdr (pre @ [0]) (be_enc 2 (unat (10 :: u16)) @ ?n @ suf) l)
      = Some (Inr (V_clob demo_handle), rdr (?pre @ ?n) suf l)"
    unfolding readLocator_def u
    using q s y by (simp add: clob_type newTeradataClob_def demo_handle_def unless_null_def Let_def)
  have n: "isNull [0] 0 = Some False" by code_simp
  show "\<exists>r. processRow demo_clobColumn (rdr pre (demo_locator @ suf) l) dest 0
      = Some (Inr (int (length demo_clobColumn)), r, [V_clob demo_handle])
    \<and> r_buff r = pre @ demo_locator @ suf \<and> r_len r = l"
    using b loc n
    by (simp add: processRow_def demo_clobColumn_def demo_locator_def produceColumnValue_def clob_type d index_def)
qed

lemma demo_null_decodes: "decodes demo_clobColumn [0x80, 0, 0] [V_nil]"
  unfolding decodes_def
proof (intro allI impI)
  fix pre suf :: "byte list" and l and dest :: "gvalue list" assume "length dest = length demo_clobColumn"
  then obtain d where d: "dest = [d]" by (auto simp: demo_clobColumn_def length_Suc_conv)
  have b: "rd_bytes 1 (rdr pre ([0x80] @ [0, 0] @ suf) l) = Some ([0x80], rdr (pre @ [0x80]) ([0, 0] @ suf) l)"
    by (rule rd_bytes_rdr) simp
  have u: "rd_u16 (rdr (pre @ [0x80]) ([0, 0] @ suf) l) = Some (0, rdr ((pre @ [0x80]) @ [0, 0]) suf l)"
    using rd_u16_bytes [of "[0, 0]" "pre @ [0x80]" suf l] by (simp add: u16_of_def be_val_def)
  have n: "isNull [0x80] 0 = Some True" by code_simp
  show "\<exists>r. processRow demo_clobColumn (rdr pre ([0x80, 0, 0] @ suf) l) dest 0
      = Some (Inr (int (length demo_clobColumn)), r, [V_nil])
    \<and> r_buff r = pre @ [0x80, 0, 0] @ suf \<and> r_len r = l"
    using b u n
    by (simp add: processRow_def demo_clobColumn_def produceColumnValue_def clob_type d index_def readLocator_def)
qed

definition demo_events :: "rowEvent list" where
  "demo_events = [LobStart False 1 [], LobPiece False (replicate 8 0) [97, 98], Passed (False, 999, [1]),
     LobPiece True (replicate 8 0) [99], LobEnd False []]"

definition demo_groups :: "rowGroup list" where
  "demo_groups = [([(False, flavorSuccess, replicate 2 0 @ replicate 4 0 @ replicate 2 0 @ replicate 2 0 @ replicate 2 0)],
     (True, demo_locator), Some (demo_events, False, []))]"

definition demo_later :: "page list" where
  "demo_later = [(zeroLanHeader, [([], (False, [0x80, 0, 0]), None)])]"

definition demo_end :: rowTail where "demo_end = Ended [(False, flavorEndStatement, [0, 1])] False [] []"

definition demo_stop :: rowTail where "demo_stop = Broken [(False, flavorEndStatement, [0, 1])] None"

definition demo_before :: "chunk list \<Rightarrow> tdRowData" where
  "demo_before cs = demo_rows\<lparr>rw_columnMeta := demo_clobColumn,
     rw_reader := rdr [9] (chunks_image cs) (1 + int (length (chunks_image cs)))\<rparr>"

definition demo_fetch :: teradataConnection where
  "demo_fetch = demo_tx\<lparr>cn_script := [(laterBytes demo_end False demo_later, None)],
     cn_config := (cn_config demo_tx)\<lparr>cfg_LOBPrefetch := True\<rparr>\<rparr>"

lemma demo_before_at: "at (demo_before cs) cs"
  by (auto simp: at_def demo_before_def intro!: exI [of _ "[9]"])

lemma demo_events_effect:
  "\<exists>h. eventsEffect demo_events ([V_clob demo_handle], -1) = Some ([V_clob h], -1) \<and> settled (V_clob h) = Some (V_string ''abc'')"
proof -
  let ?done = "demo_handle\<lparr>lb_data := Some [97, 98, 99], lb_started := True, lb_dataIndex := 3, lb_done := True,
    lb_conn := False\<rparr>"
  let ?started = "demo_handle\<lparr>lb_data := Some [0, 0, 0], lb_started := True\<rparr>"
  let ?two = "demo_handle\<lparr>lb_data := Some [97, 98, 0], lb_started := True, lb_dataIndex := 2\<rparr>"
  let ?all = "demo_handle\<lparr>lb_data := Some [97, 98, 99], lb_started := True, lb_dataIndex := 3\<rparr>"
  have "replicate 3 (0 :: byte) = [0, 0, 0]" by (simp add: numeral_3_eq_3)
  then have "lob_start demo_handle = Some (None, ?started)"
    by (simp add: lob_start_def makeBytes_def demo_handle_def newLob_def)
  moreover have "lob_append [97, 98] ?started = Some (None, ?two)"
    by (simp add: lob_append_def lob_bytes_def slice_def demo_handle_def newLob_def)
  moreover have "lob_append [99] ?two = Some (None, ?all)"
    by (simp add: lob_append_def lob_bytes_def slice_def demo_handle_def newLob_def)
  moreover have "lob_complete ?all = (None, ?done)" by (simp add: lob_complete_def)
  ultimately have
    "eventEffect (LobStart False 1 []) ([V_clob demo_handle], -1) = Some ([V_clob ?started], 0)"
    "eventEffect (LobPiece False (replicate 8 0) [97, 98]) ([V_clob ?started], 0) = Some ([V_clob ?two], 0)"
    "eventEffect (LobPiece True (replicate 8 0) [99]) ([V_clob ?two], 0) = Some ([V_clob ?all], 0)"
    "eventEffect (LobEnd False []) ([V_clob ?all], 0) = Some ([V_clob ?done], -1)"
    unfolding eventEffect.simps on_lob_def by (simp_all add: index_def)
  then have "eventsEffect demo_events ([V_clob demo_handle], -1) = Some ([V_clob ?done], -1)"
    unfolding demo_events_def eventsEffect.simps by (simp only: eventEffect.simps(1) bind.bind_lunit)
  moreover have abc: "bytes_str [97, 98, 99] = ''abc''" by code_simp
  moreover have "settled (V_clob ?done) = Some (V_string ''abc'')"
    using abc by (simp add: lob_bytes_def)
  ultimately show ?thesis by blast
qed

lemma demo_locator_length: "length demo_locator = 13"
  by (simp add: demo_locator_def)

lemma demo_groups_ok: "list_all (group_ok oid) demo_groups"
  by (simp add: demo_groups_def demo_events_def passes_success passes_unknown chunk_len.simps demo_locator_length)

lemma demo_groups_row: "list_all2 (groupRow True demo_clobColumn) demo_groups [[V_string ''abc'']]"
proof -
  obtain h where h: "eventsEffect demo_events ([V_clob demo_handle], -1) = Some ([V_clob h], -1)"
    "settled (V_clob h) = Some (V_string ''abc'')" using demo_events_effect by blast
  show ?thesis
    unfolding demo_groups_def
    by (simp del: settled.simps add: h(2))
      (rule exI [of _ "[V_clob demo_handle]"], rule conjI [OF demo_locator_decodes], rule exI [of _ "[V_clob h]"],
        simp add: h del: settled.simps)
qed

section \<open>Properties\<close>

text \<open>C3: A result set is the list of its rows, whatever messages and parcels they come in. A row is one \<open>Record\<close> parcel, or
  a \<open>MultiPartRecord\<close>, then the pieces of its LOBs, then \<open>MultiPartEnd\<close>; any of the parcels may have a long
  header; before a row, and between its parcels, there may be parcels that are not about rows (\<open>Success\<close>,
  \<open>EndStatement\<close>, unknown ones; error parcels too are passed over). The session is in the clear, with or without TLS,
  and the network delivers without errors. Every message but the last ends behind a row. Then successive
  calls of \<open>Next\<close> return exactly these rows, with the LOB data put in, in the order sent. Each message after the first is
  asked for by one continue message, when and only when the rows before it are used up; nothing else is written or read.
  Behind the last row there are two ends. If the last message goes on, after parcels that are not about rows, with the
  end of the request, then every further call returns \<open>io.EOF\<close>, whatever is behind it. If it stops behind a
  parcel that completes no row, the next call returns \<open>ErrInvalidRead\<close>, and the result is not marked as read to its
  end. Without LOB prefetch a LOB is the handle as the parcels leave it; with it, a LOB that came whole is its content.\<close>

theorem rows_in_order:
  assumes "at rows (pageChunks t groups later)" "list_all (group_ok (v_oidString E)) groups" "pages_ok (v_oidString E) t later"
    "tail_ok (v_oidString E) (rw_columnMeta rows) t"
    "list_all2 (groupRow (cfg_LOBPrefetch (cn_config c)) (rw_columnMeta rows)) (groups @ concat (map snd later)) rws"
    "length dest = length (rw_columnMeta rows)" "\<not> rw_readDone rows" "in_clear c caps"
    "receives c (laterBytes t (cn_isTlsConn c) later @ rest)"
  shows "\<exists>rows' c'. fetchRows E (length rws + length (afterRows t k)) dest (rows, st, c)
      = Some (map Inr rws @ afterRows t k, (rows', st, c'))
    \<and> rw_readDone rows' = ended t \<and> receives c' rest \<and> same_session c c'
    \<and> cn_written c' = cn_written c @ map (moreMessage c caps) [0..<length later]"
  by (rule all_rows [OF assms])

theorem rows_in_order_witness:
  "(\<exists>rows' c'. fetchRows demo_env 3 [V_nil] (demo_before (pageChunks demo_end demo_groups demo_later), demo_stmt, demo_fetch)
      = Some ([Inr [V_string ''abc''], Inr [V_nil], Inl EOF], (rows', demo_stmt, c'))
    \<and> cn_written c' = [moreMessage demo_fetch demo_caps 0])
  \<and> (\<exists>rows' c'. fetchRows demo_env 1 [V_nil] (demo_before (pageChunks demo_stop [] []), demo_stmt, demo_fetch)
      = Some ([Inl ErrInvalidRead], (rows', demo_stmt, c')))"
proof -
  have c: "in_clear demo_fetch demo_caps" "cn_written demo_fetch = []" "cfg_LOBPrefetch (cn_config demo_fetch)"
    "cn_isTlsConn demo_fetch = False"
    by (simp_all add: in_clear_def usable_def encrypts_def demo_fetch_def demo_tx_def demo_conn_def) (code_simp)?
  have b: "rw_columnMeta (demo_before cs) = demo_clobColumn" "\<not> rw_readDone (demo_before cs)"
    "length [V_nil] = length (rw_columnMeta (demo_before cs))" for cs
    by (simp_all add: demo_before_def demo_rows_def demo_clobColumn_def)
  have r: "receives demo_fetch (laterBytes demo_end (cn_isTlsConn demo_fetch) demo_later @ [])"
    by (simp add: receives_def healthy_def incoming_def script_bytes_def demo_fetch_def demo_tx_def demo_conn_def
        newReadBuffer_def)
  have h: "plain_header zeroLanHeader" by (simp add: plain_header_def wf_lanHeader_def zeroLanHeader_def)
  have pg: "pages_ok oid demo_end demo_later" for oid
    using h by (simp add: demo_later_def demo_end_def pageChunks_def chunk_len.simps chunks_image_def chunk_image_def)
  have t: "tail_ok oid metas demo_end" "tail_ok oid metas demo_stop" "ended demo_end" "\<not> ended demo_stop" for oid metas
    by (simp_all add: demo_end_def demo_stop_def passes_endStatement chunk_len.simps)
  have "groupRow True demo_clobColumn ([], (False, [0x80, 0, 0]), None) [V_nil]" using demo_null_decodes by auto
  then have rows: "list_all2 (groupRow (cfg_LOBPrefetch (cn_config demo_fetch))
      (rw_columnMeta (demo_before (pageChunks demo_end demo_groups demo_later))))
      (demo_groups @ concat (map snd demo_later)) [[V_string ''abc''], [V_nil]]"
    using list_all2_appendI [OF demo_groups_row, of "concat (map snd demo_later)" "[[V_nil]]"] c(3)
    by (simp add: b demo_later_def)
  have "\<exists>rows' c'. fetchRows demo_env 3 [V_nil] (demo_before (pageChunks demo_end demo_groups demo_later), demo_stmt, demo_fetch)
      = Some ([Inr [V_string ''abc''], Inr [V_nil], Inl EOF], (rows', demo_stmt, c'))
    \<and> cn_written c' = [moreMessage demo_fetch demo_caps 0]"
    using rows_in_order [where E = demo_env and k = 0 and st = demo_stmt,
        OF demo_before_at demo_groups_ok pg t(1) rows b(3,2) c(1) r] c(2)
    by (auto simp: afterRows_def t(3) demo_later_def numeral_3_eq_3)
  moreover have r0: "receives demo_fetch (laterBytes demo_stop (cn_isTlsConn demo_fetch) [] @ laterBytes demo_end False demo_later)"
    using r c(4) by simp
  moreover have "\<exists>rows' c'. fetchRows demo_env 1 [V_nil] (demo_before (pageChunks demo_stop [] []), demo_stmt, demo_fetch)
      = Some ([Inl ErrInvalidRead], (rows', demo_stmt, c'))"
    using rows_in_order [where E = demo_env and k = 0 and st = demo_stmt and rws = "[]",
        OF demo_before_at _ _ t(2) _ b(3,2) c(1) r0]
    by (auto simp: afterRows_def t(4) One_nat_def)
  ultimately show ?thesis by blast
qed

end
