(* ===== verification/Api.thy ===== *)
theory Api
  imports RowSet
begin

text \<open>
  The calls that \<open>database/sql\<close> makes on a connection, a statement of it and the rows of that statement, as one
  state machine: what holds of every sequence of them.
\<close>

datatype driverCall =
    CallPrepare string
  | CallExecUpdate string | CallExecQuery string
  | CallBegin | CallCommit | CallRollback
  | CallPing | CallResetSession | CallClose
  | CallStmtExec goContext "namedValue list"
  | CallStmtQuery goContext "namedValue list"
  | CallStmtClose
  | CallNext "gvalue list"
  | CallRowsClose
  | CallGetBytes "nat \<Rightarrow> goContext" terataBaseLob
  | CallGetString "nat \<Rightarrow> goContext" terataBaseLob

type_synonym session = "tdRowData \<times> teradataStatement \<times> teradataConnection"

text \<open>A result that is kept in the session: the prepared statement, the rows of a query.\<close>

definition keep :: "('s, 'a) comp \<Rightarrow> ('a \<Rightarrow> 's \<Rightarrow> 's) \<Rightarrow> ('s, unit) comp" where
  "keep m f = bnd m (\<lambda>x. modify (f x))"

definition forget :: "('s, 'a) comp \<Rightarrow> ('s, unit) comp" where "forget m = bnd m (\<lambda>_. ret ())"

fun call :: "(u64 \<Rightarrow> string) \<Rightarrow> env \<Rightarrow> driverCall \<Rightarrow> (session, unit) comp" where
  "call fmt E (CallPrepare q) = keep (zoom (zoom (prepare E q))) (\<lambda>stmt (rows, _, c). (rows, stmt, c))"
| "call fmt E (CallExecUpdate q) = forget (zoom (zoom (execSessionUpdate E q)))"
| "call fmt E (CallExecQuery q) = forget (zoom (zoom (execSessionQuery E q)))"
| "call fmt E CallBegin = zoom (zoom (Begin E))"
| "call fmt E CallCommit = zoom (zoom (Commit E))"
| "call fmt E CallRollback = zoom (zoom (Rollback E))"
| "call fmt E CallPing = zoom (zoom (Ping E))"
| "call fmt E CallResetSession = zoom (zoom ResetSession)"
| "call fmt E CallClose = zoom (zoom (Close E))"
| "call fmt E (CallStmtExec ctx args) = forget (zoom (ExecContext fmt E ctx args))"
| "call fmt E (CallStmtQuery ctx args) =
     keep (zoom (QueryContext fmt E ctx args)) (\<lambda>rows (_, stmt, c). (rows, stmt, c))"
| "call fmt E CallStmtClose = zoom (stmt_Close E)"
| "call fmt E (CallNext dest) = forget (Next E dest)"
| "call fmt E CallRowsClose = rows_Close E"
| "call fmt E (CallGetBytes ctxs l) = forget (zoom (zoom (with_object l (GetBytesContext E ctxs))))"
| "call fmt E (CallGetString ctxs l) = forget (zoom (zoom (with_object l (GetStringContext E ctxs))))"

text \<open>A sequence of calls, whatever each of them returns.\<close>

fun calls :: "(u64 \<Rightarrow> string) \<Rightarrow> env \<Rightarrow> driverCall list \<Rightarrow> session \<Rightarrow> session option" where
  "calls fmt E [] s = Some s"
| "calls fmt E (x # xs) s = do { (_, s) \<leftarrow> call fmt E x s; calls fmt E xs s }"

abbreviation conn_of :: "session \<Rightarrow> teradataConnection" where "conn_of \<equiv> \<lambda>s. snd (snd s)"

lemma quiet_keep [quiet_intros]:
  "quiet_in g m \<Longrightarrow> (\<And>x s. g (f x s) = g s) \<Longrightarrow> quiet_in g (keep m f)"
  unfolding keep_def by (intro quiet_intros) (simp_all add: quiet_in_def modify_def)

lemma quiet_forget [quiet_intros]: "quiet_in g m \<Longrightarrow> quiet_in g (forget m)"
  unfolding forget_def by (intro quiet_intros)

lemma quiet_ResetSession [quiet_intros]: "quiet ResetSession"
  by (simp add: quiet_def ResetSession_def fail_def ret_def)

lemma quiet_zoom2 [quiet_intros]: "quiet m \<Longrightarrow> quiet_in conn_of (zoom (zoom m))"
  by (rule quiet_zoom) (rule quiet_zoom)

lemma quiet_call: "quiet_in conn_of (call fmt E x)"
proof (cases x)
  case (CallGetBytes ctxs l)
  have "quiet (with_object l (GetBytesContext E ctxs))" by (rule quiet_with_object) (intro quiet_intros)
  then show ?thesis by (simp add: CallGetBytes) (intro quiet_intros)
next
  case (CallGetString ctxs l)
  have "quiet (with_object l (GetStringContext E ctxs))" by (rule quiet_with_object) (intro quiet_intros)
  then show ?thesis by (simp add: CallGetString) (intro quiet_intros)
qed (auto intro!: quiet_intros)

lemma calls_silent:
  "\<not> usable (conn_of s) \<Longrightarrow> calls fmt E xs s = Some s' \<Longrightarrow>
     \<not> usable (conn_of s') \<and> cn_written (conn_of s') = cn_written (conn_of s)"
proof (induction xs arbitrary: s)
  case Nil
  then show ?case by simp
next
  case (Cons x xs)
  obtain r s1 where x: "call fmt E x s = Some (r, s1)" "calls fmt E xs s1 = Some s'"
    using Cons.prems(2) by (auto elim!: bind_SomeE)
  have q: "\<not> usable (conn_of s1) \<and> cn_written (conn_of s1) = cn_written (conn_of s)"
    using quietD [OF quiet_call Cons.prems(1) x(1)] by simp
  then show ?case using Cons.IH [OF _ x(2)] by simp
qed

text \<open>C8: a connection that is closed or was marked bad stays that way and stays silent: no sequence of calls
  on it, on its statements, rows or LOBs, whatever each returned, makes it usable again or writes a byte to
  the server.\<close>
theorem unusable_forever_silent:
  assumes "\<not> usable (conn_of s)" "calls fmt E xs s = Some s'"
  shows "\<not> usable (conn_of s') \<and> cn_written (conn_of s') = cn_written (conn_of s)"
  by (rule calls_silent [OF assms])

definition demo_bad :: session where
  "demo_bad = (demo_rows\<lparr>rw_readDone := True\<rparr>, demo_stmt, demo_tx\<lparr>cn_bad := True, cn_written := [[1, 2]]\<rparr>)"

definition demo_calls :: "driverCall list" where
  "demo_calls = [CallBegin, CallExecQuery ''SELECT 1'', CallNext [V_nil], CallStmtClose, CallCommit, CallClose]"

theorem unusable_forever_silent_witness:
  "\<exists>s'. calls (\<lambda>_. []) demo_env demo_calls demo_bad = Some s' \<and> cn_written (conn_of s') = [[1, 2]]"
proof -
  have u: "\<not> usable (conn_of demo_bad)" "cn_written (conn_of demo_bad) = [[1, 2]]"
    by (simp_all add: demo_bad_def usable_def)
  have "calls (\<lambda>_. []) demo_env demo_calls demo_bad \<noteq> None"
    by (simp add: demo_calls_def demo_bad_def forget_def zoom_def bnd_def gets_def ret_def fail_def modify_def
        Begin_def execSessionQuery_def check_open_def sendRequest_def header_defs nextRequestNumber_def
        nextAuthNonce_def withNonce_def capabilities_def writeLanMessage_def usable_def Next_def demo_rows_def
        stmt_Close_def demo_stmt_def Commit_def commitLoop.simps execSessionSQL_def check_usable_def Close_def
        closeSocket_def demo_tx_def demo_conn_def Let_def)
  then obtain s' where "calls (\<lambda>_. []) demo_env demo_calls demo_bad = Some s'" by blast
  with unusable_forever_silent [OF u(1) this] u(2) show ?thesis by auto
qed

end
