(* ===== verification/Auth.thy ===== *)
theory Auth
  imports Session
begin

text \<open>
  Establishing a session, src/auth.go, src/auth_td2.go, src/auth_td2tls.go and src/connection.go: what the driver
  says of its client, the configuration exchange, the choice of a security mechanism, the key exchange of TD2,
  and the logon.
\<close>

section \<open>The client\<close>

text \<open>What the operating system and the Go runtime report; \<open>None\<close> is an error of the call. \<open>sy_local\<close> is the
  host and port that \<open>net.SplitHostPort\<close> finds in the local address.\<close>

record sysInfo =
  sy_hostname :: "string option"
  sy_username :: "string option"
  sy_executable :: "string option"
  sy_arg0 :: string
  sy_goVersion :: string
  sy_goos :: string
  sy_goarch :: string
  sy_pid :: int
  sy_tzOffset :: int
  sy_mem :: int
  sy_local :: "(string \<times> string) option"
  sy_pointer :: string

definition orElse :: "'a \<Rightarrow> 'a option \<Rightarrow> 'a" where "orElse d x = (case x of Some v \<Rightarrow> v | None \<Rightarrow> d)"

definition driverVersionText :: string where "driverVersionText = ''GoTeradatasql0.0.1''"

definition newLogonDataParcel :: "sysInfo \<Rightarrow> string \<Rightarrow> int \<Rightarrow> string \<Rightarrow> string \<Rightarrow> parcel option" where
  "newLogonDataParcel sys remoteHost remotePort lssType connectionId = do {
     username \<leftarrow> (case sy_username sys of None \<Rightarrow> Some ''unknown'' | Some u \<Rightarrow> truncateString u 20);
     driverInfo \<leftarrow> truncateString (''Go'' @ lssType @ driverVersionText @ '';'' @ sy_goVersion sys) 26;
     let logonData = '' CID='' @ connectionId @ '' '' @ username @ '' '' @ driverInfo @ '' 01 LSS'';
     let remain = 97 - int (length (str_bytes logonData));
     let hostname = orElse ''localhost'' (sy_hostname sys);
     host \<leftarrow> truncateString (hostname @ '';/'' @ remoteHost @ '':'' @ int_str remotePort) remain;
     Some (LogonDataParcel (host @ logonData)) }"

definition appendClientAttrString :: "byte list \<Rightarrow> u16 \<Rightarrow> string \<Rightarrow> byte list" where
  "appendClientAttrString buf tag val =
     (if val = [] then buf
      else let v = str_bytes val
           in buf @ be_enc 2 (unat tag) @ be_enc 2 (unat (word_of_nat (1 + length v) :: u16)) @ [0xFF] @ v)"

definition appendClientAttrU16 :: "byte list \<Rightarrow> u16 \<Rightarrow> u16 \<Rightarrow> byte list" where
  "appendClientAttrU16 buf tag val = buf @ be_enc 2 (unat tag) @ [0, 2] @ be_enc 2 (unat val)"

definition appendClientAttrEnd :: "byte list \<Rightarrow> u16 \<Rightarrow> byte list" where
  "appendClientAttrEnd buf tag = buf @ be_enc 2 (unat tag) @ [0, 0]"

definition appendClientAttrByte :: "byte list \<Rightarrow> u16 \<Rightarrow> byte \<Rightarrow> byte list" where
  "appendClientAttrByte buf tag val = buf @ be_enc 2 (unat tag) @ [0, 1] @ [val]"

definition localAddrOrEmpty :: "sysInfo \<Rightarrow> string" where
  "localAddrOrEmpty sys = (case sy_local sys of None \<Rightarrow> [] | Some (host, _) \<Rightarrow> host)"

definition localPortOrZero :: "sysInfo \<Rightarrow> int" where
  "localPortOrZero sys = (case sy_local sys of None \<Rightarrow> 0
     | Some (_, port) \<Rightarrow> (case atoi port of Some p \<Rightarrow> p | None \<Rightarrow> 0))"

text \<open>The offset of the time zone as text.\<close>

definition tzText :: "int \<Rightarrow> string" where
  "tzText offset =
     (let sign = (if offset < 0 then ''-'' else ''+''); off = (if offset < 0 then - offset else offset)
      in sign @ zeroPad 2 (quo off 3600) @ '':'' @ zeroPad 2 (quo (rem off 3600) 60))"

definition clientAttributesEx :: "sysInfo \<Rightarrow> teradataConnection \<Rightarrow> string" where
  "clientAttributesEx sys con =
     (let yesNo = (\<lambda>b. if b then ''Y'' else ''N'');
          lob = (case cn_capabilities con of None \<Rightarrow> False | Some k \<Rightarrow> cap_lobSupport k);
          si = (case cn_capabilities con of None \<Rightarrow> False | Some k \<Rightarrow> cap_statementInfoSupport k \<ge> 1)
      in ''BA=N;CCS=ASCII;CERT=U;CF=0;CID='' @ cn_connectionID con @ '';CRC=DEFAULT;CRL=Y;DP=''
         @ int_str (cn_remotePort con) @ '';ENC=N;ES='' @ int_str (uint (cn_sessionNo con))
         @ '';FIPS=N;GOV=N;HP=443;HR=0,0;GO='' @ sy_goVersion sys @ '';LM=TD2;LOB='' @ yesNo lob
         @ '';MEM='' @ int_str (sy_mem sys) @ '';OA=0;OCSP=Y;OP=N;OSL=3;OSM=DEFAULT;PART=DBC/SQL;RED=0,0;SC=1,0;''
         @ ''SCS=ASCII;SE=N;SIP='' @ yesNo si @ '';SSL=0;SSLM=DEFAULT;SSLP=DEFAULT;TM=T;TVD=plain;TYPE=DEFAULT;TZ=''
         @ tzText (sy_tzOffset sys) @ '';'')"

definition newClientAttributesParcel :: "sysInfo \<Rightarrow> teradataConnection \<Rightarrow> parcel" where
  "newClientAttributesParcel sys con =
     (let unitySupported = (case cn_capabilities con of None \<Rightarrow> False
                            | Some k \<Rightarrow> cap_unityClientAttributesSupport k \<ge> 1);
          hostname = orElse ''localhost'' (sy_hostname sys);
          progName = (case sy_executable sys of None \<Rightarrow> sy_arg0 sys
                      | Some p \<Rightarrow> if p = [] then sy_arg0 sys else p);
          hostAttr = (if \<not> unitySupported
                      then hostname @ '';'' @ cn_remoteHost con @ '':'' @ int_str (cn_remotePort con)
                      else hostname);
          buf = appendClientAttrString [] 7 hostAttr;
          buf = appendClientAttrString buf 8 (int_str (sy_pid sys));
          buf = appendClientAttrString buf 9 (orElse ''unknown'' (sy_username sys));
          buf = appendClientAttrString buf 10 progName;
          buf = appendClientAttrString buf 11 (sy_goos sys @ '' '' @ sy_goarch sys);
          buf = appendClientAttrString buf 22 (''Go '' @ sy_goVersion sys);
          buf = appendClientAttrString buf 16 ''unavailable'';
          buf = appendClientAttrString buf 25 ''C=N;'';
          buf = appendClientAttrString buf 28 ''G'';
          buf = appendClientAttrString buf 29 driverVersionText;
          buf = appendClientAttrString buf 30 (clientAttributesEx sys con);
          buf = (if unitySupported then
                   (let buf = appendClientAttrString buf 31 (localAddrOrEmpty sys);
                        buf = appendClientAttrU16 buf 32 (word_of_int (localPortOrZero sys));
                        buf = appendClientAttrString buf 33 (cn_remoteHost con)
                    in appendClientAttrU16 buf 34 (word_of_int (cn_remotePort con)))
                 else buf);
          buf = appendClientAttrByte buf 58
                  (of_char (getClientConfidentialityType (cn_config con) (cn_isTlsConn con)))
      in ClientAttributesParcel (appendClientAttrEnd buf 32767))"

section \<open>Logon\<close>

definition setMode :: "transactionMode \<Rightarrow> unit act" where
  "setMode m = modify (\<lambda>c. c\<lparr>cn_transactionMode := m\<rparr>)"

text \<open>The parcels added to those of the caller: \<open>support\<close> is the server's support of client attributes.\<close>

definition identityParcels :: "sysInfo \<Rightarrow> byte \<Rightarrow> teradataConnection \<Rightarrow> parcel list option" where
  "identityParcels sys support c = do {
     logon \<leftarrow> (if support \<le> 1
               then map_option (\<lambda>p. [p])
                      (newLogonDataParcel sys (cn_remoteHost c) (cn_remotePort c) [] (cn_connectionID c))
               else Some []);
     Some (logon @ (if support \<ge> 1 then [newClientAttributesParcel sys c] else [])) }"

definition baseAuthenticate :: "env \<Rightarrow> sysInfo \<Rightarrow> parcel list \<Rightarrow> unit act" where
  "baseAuthenticate E sys parcels =
     bnd newLanHeaderConnect (\<lambda>header.
     bnd nextAuthNonce (\<lambda>n.
     bnd (modify (\<lambda>c. if cn_connectionID c = [] then c\<lparr>cn_connectionID := trimPrefix (sy_pointer sys) ''0x''\<rparr> else c)) (\<lambda>_.
     bnd capabilities (\<lambda>caps.
     bnd (gets (identityParcels sys (cap_clientAttributesSupport caps))) (\<lambda>more.
     bnd (pure more) (\<lambda>more.
     bnd (writeLanMessage E (header\<lparr>lh_authNonce := be_enc 8 (unat n)\<rparr>) (parcels @ more)) (\<lambda>_.
     bnd (readLanMessage E) (\<lambda>(respParcels, _).
     bnd (case findParcel as_lsn respParcels of
            Some n \<Rightarrow> modify (\<lambda>c. c\<lparr>cn_logonSequenceNumber := n\<rparr>) | None \<Rightarrow> ret ()) (\<lambda>_.
     if findParcel as_success respParcels \<noteq> None then ret ()
     else if RP_endRequest \<in> set respParcels then ret ()
     else fail ErrInternal)))))))))"

definition authenticate :: "env \<Rightarrow> sysInfo \<Rightarrow> unit act" where
  "authenticate E sys =
     bnd (gets cn_config) (\<lambda>config.
     bnd capabilities (\<lambda>caps.
     bnd (setMode (if cfg_TMode config = ''DEFAULT''
                   then (if cap_defaultTransactionSemantics caps = of_char (CHR ''A'') then ansiMode else teraMode)
                   else if cfg_TMode config = ''ANSI'' then ansiMode else teraMode)) (\<lambda>_.
     baseAuthenticate E sys
       [LogonParcel (cfg_User config) (cfg_Password config), newSessionOptionsParcel config caps,
        newConnectParcel config 0])))"

text \<open>The three logons of a bulk load differ in the parcel that names the partition.\<close>

definition fastLoadAuthenticate :: "env \<Rightarrow> sysInfo \<Rightarrow> parcel \<Rightarrow> unit act" where
  "fastLoadAuthenticate E sys connect =
     bnd (setMode teraMode) (\<lambda>_.
     bnd (gets cn_config) (\<lambda>config.
     bnd capabilities (\<lambda>caps.
     baseAuthenticate E sys
       [LogonParcel (cfg_User config) (cfg_Password config), newFastLoadSessionOptionsParcel caps, connect])))"

definition fastLoadControlAuthenticate :: "env \<Rightarrow> sysInfo \<Rightarrow> unit act" where
  "fastLoadControlAuthenticate E sys = fastLoadAuthenticate E sys newFastLoadControlConnectParcel"

definition fastLoadDiagAuthenticate :: "env \<Rightarrow> sysInfo \<Rightarrow> int \<Rightarrow> unit act" where
  "fastLoadDiagAuthenticate E sys lsn = fastLoadAuthenticate E sys (newFastLoadDiagConnectParcel lsn)"

definition fastLoadDataAuthenticate :: "env \<Rightarrow> sysInfo \<Rightarrow> int \<Rightarrow> unit act" where
  "fastLoadDataAuthenticate E sys lsn = fastLoadAuthenticate E sys (newFastLoadDataConnectParcel lsn)"

section \<open>The configuration exchange\<close>

record authMech =
  mech_isDefault :: bool
  mech_cidBypassSupported :: bool
  mech_rank :: int

text \<open>The loop over the answer: the last configuration, all mechanism flags, the last entry of each mechanism.\<close>

type_synonym serverConfig = "configResponse option \<times> byte \<times> (string \<rightharpoonup> authMech)"

fun collectConfig :: "responseParcel list \<Rightarrow> serverConfig \<Rightarrow> serverConfig" where
  "collectConfig [] s = s"
| "collectConfig (RP_config p # ps) (cnfg, mechs, mm) = collectConfig ps (Some p, mechs, mm)"
| "collectConfig (RP_authMech p # ps) (cnfg, mechs, mm) =
     collectConfig ps (cnfg, mechs OR getAuthMechFlag p,
       mm(am_oid p \<mapsto> \<lparr>mech_isDefault = am_defaultMech p, mech_cidBypassSupported = am_cidBypassSupported p,
                       mech_rank = am_rank p\<rparr>))"
| "collectConfig (_ # ps) s = collectConfig ps s"

definition configHandshake :: "env \<Rightarrow> (configResponse \<times> byte \<times> (string \<rightharpoonup> authMech)) act" where
  "configHandshake E =
     bnd (gets cn_config) (\<lambda>config.
     bnd (writeLanMessage E
            (zeroLanHeader\<lparr>lh_version := 3, lh_kind := lanHeaderTypeCfg, lh_byteVar := 7, lh_hostCharSet := 0xFF\<rparr>)
            [ClientConfigParcel (cfg_redriveLevel config)]) (\<lambda>_.
     bnd (readLanMessage E) (\<lambda>(parcels, _).
     case collectConfig parcels (None, 0, Map.empty) of
       (None, _, _) \<Rightarrow> fail ErrInvalidResponse
     | (Some cnfg, mechs, mm) \<Rightarrow> ret (cnfg, mechs, mm))))"

section \<open>The token exchange\<close>

definition ssoHeader :: "byte \<Rightarrow> lanHeader act" where
  "ssoHeader kind = bnd (gets cn_sessionNo) (\<lambda>s. withNonce (lanHeaderFor kind 7 0 s))"

text \<open>The token that opens the exchange; \<open>suite\<close> is empty for TD2 over TLS, which names no cipher suite.\<close>

definition initToken :: "td2TokenHeader \<Rightarrow> byte list \<Rightarrow> byte list option" where
  "initToken tokenHeader suite = do {
     let n = int (length suite);
     w \<leftarrow> tokenHeader_encode tokenHeader (64 + n)
            (newBufferWriter (replicate (80 + length suite + length td2Trailer) 0));
     w \<leftarrow> wr_bytes tdGssVersion (wr_setPosition 16 w);
     w \<leftarrow> (if suite = [] then Some w else wr_u32 (word_of_int n) (wr_setPosition 36 w));
     w \<leftarrow> (if suite = [] then Some (wr_setPosition 80 w) else wr_bytes suite (wr_setPosition 80 w));
     w \<leftarrow> wr_bytes td2Trailer w;
     Some (w_buff w) }"

definition openExchange :: "env \<Rightarrow> td2TokenHeader \<Rightarrow> byte list \<Rightarrow> ssoResponse act" where
  "openExchange E tokenHeader suite =
     bnd (ssoHeader lanHeaderTypeAssign) (\<lambda>header.
     bnd (pure (initToken tokenHeader suite)) (\<lambda>authData.
     bnd (gets cn_config) (\<lambda>config.
     bnd (writeLanMessage E header [SsoRequestParcel 0 0 authData, newAssignParcel (cfg_User config)]) (\<lambda>_.
     bnd (readLanMessage E) (\<lambda>(parcels, respHeader).
     bnd (modify (\<lambda>c. c\<lparr>cn_sessionNo := lh_sessionNo respHeader\<rparr>)) (\<lambda>_.
     case findParcel as_sso parcels of None \<Rightarrow> fail ErrInternal | Some ssoResp \<Rightarrow> ret ssoResp))))))"

definition td2_handshake :: "env \<Rightarrow> ssoResponse act" where
  "td2_handshake E = openExchange E
     \<lparr>th_version = 1, th_msgType = 1, th_byteVar = 1, th_clientOrServer = 0, th_capabilities = 0x15, th_flags = 0x02\<rparr>
     td2CipherSuite"

definition td2Tls_handshake :: "env \<Rightarrow> ssoResponse act" where
  "td2Tls_handshake E = openExchange E
     \<lparr>th_version = 1, th_msgType = 1, th_byteVar = 1, th_clientOrServer = 0, th_capabilities = 0x80000000, th_flags = 0x02\<rparr>
     []"

definition td2Tls_establishSecureChannel :: "env \<Rightarrow> unit act" where
  "td2Tls_establishSecureChannel E =
     bnd (td2Tls_handshake E) (\<lambda>ssoResp.
     bnd (pure (td2TokenHeaderFromBuffer (newBufferReader (so_authData ssoResp) 0 (int (length (so_authData ssoResp)))))) (\<lambda>x.
     case x of
       Inl err \<Rightarrow> fail err
     | Inr (tok, _) \<Rightarrow>
         if th_byteVar tok = 1 \<and> (th_msgType tok = 1 \<or> th_msgType tok = 2) then ret ()
         else fail ErrNoSecureChannel))"

section \<open>The key exchange of TD2\<close>

definition clientKeyToken :: "byte list \<Rightarrow> byte list option" where
  "clientKeyToken clientPk = do {
     let msgLen = int (length clientPk);
     w \<leftarrow> tokenHeader_encode
            \<lparr>th_version = 3, th_msgType = 1, th_byteVar = 2, th_clientOrServer = 0, th_capabilities = 0, th_flags = 0x02\<rparr>
            msgLen (newBufferWriter (replicate (length clientPk + nat td2TokenHeaderLen) 0));
     w \<leftarrow> wr_bytes clientPk (wr_setPosition 16 w);
     Some (w_buff w) }"

definition sendClientKey :: "env \<Rightarrow> byte list \<Rightarrow> ssoResponse act" where
  "sendClientKey E clientPk =
     bnd (ssoHeader lanHeaderTypeSSOReq) (\<lambda>header.
     bnd (pure (clientKeyToken clientPk)) (\<lambda>authData.
     bnd (writeLanMessage E header [SsoRequestParcel 0 2 authData]) (\<lambda>_.
     bnd (readLanMessage E) (\<lambda>(parcels, _).
     case findParcel as_sso parcels of None \<Rightarrow> fail ErrInternal | Some ssoResp \<Rightarrow> ret ssoResp))))"

text \<open>
  What the server's token offers: the prime, the generator, the server's public key, and the options when its
  capabilities say so. The reader is read at fixed positions, so every round of the loop reads the same.
\<close>

record keyOffer =
  ko_primeLength :: int
  ko_prime :: nat
  ko_gen :: nat
  ko_serverPk :: nat
  ko_qop :: "td2AlgQop list option"

definition readOffer :: "u32 \<Rightarrow> bufferReader \<Rightarrow> (goerror + keyOffer) option" where
  "readOffer flags r = do {
     primeLength \<leftarrow> u32At r 20;
     genLength \<leftarrow> u32At r 24;
     pubKeyLength \<leftarrow> u32At r 28;
     (prime, r) \<leftarrow> rd_bytes (uint primeLength) (rd_seek 80 r);
     (gen, r) \<leftarrow> rd_bytes (uint genLength) r;
     (pk, r) \<leftarrow> rd_bytes (uint pubKeyLength) r;
     q \<leftarrow> (if flags AND 4 = 4 then do {
             qopLen \<leftarrow> u32At r 36;
             (qopData, r) \<leftarrow> rd_bytes (uint qopLen) r;
             map_option (map_sum id Some) (decodeTd2QOPOptions qopData) }
           else Some (Inr None));
     Some (map_sum id (\<lambda>qop. \<lparr>ko_primeLength = uint primeLength, ko_prime = be_val prime, ko_gen = be_val gen,
             ko_serverPk = be_val pk, ko_qop = qop\<rparr>) q) }"

text \<open>The secret exponent: the first random number above 0 and below the prime less 1. \<open>draws\<close> are the numbers
  the random source yields, each below \<open>2 ^ 512\<close>; \<open>None\<close> is a source with no such number, for which the loop
  does not end.\<close>

fun pickSecret :: "nat \<Rightarrow> nat list \<Rightarrow> (nat \<times> nat list) option" where
  "pickSecret prime [] = None"
| "pickSecret prime (x # draws) =
     (if 0 < x \<and> int x < int prime - 1 then Some (x, draws) else pickSecret prime draws)"

definition on_td2 :: "(td2GssContext \<Rightarrow> td2GssContext) \<Rightarrow> unit act" where
  "on_td2 f = modify (\<lambda>c. case cn_gss c of Some (GssTd2 x) \<Rightarrow> c\<lparr>cn_gss := Some (GssTd2 (f x))\<rparr> | _ \<Rightarrow> c)"

text \<open>One round: the server's options are kept, a secret is drawn, and the client's public key is sent.\<close>

definition keyRound :: "env \<Rightarrow> u32 \<Rightarrow> bufferReader \<Rightarrow> nat list \<Rightarrow> (ssoResponse \<times> nat list) act" where
  "keyRound E flags r draws =
     bnd (pure (readOffer flags r)) (\<lambda>x.
     case x of
       Inl err \<Rightarrow> fail err
     | Inr ko \<Rightarrow>
         bnd (case ko_qop ko of None \<Rightarrow> ret () | Some q \<Rightarrow> on_td2 (\<lambda>c. c\<lparr>c_qopOptions := q\<rparr>)) (\<lambda>_.
         bnd (pure (pickSecret (ko_prime ko) draws)) (\<lambda>(x, draws).
         bnd (pure (normalizeToLen (ko_gen ko ^ x mod ko_prime ko) (ko_primeLength ko))) (\<lambda>clientPk.
         bnd (on_td2 (\<lambda>c. c\<lparr>c_master := Some (ko_serverPk ko ^ x mod ko_prime ko), c_keyLen := ko_primeLength ko\<rparr>)) (\<lambda>_.
         bnd (sendClientKey E clientPk) (\<lambda>ssoResp. ret (ssoResp, draws)))))))"

text \<open>The loop; \<open>attmpt\<close> is tested and never changed.\<close>

partial_function (option) keyLoop ::
  "env \<Rightarrow> int \<Rightarrow> u32 \<Rightarrow> bufferReader \<Rightarrow> nat list \<Rightarrow> teradataConnection
     \<Rightarrow> ((goerror + unit) \<times> teradataConnection) option" where
  "keyLoop E attmpt flags r draws c = do {
     (x, c) \<leftarrow> keyRound E flags r draws c;
     case x of
       Inl err \<Rightarrow> Some (Inl err, c)
     | Inr y \<Rightarrow>
         if so_code (fst y) = 1 then Some (Inr (), c)
         else if attmpt > 5 then Some (Inl ErrNoSecureChannel, c)
         else keyLoop E attmpt flags r (snd y) c }"

definition td2_establishSecureChannel :: "env \<Rightarrow> nat list \<Rightarrow> unit act" where
  "td2_establishSecureChannel E draws =
     bnd (td2_handshake E) (\<lambda>ssoResp.
     let authData = so_authData ssoResp in
     bnd (pure (td2TokenHeaderFromBuffer (newBufferReader authData 0 (int (length authData))))) (\<lambda>x.
     case x of
       Inl err \<Rightarrow> fail err
     | Inr (tok, r) \<Rightarrow>
         if length authData < 36 then fail ErrNoSecureChannel
         else
           bnd (on_td2 (\<lambda>c. c\<lparr>c_targetEndien := (if th_flags tok AND 2 = 2 then 1 else 0)\<rparr>)) (\<lambda>_.
           if th_capabilities tok AND 1 = 1 then keyLoop E 0 (th_capabilities tok) r draws
           else fail ErrNoSecureChannel)))"

section \<open>The handshake\<close>

definition handshake :: "env \<Rightarrow> nat list \<Rightarrow> bool act" where
  "handshake E draws =
     bnd (configHandshake E) (\<lambda>(cnfg, mechs, mm).
     bnd (modify (\<lambda>c. c\<lparr>cn_capabilities := Some (newConnectionCapabilities cnfg)\<rparr>)) (\<lambda>_.
     if mechs AND 1 = 1 then
       let ciBypass = (case mm ''1.3.6.1.4.1.191.1.1012.1.1.9'' of None \<Rightarrow> False | Some m \<Rightarrow> mech_cidBypassSupported m) in
       bnd (gets cn_isTlsConn) (\<lambda>isTls.
       if isTls \<and> ciBypass then
         bnd (modify (\<lambda>c. c\<lparr>cn_gss := Some GssTd2Tls\<rparr>)) (\<lambda>_.
         bnd (td2Tls_establishSecureChannel E) (\<lambda>_. ret True))
       else
         bnd (modify (\<lambda>c. c\<lparr>cn_gss := Some (GssTd2 newTd2GssContext)\<rparr>)) (\<lambda>_.
         bnd (td2_establishSecureChannel E draws) (\<lambda>_. ret True)))
     else fail ErrNoSupportAuth))"

section \<open>Exchanging keys\<close>

lemma normalizeToLen_small:
  assumes "v < 256 ^ nat n" "0 \<le> n"
  shows "\<exists>b. normalizeToLen v n = Some b \<and> length b = nat n \<and> be_val b = v"
proof -
  have l: "int (length (bigIntBytes v)) \<le> n" using length_bigIntBytes [OF assms(1)] assms(2) by linarith
  show ?thesis
  proof (cases "int (length (bigIntBytes v)) = n")
    case True
    then show ?thesis by (simp add: normalizeToLen_def Let_def)
  next
    case False
    then show ?thesis using l by (simp add: normalizeToLen_def Let_def be_val_append)
  qed
qed

lemma clientKeyToken_image:
  assumes "pk \<noteq> []"
  shows "\<exists>hd. clientKeyToken pk = Some (hd @ pk) \<and> length hd = 16"
proof -
  let ?b = "newBufferWriter (replicate (length pk + nat td2TokenHeaderLen) 0)"
  let ?hd = "\<lparr>th_version = 3, th_msgType = 1, th_byteVar = 2, th_clientOrServer = 0, th_capabilities = 0, th_flags = 0x02\<rparr>"
  have "\<exists>bs. length bs = 13 \<and> tokenHeader_encode ?hd (int (length pk)) ?b = emit bs ?b"
    by (rule exI [of _ "3 # 1 # 2 # 0 # be_enc 4 (unat (word_of_nat (length pk) :: u32)) @ replicate 4 0 @ [2]"])
      (simp add: tokenHeader_encode_def emit_simps)
  then obtain bs where bs: "length bs = 13" "tokenHeader_encode ?hd (int (length pk)) ?b = emit bs ?b"
    by blast
  have e: "emit bs ?b = Some \<lparr>w_buff = bs @ replicate (length pk + 3) 0, w_indx = 13\<rparr>"
    using bs(1) by (simp add: emit_def room_def newBufferWriter_def td2TokenHeaderLen_def)
  have "wr_bytes pk (wr_setPosition 16 \<lparr>w_buff = bs @ replicate (length pk + 3) 0, w_indx = 13\<rparr>)
      = Some \<lparr>w_buff = (bs @ replicate 3 0) @ pk, w_indx = 16 + int (length pk)\<rparr>"
    using bs(1) by (simp add: wr_bytes_emit [OF assms] wr_setPosition_def emit_def room_def numeral_3_eq_3)
  then show ?thesis using bs e
    by (intro exI [of _ "bs @ replicate 3 0"]) (simp add: clientKeyToken_def)
qed

definition keyMessage :: "teradataConnection \<Rightarrow> nat \<Rightarrow> byte list \<Rightarrow> byte list" where
  "keyMessage c k token =
     plainMessage (cn_isTlsConn c)
       ((lanHeaderFor lanHeaderTypeSSOReq 7 0 (cn_sessionNo c))
          \<lparr>lh_authNonce := be_enc 8 (unat (cn_authNonce c + of_nat k)), lh_encrypted := False\<rparr>)
       [SsoRequestParcel 0 2 token]"

text \<open>An answer with a token: the server's header and parcels, read as \<open>ps\<close>, with the response \<open>resp\<close>.\<close>

definition sso_answer :: "env \<Rightarrow> lanHeader \<times> chunk list \<Rightarrow> ssoResponse \<Rightarrow> bool" where
  "sso_answer E a resp \<longleftrightarrow> plain_header (fst a)
     \<and> (\<exists>ps. understood (v_oidString E) (snd a) ps \<and> findParcel as_sso ps = Some resp)"

lemma sendClientKey_run:
  assumes u: "usable c" "cn_sends c = []" and pk: "pk \<noteq> []" "length pk < 2 ^ 30"
    and r: "receives c (answer_bytes (cn_isTlsConn c) (fst a) (snd a) @ rest)" and a: "sso_answer E a resp"
  shows "\<exists>hd c'. sendClientKey E pk c = Some (Inr resp, c') \<and> length hd = 16
    \<and> cn_written c' = cn_written c @ [keyMessage c 1 (hd @ pk)] \<and> receives c' rest
    \<and> usable c' \<and> cn_sends c' = [] \<and> cn_gss c' = cn_gss c \<and> cn_isTlsConn c' = cn_isTlsConn c
    \<and> cn_sessionNo c' = cn_sessionNo c \<and> cn_authNonce c' = cn_authNonce c + 1"
proof -
  obtain hd where tok: "clientKeyToken pk = Some (hd @ pk)" "length hd = 16"
    using clientKeyToken_image [OF pk(1)] by blast
  obtain ps where ps: "plain_header (fst a)" "understood (v_oidString E) (snd a) ps" "findParcel as_sso ps = Some resp"
    using a by (auto simp: sso_answer_def)
  let ?c1 = "c\<lparr>cn_authNonce := cn_authNonce c + 1\<rparr>"
  let ?h = "(lanHeaderFor lanHeaderTypeSSOReq 7 0 (cn_sessionNo c))\<lparr>lh_authNonce := be_enc 8 (unat (cn_authNonce c + 1))\<rparr>"
  have w: "usable ?c1" "cn_sends ?c1 = []" "list_all parcel_ok [SsoRequestParcel 0 2 (hd @ pk)]" "wf_lanHeader ?h"
    "bodyLength [SsoRequestParcel 0 2 (hd @ pk)] < 2 ^ 31" "\<not> encrypts ?c1 (lh_kind ?h)"
    using u pk tok(2) by (simp_all add: usable_def wf_lanHeader_def bodyLength_def ssoRequest_getLength_def
        parcelHeaderLen_def encrypts_def lanHeaderFor_def lanHeaderTypeSSOReq_def)
  obtain wb where w2: "writeLanMessage E ?h [SsoRequestParcel 0 2 (hd @ pk)] ?c1 = Some (Inr (), ?c1\<lparr>cn_writeBuffer := wb,
      cn_written := cn_written c @ [keyMessage c 1 (hd @ pk)]\<rparr>)"
    using writeLanMessage_clear [OF w, of E] by (auto simp: keyMessage_def)
  let ?c2 = "?c1\<lparr>cn_writeBuffer := wb, cn_written := cn_written c @ [keyMessage c 1 (hd @ pk)]\<rparr>"
  have "receives ?c2 (answer_bytes (cn_isTlsConn ?c2) (fst a) (snd a) @ rest)" using r by (simp add: receives_def)
  from readLanMessage_answer [OF this ps(1,2)] obtain header b bs where
    rd: "readLanMessage E ?c2 = Some (Inr (ps, header),
       ?c2\<lparr>cn_buffer := b, cn_script := bs, cn_transactionInProgress := (lh_byteVar (fst a) AND 1 = 1)\<rparr>)"
    "receives (?c2\<lparr>cn_buffer := b, cn_script := bs, cn_transactionInProgress := (lh_byteVar (fst a) AND 1 = 1)\<rparr>) rest"
    by blast
  let ?c3 = "?c2\<lparr>cn_buffer := b, cn_script := bs, cn_transactionInProgress := (lh_byteVar (fst a) AND 1 = 1)\<rparr>"
  have "ssoHeader lanHeaderTypeSSOReq c = Some (Inr ?h, ?c1)"
    by (simp add: ssoHeader_def withNonce_def nextAuthNonce_def bnd_def gets_def ret_def Let_def)
  then have "sendClientKey E pk c = Some (Inr resp, ?c3)"
    using tok w2 rd(1) ps(3) by (simp add: sendClientKey_def bnd_def pure_def ret_def)
  then show ?thesis
    using tok(2) rd(2) u by (intro exI [of _ hd] exI [of _ ?c3]) (simp add: usable_def)
qed

definition agreed :: "keyOffer \<Rightarrow> nat \<Rightarrow> td2GssContext \<Rightarrow> td2GssContext" where
  "agreed ko x g = (case ko_qop ko of None \<Rightarrow> g | Some q \<Rightarrow> g\<lparr>c_qopOptions := q\<rparr>)
     \<lparr>c_master := Some (ko_serverPk ko ^ x mod ko_prime ko), c_keyLen := ko_primeLength ko\<rparr>"

definition offer_ok :: "keyOffer \<Rightarrow> bool" where
  "offer_ok ko \<longleftrightarrow> 0 < ko_prime ko \<and> 0 < ko_primeLength ko \<and> ko_primeLength ko < 2 ^ 30
     \<and> ko_prime ko \<le> 256 ^ nat (ko_primeLength ko)"

definition keySent :: "keyOffer \<Rightarrow> nat \<Rightarrow> byte list \<Rightarrow> bool" where
  "keySent ko x token \<longleftrightarrow> length token = 16 + nat (ko_primeLength ko)
     \<and> be_val (drop 16 token) = ko_gen ko ^ x mod ko_prime ko"

definition secret_ok :: "keyOffer \<Rightarrow> nat \<Rightarrow> bool" where
  "secret_ok ko x \<longleftrightarrow> 0 < x \<and> int x < int (ko_prime ko) - 1"

lemma pickSecret_ok: "secret_ok ko x \<Longrightarrow> pickSecret (ko_prime ko) (x # draws) = Some (x, draws)"
  by (simp add: secret_ok_def)

lemma keyRound_run:
  assumes u: "usable c" "cn_sends c = []" and g: "cn_gss c = Some (GssTd2 g)"
    and o: "readOffer flags r = Some (Inr ko)" "offer_ok ko" and x: "secret_ok ko x"
    and r: "receives c (answer_bytes (cn_isTlsConn c) (fst a) (snd a) @ rest)" and a: "sso_answer E a resp"
  shows "\<exists>token c'. keyRound E flags r (x # draws) c = Some (Inr (resp, draws), c') \<and> keySent ko x token
    \<and> cn_written c' = cn_written c @ [keyMessage c 1 token] \<and> receives c' rest
    \<and> usable c' \<and> cn_sends c' = [] \<and> cn_gss c' = Some (GssTd2 (agreed ko x g)) \<and> cn_isTlsConn c' = cn_isTlsConn c
    \<and> cn_sessionNo c' = cn_sessionNo c \<and> cn_authNonce c' = cn_authNonce c + 1"
proof -
  let ?v = "ko_gen ko ^ x mod ko_prime ko"
  have "?v < ko_prime ko" using o(2) by (simp add: offer_ok_def)
  then have "?v < 256 ^ nat (ko_primeLength ko)" using o(2) by (simp add: offer_ok_def)
  then obtain pk where pk: "normalizeToLen ?v (ko_primeLength ko) = Some pk" "length pk = nat (ko_primeLength ko)" "be_val pk = ?v"
    using normalizeToLen_small o(2) by (fastforce simp: offer_ok_def)
  let ?c = "c\<lparr>cn_gss := Some (GssTd2 (agreed ko x g))\<rparr>"
  have p: "pk \<noteq> []" "length pk < 2 ^ 30" using pk(2) o(2) by (auto simp: offer_ok_def)
  have u': "usable ?c" "cn_sends ?c = []" using u by (simp_all add: usable_def)
  have r': "receives ?c (answer_bytes (cn_isTlsConn ?c) (fst a) (snd a) @ rest)" using r by (simp add: receives_def)
  obtain hd c' where s: "sendClientKey E pk ?c = Some (Inr resp, c')" "length hd = 16"
    "cn_written c' = cn_written ?c @ [keyMessage ?c 1 (hd @ pk)]" "receives c' rest"
    "usable c'" "cn_sends c' = []" "cn_gss c' = cn_gss ?c" "cn_isTlsConn c' = cn_isTlsConn ?c"
    "cn_sessionNo c' = cn_sessionNo ?c" "cn_authNonce c' = cn_authNonce ?c + 1"
    using sendClientKey_run [OF u' p r' a] by blast
  have q: "(case ko_qop ko of None \<Rightarrow> ret () | Some q \<Rightarrow> on_td2 (\<lambda>c. c\<lparr>c_qopOptions := q\<rparr>)) c
      = Some (Inr (), c\<lparr>cn_gss := Some (GssTd2 (case ko_qop ko of None \<Rightarrow> g | Some q \<Rightarrow> g\<lparr>c_qopOptions := q\<rparr>))\<rparr>)"
    using g by (simp add: on_td2_def modify_def ret_def split: option.splits)
  have "keyRound E flags r (x # draws) c = Some (Inr (resp, draws), c')"
    using o(1) pickSecret_ok [OF x] pk(1) s(1)
    by (simp add: keyRound_def bnd_def pure_def q on_td2_def modify_def ret_def agreed_def del: pickSecret.simps)
  moreover have "keySent ko x (hd @ pk)" using s(2) pk by (simp add: keySent_def)
  moreover have "keyMessage ?c 1 (hd @ pk) = keyMessage c 1 (hd @ pk)" by (simp add: keyMessage_def)
  ultimately show ?thesis using s(3-) by (intro exI [of _ "hd @ pk"] exI [of _ c']) simp
qed

definition keyMessages :: "teradataConnection \<Rightarrow> nat \<Rightarrow> byte list list \<Rightarrow> byte list list" where
  "keyMessages c k tokens = map (\<lambda>(i, t). keyMessage c i t) (enumerate k tokens)"

lemma keyMessages_Nil [simp]: "keyMessages c k [] = []"
  by (simp add: keyMessages_def)

lemma keyMessages_Cons [simp]: "keyMessages c k (t # ts) = keyMessage c k t # keyMessages c (Suc k) ts"
  by (simp add: keyMessages_def)

lemma keyMessages_shift:
  assumes "cn_isTlsConn c' = cn_isTlsConn c" "cn_sessionNo c' = cn_sessionNo c" "cn_authNonce c' = cn_authNonce c + 1"
  shows "keyMessages c' k ts = keyMessages c (Suc k) ts"
  using assms by (induction ts arbitrary: k) (simp_all add: keyMessage_def ac_simps)

definition agreed_master :: "keyOffer \<Rightarrow> nat \<Rightarrow> teradataConnection \<Rightarrow> bool" where
  "agreed_master ko m c \<longleftrightarrow> (\<exists>g. cn_gss c = Some (GssTd2 g) \<and> c_master g = Some m \<and> c_keyLen g = ko_primeLength ko)"

lemma keyLoop_run:
  assumes "usable c" "cn_sends c = []" "cn_gss c = Some (GssTd2 g)"
    and o: "readOffer flags r = Some (Inr ko)" "offer_ok ko"
    and "length xs = length refusals" "list_all (secret_ok ko) (xs @ [x])"
    and ref: "\<forall>p \<in> set refusals. sso_answer E (fst p) (snd p) \<and> so_code (snd p) \<noteq> 1"
    and acc: "sso_answer E a resp" "so_code resp = 1" and k: "attmpt \<le> 5"
    and "receives c (concat (map (\<lambda>p. answer_bytes (cn_isTlsConn c) (fst (fst p)) (snd (fst p))) refusals)
           @ answer_bytes (cn_isTlsConn c) (fst a) (snd a) @ rest)"
  shows "\<exists>tokens c'. keyLoop E attmpt flags r (xs @ x # draws) c = Some (Inr (), c')
    \<and> list_all2 (keySent ko) (xs @ [x]) tokens \<and> cn_written c' = cn_written c @ keyMessages c 1 tokens
    \<and> agreed_master ko (ko_serverPk ko ^ x mod ko_prime ko) c' \<and> receives c' rest"
  using assms(1-3,6,7) ref assms(12)
proof (induction refusals arbitrary: xs c g)
  case Nil
  then have x: "xs = []" "secret_ok ko x" and r: "receives c (answer_bytes (cn_isTlsConn c) (fst a) (snd a) @ rest)"
    by simp_all
  obtain token c' where "keyRound E flags r (x # draws) c = Some (Inr (resp, draws), c')" "keySent ko x token"
    "cn_written c' = cn_written c @ [keyMessage c 1 token]" "receives c' rest" "cn_gss c' = Some (GssTd2 (agreed ko x g))"
    using keyRound_run [OF Nil(1-3) o x(2) r acc(1)] by blast
  then show ?case using x acc(2)
    by (intro exI [of _ "[token]"] exI [of _ c']) (simp add: keyLoop.simps agreed_master_def agreed_def del: One_nat_def)
next
  case (Cons p refusals)
  then obtain y ys where y: "xs = y # ys" by (cases xs) auto
  have x: "secret_ok ko y" "sso_answer E (fst p) (snd p)" "so_code (snd p) \<noteq> 1" using Cons(6,7) y by simp_all
  let ?rest = "concat (map (\<lambda>p. answer_bytes (cn_isTlsConn c) (fst (fst p)) (snd (fst p))) refusals)
           @ answer_bytes (cn_isTlsConn c) (fst a) (snd a) @ rest"
  have r: "receives c (answer_bytes (cn_isTlsConn c) (fst (fst p)) (snd (fst p)) @ ?rest)" using Cons(8) by simp
  obtain token c1 where r1: "keyRound E flags r (y # ys @ x # draws) c = Some (Inr (snd p, ys @ x # draws), c1)" "keySent ko y token"
    "cn_written c1 = cn_written c @ [keyMessage c 1 token]" "receives c1 ?rest" "usable c1" "cn_sends c1 = []"
    "cn_gss c1 = Some (GssTd2 (agreed ko y g))" "cn_isTlsConn c1 = cn_isTlsConn c"
    "cn_sessionNo c1 = cn_sessionNo c" "cn_authNonce c1 = cn_authNonce c + 1"
    using keyRound_run [OF Cons(2-4) o x(1) r x(2)] by blast
  have l: "length ys = length refusals" "list_all (secret_ok ko) (ys @ [x])" 
    "\<forall>p \<in> set refusals. sso_answer E (fst p) (snd p) \<and> so_code (snd p) \<noteq> 1" using Cons(5-7) y by simp_all
  obtain tokens c' where "keyLoop E attmpt flags r (ys @ x # draws) c1 = Some (Inr (), c')"
    "list_all2 (keySent ko) (ys @ [x]) tokens" "cn_written c' = cn_written c1 @ keyMessages c1 1 tokens"
    "agreed_master ko (ko_serverPk ko ^ x mod ko_prime ko) c'" "receives c' rest"
    using Cons.IH [OF r1(5,6,7) l] r1(4,8) by auto
  then show ?case using y r1(1-3) x(3) k keyMessages_shift [OF r1(8-10), of 1 tokens]
    by (intro exI [of _ "token # tokens"] exI [of _ c'])
      (simp add: keyLoop.simps [of E attmpt flags r "y # ys @ x # draws" c] numeral_2_eq_2)
qed

text \<open>C7: The key exchange of TD2 agrees on a key with the server, and never gives up: for any number of refusals
  before the server accepts, one key message is sent for each answer, every message carries the public key of a
  fresh secret, and the master secret kept is the one the server computes from the last of them, for the server's
  secret \<open>y\<close>. The limit of attempts in the loop has no effect, since the counter is never advanced.\<close>

theorem key_exchange_agrees:
  assumes "usable c" "cn_sends c = []" "cn_gss c = Some (GssTd2 g)"
    and "readOffer flags r = Some (Inr ko)" "offer_ok ko" "ko_serverPk ko = ko_gen ko ^ y mod ko_prime ko"
    and "length secrets = Suc (length refusals)" "list_all (secret_ok ko) secrets"
    and "\<forall>p \<in> set refusals. sso_answer E (fst p) (snd p) \<and> so_code (snd p) \<noteq> 1"
    and "sso_answer E a resp" "so_code resp = 1"
    and "receives c (concat (map (\<lambda>p. answer_bytes (cn_isTlsConn c) (fst (fst p)) (snd (fst p))) refusals)
           @ answer_bytes (cn_isTlsConn c) (fst a) (snd a) @ rest)"
  shows "\<exists>tokens c'. keyLoop E 0 flags r (secrets @ draws) c = Some (Inr (), c')
    \<and> list_all2 (keySent ko) secrets tokens \<and> cn_written c' = cn_written c @ keyMessages c 1 tokens
    \<and> agreed_master ko (be_val (drop 16 (last tokens)) ^ y mod ko_prime ko) c' \<and> receives c' rest"
proof -
  from assms(7) obtain xs x where x: "secrets = xs @ [x]" "length xs = length refusals"
    by (cases secrets rule: rev_cases) auto
  obtain tokens c' where l: "keyLoop E 0 flags r (xs @ x # draws) c = Some (Inr (), c')"
    "list_all2 (keySent ko) (xs @ [x]) tokens" "cn_written c' = cn_written c @ keyMessages c 1 tokens"
    "agreed_master ko (ko_serverPk ko ^ x mod ko_prime ko) c'" "receives c' rest"
    using keyLoop_run [OF assms(1-5) x(2) _ assms(9-11) _ assms(12), of x 0 draws] assms(8) x(1) by auto
  from l(2) have "keySent ko x (last tokens)"
    by (auto simp: list_all2_append1 list_all2_Cons1)
  then have "be_val (drop 16 (last tokens)) = ko_gen ko ^ x mod ko_prime ko" by (simp add: keySent_def)
  then have "ko_serverPk ko ^ x mod ko_prime ko = be_val (drop 16 (last tokens)) ^ y mod ko_prime ko"
    by (simp add: assms(6) power_mod mult.commute flip: power_mult)
  then show ?thesis using l x(1) by auto
qed

definition demo_offer :: "byte list" where
  "demo_offer = replicate 20 0 @ [0, 0, 0, 1] @ [0, 0, 0, 1] @ [0, 0, 0, 1] @ replicate 48 0 @ [23, 5, 8]"

definition demo_kept :: "byte \<Rightarrow> chunk list" where
  "demo_kept code = [(False, flavorSsoResponse, [8, code, 1, 0] @ [0, 0]), (False, flavorEndRequest, [])]"

definition demo_resp :: "byte \<Rightarrow> ssoResponse" where
  "demo_resp code = \<lparr>so_method = 8, so_trip = 1, so_code = code, so_authData = [], so_mustBeZero = 0\<rparr>"

definition demo_keys :: teradataConnection where
  "demo_keys = demo_tx\<lparr>cn_script := [(answer_bytes False zeroLanHeader (demo_kept 2), None),
      (answer_bytes False zeroLanHeader (demo_kept 1), None)], cn_gss := Some (GssTd2 newTd2GssContext)\<rparr>"

lemma self_contained_sso:
  assumes "length n = 2" "length d = unat (u16_of n)"
  shows "self_contained oid (a, flavorSsoResponse, [m, code, trip, z] @ n @ d @ b)
    (RP_ssoResponse \<lparr>so_method = m, so_trip = trip, so_code = code, so_authData = d, so_mustBeZero = z\<rparr>)"
  using assms
  by (simp add: self_contained_def responseParcelFactory_def map_fst_def ssoResponse_fromBuffer_def
      rd_u16_bytes rd_u8_rdr rd_bytes_rdr)

lemma demo_kept_answer: "sso_answer E (zeroLanHeader, demo_kept code) (demo_resp code)"
proof -
  have s: "self_contained (v_oidString E) (hd (demo_kept code)) (RP_ssoResponse (demo_resp code))"
    using self_contained_sso [of "[0, 0]" "[]" "v_oidString E" False 8 code 1 0 "[]"]
    by (simp add: demo_kept_def demo_resp_def u16_of_def be_val_Cons)
  have h: "plain_header zeroLanHeader" by (simp add: plain_header_def wf_lanHeader_def zeroLanHeader_def)
  have "understood (v_oidString E) (demo_kept code) [RP_ssoResponse (demo_resp code), RP_endRequest]"
    unfolding understood_def
    using s self_contained_plain(1)
    by (intro conjI exI [of _ "[Some (RP_ssoResponse (demo_resp code)), Some RP_endRequest]"])
      (simp_all add: demo_kept_def chunk_len.simps chunks_image_def chunk_image_def List.map_filter_simps)
  with h show ?thesis by (auto simp: sso_answer_def)
qed

theorem key_exchange_agrees_witness:
  "\<exists>tokens c'. keyLoop demo_env 0 1 (newBufferReader demo_offer 0 83) ([3, 4] @ []) demo_keys = Some (Inr (), c')
    \<and> length tokens = 2 \<and> be_val (drop 16 (last tokens)) = 4 \<and> cn_written c' = keyMessages demo_keys 1 tokens
    \<and> (\<exists>g. cn_gss c' = Some (GssTd2 g) \<and> c_master g = Some 2)"
proof -
  let ?ko = "\<lparr>ko_primeLength = 1, ko_prime = 23, ko_gen = 5, ko_serverPk = 8, ko_qop = None\<rparr>"
  have u: "usable demo_keys" "cn_sends demo_keys = []" "cn_gss demo_keys = Some (GssTd2 newTd2GssContext)"
    "cn_isTlsConn demo_keys = False" "cn_written demo_keys = []"
    by (simp_all add: usable_def demo_keys_def demo_tx_def demo_conn_def)
  have o: "readOffer 1 (newBufferReader demo_offer 0 83) = Some (Inr ?ko)" by code_simp
  have k: "offer_ok ?ko" "ko_serverPk ?ko = ko_gen ?ko ^ 6 mod ko_prime ?ko" "list_all (secret_ok ?ko) [3, 4]"
    by (simp_all add: offer_ok_def secret_ok_def)
  have r: "receives demo_keys (concat (map (\<lambda>p. answer_bytes (cn_isTlsConn demo_keys) (fst (fst p)) (snd (fst p)))
        [((zeroLanHeader, demo_kept 2), demo_resp 2)])
      @ answer_bytes (cn_isTlsConn demo_keys) (fst (zeroLanHeader, demo_kept 1)) (snd (zeroLanHeader, demo_kept 1)) @ [])"
    by (simp add: receives_def healthy_def incoming_def script_bytes_def demo_keys_def demo_tx_def demo_conn_def
        newReadBuffer_def)
  have s: "\<forall>p \<in> set [((zeroLanHeader, demo_kept 2), demo_resp 2)]. sso_answer demo_env (fst p) (snd p) \<and> so_code (snd p) \<noteq> 1"
    using demo_kept_answer by (simp add: demo_resp_def)
  have p: "be_val (drop 16 t) = 4" if "keySent ?ko 4 t" for t using that by (simp add: keySent_def)
  obtain tokens c' where t: "keyLoop demo_env 0 1 (newBufferReader demo_offer 0 83) ([3, 4] @ []) demo_keys = Some (Inr (), c')"
    "list_all2 (keySent ?ko) [3, 4] tokens" "cn_written c' = cn_written demo_keys @ keyMessages demo_keys 1 tokens"
    "agreed_master ?ko (be_val (drop 16 (last tokens)) ^ 6 mod ko_prime ?ko) c'"
    using key_exchange_agrees [OF u(1-3) o k(1,2) _ k(3) s demo_kept_answer _ r, of "[]"] by (auto simp: demo_resp_def)
  then have "be_val (drop 16 (last tokens)) = 4" "length tokens = 2"
    using p by (auto simp: list_all2_Cons1)
  then show ?thesis using t u(5) by (intro exI [of _ tokens] exI [of _ c']) (auto simp: agreed_master_def)
qed

end
