(* ===== verification/Connector.thy ===== *)
theory Connector
  imports Auth
begin

text \<open>
  Opening a connection, src/connector.go, src/driver.go and the first half of src/tls.go: finding the addresses of
  the host, dialling them in turn from a random start, upgrading to TLS and WebSocket with a fallback to clear text,
  verifying certificates, and the handshake and logon that follow.
\<close>

section \<open>The network\<close>

text \<open>
  What a dialled peer does: what can be read from the socket and how it takes writes, and, if the TLS handshake of
  crypto/tls succeeds, the same for the TLS channel; \<open>lk_token\<close> is the random token of the upgrade, \<open>None\<close> an error
  of the random source. The network answers look-ups of host names (\<open>None\<close> an error) and the \<open>k\<close>-th dial;
  \<open>nt_rand k n\<close> is the random number below \<open>n\<close> drawn before dial \<open>k\<close>, and \<open>nt_text\<close> the text of an error.
\<close>

record link =
  lk_script :: read_script
  lk_sends :: "(int \<times> goerror option) list"
  lk_closeErr :: "goerror option"
  lk_tls :: "goerror + read_script \<times> (int \<times> goerror option) list"
  lk_token :: "byte list option"

record network =
  nt_lookup :: "string \<Rightarrow> string list option"
  nt_dial :: "nat \<Rightarrow> string \<Rightarrow> int \<Rightarrow> goerror + link"
  nt_rand :: "nat \<Rightarrow> nat \<Rightarrow> nat"
  nt_text :: "goerror \<Rightarrow> string"

text \<open>The connector: its configuration and the addresses found; with them the dials made so far and the number of
  sockets that are open.\<close>

record teradataConnector =
  ctr_config :: Config
  ctr_discoveredIps :: "string list"
  ctr_dials :: "(string \<times> int) list"
  ctr_open :: int

definition newConnector :: "Config \<Rightarrow> teradataConnector" where
  "newConnector config = \<lparr>ctr_config = normalize config, ctr_discoveredIps = [], ctr_dials = [], ctr_open = 0\<rparr>"

definition wrapConnectionError :: "network \<Rightarrow> goerror \<Rightarrow> goerror" where
  "wrapConnectionError net err = TeradataConnectionError (nt_text net err)"

section \<open>Discovery\<close>

definition copHost :: "string \<Rightarrow> int \<Rightarrow> string \<Rightarrow> string" where
  "copHost copPrefix n copSuffix = copPrefix @ ''cop'' @ int_str n @ ''.'' @ copSuffix"

partial_function (option) copLoop ::
  "network \<Rightarrow> string \<Rightarrow> string \<Rightarrow> string \<Rightarrow> int \<Rightarrow> string list \<Rightarrow> string list option" where
  "copLoop net copPrefix copSuffix lastCopIpAddr copNumber found =
     (case nt_lookup net (copHost copPrefix copNumber copSuffix) of
        None \<Rightarrow> Some found
      | Some [] \<Rightarrow> Some found
      | Some (ip # ips) \<Rightarrow>
          if lastCopIpAddr \<noteq> [] \<and> ip = lastCopIpAddr then Some found
          else copLoop net copPrefix copSuffix lastCopIpAddr (copNumber + 1) (found @ ip # ips))"

definition lookupDirect :: "network \<Rightarrow> string \<Rightarrow> goerror + string list" where
  "lookupDirect net host =
     (case nt_lookup net host of None \<Rightarrow> Inl (Errorf ''unable to find host'' []) | Some ips \<Rightarrow> Inr ips)"

definition copDiscovery :: "network \<Rightarrow> Config \<Rightarrow> (goerror + string list) option" where
  "copDiscovery net config = do {
     let (copPrefix, copSuffix, _) = cut (cfg_Host config) (CHR ''.'');
     let lastCopIpAddr = (if cfg_CopLast config then
            (case nt_lookup net (copPrefix @ ''coplast.'' @ copSuffix) of Some (ip # _) \<Rightarrow> ip | _ \<Rightarrow> []) else []);
     found \<leftarrow> copLoop net copPrefix copSuffix lastCopIpAddr 1 [];
     Some (if found = [] then lookupDirect net (cfg_Host config) else Inr found) }"

definition discoverIps :: "network \<Rightarrow> Config \<Rightarrow> (goerror + string list) option" where
  "discoverIps net config =
     (if cfg_CopMode config then copDiscovery net config else Some (lookupDirect net (cfg_Host config)))"

section \<open>Dialling\<close>

text \<open>The addresses in turn from \<open>rotateIndex\<close>, until one answers or the index is back at the start. The result is
  the address and peer of the connection, or the last error.\<close>

partial_function (option) dialLoop ::
  "network \<Rightarrow> string list \<Rightarrow> int \<Rightarrow> nat \<Rightarrow> nat \<Rightarrow> (string \<times> int) list
     \<Rightarrow> ((goerror + string \<times> link) \<times> (string \<times> int) list) option" where
  "dialLoop net ips port startIndex rotateIndex dials = do {
     ipAddr \<leftarrow> index ips (int rotateIndex);
     case nt_dial net (length dials) ipAddr port of
       Inl err \<Rightarrow>
         let rotateIndex = (rotateIndex + 1) mod length ips
         in if rotateIndex = startIndex then Some (Inl err, dials @ [(ipAddr, port)])
            else dialLoop net ips port startIndex rotateIndex (dials @ [(ipAddr, port)])
     | Inr lk \<Rightarrow> Some (Inr (ipAddr, lk), dials @ [(ipAddr, port)]) }"

section \<open>The WebSocket upgrade\<close>

text \<open>\<open>base64.StdEncoding.EncodeToString\<close> and \<open>strings.Split(s, "\r\n")\<close>.\<close>

definition b64char :: "nat \<Rightarrow> char" where
  "b64char n = ''ABCDEFGHIJKLMNOPQRSTUVWXYZabcdefghijklmnopqrstuvwxyz0123456789+/'' ! (n mod 64)"

fun base64Encode :: "byte list \<Rightarrow> string" where
  "base64Encode [] = []"
| "base64Encode [a] = [b64char (unat a div 4), b64char (unat a * 16), CHR ''='', CHR ''='']"
| "base64Encode [a, b] =
     [b64char (unat a div 4), b64char (unat a * 16 + unat b div 16), b64char (unat b * 4), CHR ''='']"
| "base64Encode (a # b # c # bs) =
     [b64char (unat a div 4), b64char (unat a * 16 + unat b div 16), b64char (unat b * 4 + unat c div 64),
      b64char (unat c)] @ base64Encode bs"

definition CRLF :: string where "CRLF = [CHR 0x0D, CHR 0x0A]"

fun split_crlf :: "string \<Rightarrow> string list" where
  "split_crlf (c # d # s) =
     (if c = CHR 0x0D \<and> d = CHR 0x0A then [] # split_crlf s
      else case split_crlf (d # s) of [] \<Rightarrow> [[c]] | t # ts \<Rightarrow> (c # t) # ts)"
| "split_crlf s = [s]"

definition upgradeRequest :: "string \<Rightarrow> byte list \<Rightarrow> string" where
  "upgradeRequest remoteHost token =
     ''GET /gateway HTTP/1.1'' @ CRLF @ ''Host: '' @ remoteHost @ CRLF @ ''Upgrade: websocket'' @ CRLF
     @ ''Connection: Upgrade'' @ CRLF @ ''Sec-WebSocket-Key: '' @ base64Encode token @ CRLF
     @ ''Sec-WebSocket-Version: 13'' @ CRLF @ CRLF"

definition upgradeWebSocket :: "byte list option \<Rightarrow> unit act" where
  "upgradeWebSocket token c =
     (case token of
        None \<Rightarrow> fail ErrTlsUpgradeFail c
      | Some token \<Rightarrow>
          let ((n, err), c) = net_write (str_bytes (upgradeRequest (cn_remoteHost c) token)) c
          in if err \<noteq> None then fail ErrTlsUpgradeFail c
             else do {
               (buff, wb) \<leftarrow> wb_take (cn_writeBuffer c) 256;
               let (d, err, cs) = conn_read (cn_script c) (int (length buff));
               let c = c\<lparr>cn_writeBuffer := wb, cn_script := cs\<rparr>;
               if err \<noteq> None then fail ErrTlsUpgradeFail c
               else let lines = split_crlf (bytes_str d)
                    in if ''HTTP/1.1 101 Switching Protocols'' \<in> set lines \<and> ''Upgrade: websocket'' \<in> set lines
                       then ret () c
                       else fail ErrTlsUpgradeFail c })"

section \<open>Connecting\<close>

definition newConn :: "Config \<Rightarrow> string \<Rightarrow> int \<Rightarrow> link \<Rightarrow> teradataConnection" where
  "newConn config ipAddr port lk =
     \<lparr>cn_connectionID = [], cn_script = lk_script lk, cn_sends = lk_sends lk, cn_written = [], cn_socketClosed = False,
      cn_closeErr = lk_closeErr lk, cn_config = config, cn_buffer = newReadBuffer, cn_writeBuffer = newWriteBuffer,
      cn_requestNo = 0, cn_authNonce = 0, cn_sessionNo = 0, cn_isTlsConn = False, cn_remoteHost = ipAddr,
      cn_remotePort = port, cn_gss = None, cn_capabilities = None, cn_closed = False, cn_bad = False,
      cn_transactionMode = teraMode, cn_transactionInProgress = False, cn_currentTransaction = False,
      cn_policy = \<lparr>sp_securityRequired = False, sp_confidentialityRequired = False, sp_securityLevel = 0\<rparr>,
      cn_logonSequenceNumber = 0\<rparr>"

type_synonym 'a connecting = "(teradataConnector, 'a) comp"

text \<open>The addresses are looked up once, when none are known.\<close>

definition ensureIps :: "network \<Rightarrow> unit connecting" where
  "ensureIps net c =
     (if ctr_discoveredIps c = [] then do {
        x \<leftarrow> discoverIps net (ctr_config c);
        case x of
          Inl err \<Rightarrow> fail (wrapConnectionError net err) c
        | Inr ips \<Rightarrow>
            let c = c\<lparr>ctr_discoveredIps := ips\<rparr>
            in if ips = [] then fail (Errorf ''unable to find IP address for host'' []) c else ret () c }
      else ret () c)"

definition dial :: "network \<Rightarrow> int \<Rightarrow> (goerror + string \<times> link) connecting" where
  "dial net port c = do {
     let n = length (ctr_discoveredIps c);
     let start = (if n > 1 then nt_rand net (length (ctr_dials c)) n else 0);
     (x, dials) \<leftarrow> dialLoop net (ctr_discoveredIps c) port start start (ctr_dials c);
     ret x (c\<lparr>ctr_dials := dials, ctr_open := ctr_open c + (case x of Inl _ \<Rightarrow> 0 | Inr _ \<Rightarrow> 1)\<rparr>) }"

definition closeRaw :: "unit connecting" where
  "closeRaw = modify (\<lambda>c. c\<lparr>ctr_open := ctr_open c - 1\<rparr>)"

text \<open>TLS, then WebSocket: \<open>Inl\<close> is the error after which the caller falls back or gives up.\<close>

definition upgrade :: "link \<Rightarrow> teradataConnection \<Rightarrow> (goerror + teradataConnection) option" where
  "upgrade lk conn =
     (case lk_tls lk of
        Inl err \<Rightarrow> Some (Inl err)
      | Inr (cs, ss) \<Rightarrow> do {
          (x, conn) \<leftarrow> upgradeWebSocket (lk_token lk) (conn\<lparr>cn_script := cs, cn_sends := ss\<rparr>);
          Some (case x of Inl err \<Rightarrow> Inl err | Inr _ \<Rightarrow> Inr (conn\<lparr>cn_isTlsConn := True\<rparr>)) })"

text \<open>One attempt: a connection, an error, or \<open>None\<close> where the code calls itself again for clear text.\<close>

definition finishConnect ::
  "network \<Rightarrow> Config \<Rightarrow> bool \<Rightarrow> int \<Rightarrow> goerror + string \<times> link \<Rightarrow> teradataConnection option connecting" where
  "finishConnect net config usingTlsPort port x =
     (case x of
        Inl lastErr \<Rightarrow>
          if usingTlsPort \<and> allowTlsFallback config then ret None
          else fail (wrapConnectionError net lastErr)
      | Inr (ipAddr, lk) \<Rightarrow>
          if usingTlsPort then
            bnd (pure (upgrade lk (newConn config ipAddr port lk))) (\<lambda>y.
            case y of
              Inl err \<Rightarrow>
                bnd closeRaw (\<lambda>_.
                if allowTlsFallback config then ret None else fail (wrapConnectionError net err))
            | Inr conn \<Rightarrow> ret (Some conn))
          else ret (Some (newConn config ipAddr port lk)))"

definition connectOnce :: "network \<Rightarrow> bool \<Rightarrow> teradataConnection option connecting" where
  "connectOnce net tlsFallback =
     bnd (ensureIps net) (\<lambda>_.
     bnd (gets ctr_config) (\<lambda>config.
     let usingTlsPort = (useTls config \<and> \<not> tlsFallback);
         port = (if usingTlsPort then cfg_SSLPort config else cfg_Port config)
     in bnd (dial net port) (finishConnect net config usingTlsPort port)))"

partial_function (option) connect ::
  "network \<Rightarrow> bool \<Rightarrow> teradataConnector \<Rightarrow> ((goerror + teradataConnection) \<times> teradataConnector) option" where
  "connect net tlsFallback c = do {
     (x, c) \<leftarrow> connectOnce net tlsFallback c;
     case x of
       Inl err \<Rightarrow> Some (Inl err, c)
     | Inr (Some conn) \<Rightarrow> Some (Inr conn, c)
     | Inr None \<Rightarrow> connect net True c }"

text \<open>\<open>Connect\<close>: a connection whose handshake or logon fails is closed. The last component is the connection that
  was opened, in the state it is left in.\<close>

definition loginOrClose :: "env \<Rightarrow> nat list \<Rightarrow> unit act \<Rightarrow> unit act" where
  "loginOrClose E draws auth =
     attempt (handshake E draws) (\<lambda>x.
     case x of
       Inl err \<Rightarrow> attempt (Close E) (\<lambda>_. fail err)
     | Inr ok \<Rightarrow>
         attempt auth (\<lambda>y.
         case y of
           Inl err \<Rightarrow> attempt (Close E) (\<lambda>_. fail err)
         | Inr u \<Rightarrow> ret u))"

definition Connect ::
  "network \<Rightarrow> env \<Rightarrow> sysInfo \<Rightarrow> nat list \<Rightarrow> teradataConnector
     \<Rightarrow> ((goerror + unit) \<times> teradataConnection option \<times> teradataConnector) option" where
  "Connect net E sys draws c = do {
     (x, c) \<leftarrow> connect net False c;
     case x of
       Inl err \<Rightarrow> Some (Inl err, None, c)
     | Inr conn \<Rightarrow> do {
         (y, conn) \<leftarrow> loginOrClose E draws (authenticate E sys) conn;
         Some (y, Some conn, c) } }"

text \<open>The driver's entry points of src/driver.go.\<close>

definition OpenConnector :: "(string \<Rightarrow> goerror + parsedURL) \<Rightarrow> string \<Rightarrow> goerror + teradataConnector" where
  "OpenConnector urlParse dsn = (case ParseDSN urlParse dsn of Inl err \<Rightarrow> Inl err | Inr config \<Rightarrow> Inr (newConnector config))"

definition Open ::
  "(string \<Rightarrow> goerror + parsedURL) \<Rightarrow> network \<Rightarrow> env \<Rightarrow> sysInfo \<Rightarrow> nat list \<Rightarrow> string
     \<Rightarrow> ((goerror + unit) \<times> teradataConnection option) option" where
  "Open urlParse net E sys draws dsn =
     (case ParseDSN urlParse dsn of
        Inl err \<Rightarrow> Some (Inl err, None)
      | Inr config \<Rightarrow> map_option (\<lambda>(x, conn, _). (x, conn)) (Connect net E sys draws (newConnector config)))"

section \<open>Certificates\<close>

text \<open>
  The operations of crypto/x509 and of the file system that the driver uses, over a type of certificates: the
  certificates of a PEM text (none when there are no valid ones), of a DER text, one raw certificate, the check of
  a chain against roots and intermediates, the check of a host name; base64, files and globbing.
\<close>

record 'c x509 =
  x_system :: "'c list option"
  x_pem :: "byte list \<Rightarrow> 'c list"
  x_ders :: "byte list \<Rightarrow> 'c list option"
  x_parse :: "byte list \<Rightarrow> goerror + 'c"
  x_verify :: "'c list \<Rightarrow> 'c list \<Rightarrow> 'c \<Rightarrow> bool"
  x_hostname :: "'c \<Rightarrow> string \<Rightarrow> bool"
  x_base64 :: "string \<Rightarrow> byte list option"
  x_readFile :: "string \<Rightarrow> byte list option"
  x_glob :: "string \<Rightarrow> string list option"

definition poolOfBase64 :: "'c x509 \<Rightarrow> string \<Rightarrow> 'c list" where
  "poolOfBase64 X s =
     (if s = [] then []
      else case x_base64 X s of
             None \<Rightarrow> []
           | Some b \<Rightarrow> if x_pem X b \<noteq> [] then x_pem X b else (case x_ders X b of Some ders \<Rightarrow> ders | None \<Rightarrow> []))"

definition poolOfFile :: "'c x509 \<Rightarrow> string \<Rightarrow> 'c list" where
  "poolOfFile X f = (case x_readFile X f of None \<Rightarrow> [] | Some b \<Rightarrow> x_pem X b)"

definition poolOfDir :: "'c x509 \<Rightarrow> string \<Rightarrow> 'c list" where
  "poolOfDir X d = (case x_glob X d of None \<Rightarrow> [] | Some fs \<Rightarrow> concat (map (poolOfFile X) fs))"

definition getCertPool :: "'c x509 \<Rightarrow> Config \<Rightarrow> 'c list" where
  "getCertPool X c =
     (case x_system X of None \<Rightarrow> [] | Some p \<Rightarrow> p)
     @ poolOfBase64 X (cfg_SSLBase64 c)
     @ (if cfg_SSLCA c \<noteq> [] then poolOfFile X (cfg_SSLCA c) else [])
     @ (if cfg_SSLCAPath c \<noteq> [] then poolOfDir X (cfg_SSLCAPath c) else [])"

fun parseCerts :: "'c x509 \<Rightarrow> byte list list \<Rightarrow> goerror + 'c list" where
  "parseCerts X [] = Inr []"
| "parseCerts X (raw # raws) =
     (case x_parse X raw of
        Inl err \<Rightarrow> Inl err
      | Inr cert \<Rightarrow> (case parseCerts X raws of Inl err \<Rightarrow> Inl err | Inr certs \<Rightarrow> Inr (cert # certs)))"

text \<open>The error of the verification, if there is one; \<open>None\<close> accepts the certificates.\<close>

definition verifyCert :: "'c x509 \<Rightarrow> Config \<Rightarrow> byte list list \<Rightarrow> goerror option" where
  "verifyCert X c rawCerts =
     (if rawCerts = [] then Some ErrInternal
      else case parseCerts X rawCerts of
             Inl err \<Rightarrow> Some err
           | Inr [] \<Rightarrow> Some ErrInternal
           | Inr (leaf # intermediates) \<Rightarrow>
               let chainOk = x_verify X (getCertPool X c) intermediates leaf;
                   hostOk = x_hostname X leaf (cfg_SSLServerName c)
               in if cfg_SSLMode c = ''VERIFY-FULL'' then
                    (if \<not> chainOk then Some ErrTlsCaFail else if \<not> hostOk then Some ErrTlsHostFail else None)
                  else if cfg_SSLMode c = ''VERIFY-CA'' then (if \<not> chainOk then Some ErrTlsCaFail else None)
                  else None)"

section \<open>What a login leaves alone\<close>

text \<open>A computation keeps a relation that holds between the states before and after it.\<close>

definition keeps :: "('s \<Rightarrow> 's \<Rightarrow> bool) \<Rightarrow> ('s, 'a) comp \<Rightarrow> bool" where
  "keeps R m \<longleftrightarrow> (\<forall>c r c'. m c = Some (r, c') \<longrightarrow> R c c')"

lemma keepsD: "keeps R m \<Longrightarrow> m c = Some (r, c') \<Longrightarrow> R c c'"
  unfolding keeps_def by blast

named_theorems keeps_intros \<open>computations that keep the identity of a connection\<close>

locale kept_relation =
  fixes R :: "'s \<Rightarrow> 's \<Rightarrow> bool"
  assumes refl: "R c c" and trans: "R c d \<Longrightarrow> R d e \<Longrightarrow> R c e"
begin

lemma bnd: "keeps R m \<Longrightarrow> (\<And>x. keeps R (f x)) \<Longrightarrow> keeps R (bnd m f)"
  unfolding keeps_def bnd_def by (fastforce split: option.splits sum.splits intro: trans)

lemma attempt: "keeps R m \<Longrightarrow> (\<And>x. keeps R (f x)) \<Longrightarrow> keeps R (attempt m f)"
  unfolding keeps_def attempt_def by (fastforce split: option.splits intro: trans)

lemma basic: "keeps R (ret x)" "keeps R (fail e)" "keeps R (gets g)" "keeps R (pure o')"
  using refl by (auto simp: keeps_def ret_def fail_def gets_def pure_def)

lemma modify: "(\<And>c. R c (h c)) \<Longrightarrow> keeps R (modify h)"
  by (auto simp: keeps_def modify_def)

end

lemma keeps_if [keeps_intros]: "keeps R m \<Longrightarrow> keeps R n \<Longrightarrow> keeps R (if b then m else n)" by simp

lemma keeps_case_sum [keeps_intros]:
  "(\<And>e. keeps R (f e)) \<Longrightarrow> (\<And>x. keeps R (g x)) \<Longrightarrow> keeps R (case r of Inl e \<Rightarrow> f e | Inr x \<Rightarrow> g x)"
  by (cases r) auto

lemma keeps_case_option [keeps_intros]:
  "keeps R f \<Longrightarrow> (\<And>x. keeps R (g x)) \<Longrightarrow> keeps R (case r of None \<Rightarrow> f | Some x \<Rightarrow> g x)"
  by (cases r) auto

definition same_identity :: "teradataConnection \<Rightarrow> teradataConnection \<Rightarrow> bool" where
  "same_identity c d \<longleftrightarrow> cn_closed d = cn_closed c \<and> cn_socketClosed d = cn_socketClosed c
     \<and> cn_closeErr d = cn_closeErr c \<and> cn_config d = cn_config c \<and> cn_isTlsConn d = cn_isTlsConn c
     \<and> cn_remoteHost d = cn_remoteHost c \<and> cn_remotePort d = cn_remotePort c"

interpretation identity: kept_relation same_identity
  by unfold_locales (auto simp: same_identity_def)

lemmas [keeps_intros] = identity.bnd identity.attempt identity.basic

lemma keeps_leaf [keeps_intros]:
  "keeps same_identity (markUnusable e)" "keeps same_identity nextAuthNonce" "keeps same_identity nextRequestNumber"
  "keeps same_identity capabilities" "keeps same_identity (read_op f)" "keeps same_identity (gss_unwrap E d)"
  "keeps same_identity (gss_wrap E d)" "keeps same_identity (readControlData E d n l)" "keeps same_identity (on_td2 h)"
         apply (auto simp: keeps_def same_identity_def markUnusable_def nextAuthNonce_def nextRequestNumber_def
      capabilities_def read_op_def gss_unwrap_def gss_wrap_def readControlData_def on_td2_def modify_def ret_def Let_def
      elim!: bind_SomeE split: option.splits sum.splits gssContext.splits if_splits)
  done

lemma keeps_bad_on_error [keeps_intros]: "keeps same_identity m \<Longrightarrow> keeps same_identity (bad_on_error m)"
  unfolding bad_on_error_def by (intro keeps_intros)

lemma net_write_identity: "net_write d c = (x, c') \<Longrightarrow> same_identity c c'"
  by (auto simp: net_write_def same_identity_def Let_def split: list.splits)

lemma keeps_writeLanMessageRaw [keeps_intros]: "keeps same_identity (writeLanMessageRaw d)"
  by (auto simp: keeps_def writeLanMessageRaw_def fail_def ret_def markUnusable_def same_identity_def
      split: prod.splits option.splits if_splits dest: net_write_identity)

lemma keeps_transmit [keeps_intros]: "keeps same_identity (transmit E enc o' n b)"
  unfolding transmit_def by (intro keeps_intros)

lemma keeps_writeLanMessage [keeps_intros]: "keeps same_identity (writeLanMessage E h ps)"
proof (unfold keeps_def, intro allI impI)
  fix c r c' assume w: "writeLanMessage E h ps c = Some (r, c')"
  show "same_identity c c'"
  proof (cases "usable c")
    case True
    then obtain enc o' n b wb where "transmit E enc o' n b (c\<lparr>cn_writeBuffer := wb\<rparr>) = Some (r, c')"
      using w by (auto simp: writeLanMessage_def Let_def elim!: bind_SomeE)
    then show ?thesis using keeps_transmit [of E enc o' n b] by (force simp: keeps_def same_identity_def)
  qed (use w in \<open>auto simp: writeLanMessage_def fail_def same_identity_def\<close>)
qed

lemma keeps_withNonce [keeps_intros]: "keeps same_identity (withNonce h)"
  unfolding withNonce_def by (intro keeps_intros)

lemma keeps_openBody [keeps_intros]: "keeps same_identity (openBody E d h)"
  unfolding openBody_def Let_def by (intro keeps_intros)

lemma keeps_const [keeps_intros]: "keeps same_identity (\<lambda>c. Some (x, c))"
  by (auto simp: keeps_def same_identity_def)

lemma keeps_readLanMessage [keeps_intros]: "keeps same_identity (readLanMessage E)"
  unfolding readLanMessage_def readLanMessageRaw_def readLanMessageRawInto_def case_prod_beta
  by (intro keeps_intros identity.modify) (auto simp: same_identity_def)

lemma keeps_headers [keeps_intros]: "keeps same_identity newLanHeaderConnect" "keeps same_identity newLanHeaderLogoff"
  unfolding header_defs by (intro keeps_intros)+

lemma keeps_exchange [keeps_intros]: "keeps same_identity (td2_handshake E)" "keeps same_identity (td2Tls_handshake E)"
  unfolding td2_handshake_def td2Tls_handshake_def openExchange_def ssoHeader_def case_prod_beta
  by (intro keeps_intros identity.modify; simp add: same_identity_def)+

lemma keeps_keyRound [keeps_intros]: "keeps same_identity (keyRound E flags r draws)"
  unfolding keyRound_def sendClientKey_def ssoHeader_def case_prod_beta by (intro keeps_intros)

lemma keeps_keyLoop [keeps_intros]: "keeps same_identity (keyLoop E attmpt flags r draws)"
proof -
  have "same_identity c (snd y)" if "keyLoop E attmpt flags r draws c = Some y" for c y
  proof (rule keyLoop.raw_induct [where P = "\<lambda>E attmpt flags r draws c y. same_identity c (snd y)", OF _ that])
    fix f :: "env \<Rightarrow> int \<Rightarrow> u32 \<Rightarrow> bufferReader \<Rightarrow> nat list \<Rightarrow> teradataConnection \<Rightarrow> ((goerror + unit) \<times> teradataConnection) option"
      and E attmpt flags r draws c y
    assume IH: "\<And>E attmpt flags r draws c y. f E attmpt flags r draws c = Some y \<Longrightarrow> same_identity c (snd y)"
      and eq: "keyRound E flags r draws c \<bind> (\<lambda>(x, c). case x of Inl err \<Rightarrow> Some (Inl err, c)
        | Inr y \<Rightarrow> if so_code (fst y) = 1 then Some (Inr (), c)
            else if attmpt > 5 then Some (Inl ErrNoSecureChannel, c) else f E attmpt flags r (snd y) c) = Some y"
    obtain x c1 where x: "keyRound E flags r draws c = Some (x, c1)" using eq by (auto elim: bind_SomeE)
    then have s: "same_identity c c1" using keeps_keyRound [of E flags r draws] by (auto simp: keeps_def)
    show "same_identity c (snd y)"
      using eq x s IH [of E attmpt flags r _ c1] identity.trans [OF s] by (auto split: sum.splits if_splits)
  qed
  then show ?thesis by (auto simp: keeps_def)
qed

lemma keeps_handshake [keeps_intros]: "keeps same_identity (handshake E draws)"
  unfolding handshake_def configHandshake_def td2_establishSecureChannel_def td2Tls_establishSecureChannel_def
    case_prod_beta Let_def
  by (intro keeps_intros identity.modify; (simp add: same_identity_def | intro conjI)?)

lemma keeps_authenticate [keeps_intros]: "keeps same_identity (authenticate E sys)"
  unfolding authenticate_def baseAuthenticate_def setMode_def case_prod_beta
  by (intro keeps_intros identity.modify) (auto simp: same_identity_def)

lemma keeps_logoff [keeps_intros]: "keeps same_identity (logoff E)"
  unfolding logoff_def by (intro keeps_intros)

lemma closeSocket_closed: "closeSocket c = Some (r, c') \<Longrightarrow> cn_socketClosed c'"
  by (auto simp: closeSocket_def split: option.splits)

lemma Close_closes:
  assumes "\<not> cn_closed c" "Close E c = Some (r, c')"
  shows "cn_socketClosed c'"
  using assms
  by (auto simp: Close_def bnd_def gets_def modify_def attempt_def fail_def dest: closeSocket_closed
      split: option.splits sum.splits if_splits)

lemma attempt_SomeE:
  assumes "attempt m f c = Some y"
  obtains r c1 where "m c = Some (r, c1)" "f r c1 = Some y"
  using assms by (cases "m c") (auto simp: attempt_def)

lemma attempt_Close_fails:
  assumes "attempt (Close E) (\<lambda>_. fail err) c = Some (x, c')" "\<not> cn_closed c"
  shows "x = Inl err \<and> cn_socketClosed c'"
  using assms(1) by (rule attempt_SomeE) (auto simp: fail_def dest: Close_closes [OF assms(2)])

lemma loginOrClose_open:
  assumes "keeps same_identity auth" "\<not> cn_closed c" "\<not> cn_socketClosed c"
    and l: "loginOrClose E draws auth c = Some (x, c')"
  shows "case x of Inl _ \<Rightarrow> cn_socketClosed c' | Inr _ \<Rightarrow> \<not> cn_socketClosed c'"
proof -
  obtain h c1 where h: "handshake E draws c = Some (h, c1)"
    and r: "(case h of Inl err \<Rightarrow> attempt (Close E) (\<lambda>_. fail err)
      | Inr ok \<Rightarrow> attempt auth (\<lambda>y. case y of
          Inl err \<Rightarrow> attempt (Close E) (\<lambda>_. fail err) | Inr u \<Rightarrow> ret u)) c1 = Some (x, c')"
    using l unfolding loginOrClose_def by (rule attempt_SomeE)
  have c1: "\<not> cn_closed c1" "\<not> cn_socketClosed c1"
    using keepsD [OF keeps_handshake h] assms(2,3) by (simp_all add: same_identity_def)
  show ?thesis
  proof (cases h)
    case (Inl err)
    then have "attempt (Close E) (\<lambda>_. fail err) c1 = Some (x, c')" using r by simp
    from attempt_Close_fails [OF this c1(1)] show ?thesis by (elim conjE) simp
  next
    case (Inr ok)
    then have "attempt auth (\<lambda>y. case y of
          Inl err \<Rightarrow> attempt (Close E) (\<lambda>_. fail err) | Inr u \<Rightarrow> ret u) c1 = Some (x, c')" using r by simp
    then obtain y c2 where y: "auth c1 = Some (y, c2)"
      and r2: "(case y of Inl err \<Rightarrow> attempt (Close E) (\<lambda>_. fail err) | Inr u \<Rightarrow> ret u) c2 = Some (x, c')"
      by (rule attempt_SomeE)
    have c2: "\<not> cn_closed c2" "\<not> cn_socketClosed c2"
      using keepsD [OF assms(1) y] c1 by (simp_all add: same_identity_def)
    show ?thesis
    proof (cases y)
      case (Inl err)
      then have "attempt (Close E) (\<lambda>_. fail err) c2 = Some (x, c')" using r2 by simp
      from attempt_Close_fails [OF this c2(1)] show ?thesis by (elim conjE) simp
    next
      case (Inr u)
      then have "ret () c2 = Some (x, c')" using r2 by simp
      then show ?thesis using c2(2) by (auto simp: ret_def)
    qed
  qed
qed

section \<open>The rotation\<close>

text \<open>The reference: dial a list of addresses in order until one answers.\<close>

fun dialAll :: "network \<Rightarrow> int \<Rightarrow> goerror \<Rightarrow> string list \<Rightarrow> (string \<times> int) list
    \<Rightarrow> (goerror + string \<times> link) \<times> (string \<times> int) list" where
  "dialAll net port err [] dials = (Inl err, dials)"
| "dialAll net port err (ip # ips) dials =
     (case nt_dial net (length dials) ip port of
        Inl e \<Rightarrow> dialAll net port e ips (dials @ [(ip, port)])
      | Inr lk \<Rightarrow> (Inr (ip, lk), dials @ [(ip, port)]))"

lemma dialAll_log: "\<exists>k \<le> length ips. snd (dialAll net port err ips dials) = dials @ map (\<lambda>ip. (ip, port)) (take k ips)
    \<and> (case fst (dialAll net port err ips dials) of Inl _ \<Rightarrow> k = length ips | Inr (ip, _) \<Rightarrow> 0 < k \<and> ip = ips ! (k - 1))"
proof (induction ips arbitrary: err dials)
  case (Cons ip ips)
  show ?case
  proof (cases "nt_dial net (length dials) ip port")
    case (Inl e)
    obtain k where "k \<le> length ips"
      "snd (dialAll net port e ips (dials @ [(ip, port)])) = (dials @ [(ip, port)]) @ map (\<lambda>ip. (ip, port)) (take k ips)"
      "case fst (dialAll net port e ips (dials @ [(ip, port)])) of Inl _ \<Rightarrow> k = length ips | Inr (ip, _) \<Rightarrow> 0 < k \<and> ip = ips ! (k - 1)"
      using Cons.IH [of e "dials @ [(ip, port)]"] by auto
    then show ?thesis using Inl by (intro exI [of _ "Suc k"]) (auto split: sum.splits)
  next
    case (Inr lk)
    then show ?thesis by (intro exI [of _ 1]) simp
  qed
qed simp

lemma dialLoop_from:
  assumes "s < length ips" "j < length ips"
  shows "dialLoop net ips port s ((s + j) mod length ips) dials = Some (dialAll net port e (drop j (rotate s ips)) dials)"
  using assms(2)
proof (induction "length ips - j" arbitrary: j dials e rule: less_induct)
  case less
  let ?n = "length ips" and ?r = "(s + j) mod length ips"
  have ip: "index ips (int ?r) = Some (rotate s ips ! j)"
  proof -
    have "?r < ?n" using less.prems by (intro mod_less_divisor) auto
    then show ?thesis using less.prems by (simp add: index_def nth_rotate)
  qed
  have d: "drop j (rotate s ips) = rotate s ips ! j # drop (Suc j) (rotate s ips)"
    using less.prems by (simp add: Cons_nth_drop_Suc)
  have m: "(?r + 1) mod ?n = (s + Suc j) mod ?n" by (simp add: mod_Suc_eq)
  show ?case
  proof (cases "nt_dial net (length dials) (rotate s ips ! j) port")
    case (Inr lk)
    then show ?thesis using d ip by (subst dialLoop.simps) simp
  next
    case (Inl err)
    show ?thesis
    proof (cases "Suc j < ?n")
      case True
      have ne: "(s + Suc j) mod ?n \<noteq> s"
      proof (cases "s + Suc j < ?n")
        case False
        then have "(s + Suc j) mod ?n = s + Suc j - ?n" using True assms(1) by (simp add: le_mod_geq)
        moreover have "s + Suc j - ?n \<noteq> s" using True False by linarith
        ultimately show ?thesis by simp
      qed simp
      then show ?thesis
        using d ip Inl less.hyps [of "Suc j" "dials @ [(rotate s ips ! j, port)]" err] True m less.prems
        by (subst dialLoop.simps) (simp add: Let_def)
    next
      case False
      then have "Suc j = ?n" using less.prems by simp
      then have "(s + Suc j) mod ?n = s" using assms(1) by simp
      then show ?thesis using d ip Inl m False by (subst dialLoop.simps) (simp add: Let_def)
    qed
  qed
qed

section \<open>What connecting leaves behind\<close>

lemma dialLoop_start: "dialLoop net ips port s s dials = Some y \<Longrightarrow> s < length ips \<and> y = dialAll net port e (rotate s ips) dials"
proof -
  assume d: "dialLoop net ips port s s dials = Some y"
  then have s: "s < length ips"
    by (subst (asm) dialLoop.simps) (auto simp: index_def elim!: bind_SomeE split: if_splits)
  then have "ips \<noteq> []" "(s + 0) mod length ips = s" by auto
  then show ?thesis using s d dialLoop_from [OF s, of 0 net port dials e] by simp
qed

lemma keeps_upgradeWebSocket: "keeps same_identity (upgradeWebSocket token)"
proof (unfold keeps_def, intro allI impI)
  fix c r c' assume w: "upgradeWebSocket token c = Some (r, c')"
  show "same_identity c c'"
  proof (cases token)
    case (Some tok)
    obtain n err c1 where n: "net_write (str_bytes (upgradeRequest (cn_remoteHost c) tok)) c = ((n, err), c1)"
      by (metis prod.exhaust)
    have "same_identity c1 c'"
      using w n Some by (auto simp: upgradeWebSocket_def fail_def ret_def same_identity_def Let_def
          elim!: bind_SomeE split: if_splits prod.splits)
    then show ?thesis using net_write_identity [OF n] identity.trans by blast
  qed (use w in \<open>auto simp: upgradeWebSocket_def fail_def same_identity_def\<close>)
qed

lemma upgrade_identity:
  assumes "upgrade lk conn = Some (Inr c')"
  shows "same_identity (conn\<lparr>cn_isTlsConn := True\<rparr>) c'"
proof -
  obtain cs ss where t: "lk_tls lk = Inr (cs, ss)" using assms by (cases "lk_tls lk") (auto simp: upgrade_def)
  let ?c = "conn\<lparr>cn_script := cs, cn_sends := ss\<rparr>"
  obtain x c1 where u: "upgradeWebSocket (lk_token lk) ?c = Some (x, c1)"
    and x: "(case x of Inl err \<Rightarrow> Inl err | Inr _ \<Rightarrow> Inr (c1\<lparr>cn_isTlsConn := True\<rparr>)) = Inr c'"
    using assms t by (auto simp: upgrade_def elim!: bind_SomeE)
  have "c' = c1\<lparr>cn_isTlsConn := True\<rparr>" using x by (cases x) simp_all
  then show ?thesis using keepsD [OF keeps_upgradeWebSocket u] by (simp add: same_identity_def)
qed

definition usesTls :: "Config \<Rightarrow> bool \<Rightarrow> bool" where
  "usesTls config fb \<longleftrightarrow> useTls config \<and> \<not> fb"

definition portFor :: "Config \<Rightarrow> bool \<Rightarrow> int" where
  "portFor config fb = (if usesTls config fb then cfg_SSLPort config else cfg_Port config)"

definition fresh_conn :: "Config \<Rightarrow> bool \<Rightarrow> teradataConnection \<Rightarrow> bool" where
  "fresh_conn config fb conn \<longleftrightarrow> \<not> cn_closed conn \<and> \<not> cn_socketClosed conn \<and> cn_config conn = config
     \<and> (cn_isTlsConn conn \<longleftrightarrow> usesTls config fb) \<and> cn_remotePort conn = portFor config fb"

text \<open>The dials an attempt adds go to one port, and the sockets it leaves open are the one it returns.\<close>

definition dialled :: "int \<Rightarrow> teradataConnector \<Rightarrow> teradataConnector \<Rightarrow> bool" where
  "dialled port c c' \<longleftrightarrow> ctr_config c' = ctr_config c
     \<and> (\<exists>new. ctr_dials c' = ctr_dials c @ new \<and> (\<forall>d \<in> set new. snd d = port))"

lemma dialled_refl: "dialled port c c"
  by (simp add: dialled_def)

lemma dialled_trans: "dialled port c d \<Longrightarrow> dialled port d e \<Longrightarrow> dialled port c e"
  by (fastforce simp: dialled_def)

interpretation dialling: kept_relation "dialled port" for port
  by unfold_locales (rule dialled_refl, erule (1) dialled_trans)

lemma dial_dialled:
  assumes "dial net port c = Some (x, c')"
  shows "dialled port c c' \<and> ctr_open c' = ctr_open c + (case x of Inr (Inr _) \<Rightarrow> 1 | _ \<Rightarrow> 0) \<and> (\<exists>y. x = Inr y)"
proof -
  obtain s y dials where l: "dialLoop net (ctr_discoveredIps c) port s s (ctr_dials c) = Some (y, dials)"
    "x = Inr y" "c' = c\<lparr>ctr_dials := dials, ctr_open := ctr_open c + (case y of Inl _ \<Rightarrow> 0 | Inr _ \<Rightarrow> 1)\<rparr>"
    using assms by (auto simp: dial_def ret_def Let_def elim!: bind_SomeE)
  have "(y, dials) = dialAll net port EOF (rotate s (ctr_discoveredIps c)) (ctr_dials c)"
    using dialLoop_start [OF l(1)] by blast
  then have "\<exists>k. dials = ctr_dials c @ map (\<lambda>ip. (ip, port)) (take k (rotate s (ctr_discoveredIps c)))"
    using dialAll_log [of "rotate s (ctr_discoveredIps c)" net port EOF "ctr_dials c"] by (metis snd_conv)
  then show ?thesis using l(2,3) by (auto simp: dialled_def split: sum.splits)
qed

lemma ensureIps_dialled:
  "ensureIps net c = Some (x, c') \<Longrightarrow> dialled port c c' \<and> ctr_open c' = ctr_open c"
  by (auto simp: ensureIps_def dialled_def fail_def ret_def Let_def elim!: bind_SomeE split: sum.splits if_splits)

lemma bnd_SomeE:
  assumes "bnd m f c = Some (y, c')"
  obtains (err) e where "m c = Some (Inl e, c')" "y = Inl e"
  | (ok) x c1 where "m c = Some (Inr x, c1)" "f x c1 = Some (y, c')"
  using assms by (auto simp: bnd_def split: option.splits sum.splits)

lemma finishConnect_leaves:
  assumes "finishConnect net cfg (usesTls cfg fb) (portFor cfg fb) y c = Some (x, c')"
  shows "dialled port c c'
    \<and> ctr_open c' + (case y of Inl _ \<Rightarrow> 0 | Inr _ \<Rightarrow> 1) = ctr_open c + (case x of Inr (Some _) \<Rightarrow> 1 | _ \<Rightarrow> 0)
    \<and> (case x of Inl _ \<Rightarrow> True | Inr None \<Rightarrow> usesTls cfg fb \<and> allowTlsFallback cfg
       | Inr (Some conn) \<Rightarrow> fresh_conn cfg fb conn)"
proof (cases y)
  case (Inl e)
  then show ?thesis using assms by (auto simp: finishConnect_def ret_def fail_def dialled_refl split: if_splits)
next
  case (Inr p)
  obtain ip lk where p: "p = (ip, lk)" by (cases p)
  let ?conn = "newConn cfg ip (portFor cfg fb) lk"
  show ?thesis
  proof (cases "usesTls cfg fb")
    case False
    then show ?thesis using assms Inr p
      by (auto simp: finishConnect_def ret_def fresh_conn_def newConn_def dialled_refl)
  next
    case True
    then obtain z where z: "upgrade lk ?conn = Some z"
      using assms Inr p by (cases "upgrade lk ?conn") (auto simp: finishConnect_def bnd_def pure_def)
    show ?thesis
    proof (cases z)
      case (Inl e)
      then show ?thesis using True z assms Inr p
        by (auto simp: finishConnect_def bnd_def pure_def closeRaw_def modify_def ret_def fail_def dialled_def split: if_splits)
    next
      case conn: (Inr conn)
      then have "fresh_conn cfg fb conn"
        using upgrade_identity [of lk ?conn conn] z True by (simp add: same_identity_def fresh_conn_def newConn_def)
      then show ?thesis using True z assms Inr p conn
        by (auto simp: finishConnect_def bnd_def pure_def ret_def dialled_refl)
    qed
  qed
qed

lemma connectOnce_leaves:
  assumes "connectOnce net fb c = Some (x, c')"
  shows "dialled (portFor (ctr_config c) fb) c c'
    \<and> ctr_open c' = ctr_open c + (case x of Inr (Some _) \<Rightarrow> 1 | _ \<Rightarrow> 0)
    \<and> (case x of Inl _ \<Rightarrow> True | Inr None \<Rightarrow> usesTls (ctr_config c) fb \<and> allowTlsFallback (ctr_config c)
       | Inr (Some conn) \<Rightarrow> fresh_conn (ctr_config c) fb conn)"
proof -
  let ?cfg = "ctr_config c" and ?port = "portFor (ctr_config c) fb"
  from assms show ?thesis
    unfolding connectOnce_def
  proof (cases rule: bnd_SomeE)
    case (err e)
    then show ?thesis using ensureIps_dialled [OF err(1)] by simp
  next
    case (ok u c1)
    have c1: "dialled ?port c c1" "ctr_open c1 = ctr_open c" "ctr_config c1 = ?cfg"
      using ensureIps_dialled [OF ok(1)] by (auto simp: dialled_def)
    have "bnd (dial net ?port) (finishConnect net ?cfg (usesTls ?cfg fb) ?port) c1 = Some (x, c')"
      using ok(2) c1(3) unfolding portFor_def usesTls_def by (simp add: bnd_def [of "gets ctr_config"] gets_def Let_def)
    then show ?thesis
    proof (cases rule: bnd_SomeE)
      case (err e)
      then show ?thesis using dial_dialled [OF err(1)] by simp
    next
      case d: (ok y c2)
      note dl = dial_dialled [OF d(1)] and fl = finishConnect_leaves [OF d(2), of ?port]
      have "dialled ?port c c'"
        using c1(1) dialled_trans [OF dialled_trans] dl [THEN conjunct1] fl [THEN conjunct1] by blast
      moreover have "ctr_open c' = ctr_open c + (case x of Inr (Some _) \<Rightarrow> 1 | _ \<Rightarrow> 0)"
        using dl [THEN conjunct2, THEN conjunct1] fl [THEN conjunct2, THEN conjunct1] c1(2)
        by (cases y) simp_all
      ultimately show ?thesis using fl by blast
    qed
  qed
qed

text \<open>Falling back is the one way an attempt is made in clear text when TLS is wanted.\<close>

lemma connect_leaves:
  assumes "connect net fb c = Some (x, c')"
  shows "ctr_config c' = ctr_config c \<and> ctr_open c' = ctr_open c + (case x of Inr _ \<Rightarrow> 1 | Inl _ \<Rightarrow> 0)
    \<and> (case x of Inr conn \<Rightarrow> (\<exists>fb'. fresh_conn (ctr_config c) fb' conn) | Inl _ \<Rightarrow> True)
    \<and> (\<not> allowTlsFallback (ctr_config c) \<longrightarrow> dialled (portFor (ctr_config c) fb) c c'
        \<and> (case x of Inr conn \<Rightarrow> fresh_conn (ctr_config c) fb conn | Inl _ \<Rightarrow> True))"
proof -
  let ?P = "\<lambda>net fb c y. ctr_config (snd y) = ctr_config c
    \<and> ctr_open (snd y) = ctr_open c + (case fst y of Inr _ \<Rightarrow> 1 | Inl _ \<Rightarrow> 0)
    \<and> (case fst y of Inr conn \<Rightarrow> (\<exists>fb'. fresh_conn (ctr_config c) fb' conn) | Inl _ \<Rightarrow> True)
    \<and> (\<not> allowTlsFallback (ctr_config c) \<longrightarrow> dialled (portFor (ctr_config c) fb) c (snd y)
        \<and> (case fst y of Inr conn \<Rightarrow> fresh_conn (ctr_config c) fb conn | Inl _ \<Rightarrow> True))"
  have "?P net fb c (x, c')"
  proof (rule connect.raw_induct [where P = ?P, OF _ assms])
    fix f :: "network \<Rightarrow> bool \<Rightarrow> teradataConnector \<Rightarrow> ((goerror + teradataConnection) \<times> teradataConnector) option"
      and net fb c y
    assume IH: "\<And>net fb c y. f net fb c = Some y \<Longrightarrow> ?P net fb c y"
      and eq: "connectOnce net fb c \<bind> (\<lambda>(x, c). case x of Inl err \<Rightarrow> Some (Inl err, c)
        | Inr None \<Rightarrow> f net True c | Inr (Some conn) \<Rightarrow> Some (Inr conn, c)) = Some y"
    obtain z c1 where z: "connectOnce net fb c = Some (z, c1)" using eq by (auto elim: bind_SomeE)
    note o = connectOnce_leaves [OF z]
    have cfg: "ctr_config c1 = ctr_config c" using o by (simp add: dialled_def)
    show "?P net fb c y"
    proof (cases "z = Inr None")
      case True
      then have "f net True c1 = Some y" using eq z by simp
      from IH [OF this] show ?thesis unfolding cfg using o True by auto
    next
      case False
      then show ?thesis using eq z o cfg by (auto split: sum.splits option.splits)
    qed
  qed
  then show ?thesis by simp
qed

lemma copLoop_finds:
  assumes "\<forall>k < length hs. nt_lookup net (copHost p (n + int k) s) = Some (hs ! k)" "\<forall>h \<in> set hs. h \<noteq> [] \<and> (lst = [] \<or> hd h \<noteq> lst)"
    and "case nt_lookup net (copHost p (n + int (length hs)) s) of Some (ip # _) \<Rightarrow> lst \<noteq> [] \<and> ip = lst | _ \<Rightarrow> True"
  shows "copLoop net p s lst n found = Some (found @ concat hs)"
  using assms
proof (induction hs arbitrary: n found)
  case Nil
  then show ?case by (subst copLoop.simps) (auto split: option.splits list.splits)
next
  case (Cons h hs)
  obtain ip ips where h: "h = ip # ips" using Cons.prems(2) by (cases h) auto
  have l: "nt_lookup net (copHost p n s) = Some h" using Cons.prems(1) by fastforce
  have r: "\<forall>k < length hs. nt_lookup net (copHost p (n + 1 + int k) s) = Some (hs ! k)"
  proof (intro allI impI)
    fix k assume "k < length hs"
    then show "nt_lookup net (copHost p (n + 1 + int k) s) = Some (hs ! k)"
      using Cons.prems(1) [rule_format, of "Suc k"] by (simp add: algebra_simps)
  qed
  have "copLoop net p s lst (n + 1) (found @ h) = Some ((found @ h) @ concat hs)"
    using Cons.prems(2,3) by (intro Cons.IH r) (simp_all add: algebra_simps)
  then show ?case using l h Cons.prems(2) by (subst copLoop.simps) auto
qed

text \<open>C40: Finding the hosts of a system with COP discovery, for a system with the hosts \<open>cop1\<close> to \<open>cop\<close>\<open>n\<close>, whose
  first addresses differ, where the name \<open>coplast\<close> is that of the last. Without COPLAST all their addresses are
  found in order. With it the search ends before the last host is added: its addresses are never used, and a system
  of one host falls back to the plain host name.\<close>

theorem copDiscovery_skips_last:
  assumes "cut (cfg_Host cfg) (CHR ''.'') = (p, s, b)"
    and "hosts \<noteq> []" "\<forall>k < length hosts. nt_lookup net (copHost p (1 + int k) s) = Some (hosts ! k)"
    and "\<forall>h \<in> set hosts. h \<noteq> [] \<and> hd h \<noteq> []" "distinct (map hd hosts)"
    and "nt_lookup net (copHost p (1 + int (length hosts)) s) = None"
    and "\<exists>more. nt_lookup net (p @ ''coplast.'' @ s) = Some (hd (last hosts) # more)"
  shows "copDiscovery net cfg =
    (let found = concat (if cfg_CopLast cfg then butlast hosts else hosts)
     in Some (if found = [] then lookupDirect net (cfg_Host cfg) else Inr found))"
proof (cases "cfg_CopLast cfg")
  case False
  have "copLoop net p s [] 1 [] = Some ([] @ concat hosts)"
    using assms(3,4,6) by (intro copLoop_finds) simp_all
  then show ?thesis using assms(1) False by (simp add: copDiscovery_def Let_def)
next
  case True
  let ?init = "butlast hosts" and ?last = "last hosts"
  have h: "hosts = ?init @ [?last]" using assms(2) by simp
  have l: "?last \<noteq> []" "hd ?last \<noteq> []" using assms(2,4) by simp_all
  have d: "\<forall>x \<in> set ?init. hd x \<noteq> hd ?last"
  proof -
    have "distinct (map hd ?init @ [hd ?last])" using assms(5) h by (metis list.simps(8,9) map_append)
    then show ?thesis by (auto simp: image_iff)
  qed
  have "nt_lookup net (copHost p (1 + int (length ?init)) s) = Some ?last"
    using assms(2,3) by (simp add: last_conv_nth)
  then have "copLoop net p s (hd ?last) 1 [] = Some ([] @ concat ?init)"
    using assms(3,4) l d in_set_butlastD [of _ hosts]
    by (intro copLoop_finds) (auto simp: nth_butlast split: list.splits)
  then show ?thesis using assms(1,7) True by (auto simp: copDiscovery_def Let_def)
qed

text \<open>C25: The loop over the addresses found dials each of them at most once, in the order of the list rotated to the
  random start, and gives up exactly when all have failed: it is the plain search of the rotated list, and the dials
  it adds are a prefix of that list, the whole of it when it fails.\<close>

theorem dialLoop_rotates:
  assumes "start < length ips"
  shows "\<exists>x k. dialLoop net ips port start start dials = Some (x, dials @ map (\<lambda>ip. (ip, port)) (take k (rotate start ips)))
    \<and> x = fst (dialAll net port EOF (rotate start ips) dials)
    \<and> (case x of Inl _ \<Rightarrow> k = length ips | Inr (ip, _) \<Rightarrow> 0 < k \<and> k \<le> length ips \<and> ip = rotate start ips ! (k - 1))"
proof -
  let ?y = "dialAll net port EOF (rotate start ips) dials"
  have "ips \<noteq> []" "(start + 0) mod length ips = start" using assms by auto
  then have l: "dialLoop net ips port start start dials = Some ?y"
    using assms dialLoop_from [OF assms, of 0 net port dials EOF] by simp
  obtain k where k: "k \<le> length ips" "snd ?y = dials @ map (\<lambda>ip. (ip, port)) (take k (rotate start ips))"
    "case fst ?y of Inl _ \<Rightarrow> k = length ips | Inr (ip, _) \<Rightarrow> 0 < k \<and> ip = rotate start ips ! (k - 1)"
    using dialAll_log [of "rotate start ips" net port EOF dials] unfolding length_rotate by blast
  have "?y = (fst ?y, dials @ map (\<lambda>ip. (ip, port)) (take k (rotate start ips)))"
    using k(2) by (metis prod.collapse)
  then show ?thesis using l k(1,3) by (intro exI [of _ "fst ?y"] exI [of _ k]) (auto split: sum.splits)
qed

text \<open>C9: A configuration whose SSL mode requires TLS never reaches a server in clear text, whatever the network does:
  every dial goes to the TLS port, a connection that is returned has completed the TLS handshake and the WebSocket
  upgrade, and no failure leaves a socket open.\<close>

theorem required_tls_never_clear:
  assumes "\<not> allowTlsFallback (ctr_config c)" "connect net False c = Some (x, c')"
  shows "(\<exists>new. ctr_dials c' = ctr_dials c @ new \<and> list_all (\<lambda>d. snd d = cfg_SSLPort (ctr_config c)) new)
    \<and> (case x of
         Inr conn \<Rightarrow> cn_isTlsConn conn \<and> \<not> cn_socketClosed conn \<and> ctr_open c' = ctr_open c + 1
       | Inl _ \<Rightarrow> ctr_open c' = ctr_open c)"
proof -
  have "usesTls (ctr_config c) False"
    using assms(1) by (simp add: usesTls_def useTls_def allowTlsFallback_def)
  then show ?thesis
    using connect_leaves [OF assms(2)] assms(1)
    by (auto simp: dialled_def fresh_conn_def portFor_def list_all_iff split: sum.splits)
qed

text \<open>C10: Connect leaks no socket: when it returns an error, either no socket was left open by the dials, or the
  connection whose handshake or logon failed has been closed; when it succeeds its connection is the one open
  socket.\<close>

theorem Connect_leaks_no_socket:
  assumes "Connect net E sys draws c = Some (x, conn, c')"
  shows "case x of
      Inl _ \<Rightarrow> (conn = None \<and> ctr_open c' = ctr_open c)
           \<or> (\<exists>d. conn = Some d \<and> cn_socketClosed d \<and> ctr_open c' = ctr_open c + 1)
    | Inr _ \<Rightarrow> \<exists>d. conn = Some d \<and> \<not> cn_socketClosed d \<and> ctr_open c' = ctr_open c + 1"
proof -
  obtain y c1 where y: "connect net False c = Some (y, c1)" using assms by (auto simp: Connect_def elim: bind_SomeE)
  note l = connect_leaves [OF y]
  show ?thesis
  proof (cases y)
    case (Inl e)
    then show ?thesis using assms y l by (auto simp: Connect_def)
  next
    case (Inr d)
    then obtain z d' where z: "loginOrClose E draws (authenticate E sys) d = Some (z, d')" "x = z" "conn = Some d'" "c' = c1"
      using assms y by (auto simp: Connect_def elim!: bind_SomeE)
    have "\<not> cn_closed d" "\<not> cn_socketClosed d" using l Inr by (auto simp: fresh_conn_def)
    from loginOrClose_open [OF keeps_authenticate this z(1)] show ?thesis using z(2-4) l Inr by (auto split: sum.splits)
  qed
qed

declare copLoop.simps [code] dialLoop.simps [code] connect.simps [code]

definition demo_link :: link where
  "demo_link = \<lparr>lk_script = [], lk_sends = [(0, Some (NetErr ''reset''))], lk_closeErr = None,
     lk_tls = Inl (NetErr ''no tls''), lk_token = Some (replicate 16 0)\<rparr>"

definition demo_net :: network where
  "demo_net = \<lparr>nt_lookup = (\<lambda>h. if h = ''tdcop1.x'' then Some [''10.0.0.1''] else if h = ''tdcop2.x'' then Some [''10.0.0.2'']
       else if h = ''tdcoplast.x'' then Some [''10.0.0.2''] else None),
     nt_dial = (\<lambda>k ip port. if k = 0 then Inl NetTimeout else Inr demo_link), nt_rand = (\<lambda>k n. 0), nt_text = (\<lambda>e. ''e'')\<rparr>"

definition demo_sys :: sysInfo where
  "demo_sys = \<lparr>sy_hostname = None, sy_username = None, sy_executable = None, sy_arg0 = ''p'', sy_goVersion = ''go1'',
     sy_goos = ''linux'', sy_goarch = ''amd64'', sy_pid = 1, sy_tzOffset = 0, sy_mem = 0, sy_local = None, sy_pointer = ''0x1''\<rparr>"

definition demo_connector :: "string \<Rightarrow> bool \<Rightarrow> teradataConnector" where
  "demo_connector mode copLast = newConnector (NewConfig\<lparr>cfg_Host := ''td.x'', cfg_SSLMode := mode, cfg_CopLast := copLast\<rparr>)"

theorem copDiscovery_skips_last_witness:
  "copDiscovery demo_net (ctr_config (demo_connector ''DISABLE'' True)) = Some (Inr [''10.0.0.1''])"
proof -
  let ?cfg = "ctr_config (demo_connector ''DISABLE'' True)"
  have c: "cut (cfg_Host ?cfg) (CHR ''.'') = (''td'', ''x'', True)" "cfg_CopLast ?cfg" by code_simp+
  have n: "copHost ''td'' 1 ''x'' = ''tdcop1.x''" "copHost ''td'' 2 ''x'' = ''tdcop2.x''" "copHost ''td'' 3 ''x'' = ''tdcop3.x''"
    by code_simp+
  have l: "\<forall>k < length [[''10.0.0.1''], [''10.0.0.2'']]. nt_lookup demo_net (copHost ''td'' (1 + int k) ''x'') = Some ([[''10.0.0.1''], [''10.0.0.2'']] ! k)"
    using n by (auto simp: demo_net_def less_Suc_eq)
  have e: "nt_lookup demo_net (copHost ''td'' (1 + int (length [[''10.0.0.1''], [''10.0.0.2'']])) ''x'') = None"
    "\<exists>more. nt_lookup demo_net (''td'' @ ''coplast.'' @ ''x'') = Some (hd (List.last [[''10.0.0.1''], [''10.0.0.2'']]) # more)"
    using n by (simp_all add: demo_net_def)
  show ?thesis using copDiscovery_skips_last [OF c(1) _ l _ _ e] c(2) by simp
qed

theorem dialLoop_rotates_witness:
  "\<exists>k. dialLoop demo_net [''a'', ''b''] 1025 1 1 [] = Some (Inr (''a'', demo_link), map (\<lambda>ip. (ip, 1025)) (take k [''b'', ''a'']))"
proof -
  have r: "dialAll demo_net 1025 EOF [''b'', ''a''] [] = (Inr (''a'', demo_link), [(''b'', 1025), (''a'', 1025)])"
    "rotate 1 [''a'', ''b''] = [''b'', ''a'']"
    by (simp_all add: demo_net_def)
  have "1 < length [''a'', ''b'']" by simp
  from dialLoop_rotates [OF this, of demo_net 1025 "[]"] obtain x k
    where "dialLoop demo_net [''a'', ''b''] 1025 1 1 [] = Some (x, [] @ map (\<lambda>ip. (ip, 1025)) (take k [''b'', ''a'']))"
      "x = Inr (''a'', demo_link)"
    unfolding r fst_conv by (elim exE conjE that)
  then show ?thesis by (intro exI [of _ k]) simp
qed

theorem required_tls_never_clear_witness:
  "\<exists>c'. connect demo_net False (demo_connector ''REQUIRE'' False) = Some (Inl (TeradataConnectionError ''e''), c')
    \<and> list_all (\<lambda>d. snd d = 443) (ctr_dials c') \<and> ctr_open c' = 0"
proof -
  let ?c = "demo_connector ''REQUIRE'' False"
  have c: "\<not> allowTlsFallback (ctr_config ?c)" "cfg_SSLPort (ctr_config ?c) = 443" "ctr_dials ?c = []" "ctr_open ?c = 0"
    by code_simp+
  have "connect demo_net False ?c = Some (Inl (TeradataConnectionError ''e''),
      ?c\<lparr>ctr_discoveredIps := [''10.0.0.1'', ''10.0.0.2''], ctr_dials := [(''10.0.0.1'', 443), (''10.0.0.2'', 443)]\<rparr>)"
    by code_simp
  then show ?thesis using required_tls_never_clear [OF c(1)] c(2-4) by auto
qed

lemma writeLanMessage_refused:
  assumes "usable c" "cn_sends c = (0, Some err) # ss" "list_all parcel_ok ps" "wf_lanHeader h" "bodyLength ps < 2 ^ 31"
    and e: "\<not> encrypts c (lh_kind h)"
  shows "\<exists>c'. writeLanMessage E h ps c = Some (Inl err, c') \<and> cn_bad c'"
proof -
  let ?h = "h\<lparr>lh_encrypted := False\<rparr>" let ?n = "52 + bodyLength ps"
  obtain wb where w: "writeLanMessage E h ps c =
    transmit E False (getWsFrameLength (cn_isTlsConn c) ?n) (bodyLength ps)
      (ws_prefix (cn_isTlsConn c) ?n @ lan_image ?h 0 @ parcels_image ps) (c\<lparr>cn_writeBuffer := wb\<rparr>)"
    using writeLanMessage_frame [OF assms(1,3-5), of E thesis] e by simp
  have h: "wf_lanHeader ?h" using assms(4) by (simp add: wf_lanHeader_def)
  have "usable (c\<lparr>cn_writeBuffer := wb\<rparr>)" using assms(1) by (simp add: usable_def)
  then show ?thesis using assms(2)
    by (simp add: w transmit_def bnd_def pure_def putBodyLen_image [OF h length_ws_prefix] writeLanMessageRaw_def
        net_write_def markUnusable_def Let_def)
qed

theorem Connect_leaks_no_socket_witness:
  "\<exists>d c'. Connect demo_net demo_env demo_sys [] (demo_connector ''DISABLE'' False) = Some (Inl (NetErr ''reset''), Some d, c')
    \<and> cn_socketClosed d \<and> ctr_open c' = 1"
proof -
  let ?c = "demo_connector ''DISABLE'' False"
  have o: "ctr_open ?c = 0" by code_simp
  let ?d = "newConn (ctr_config ?c) ''10.0.0.2'' 1025 demo_link"
  have k: "connect demo_net False ?c = Some (Inr ?d, ?c\<lparr>ctr_discoveredIps := [''10.0.0.1'', ''10.0.0.2''],
      ctr_dials := [(''10.0.0.1'', 1025), (''10.0.0.2'', 1025)], ctr_open := 1\<rparr>)"
    by code_simp
  have c: "usable ?d" "cn_sends ?d = (0, Some (NetErr ''reset'')) # []" "\<not> cn_closed ?d" "cn_closeErr ?d = None"
    and e: "\<not> encrypts ?d k" for k
    by (simp_all add: newConn_def usable_def demo_link_def encrypts_def)
  have "int (length staticBytes) < 1000" "int (length tdGssVersion) < 1000" "int (length driverVersion) < 1000"
    by code_simp+
  then have p: "list_all parcel_ok [ClientConfigParcel n]" "bodyLength [ClientConfigParcel n] < 2 ^ 31" for n
    by (auto simp: bodyLength_def clientConfig_getLength_def parcelHeaderLen_def)
  have w: "wf_lanHeader (zeroLanHeader\<lparr>lh_version := 3, lh_kind := lanHeaderTypeCfg, lh_byteVar := 7, lh_hostCharSet := 0xFF\<rparr>)"
    by (simp add: wf_lanHeader_def zeroLanHeader_def)
  obtain d where d: "writeLanMessage demo_env
      (zeroLanHeader\<lparr>lh_version := 3, lh_kind := lanHeaderTypeCfg, lh_byteVar := 7, lh_hostCharSet := 0xFF\<rparr>)
      [ClientConfigParcel (cfg_redriveLevel (cn_config ?d))] ?d = Some (Inl (NetErr ''reset''), d)" "cn_bad d"
    using writeLanMessage_refused [OF c(1,2) p(1) w p(2) e] by blast
  then have h: "handshake demo_env [] ?d = Some (Inl (NetErr ''reset''), d)"
    by (simp add: handshake_def configHandshake_def bnd_def gets_def)
  have d: "cn_bad d" "\<not> cn_closed d" "cn_closeErr d = None"
    using d(2) keepsD [OF keeps_handshake h] c(3,4) by (simp_all add: same_identity_def)
  have "loginOrClose demo_env [] (authenticate demo_env demo_sys) ?d = Some (Inl (NetErr ''reset''), d\<lparr>cn_closed := True, cn_socketClosed := True\<rparr>)"
    using h d by (simp add: loginOrClose_def attempt_def Close_def bnd_def gets_def modify_def closeSocket_def fail_def)
  then have r: "Connect demo_net demo_env demo_sys [] ?c = Some (Inl (NetErr ''reset''), Some (d\<lparr>cn_closed := True,
      cn_socketClosed := True\<rparr>), ?c\<lparr>ctr_discoveredIps := [''10.0.0.1'', ''10.0.0.2''],
      ctr_dials := [(''10.0.0.1'', 1025), (''10.0.0.2'', 1025)], ctr_open := 1\<rparr>)"
    unfolding Connect_def k by simp
  show ?thesis using Connect_leaks_no_socket [OF r] o r by auto
qed

end
