(* ===== verification/FastLoadQuery.thy ===== *)
theory FastLoadQuery
  imports Connector RowSet FastLoadChannel
begin

text \<open>
  The SQL of a bulk load, src/fastload_query.go: the statements that begin it, and the reading of the two error
  tables it leaves behind. Types of src/fastload.go.
\<close>

section \<open>Statements\<close>

fun joinWith :: "string \<Rightarrow> string list \<Rightarrow> string" where
  "joinWith sep [] = []"
| "joinWith sep [s] = s"
| "joinWith sep (s # t # ts) = s @ sep @ joinWith sep (t # ts)"

definition buildFastLoadInsertStatement :: "string \<Rightarrow> string \<Rightarrow> string list \<Rightarrow> string" where
  "buildFastLoadInsertStatement database table columns =
     ''INSERT INTO '' @ database @ ''.'' @ table @ '' ('' @ joinWith '','' columns @ '') VALUES (''
     @ joinWith '','' (map (\<lambda>_. ''?'') columns) @ '')''"

text \<open>The loop over the parameter markers: for each the name of its column, its type and its size.\<close>

definition usingName :: "metaItem \<Rightarrow> string \<Rightarrow> string" where
  "usingName item column =
     (case item of MetaFull _ m \<Rightarrow> if m_columnOrParamName m \<noteq> [] then m_columnOrParamName m else column | _ \<Rightarrow> column)"

fun usingColumns ::
  "connectionCapabilities \<Rightarrow> (metaItem \<times> string) list \<Rightarrow> goerror + (string \<times> string \<times> u64) list" where
  "usingColumns caps [] = Inr []"
| "usingColumns caps ((item, column) # items) =
     (case fastLoadUsingType item caps of
        Inl err \<Rightarrow> Inl (Errorf ''%w: column %d: %w'' [ErrFastLoadUnsupported, err])
      | Inr (dbType, sz) \<Rightarrow>
          (case usingColumns caps items of
             Inl err \<Rightarrow> Inl err
           | Inr cols \<Rightarrow> Inr ((usingName item column, dbType, sz) # cols)))"

definition quoted :: "string \<Rightarrow> string" where "quoted s = [CHR 0x22] @ s @ [CHR 0x22]"

definition buildFastLoadUsingInsert ::
  "string \<Rightarrow> string \<Rightarrow> string list \<Rightarrow> statementInfo option \<Rightarrow> connectionCapabilities \<Rightarrow> goerror + string" where
  "buildFastLoadUsingInsert database table columns info caps =
     (case info of
        None \<Rightarrow> Inl (Errorf ''%w: no statement info for prepared insert'' [ErrFastLoadUnsupported])
      | Some si \<Rightarrow>
          let items = paramMarkerMetaItems si
          in if length items \<noteq> length columns
             then Inl (Errorf ''%w: expected %d parameter markers, got %d'' [ErrFastLoadUnsupported])
             else case usingColumns caps (zip items columns) of
                    Inl err \<Rightarrow> Inl err
                  | Inr cols \<Rightarrow>
                      let rowBytes = fold (\<lambda>(_, _, sz) n. n + sz) cols (word_of_nat ((length items + 1 + 7) div 8 + 4) :: u64)
                      in if rowBytes > 64000
                         then Inl (Errorf ''%w: potential row data size of %d bytes exceeds 64000 bytes'' [ErrFastLoadUnsupported])
                         else Inr (''USING ''
                           @ joinWith '','' (map (\<lambda>(c, t, _). quoted (''F_'' @ c) @ '' ('' @ t @ '')'') cols)
                           @ '', '' @ quoted ''RowNumber'' @ '' (INTEGER)''
                           @ '' INSERT INTO '' @ database @ ''.'' @ table @ '' (''
                           @ joinWith '','' (map (\<lambda>(c, _, _). quoted c) cols) @ '') VALUES (''
                           @ joinWith '','' (map (\<lambda>(c, _, _). '':'' @ quoted (''F_'' @ c)) cols) @ '')''))"

section \<open>Error tables\<close>

record fastLoadErrorRow =
  er_RowNumber :: int
  er_ErrorCode :: int
  er_Column :: string

text \<open>\<open>fastLoadInt64\<close>: a number out of range is the nearest one, and not ok.\<close>

fun fastLoadInt64 :: "gvalue \<Rightarrow> int \<times> bool" where
  "fastLoadInt64 (V_int64 n) = (sint n, True)"
| "fastLoadInt64 (V_int32 n) = (sint n, True)"
| "fastLoadInt64 (V_int16 n) = (sint n, True)"
| "fastLoadInt64 (V_int8 n) = (sint n, True)"
| "fastLoadInt64 (V_int n) = (sint n, True)"
| "fastLoadInt64 (V_string s) =
     (case parse_int (trimSpace s) of
        None \<Rightarrow> (0, False)
      | Some i \<Rightarrow> if int64_range i then (i, True) else (if i < 0 then - (2 ^ 63) else 2 ^ 63 - 1, False))"
| "fastLoadInt64 _ = (0, False)"

definition errorRow :: "gvalue list \<Rightarrow> fastLoadErrorRow" where
  "errorRow dest =
     \<lparr>er_RowNumber = (case dest ! 2 of V_bytes rn \<Rightarrow> if length rn = 4 then sint (u32_of rn) else 0 | _ \<Rightarrow> 0),
      er_ErrorCode = (case fastLoadInt64 (dest ! 0) of (code, ok) \<Rightarrow> if ok then code else 0),
      er_Column = (case dest ! 1 of V_string field \<Rightarrow> trimPrefix (trimSpace field) ''F_'' | _ \<Rightarrow> [])\<rparr>"

text \<open>The loop over the rows; the rows read so far are returned with an error that ends it.\<close>

partial_function (option) errorRows ::
  "env \<Rightarrow> gvalue list \<Rightarrow> fastLoadErrorRow list \<Rightarrow> tdRowData \<times> teradataStatement \<times> teradataConnection
     \<Rightarrow> ((goerror + fastLoadErrorRow list \<times> goerror option) \<times> tdRowData \<times> teradataStatement \<times> teradataConnection) option"
where
  "errorRows E dest out s = do {
     (r, s) \<leftarrow> Next E dest s;
     case r of
       Inl err \<Rightarrow> Some (Inr (out, if err = EOF then None else Some err), s)
     | Inr dest \<Rightarrow> errorRows E dest (out @ [errorRow dest]) s }"

definition errorTableQuery :: "string \<Rightarrow> string" where
  "errorTableQuery table =
     ''LOCKING '' @ table @ '' FOR ACCESS SELECT ErrorCode, ErrorFieldName''
     @ '', CAST(SUBSTRING(DataParcel FROM BYTES(DataParcel) - 3 FOR 4) AS BYTE(4)) AS RowNumber''
     @ '' FROM '' @ table @ '' ORDER BY RowNumber''"

definition readFastLoadErrorTable1 ::
  "(u64 \<Rightarrow> string) \<Rightarrow> env \<Rightarrow> goContext \<Rightarrow> string \<Rightarrow> (fastLoadErrorRow list \<times> goerror option) act" where
  "readFastLoadErrorTable1 fmt E ctx table =
     attempt (prepare E (errorTableQuery table)) (\<lambda>x.
     case x of
       Inl err \<Rightarrow> ret ([], if isTeradataErrorCode err 3807 then None else Some err)
     | Inr stmt \<Rightarrow>
         with_object stmt
           (attempt (QueryContext fmt E ctx []) (\<lambda>y.
            bnd (case y of
                   Inl err \<Rightarrow> ret ([], Some err)
                 | Inr rows \<Rightarrow>
                     with_object rows
                       (bnd (errorRows E [V_nil, V_nil, V_nil] []) (\<lambda>res.
                        attempt (rows_Close E) (\<lambda>_. ret res)))) (\<lambda>res.
            attempt (stmt_Close E) (\<lambda>_. ret res)))))"

definition countFastLoadErrorTable :: "env \<Rightarrow> string \<Rightarrow> int act" where
  "countFastLoadErrorTable E table =
     attempt (execSessionQuery E (''LOCKING '' @ table @ '' FOR ACCESS SELECT COUNT(*) FROM '' @ table)) (\<lambda>x.
     case x of
       Inl err \<Rightarrow> if isTeradataErrorCode err 3807 then ret 0 else fail err
     | Inr [] \<Rightarrow> ret 0
     | Inr (v # _) \<Rightarrow> ret (fst (fastLoadInt64 v)))"

end
