(* ===== verification/FastLoadSession.thy ===== *)
theory FastLoadSession
  imports FastLoadQuery
begin

text \<open>
  A data session of a bulk load with its connection, src/fastload_data_channel.go, run by one goroutine's calls:
  the methods as computations in which the sender works when the caller waits for it. They are runs of the
  interleaving model of FastLoadChannel.
\<close>

section \<open>Sending a batch\<close>

record dataSession =
  ds_chan :: fastLoadDataChannel
  ds_conn :: teradataConnection
  ds_closeErr :: "goerror option"

type_synonym 'a ds_act = "(dataSession, 'a) comp"

definition sendBatchIO :: "env \<Rightarrow> fastLoadBatch \<Rightarrow> u64 act" where
  "sendBatchIO E b =
     bnd newLanHeaderStart (\<lambda>header.
     bnd (writeLanMessage E header [FastLoadRowsParcel (batch_body b), fastLoadRespondParcel]) (\<lambda>_.
     bnd (readLanMessage E) (\<lambda>(parcels, _).
     ret (case activityCountFromStatusParcels parcels of Some n \<Rightarrow> n | None \<Rightarrow> 0))))"

definition on_chan :: "(fastLoadDataChannel \<Rightarrow> fastLoadDataChannel) \<Rightarrow> unit ds_act" where
  "on_chan f = modify (\<lambda>s. s\<lparr>ds_chan := f (ds_chan s)\<rparr>)"

text \<open>The body of the loop in \<open>run\<close>, for the batch it has taken; the exchange is skipped after a failure.\<close>

definition exchange :: "env \<Rightarrow> fastLoadBatch \<Rightarrow> unit ds_act" where
  "exchange E b s =
     (let c = ds_chan s in
      if dc_err c \<noteq> None then ret () s
      else do {
        (x, d) \<leftarrow> sendBatchIO E b (ds_conn s);
        let c = (case x of
                   Inr n \<Rightarrow> c\<lparr>dc_sent := dc_sent c @ batch_body b, dc_rowsAccepted := dc_rowsAccepted c + n\<rparr>
                 | Inl e \<Rightarrow> (case sendBatch_failed e c of
                               (err, c') \<Rightarrow> setFailure err (c'\<lparr>dc_sent := dc_sent c @ batch_body b\<rparr>)));
        ret () (s\<lparr>ds_chan := c, ds_conn := d\<rparr>) })"

definition giveBack :: "fastLoadBatch \<Rightarrow> unit ds_act" where
  "giveBack b s =
     (if length (dc_free (ds_chan s)) < fastLoadBuffersPerSession
      then on_chan (\<lambda>c. c\<lparr>dc_free := dc_free c @ [batch_reset b]\<rparr>) s else None)"

fun drainList :: "env \<Rightarrow> fastLoadBatch list \<Rightarrow> unit ds_act" where
  "drainList E [] = ret ()"
| "drainList E (b # bs) =
     bnd (on_chan (\<lambda>c. c\<lparr>dc_pending := bs\<rparr>)) (\<lambda>_.
     bnd (exchange E b) (\<lambda>_.
     bnd (giveBack b) (\<lambda>_. drainList E bs)))"

text \<open>The sender works until nothing is pending.\<close>

definition drain :: "env \<Rightarrow> unit ds_act" where
  "drain E = bnd (gets (dc_pending \<circ> ds_chan)) (drainList E)"

section \<open>The methods\<close>

text \<open>\<open>ctx\<close> is the error of the context when the call looks at it. A call that can never go on is \<open>None\<close>.\<close>

definition takeFree :: "unit ds_act" where
  "takeFree s =
     (case dc_free (ds_chan s) of
        [] \<Rightarrow> None
      | b # fr \<Rightarrow> on_chan (\<lambda>c. c\<lparr>dc_cur := Some b, dc_free := fr\<rparr>) s)"

definition acquire :: "env \<Rightarrow> goerror option \<Rightarrow> unit ds_act" where
  "acquire E ctx =
     (case ctx of
        Some err \<Rightarrow> bnd (on_chan (interrupt err)) (\<lambda>_. fail err)
      | None \<Rightarrow>
          bnd (gets (dc_free \<circ> ds_chan)) (\<lambda>fr.
          bnd (if fr = [] then drain E else ret ()) (\<lambda>_. takeFree)))"

definition sendPending :: "env \<Rightarrow> fastLoadBatch \<Rightarrow> unit ds_act" where
  "sendPending E b =
     bnd (gets (length \<circ> dc_pending \<circ> ds_chan)) (\<lambda>n.
     bnd (if n < fastLoadBuffersPerSession then ret () else drain E) (\<lambda>_.
     on_chan (\<lambda>c. c\<lparr>dc_pending := dc_pending c @ [b], dc_cur := None\<rparr>)))"

definition dispatch :: "env \<Rightarrow> goerror option \<Rightarrow> unit ds_act" where
  "dispatch E ctx =
     bnd (gets (dc_cur \<circ> ds_chan)) (\<lambda>cur.
     case cur of
       None \<Rightarrow> ret ()
     | Some b \<Rightarrow> if b_rows b = 0 then ret () else bnd (sendPending E b) (\<lambda>_. acquire E ctx))"

definition encodeRow :: "floatOps \<Rightarrow> u32 \<Rightarrow> gvalue list \<Rightarrow> unit ds_act" where
  "encodeRow F n vs s =
     (let c = ds_chan s in do {
        b \<leftarrow> dc_cur c;
        (err, b') \<leftarrow> pushInto F (dc_encoders c) b n vs;
        case err of
          Some err \<Rightarrow> fail err (s\<lparr>ds_chan := c\<lparr>dc_cur := Some b'\<rparr>\<rparr>)
        | None \<Rightarrow> ret () (s\<lparr>ds_chan := c\<lparr>dc_cur := Some b', dc_accepted := dc_accepted c @ [pushed_parcel b b']\<rparr>\<rparr>) })"

definition dispatchIfFull :: "env \<Rightarrow> goerror option \<Rightarrow> unit ds_act" where
  "dispatchIfFull E ctx s = do {
     b \<leftarrow> dc_cur (ds_chan s);
     if rowTooLong (ds_chan s) b then dispatch E ctx s else ret () s }"

definition pushRow :: "env \<Rightarrow> floatOps \<Rightarrow> goerror option \<Rightarrow> u32 \<Rightarrow> gvalue list \<Rightarrow> unit ds_act" where
  "pushRow E F ctx n vs =
     bnd (gets (dc_err \<circ> ds_chan)) (\<lambda>e.
     case e of
       Some err \<Rightarrow> fail err
     | None \<Rightarrow>
         bnd (gets (dc_cur \<circ> ds_chan)) (\<lambda>cur.
         bnd (if cur = None then acquire E ctx else ret ()) (\<lambda>_.
         bnd (dispatchIfFull E ctx) (\<lambda>_. encodeRow F n vs))))"

text \<open>\<open>wait\<close> takes every batch that is not in hand and gives them back when it returns.\<close>

definition waitAll :: "env \<Rightarrow> goerror option \<Rightarrow> unit ds_act" where
  "waitAll E ctx =
     (case ctx of
        Some err \<Rightarrow> bnd (on_chan (interrupt err)) (\<lambda>_. fail err)
      | None \<Rightarrow>
          bnd (drain E) (\<lambda>_.
          bnd (gets ds_chan) (\<lambda>c.
          let k = fastLoadBuffersPerSession - inHand c in
          if length (dc_free c) < k then pure None
          else
            bnd (on_chan (\<lambda>c. c\<lparr>dc_free := drop k (dc_free c) @ take k (dc_free c)\<rparr>)) (\<lambda>_.
            case dc_err c of Some err \<Rightarrow> fail err | None \<Rightarrow> ret ()))))"

text \<open>\<open>close\<close>: the sender finishes what is pending; the session is closed at once after a broken exchange.\<close>

definition on_conn :: "'a act \<Rightarrow> 'a ds_act" where
  "on_conn m s = map_option (\<lambda>(r, d). (r, s\<lparr>ds_conn := d\<rparr>)) (m (ds_conn s))"

definition closeConn :: "env \<Rightarrow> unit ds_act" where
  "closeConn E =
     bnd (gets (dc_broken \<circ> ds_chan)) (\<lambda>broken.
     if broken then bnd (on_conn (modify (\<lambda>c. c\<lparr>cn_closed := True\<rparr>))) (\<lambda>_. on_conn closeSocket)
     else on_conn (Close E))"

definition ds_close :: "env \<Rightarrow> goerror option \<Rightarrow> unit ds_act" where
  "ds_close E ctx =
     bnd (gets (dc_closed \<circ> ds_chan)) (\<lambda>closed.
     bnd (if closed then ret ()
          else
            bnd (on_chan (\<lambda>c. c\<lparr>dc_closed := True\<rparr>)) (\<lambda>_.
            bnd (case ctx of None \<Rightarrow> ret () | Some err \<Rightarrow> on_chan (interrupt err)) (\<lambda>_.
            bnd (drain E) (\<lambda>_.
            bnd (on_chan (\<lambda>c. c\<lparr>dc_sender := Done, dc_caller := Finished\<rparr>)) (\<lambda>_.
            attempt (closeConn E) (\<lambda>r.
            modify (\<lambda>s. s\<lparr>ds_closeErr := (case r of Inl err \<Rightarrow> Some err | Inr _ \<Rightarrow> None)\<rparr>))))))) (\<lambda>_.
     bnd (gets ds_closeErr) (\<lambda>e. case e of Some err \<Rightarrow> fail err | None \<Rightarrow> ret ())))"

section \<open>The calls are runs of the interleaving model\<close>

text \<open>Between calls the caller is outside every method and the sender receives.\<close>

definition resting :: "fastLoadDataChannel \<Rightarrow> bool" where
  "resting c \<longleftrightarrow> dc_caller c = Idle \<and> dc_sender c = Receiving \<and> \<not> dc_closed c"

definition at_call :: "fastLoadCaller \<Rightarrow> fastLoadDataChannel \<Rightarrow> fastLoadDataChannel" where
  "at_call x c = c\<lparr>dc_caller := x\<rparr>"

lemma at_call_simps [simp]:
  "dc_caller (at_call x c) = x" "dc_sender (at_call x c) = dc_sender c" "dc_closed (at_call x c) = dc_closed c"
  "dc_pending (at_call x c) = dc_pending c" "dc_free (at_call x c) = dc_free c" "dc_cur (at_call x c) = dc_cur c"
  "dc_err (at_call x c) = dc_err c" "dc_encoders (at_call x c) = dc_encoders c" "inHand (at_call x c) = inHand c"
  "at_call x (at_call y c) = at_call x c" "rowTooLong (at_call x c) b = rowTooLong c b"
  "dc_accepted (at_call x c) = dc_accepted c" "dc_sent (at_call x c) = dc_sent c"
  by (simp_all add: at_call_def inHand_def rowTooLong_def)

lemma at_call_Idle: "dc_caller c = x \<Longrightarrow> at_call x c = c"
  by (simp add: at_call_def)

abbreviation serves :: "fastLoadDataChannel \<Rightarrow> fastLoadDataChannel \<Rightarrow> bool" where
  "serves \<equiv> sender_step\<^sup>*\<^sup>*"

definition unmoved :: "fastLoadDataChannel \<Rightarrow> fastLoadDataChannel \<Rightarrow> bool" where
  "unmoved c c' \<longleftrightarrow> dc_caller c' = dc_caller c \<and> dc_cur c' = dc_cur c \<and> dc_closed c' = dc_closed c
     \<and> dc_sender c' = Receiving \<and> dc_encoders c' = dc_encoders c \<and> dc_accepted c' = dc_accepted c"

lemma sender_step_at_call: "sender_step c c' \<Longrightarrow> sender_step (at_call x c) (at_call x c')"
proof (induction rule: sender_step.induct)
  case (take c b bs)
  then show ?case using sender_step.take [of "at_call x c" b bs] by (cases c) (simp add: at_call_def)
next
  case (stop c)
  then show ?case using sender_step.stop [of "at_call x c"] by (cases c) (simp add: at_call_def)
next
  case (clear c b)
  then show ?case using sender_step.clear [of "at_call x c" b] by (cases c) (simp add: at_call_def)
next
  case (skip c b e)
  then show ?case using sender_step.skip [of "at_call x c" b e] by (cases c) (simp add: at_call_def)
next
  case (sent c b n)
  then show ?case using sender_step.sent [of "at_call x c" b n] by (cases c) (simp add: at_call_def)
next
  case (return c b)
  then show ?case using sender_step.return [of "at_call x c" b] by (cases c) (simp add: at_call_def)
next
  case (failed c b e err c')
  have "sendBatch_failed e (at_call x c) = (err, at_call x c')"
    using failed(2) by (auto simp: sendBatch_failed_def at_call_def split: if_splits option.splits)
  from sender_step.failed [OF _ this, of b] failed(1)
  have "sender_step (at_call x c) (setFailure err ((at_call x c')\<lparr>dc_sender := Returning b, dc_sent := dc_sent c @ batch_body b\<rparr>))"
    by simp
  also have "setFailure err ((at_call x c')\<lparr>dc_sender := Returning b, dc_sent := dc_sent c @ batch_body b\<rparr>)
      = at_call x (setFailure err (c'\<lparr>dc_sender := Returning b, dc_sent := dc_sent c @ batch_body b\<rparr>))"
    by (cases c') (simp add: at_call_def setFailure_def)
  finally show ?case .
qed

lemma serves_at_call: "serves c c' \<Longrightarrow> serves (at_call x c) (at_call x c')"
  by (induction rule: rtranclp_induct) (auto intro: rtranclp.rtrancl_into_rtrancl sender_step_at_call)

definition sender_at :: "fastLoadSender \<Rightarrow> fastLoadDataChannel \<Rightarrow> fastLoadDataChannel" where
  "sender_at x c = c\<lparr>dc_sender := x\<rparr>"

lemma sender_at_simps [simp]:
  "dc_sender (sender_at x c) = x" "dc_err (sender_at x c) = dc_err c" "dc_free (sender_at x c) = dc_free c"
  "sender_at x (sender_at y c) = sender_at x c" "dc_pending (sender_at x c) = dc_pending c"
  by (simp_all add: sender_at_def)

lemma sender_at_same: "dc_sender c = x \<Longrightarrow> sender_at x c = c"
  by (simp add: sender_at_def)

lemma sendBatch_failed_sender_at:
  "sendBatch_failed e c = (err, c') \<Longrightarrow> sendBatch_failed e (sender_at x c) = (err, sender_at x c')"
  by (auto simp: sendBatch_failed_def sender_at_def split: if_splits option.splits)

lemma exchange_result:
  assumes "exchange E b s = Some (x, s')"
  shows "x = Inr () \<and> (dc_err (ds_chan s) \<noteq> None \<and> ds_chan s' = ds_chan s
    \<or> dc_err (ds_chan s) = None \<and> (\<exists>n. ds_chan s' = (ds_chan s)\<lparr>dc_sent := dc_sent (ds_chan s) @ batch_body b,
          dc_rowsAccepted := dc_rowsAccepted (ds_chan s) + n\<rparr>)
    \<or> dc_err (ds_chan s) = None \<and> (\<exists>e err c'. sendBatch_failed e (ds_chan s) = (err, c')
          \<and> ds_chan s' = setFailure err (c'\<lparr>dc_sent := dc_sent (ds_chan s) @ batch_body b\<rparr>)))"
proof (cases "dc_err (ds_chan s) = None")
  case False
  then show ?thesis using assms by (auto simp: exchange_def ret_def Let_def)
next
  case True
  then obtain y d where y: "sendBatchIO E b (ds_conn s) = Some (y, d)"
    using assms by (auto simp: exchange_def Let_def elim!: bind_SomeE)
  show ?thesis
  proof (cases y)
    case (Inr n)
    then show ?thesis using assms True y by (auto simp: exchange_def Let_def ret_def)
  next
    case (Inl e)
    obtain err c' where f: "sendBatch_failed e (ds_chan s) = (err, c')" by (cases "sendBatch_failed e (ds_chan s)")
    have "x = Inr () \<and> s' = s\<lparr>ds_chan := setFailure err (c'\<lparr>dc_sent := dc_sent (ds_chan s) @ batch_body b\<rparr>), ds_conn := d\<rparr>"
      using assms True y Inl f by (simp add: exchange_def Let_def ret_def)
    then show ?thesis using True f by (intro conjI disjI2 exI [of _ e] exI [of _ err] exI [of _ c']) simp_all
  qed
qed

lemma exchange_steps:
  assumes "exchange E b s = Some (x, s')" "dc_sender (ds_chan s) = Receiving"
  shows "serves (sender_at (Checking b) (ds_chan s)) (sender_at (Returning b) (ds_chan s'))
    \<and> unmoved (ds_chan s) (ds_chan s') \<and> dc_pending (ds_chan s') = dc_pending (ds_chan s)
    \<and> dc_free (ds_chan s') = dc_free (ds_chan s) \<and> x = Inr ()"
proof -
  let ?c = "ds_chan s"
  consider (skip) err where "dc_err ?c = Some err" "ds_chan s' = ?c"
    | (sent) n where "dc_err ?c = None"
        "ds_chan s' = ?c\<lparr>dc_sent := dc_sent ?c @ batch_body b, dc_rowsAccepted := dc_rowsAccepted ?c + n\<rparr>"
    | (failed) e err c' where "dc_err ?c = None" "sendBatch_failed e ?c = (err, c')"
        "ds_chan s' = setFailure err (c'\<lparr>dc_sent := dc_sent ?c @ batch_body b\<rparr>)"
    using exchange_result [OF assms(1)] by blast
  then show ?thesis
  proof cases
    case skip
    then have "sender_step (sender_at (Checking b) ?c) (sender_at (Returning b) ?c)"
      using sender_step.skip [of "sender_at (Checking b) ?c" b err] by (simp add: sender_at_def)
    then show ?thesis using skip assms(2) exchange_result [OF assms(1), THEN conjunct1]
      by (simp add: unmoved_def r_into_rtranclp)
  next
    case sent
    have "sender_step (sender_at (Checking b) ?c) (sender_at (Sending b) ?c)"
      using sender_step.clear [of "sender_at (Checking b) ?c" b] sent(1) by (simp add: sender_at_def)
    moreover have "sender_step (sender_at (Sending b) ?c) (sender_at (Returning b) (ds_chan s'))"
      using sender_step.sent [of "sender_at (Sending b) ?c" b n] by (cases "?c") (simp add: sender_at_def sent(2))
    ultimately have "serves (sender_at (Checking b) ?c) (sender_at (Returning b) (ds_chan s'))"
      by (meson converse_rtranclp_into_rtranclp r_into_rtranclp)
    then show ?thesis using sent(2) assms(2) exchange_result [OF assms(1), THEN conjunct1] by (simp add: unmoved_def)
  next
    case failed
    have "sender_step (sender_at (Checking b) ?c) (sender_at (Sending b) ?c)"
      using sender_step.clear [of "sender_at (Checking b) ?c" b] failed(1) by (simp add: sender_at_def)
    moreover have "setFailure err ((sender_at (Sending b) c')\<lparr>dc_sender := Returning b, dc_sent := dc_sent ?c @ batch_body b\<rparr>)
        = sender_at (Returning b) (setFailure err (c'\<lparr>dc_sent := dc_sent ?c @ batch_body b\<rparr>))"
      by (cases c') (simp add: sender_at_def setFailure_def)
    then have "sender_step (sender_at (Sending b) ?c) (sender_at (Returning b) (ds_chan s'))"
      using sender_step.failed [OF _ sendBatch_failed_sender_at [OF failed(2)], of "Sending b" b]
      by (simp add: failed(3) sender_at_def)
    ultimately have "serves (sender_at (Checking b) ?c) (sender_at (Returning b) (ds_chan s'))"
      by (meson converse_rtranclp_into_rtranclp r_into_rtranclp)
    moreover have "dc_caller c' = dc_caller ?c \<and> dc_cur c' = dc_cur ?c \<and> dc_closed c' = dc_closed ?c
        \<and> dc_sender c' = Receiving \<and> dc_encoders c' = dc_encoders ?c \<and> dc_accepted c' = dc_accepted ?c
        \<and> dc_pending c' = dc_pending ?c \<and> dc_free c' = dc_free ?c"
      using failed(1,2) assms(2) by (auto simp: sendBatch_failed_def split: if_splits)
    ultimately show ?thesis using failed(3) exchange_result [OF assms(1), THEN conjunct1]
      by (simp add: unmoved_def setFailure_def)
  qed
qed

lemma exchange_serves:
  assumes r: "dc_sender (ds_chan s) = Receiving" and p: "dc_pending (ds_chan s) = b # bs"
    and e: "exchange E b (s\<lparr>ds_chan := (ds_chan s)\<lparr>dc_pending := bs\<rparr>\<rparr>) = Some (x, s1)" "giveBack b s1 = Some (y, s')"
  shows "serves (ds_chan s) (ds_chan s') \<and> unmoved (ds_chan s) (ds_chan s') \<and> dc_pending (ds_chan s') = bs \<and> y = Inr ()"
proof -
  let ?c = "ds_chan s" and ?c1 = "(ds_chan s)\<lparr>dc_pending := bs\<rparr>"
  have "?c\<lparr>dc_sender := Checking b, dc_pending := bs\<rparr> = sender_at (Checking b) ?c1" by (cases "?c") (simp add: sender_at_def)
  then have "sender_step ?c (sender_at (Checking b) ?c1)" using sender_step.take [OF r p] by simp
  moreover have x: "serves (sender_at (Checking b) ?c1) (sender_at (Returning b) (ds_chan s1))"
    "unmoved ?c1 (ds_chan s1)" "dc_pending (ds_chan s1) = bs"
    using exchange_steps [OF e(1)] r by simp_all
  moreover have g: "length (dc_free (ds_chan s1)) < fastLoadBuffersPerSession" "y = Inr ()"
    "ds_chan s' = (ds_chan s1)\<lparr>dc_free := dc_free (ds_chan s1) @ [batch_reset b]\<rparr>"
    using e(2) by (auto simp: giveBack_def on_chan_def modify_def split: if_splits)
  moreover have "(sender_at (Returning b) (ds_chan s1))\<lparr>dc_sender := Receiving, dc_free := dc_free (ds_chan s1) @ [batch_reset b]\<rparr> = ds_chan s'"
    using g(3) x(2) by (simp add: sender_at_def unmoved_def)
  then have "sender_step (sender_at (Returning b) (ds_chan s1)) (ds_chan s')"
    using sender_step.return [of "sender_at (Returning b) (ds_chan s1)" b] g(1) by simp
  ultimately show ?thesis
    by (auto simp: unmoved_def intro: converse_rtranclp_into_rtranclp rtranclp.rtrancl_into_rtrancl)
qed

lemma unmoved_trans: "unmoved c d \<Longrightarrow> unmoved d e \<Longrightarrow> unmoved c e"
  by (simp add: unmoved_def)

lemma drainList_serves:
  assumes "dc_sender (ds_chan s) = Receiving" "dc_pending (ds_chan s) = bs" "drainList E bs s = Some (x, s')"
  shows "serves (ds_chan s) (ds_chan s') \<and> unmoved (ds_chan s) (ds_chan s') \<and> dc_pending (ds_chan s') = [] \<and> x = Inr ()"
  using assms
proof (induction bs arbitrary: s)
  case Nil
  then show ?case by (auto simp: ret_def unmoved_def)
next
  case (Cons b bs)
  let ?s = "s\<lparr>ds_chan := (ds_chan s)\<lparr>dc_pending := bs\<rparr>\<rparr>"
  obtain u s1 where u: "exchange E b ?s = Some (Inr u, s1)"
    using Cons.prems(3) exchange_result [of E b ?s]
    by (auto simp: bnd_def on_chan_def modify_def split: option.splits sum.splits)
  obtain y s2 where g: "giveBack b s1 = Some (y, s2)"
    using Cons.prems(3) u by (auto simp: bnd_def on_chan_def modify_def split: option.splits sum.splits)
  note x = exchange_serves [OF Cons.prems(1,2) u g]
  have "drainList E bs s2 = Some (x, s')"
    using Cons.prems(3) u g x by (simp add: bnd_def on_chan_def modify_def)
  then show ?case using Cons.IH [of s2] x unmoved_trans by (auto simp: unmoved_def)
qed

lemma drain_serves:
  assumes "dc_sender (ds_chan s) = Receiving" "drain E s = Some (x, s')"
  shows "serves (ds_chan s) (ds_chan s') \<and> unmoved (ds_chan s) (ds_chan s') \<and> dc_pending (ds_chan s') = [] \<and> x = Inr ()"
  using drainList_serves [OF assms(1) HOL.refl] assms(2) by (simp add: drain_def bnd_def gets_def)

lemma serves_reaches: "serves c c' \<Longrightarrow> chan_reaches F c c'"
  unfolding chan_reaches_def chan_step_def by (induction rule: rtranclp_induct) (auto intro: rtranclp.rtrancl_into_rtrancl)

lemma caller_reaches: "caller_step F c c' \<Longrightarrow> chan_reaches F c c'"
  unfolding chan_reaches_def chan_step_def by auto

lemma reaches_trans: "chan_reaches F c d \<Longrightarrow> chan_reaches F d e \<Longrightarrow> chan_reaches F c e"
  unfolding chan_reaches_def by (rule rtranclp_trans)

lemma reaches_refl: "chan_reaches F c c"
  unfolding chan_reaches_def by simp

text \<open>What every part of a call leaves as it was, and where it leaves the sender.\<close>

definition settled :: "fastLoadDataChannel \<Rightarrow> fastLoadDataChannel \<Rightarrow> bool" where
  "settled c c' \<longleftrightarrow> dc_caller c' = dc_caller c \<and> dc_closed c' = dc_closed c \<and> dc_sender c' = Receiving
     \<and> dc_encoders c' = dc_encoders c"

lemma settled_trans: "settled c d \<Longrightarrow> settled d e \<Longrightarrow> settled c e"
  by (simp add: settled_def)

lemma unmoved_settled: "unmoved c d \<Longrightarrow> settled c d"
  by (simp add: unmoved_def settled_def)

lemma interrupt_at_call: "interrupt e (at_call x c) = at_call x (interrupt e c)"
  by (cases c) (simp add: interrupt_def setFailure_def at_call_def)

lemma interrupt_settled: "dc_sender c = Receiving \<Longrightarrow> settled c (interrupt e c)"
  by (simp add: interrupt_def setFailure_def settled_def)

datatype acquiring = OnPush u32 "gvalue list" | OnFull u32 "gvalue list" | OnFlush

fun acquire_at :: "acquiring \<Rightarrow> fastLoadCaller" where
  "acquire_at (OnPush n vs) = PushAcquire n vs" | "acquire_at (OnFull n vs) = PushReacquire n vs" | "acquire_at OnFlush = FlushAcquire"

fun acquired_at :: "acquiring \<Rightarrow> fastLoadCaller" where
  "acquired_at (OnPush n vs) = PushFit n vs" | "acquired_at (OnFull n vs) = PushEncode n vs" | "acquired_at OnFlush = Idle"

lemma acquire_step:
  "dc_free c = b # fr \<Longrightarrow> caller_step F (at_call (acquire_at w) c) (at_call (acquired_at w) (c\<lparr>dc_cur := Some b, dc_free := fr\<rparr>))"
proof -
  assume f: "dc_free c = b # fr"
  have e: "(at_call x c)\<lparr>dc_cur := Some b, dc_free := fr, dc_caller := y\<rparr> = at_call y (c\<lparr>dc_cur := Some b, dc_free := fr\<rparr>)" for x y
    by (cases c) (simp add: at_call_def)
  show ?thesis
    using caller_step.push_acquire [of "at_call (acquire_at w) c" _ _ b fr F] caller_step.push_reacquire [of "at_call (acquire_at w) c" _ _ b fr F]
      caller_step.flush_acquire [of "at_call (acquire_at w) c" b fr F] f
    by (cases w) (simp_all add: e)
qed

lemma acquire_reaches:
  assumes r: "dc_sender (ds_chan s) = Receiving" and a: "acquire E ctx s = Some (x, s')"
  shows "chan_reaches F (at_call (acquire_at w) (ds_chan s)) (at_call (case x of Inl _ \<Rightarrow> Idle | Inr _ \<Rightarrow> acquired_at w) (ds_chan s'))
    \<and> settled (ds_chan s) (ds_chan s') \<and> (x = Inr () \<longrightarrow> dc_cur (ds_chan s') \<noteq> None)"
proof (cases ctx)
  case (Some err)
  then have e: "x = Inl err" "ds_chan s' = interrupt err (ds_chan s)"
    using a by (auto simp: acquire_def bnd_def on_chan_def modify_def fail_def)
  have "\<exists>n vs. acquire_at w \<in> {PushAcquire n vs, PushReacquire n vs, FlushAcquire}" by (cases w) auto
  then have "caller_step F (at_call (acquire_at w) (ds_chan s)) ((interrupt err (at_call (acquire_at w) (ds_chan s)))\<lparr>dc_caller := Idle\<rparr>)"
    by (intro caller_step.acquire_interrupted) simp
  then show ?thesis
    using caller_reaches interrupt_settled [OF r, of err] by (simp add: e interrupt_at_call flip: at_call_def)
next
  case None
  let ?m = "if dc_free (ds_chan s) = [] then drain E else ret ()"
  obtain u s1 where m: "?m s = Some (u, s1)"
    using a None by (auto simp: acquire_def bnd_def gets_def split: option.splits)
  have u: "serves (ds_chan s) (ds_chan s1)" "unmoved (ds_chan s) (ds_chan s1)" "u = Inr ()"
    using m r drain_serves [OF r, of E u s1] by (auto simp: ret_def unmoved_def split: if_splits)
  then have t: "takeFree s1 = Some (x, s')" using a None m by (simp add: acquire_def bnd_def gets_def)
  then obtain b fr where f: "dc_free (ds_chan s1) = b # fr" "x = Inr ()" "ds_chan s' = (ds_chan s1)\<lparr>dc_cur := Some b, dc_free := fr\<rparr>"
    by (auto simp: takeFree_def on_chan_def modify_def split: list.splits)
  have "chan_reaches F (at_call (acquire_at w) (ds_chan s)) (at_call (acquire_at w) (ds_chan s1))"
    using serves_at_call [OF u(1)] by (rule serves_reaches)
  moreover have "chan_reaches F (at_call (acquire_at w) (ds_chan s1)) (at_call (acquired_at w) (ds_chan s'))"
    using acquire_step [OF f(1)] f(3) caller_reaches by simp
  ultimately show ?thesis using reaches_trans f(2,3) unmoved_settled [OF u(2)] by (auto simp: settled_def)
qed

fun sending_at :: "acquiring \<Rightarrow> fastLoadCaller" where
  "sending_at (OnFull n vs) = PushSend n vs" | "sending_at _ = FlushSend"

lemma sendPending_reaches:
  assumes r: "dc_sender (ds_chan s) = Receiving" and b: "dc_cur (ds_chan s) = Some b"
    and a: "sendPending E b s = Some (x, s')" and w: "\<forall>n vs. w \<noteq> OnPush n vs"
  shows "chan_reaches F (at_call (sending_at w) (ds_chan s)) (at_call (acquire_at w) (ds_chan s'))
    \<and> settled (ds_chan s) (ds_chan s') \<and> x = Inr ()"
proof -
  let ?m = "if length (dc_pending (ds_chan s)) < fastLoadBuffersPerSession then ret () else drain E"
  obtain u s1 where m: "?m s = Some (u, s1)"
    using a by (auto simp: sendPending_def bnd_def gets_def split: option.splits)
  have u: "serves (ds_chan s) (ds_chan s1)" "unmoved (ds_chan s) (ds_chan s1)" "u = Inr ()"
    "length (dc_pending (ds_chan s1)) < fastLoadBuffersPerSession"
    using m r drain_serves [OF r, of E u s1]
    by (auto simp: ret_def unmoved_def fastLoadBuffersPerSession_def split: if_splits)
  let ?c = "ds_chan s1"
  have f: "x = Inr ()" "ds_chan s' = ?c\<lparr>dc_pending := dc_pending ?c @ [b], dc_cur := None\<rparr>"
    using a m u(3) by (auto simp: sendPending_def bnd_def gets_def on_chan_def modify_def)
  have e: "(at_call y ?c)\<lparr>dc_pending := dc_pending ?c @ [b], dc_cur := None, dc_caller := z\<rparr> = at_call z (ds_chan s')" for y z
    unfolding f(2) by (cases "?c") (simp add: at_call_def)
  have "caller_step F (at_call (sending_at w) ?c) (at_call (acquire_at w) (ds_chan s'))"
    using caller_step.push_send [of "at_call (sending_at w) ?c" _ _ b F] caller_step.flush_send [of "at_call (sending_at w) ?c" b F]
      u(2,4) b w by (cases w) (simp_all add: e unmoved_def)
  then have "chan_reaches F (at_call (sending_at w) (ds_chan s)) (at_call (acquire_at w) (ds_chan s'))"
    using serves_reaches [OF serves_at_call [OF u(1)]] caller_reaches reaches_trans by blast
  then show ?thesis using f u(2) by (simp add: settled_def unmoved_def)
qed

definition leads :: "floatOps \<Rightarrow> fastLoadCaller \<Rightarrow> fastLoadCaller \<Rightarrow> (goerror + unit) \<Rightarrow> dataSession \<Rightarrow> dataSession \<Rightarrow> bool" where
  "leads F w v x s s' \<longleftrightarrow> chan_reaches F (at_call w (ds_chan s)) (at_call (case x of Inl _ \<Rightarrow> Idle | Inr _ \<Rightarrow> v) (ds_chan s'))
     \<and> settled (ds_chan s) (ds_chan s')"

lemma leads_trans:
  assumes "chan_reaches F (at_call w (ds_chan s)) (at_call v (ds_chan s1))" "settled (ds_chan s) (ds_chan s1)" "leads F v u x s1 s'"
  shows "leads F w u x s s'"
  using assms reaches_trans settled_trans unfolding leads_def by blast

lemma send_and_acquire:
  assumes r: "dc_sender (ds_chan s) = Receiving" and b: "dc_cur (ds_chan s) = Some b"
    and a: "bnd (sendPending E b) (\<lambda>_. acquire E ctx) s = Some (x, s')" and w: "\<forall>n vs. w \<noteq> OnPush n vs"
  shows "leads F (sending_at w) (acquired_at w) x s s' \<and> (x = Inr () \<longrightarrow> dc_cur (ds_chan s') \<noteq> None)"
  using a
proof (cases rule: bnd_SomeE)
  case (err e)
  then show ?thesis using sendPending_reaches [OF r b err(1) w, of F] by simp
next
  case (ok u s1)
  note p = sendPending_reaches [OF r b ok(1) w, of F]
  have "dc_sender (ds_chan s1) = Receiving" using p by (simp add: settled_def)
  from acquire_reaches [OF this ok(2), of F w] p show ?thesis
    using leads_trans [of F "sending_at w" s "acquire_at w" s1 "acquired_at w" x s'] by (simp add: leads_def)
qed

lemma push_fit_step:
  assumes "dc_cur c = Some b"
  shows "chan_reaches F (at_call (PushFit n vs) c)
    (at_call (if rowTooLong c b \<and> b_rows b \<noteq> 0 then PushSend n vs else PushEncode n vs) c)"
  using caller_step.push_fit [of "at_call (PushFit n vs) c" n vs b F] assms
  by (intro caller_reaches) (simp add: at_call_def rowTooLong_def)

lemma dispatchIfFull_reaches:
  assumes r: "dc_sender (ds_chan s) = Receiving" and a: "dispatchIfFull E ctx s = Some (x, s')"
  shows "leads F (PushFit n vs) (PushEncode n vs) x s s'"
proof -
  obtain b where b: "dc_cur (ds_chan s) = Some b" using a by (auto simp: dispatchIfFull_def elim: bind_SomeE)
  note f = push_fit_step [OF b, of F n vs]
  show ?thesis
  proof (cases "rowTooLong (ds_chan s) b \<and> b_rows b \<noteq> 0")
    case False
    then have "x = Inr () \<and> s' = s"
      using a b by (auto simp: dispatchIfFull_def dispatch_def bnd_def gets_def ret_def split: if_splits)
    then show ?thesis using f False r by (auto simp: leads_def settled_def)
  next
    case True
    then have "bnd (sendPending E b) (\<lambda>_. acquire E ctx) s = Some (x, s')"
      using a b by (simp add: dispatchIfFull_def dispatch_def bnd_def gets_def)
    from send_and_acquire [OF r b this, of "OnFull n vs" F] show ?thesis
      using f True leads_trans [of F "PushFit n vs" s "PushSend n vs" s "PushEncode n vs" x s'] r by (simp add: settled_def)
  qed
qed

lemma encodeRow_reaches:
  assumes r: "dc_sender (ds_chan s) = Receiving" and a: "encodeRow F n vs s = Some (x, s')"
  shows "leads F (PushEncode n vs) Idle x s s'"
proof -
  let ?c = "ds_chan s"
  obtain b err b' where b: "dc_cur ?c = Some b" "pushInto F (dc_encoders ?c) b n vs = Some (err, b')"
    using a by (auto simp: encodeRow_def Let_def elim!: bind_SomeE)
  have "caller_step F (at_call (PushEncode n vs) ?c) (at_call Idle (ds_chan s'))"
  proof (cases err)
    case (Some e)
    then show ?thesis
      using caller_step.push_rejected [of "at_call (PushEncode n vs) ?c" n vs b F e b'] a b
      by (cases "?c") (auto simp: encodeRow_def Let_def fail_def at_call_def)
  next
    case None
    then show ?thesis
      using caller_step.push_done [of "at_call (PushEncode n vs) ?c" n vs b F b'] a b
      by (cases "?c") (auto simp: encodeRow_def Let_def ret_def at_call_def)
  qed
  moreover have "settled ?c (ds_chan s')"
    using a b r by (cases err) (auto simp: encodeRow_def Let_def ret_def fail_def settled_def)
  ultimately show ?thesis using caller_reaches by (auto simp: leads_def split: sum.split)
qed

lemma pushRow_reaches:
  assumes r: "resting (ds_chan s)" and a: "pushRow E F ctx n vs s = Some (x, s')"
  shows "leads F Idle Idle x s s'"
proof (cases "dc_err (ds_chan s)")
  case (Some e)
  then show ?thesis using a r by (auto simp: pushRow_def bnd_def gets_def fail_def leads_def reaches_refl settled_def resting_def)
next
  case None
  let ?c = "ds_chan s" and ?m = "if dc_cur (ds_chan s) = None then acquire E ctx else ret ()"
  let ?rest = "\<lambda>_. bnd (dispatchIfFull E ctx) (\<lambda>_. encodeRow F n vs)"
  have rc: "dc_sender ?c = Receiving" using r by (simp add: resting_def)
  have p: "chan_reaches F (at_call Idle ?c) (at_call (if dc_cur ?c = None then PushAcquire n vs else PushFit n vs) ?c)"
    using caller_step.push [of "at_call Idle ?c" F n vs] r None by (intro caller_reaches) (simp add: at_call_def resting_def)
  have tail: "leads F (PushFit n vs) Idle x s1 s'" if t: "?rest () s1 = Some (x, s')" and s1: "dc_sender (ds_chan s1) = Receiving" for s1
    using t
  proof (cases rule: bnd_SomeE)
    case (err e)
    then show ?thesis using dispatchIfFull_reaches [OF s1 err(1), of F n vs] by (simp add: leads_def)
  next
    case (ok u s2)
    note d = dispatchIfFull_reaches [OF s1 ok(1), of F n vs]
    then have "dc_sender (ds_chan s2) = Receiving" by (simp add: leads_def settled_def)
    from encodeRow_reaches [OF this ok(2)] d show ?thesis
      using leads_trans [of F "PushFit n vs" s1 "PushEncode n vs" s2 Idle x s'] by (simp add: leads_def)
  qed
  have "bnd ?m ?rest s = Some (x, s')" using a None by (simp add: pushRow_def bnd_def gets_def)
  then show ?thesis
  proof (cases rule: bnd_SomeE)
    case (err e)
    then have "dc_cur ?c = None" "acquire E ctx s = Some (Inl e, s')" by (auto simp: ret_def split: if_splits)
    then show ?thesis using acquire_reaches [OF rc, of E ctx "Inl e" s' F "OnPush n vs"] p err(2)
        leads_trans [of F Idle s "PushAcquire n vs" s Idle x s'] rc
      by (simp add: leads_def settled_def)
  next
    case (ok u s1)
    have s1: "dc_sender (ds_chan s1) = Receiving \<and> chan_reaches F (at_call Idle ?c) (at_call (PushFit n vs) (ds_chan s1))
        \<and> settled ?c (ds_chan s1)"
    proof (cases "dc_cur ?c = None")
      case True
      then show ?thesis using acquire_reaches [OF rc, of E ctx "Inr u" s1 F "OnPush n vs"] ok(1) p reaches_trans
        by (auto simp: settled_def)
    qed (use ok(1) p rc in \<open>auto simp: ret_def settled_def\<close>)
    then show ?thesis using tail [OF ok(2)] leads_trans [of F Idle s "PushFit n vs" s1 Idle x s'] by blast
  qed
qed

lemma dispatch_reaches:
  assumes r: "resting (ds_chan s)" and a: "dispatch E ctx s = Some (x, s')"
  shows "leads F Idle Idle x s s'"
proof (cases "\<exists>b. dc_cur (ds_chan s) = Some b \<and> b_rows b \<noteq> 0")
  case False
  then have "s' = s" using a by (auto simp: dispatch_def bnd_def gets_def ret_def split: option.splits if_splits)
  then show ?thesis using r by (auto simp: leads_def reaches_refl settled_def resting_def split: sum.split)
next
  case True
  then obtain b where b: "dc_cur (ds_chan s) = Some b" "b_rows b \<noteq> 0" by blast
  have rc: "dc_sender (ds_chan s) = Receiving" using r by (simp add: resting_def)
  have "bnd (sendPending E b) (\<lambda>_. acquire E ctx) s = Some (x, s')"
    using a b by (simp add: dispatch_def bnd_def gets_def)
  from send_and_acquire [OF rc b(1) this, of OnFlush F] have l: "leads F FlushSend Idle x s s'" by simp
  have "caller_step F (at_call Idle (ds_chan s)) (at_call FlushSend (ds_chan s))"
    using caller_step.flush [of "at_call Idle (ds_chan s)" b F] b r by (simp add: at_call_def resting_def)
  then show ?thesis using leads_trans [OF caller_reaches _ l] rc by (simp add: settled_def)
qed

lemma wait_holds:
  assumes "length held + inHand c + j \<le> fastLoadBuffersPerSession" "j \<le> length (dc_free c)"
  shows "chan_reaches F (at_call (Waiting held) c) (at_call (Waiting (held @ take j (dc_free c))) (c\<lparr>dc_free := drop j (dc_free c)\<rparr>))"
  using assms
proof (induction j)
  case 0
  then show ?case by (simp add: reaches_refl)
next
  case (Suc j)
  obtain b fr where f: "drop j (dc_free c) = b # fr" using Suc.prems(2) by (cases "drop j (dc_free c)") auto
  have t: "take (Suc j) (dc_free c) = take j (dc_free c) @ [b]" "drop (Suc j) (dc_free c) = fr"
    using f by (metis take_Suc_conv_app_nth Suc.prems(2) Suc_le_lessD nth_via_drop, metis drop_Suc tl_drop f list.sel(3))
  let ?d = "c\<lparr>dc_free := drop j (dc_free c)\<rparr>" and ?h = "held @ take j (dc_free c)"
  have "caller_step F (at_call (Waiting ?h) ?d) ((at_call (Waiting ?h) ?d)\<lparr>dc_caller := Waiting (?h @ [b]), dc_free := fr\<rparr>)"
    using Suc.prems f by (intro caller_step.wait_hold) (simp_all add: inHand_def at_call_def)
  moreover have "(at_call (Waiting ?h) ?d)\<lparr>dc_caller := Waiting (?h @ [b]), dc_free := fr\<rparr> = at_call (Waiting (?h @ [b])) (c\<lparr>dc_free := fr\<rparr>)"
    by (cases c) (simp add: at_call_def)
  ultimately show ?case using Suc reaches_trans caller_reaches t by fastforce
qed

lemma waitAll_reaches:
  assumes r: "resting (ds_chan s)" and a: "waitAll E ctx s = Some (x, s')"
  shows "leads F Idle Idle x s s'"
proof -
  let ?c = "ds_chan s"
  have rc: "dc_sender ?c = Receiving" using r by (simp add: resting_def)
  have w: "chan_reaches F (at_call Idle ?c) (at_call (Waiting []) ?c)"
    using caller_step.wait_start [of "at_call Idle ?c" F] by (intro caller_reaches) (simp add: at_call_def)
  show ?thesis
  proof (cases ctx)
    case (Some err)
    then have e: "x = Inl err" "ds_chan s' = interrupt err ?c"
      using a by (auto simp: waitAll_def bnd_def on_chan_def modify_def fail_def)
    have "caller_step F (at_call (Waiting []) ?c)
        ((interrupt err (at_call (Waiting []) ?c))\<lparr>dc_caller := Idle, dc_free := dc_free (at_call (Waiting []) ?c) @ []\<rparr>)"
      by (rule caller_step.wait_interrupted) (simp_all add: inHand_def fastLoadBuffersPerSession_def)
    moreover have "(interrupt err (at_call (Waiting []) ?c))\<lparr>dc_caller := Idle, dc_free := dc_free (at_call (Waiting []) ?c) @ []\<rparr>
        = at_call Idle (interrupt err ?c)"
      by (cases "?c") (simp add: interrupt_def setFailure_def at_call_def)
    ultimately show ?thesis using reaches_trans [OF w caller_reaches] e interrupt_settled [OF rc] by (simp add: leads_def)
  next
    case None
    obtain u s1 where d: "drain E s = Some (u, s1)" using a None by (auto simp: waitAll_def bnd_def split: option.splits)
    note dr = drain_serves [OF rc d]
    let ?d = "ds_chan s1" and ?k = "fastLoadBuffersPerSession - inHand (ds_chan s1)"
    have f: "?k \<le> length (dc_free ?d)" "ds_chan s' = ?d\<lparr>dc_free := drop ?k (dc_free ?d) @ take ?k (dc_free ?d)\<rparr>"
      using a None d dr by (auto simp: waitAll_def bnd_def gets_def pure_def on_chan_def modify_def fail_def ret_def Let_def
          split: if_splits option.splits)
    have "inHand ?d + ?k \<le> fastLoadBuffersPerSession" by (simp add: inHand_def fastLoadBuffersPerSession_def)
    then have h: "chan_reaches F (at_call (Waiting []) ?d) (at_call (Waiting (take ?k (dc_free ?d))) (?d\<lparr>dc_free := drop ?k (dc_free ?d)\<rparr>))"
      using wait_holds [of "[]" ?d ?k F] f(1) by simp
    let ?e = "at_call (Waiting (take ?k (dc_free ?d))) (?d\<lparr>dc_free := drop ?k (dc_free ?d)\<rparr>)"
    have "caller_step F ?e (?e\<lparr>dc_caller := Idle, dc_free := dc_free ?e @ take ?k (dc_free ?d)\<rparr>)"
      using f(1) by (intro caller_step.wait_done) (simp_all add: inHand_def)
    moreover have "?e\<lparr>dc_caller := Idle, dc_free := dc_free ?e @ take ?k (dc_free ?d)\<rparr> = at_call Idle (ds_chan s')"
      unfolding f(2) by (cases "?d") (simp add: at_call_def)
    moreover have "chan_reaches F (at_call (Waiting []) ?c) (at_call (Waiting []) ?d)"
      using dr serves_at_call serves_reaches by blast
    ultimately have "chan_reaches F (at_call Idle ?c) (at_call Idle (ds_chan s'))"
      using w h caller_reaches reaches_trans by metis
    then show ?thesis using dr f(2) by (auto simp: leads_def settled_def unmoved_def split: sum.split)
  qed
qed

lemma acquire_from_free:
  assumes r: "dc_sender (ds_chan s) = Receiving" and a: "acquire E ctx s = Some (Inr u, s')"
  shows "\<exists>b d. dc_cur (ds_chan s') = Some b \<and> chan_reaches F (at_call (acquire_at w) (ds_chan s)) d \<and> b \<in> set (dc_free d)"
proof -
  have c: "ctx = None" using a by (auto simp: acquire_def bnd_def on_chan_def modify_def fail_def split: option.splits)
  let ?m = "if dc_free (ds_chan s) = [] then drain E else ret ()"
  obtain v s1 where m: "?m s = Some (v, s1)"
    using a c by (auto simp: acquire_def bnd_def gets_def split: option.splits)
  have v: "serves (ds_chan s) (ds_chan s1)" "v = Inr ()"
    using m drain_serves [OF r, of E v s1] by (auto simp: ret_def split: if_splits)
  then have "takeFree s1 = Some (Inr u, s')" using a c m by (simp add: acquire_def bnd_def gets_def)
  then obtain b fr where f: "dc_free (ds_chan s1) = b # fr" "ds_chan s' = (ds_chan s1)\<lparr>dc_cur := Some b, dc_free := fr\<rparr>"
    by (auto simp: takeFree_def on_chan_def modify_def split: list.splits)
  then show ?thesis using serves_reaches [OF serves_at_call [OF v(1)]]
    by (intro exI [of _ b] exI [of _ "at_call (acquire_at w) (ds_chan s1)"]) simp
qed

text \<open>A session between calls: a run of the interleaving model has led there.\<close>

definition session_ok :: "dataSession \<Rightarrow> bool" where
  "session_ok s \<longleftrightarrow> resting (ds_chan s) \<and> (\<exists>n. chan_inv n (ds_chan s))"

definition empty_hand :: "fastLoadDataChannel \<Rightarrow> bool" where
  "empty_hand c \<longleftrightarrow> (\<forall>b. dc_cur c = Some b \<longrightarrow> b_rows b = 0)"

lemma dispatch_empties:
  assumes ok: "session_ok s" and a: "dispatch E ctx s = Some (Inr u, s')"
  shows "empty_hand (ds_chan s')"
proof (cases "\<exists>b. dc_cur (ds_chan s) = Some b \<and> b_rows b \<noteq> 0")
  case False
  then show ?thesis using a
    by (auto simp: dispatch_def bnd_def gets_def ret_def empty_hand_def split: option.splits if_splits)
next
  case True
  then obtain b where b: "dc_cur (ds_chan s) = Some b" "b_rows b \<noteq> 0" by blast
  obtain n where i: "chan_inv n (ds_chan s)" and r: "resting (ds_chan s)" using ok by (auto simp: session_ok_def)
  have rc: "dc_sender (ds_chan s) = Receiving" using r by (simp add: resting_def)
  have "bnd (sendPending E b) (\<lambda>_. acquire E ctx) s = Some (Inr u, s')"
    using a b by (simp add: dispatch_def bnd_def gets_def)
  then obtain v s1 where p: "sendPending E b s = Some (Inr v, s1)" and q: "acquire E ctx s1 = Some (Inr u, s')"
    by (auto elim: bnd_SomeE)
  note sp = sendPending_reaches [OF rc b(1) p, of OnFlush, where F = undefined]
  have "caller_step undefined (at_call Idle (ds_chan s)) (at_call FlushSend (ds_chan s))"
    using caller_step.flush [of "at_call Idle (ds_chan s)" b undefined] b r by (simp add: at_call_def resting_def)
  then have "chan_reaches undefined (ds_chan s) (at_call FlushAcquire (ds_chan s1))"
    using sp reaches_trans [OF caller_reaches] at_call_Idle [of "ds_chan s" Idle] r by (simp add: resting_def)
  moreover obtain b' d where d: "dc_cur (ds_chan s') = Some b'" "chan_reaches undefined (at_call FlushAcquire (ds_chan s1)) d"
    "b' \<in> set (dc_free d)"
    using acquire_from_free [OF _ q, where F = undefined and w = OnFlush] sp by (auto simp: settled_def)
  ultimately have "chan_inv n d" using chan_inv_reach [OF _ i] reaches_trans by blast
  then have "batch_holds n b' []" using d(3) by (auto simp: chan_inv_def fits_inv_def list_all_iff)
  then show ?thesis using d(1) by (simp add: batch_holds_def empty_hand_def)
qed

lemma waitAll_delivers:
  assumes ok: "session_ok s" and a: "waitAll E ctx s = Some (Inr u, s')" and h: "empty_hand (ds_chan s)"
  shows "dc_sent (ds_chan s') = concat (dc_accepted (ds_chan s')) \<and> dc_accepted (ds_chan s') = dc_accepted (ds_chan s)"
proof -
  obtain n where i: "chan_inv n (ds_chan s)" and r: "resting (ds_chan s)" using ok by (auto simp: session_ok_def)
  have rc: "dc_sender (ds_chan s) = Receiving" using r by (simp add: resting_def)
  have ctx: "ctx = None" using a by (auto simp: waitAll_def bnd_def on_chan_def modify_def fail_def split: option.splits)
  obtain v s1 where d: "drain E s = Some (v, s1)" using a ctx by (auto simp: waitAll_def bnd_def split: option.splits)
  note dr = drain_serves [OF rc d]
  obtain fr where f: "ds_chan s' = (ds_chan s1)\<lparr>dc_free := fr\<rparr>" "dc_err (ds_chan s1) = None"
    using a ctx d dr by (auto simp: waitAll_def bnd_def gets_def pure_def on_chan_def modify_def fail_def ret_def Let_def
        split: if_splits option.splits)
  have "chan_inv n (ds_chan s1)" using chan_inv_reach [OF serves_reaches i] dr by blast
  then obtain handed dropped taken pend cur where s: "split_inv n (ds_chan s1) handed dropped taken pend cur"
    unfolding chan_inv_def by blast
  have "taken = []" "pend = []" "dropped = []" using s dr f(2) by (auto simp: split_inv_def unmoved_def)
  moreover have "cur = []"
    using s dr h batch_empty_iff by (auto simp: split_inv_def cur_holds_def unmoved_def empty_hand_def split: option.splits)
  ultimately show ?thesis using s dr f(1) by (auto simp: split_inv_def unmoved_def)
qed

lemma session_ok_step:
  assumes "session_ok s" "leads F Idle Idle x s s'"
  shows "session_ok s'"
proof -
  have l: "chan_reaches F (at_call Idle (ds_chan s)) (at_call Idle (ds_chan s'))" "settled (ds_chan s) (ds_chan s')"
    using assms(2) by (auto simp: leads_def split: sum.splits)
  have i: "dc_caller (ds_chan s) = Idle" "dc_caller (ds_chan s') = Idle" "resting (ds_chan s')"
    using assms(1) l(2) by (simp_all add: session_ok_def resting_def settled_def)
  have "chan_reaches F (ds_chan s) (ds_chan s')" using l(1) i(1,2) by (simp add: at_call_Idle)
  then show ?thesis using assms(1) i(3) chan_inv_reach unfolding session_ok_def by blast
qed

lemma session_ok_calls:
  assumes "session_ok s"
  shows "pushRow E F ctx n vs s = Some (x, s') \<Longrightarrow> session_ok s'"
    and "dispatch E ctx s = Some (x, s') \<Longrightarrow> session_ok s'"
    and "waitAll E ctx s = Some (x, s') \<Longrightarrow> session_ok s'"
proof -
  have r: "resting (ds_chan s)" using assms by (simp add: session_ok_def)
  show "pushRow E F ctx n vs s = Some (x, s') \<Longrightarrow> session_ok s'" by (rule session_ok_step [OF assms pushRow_reaches [OF r]])
  show "dispatch E ctx s = Some (x, s') \<Longrightarrow> session_ok s'" by (rule session_ok_step [OF assms dispatch_reaches [OF r]])
  show "waitAll E ctx s = Some (x, s') \<Longrightarrow> session_ok s'" by (rule session_ok_step [OF assms waitAll_reaches [OF r]])
qed

lemma session_ok_new:
  assumes "newFastLoadColumnEncoders si k = Inr encoders"
    "list_all (\<lambda>item. 0 \<le> sint (getMaxLength item)) (paramMarkerMetaItems si)"
    "newFastLoadDataChannel caps encoders cfg = Inr c0"
  shows "session_ok \<lparr>ds_chan = c0, ds_conn = d, ds_closeErr = None\<rparr>"
proof -
  have "chan_inv (fastLoadBodyLen caps cfg) c0"
    using start_encoders [OF assms(1) [unfolded newFastLoadColumnEncoders_def] assms(2)
        assms(3) [unfolded newFastLoadDataChannel_def], of undefined c0] reaches_refl by simp
  moreover have "resting c0"
    using assms(3) by (auto simp: newFastLoadDataChannel_def startFastLoadDataChannel_def Let_def resting_def split: if_splits)
  ultimately show ?thesis by (auto simp: session_ok_def)
qed

end
