(* ===== verification/FastLoad.thy ===== *)
theory FastLoad
  imports FastLoadSession
begin

text \<open>
  Bulk loads, src/fastload_connection.go: the control and diagnostic sessions, beginning a load over several data
  sessions, adding rows, flushing, ending and aborting it, and the retries around the error tables.
\<close>

section \<open>State\<close>

text \<open>
  The transaction and the connection that owns it. \<open>fl_current\<close>: the connection's current transaction is the one
  at hand. \<open>fl_checks\<close> counts how often a context has been looked at; \<open>fl_retired\<close> are the sessions that have been
  closed and dropped. Neither is in the code.
\<close>

record fastLoadTx =
  tx_dataChannels :: "dataSession list"
  tx_encoders :: "fastLoadColumnEncoder list"
  tx_sessionCount :: int
  tx_rowNumber :: u32
  tx_statementInfo :: "statementInfo option"
  tx_target :: string
  tx_errorTable1 :: string
  tx_errorTable2 :: string
  tx_beginLoading :: string
  tx_done :: bool

record fastLoadConnection =
  fl_connector :: teradataConnector
  fl_control :: "teradataConnection option"
  fl_diag :: "teradataConnection option"
  fl_current :: bool
  fl_logonSeqNum :: int
  fl_opened :: bool
  fl_checks :: nat
  fl_retired :: "teradataConnection list"

record fastLoadResult =
  rs_RowsSent :: int
  rs_RowsAccepted :: int
  rs_Errors :: "fastLoadErrorRow list"
  rs_UniqueViolations :: int

type_synonym 'a load_act = "(fastLoadConnection, 'a) comp"
type_synonym 'a tx_act = "(fastLoadTx \<times> fastLoadConnection, 'a) comp"

text \<open>What the load is run against; \<open>ld_draws k\<close> are the random numbers of the key exchange after the \<open>k\<close>-th dial,
  \<open>ld_cleanup\<close> the context of a clean-up. A context gives the error of its \<open>k\<close>-th check.\<close>

type_synonym fctx = "nat \<Rightarrow> goerror option"

record loadEnv =
  ld_net :: network
  ld_env :: env
  ld_float :: floatOps
  ld_sys :: sysInfo
  ld_fmt :: "u64 \<Rightarrow> string"
  ld_draws :: "nat \<Rightarrow> nat list"
  ld_cleanup :: fctx

definition newFastLoadConnection :: "teradataConnector \<Rightarrow> fastLoadConnection" where
  "newFastLoadConnection c = \<lparr>fl_connector = c, fl_control = None, fl_diag = None, fl_current = False,
     fl_logonSeqNum = 0, fl_opened = False, fl_checks = 0, fl_retired = []\<rparr>"

definition ctxErr :: "fctx \<Rightarrow> goerror option load_act" where
  "ctxErr ctx c = Some (Inr (ctx (fl_checks c)), c\<lparr>fl_checks := fl_checks c + 1\<rparr>)"

definition joinErrs :: "goerror list \<Rightarrow> ('s, unit) comp" where
  "joinErrs errs = (if errs = [] then ret () else fail (Errorf [] errs))"

definition on_control :: "'a act \<Rightarrow> 'a load_act" where
  "on_control m c =
     (case fl_control c of
        None \<Rightarrow> None
      | Some d \<Rightarrow> map_option (\<lambda>(r, d). (r, c\<lparr>fl_control := Some d\<rparr>)) (m d))"

definition on_connector :: "'a connecting \<Rightarrow> 'a load_act" where
  "on_connector m c = map_option (\<lambda>(r, k). (r, c\<lparr>fl_connector := k\<rparr>)) (m (fl_connector c))"

definition retire :: "teradataConnection \<Rightarrow> unit load_act" where
  "retire d = modify (\<lambda>c. c\<lparr>fl_retired := fl_retired c @ [d]\<rparr>)"

section \<open>Sessions\<close>

datatype fastConnectionType = fastLoadConnControl | fastLoadConnDiag | fastLoadConnData

fun authenticateAs :: "env \<Rightarrow> sysInfo \<Rightarrow> fastConnectionType \<Rightarrow> int \<Rightarrow> unit act" where
  "authenticateAs E sys fastLoadConnControl lsn = fastLoadControlAuthenticate E sys"
| "authenticateAs E sys fastLoadConnDiag lsn = fastLoadDiagAuthenticate E sys lsn"
| "authenticateAs E sys fastLoadConnData lsn = fastLoadDataAuthenticate E sys lsn"

definition openFastLoadConnection :: "loadEnv \<Rightarrow> fastConnectionType \<Rightarrow> int \<Rightarrow> teradataConnection load_act" where
  "openFastLoadConnection L ctype lsn =
     bnd (on_connector (connect (ld_net L) False)) (\<lambda>conn.
     bnd (gets (length \<circ> ctr_dials \<circ> fl_connector)) (\<lambda>k.
     bnd (pure (loginOrClose (ld_env L) (ld_draws L k) (authenticateAs (ld_env L) (ld_sys L) ctype lsn) conn)) (\<lambda>(x, conn).
     case x of
       Inl err \<Rightarrow> bnd (retire conn) (\<lambda>_. fail err)
     | Inr _ \<Rightarrow> ret conn)))"

text \<open>Closing one session, if it is there: the errors it adds.\<close>

definition closeSession :: "env \<Rightarrow> teradataConnection option \<Rightarrow> goerror list load_act" where
  "closeSession E s =
     (case s of
        None \<Rightarrow> ret []
      | Some d \<Rightarrow>
          bnd (pure (Close E d)) (\<lambda>(r, d).
          bnd (retire d) (\<lambda>_. ret (case r of Inl err \<Rightarrow> [err] | Inr _ \<Rightarrow> []))))"

definition closeSessions :: "env \<Rightarrow> unit load_act" where
  "closeSessions E =
     bnd (gets fl_diag) (\<lambda>dg.
     bnd (closeSession E dg) (\<lambda>errs1.
     bnd (modify (\<lambda>c. c\<lparr>fl_diag := None\<rparr>)) (\<lambda>_.
     bnd (gets fl_control) (\<lambda>ct.
     bnd (closeSession E ct) (\<lambda>errs2.
     bnd (modify (\<lambda>c. c\<lparr>fl_control := None, fl_opened := False\<rparr>)) (\<lambda>_.
     joinErrs (errs1 @ errs2)))))))"

definition openSessions :: "loadEnv \<Rightarrow> unit load_act" where
  "openSessions L =
     bnd (openFastLoadConnection L fastLoadConnControl 0) (\<lambda>cc.
     bnd (modify (\<lambda>c. c\<lparr>fl_control := Some cc\<rparr>)) (\<lambda>_.
     let lsn = cn_logonSequenceNumber cc in
     attempt (openFastLoadConnection L fastLoadConnDiag lsn) (\<lambda>x.
     case x of
       Inl err \<Rightarrow> attempt (closeSessions (ld_env L)) (\<lambda>_. fail err)
     | Inr dc \<Rightarrow> modify (\<lambda>c. c\<lparr>fl_diag := Some dc, fl_logonSeqNum := lsn, fl_opened := True\<rparr>))))"

text \<open>Every data session is closed; their connections are dropped, the errors returned.\<close>

fun closeDataChannels :: "env \<Rightarrow> fctx \<Rightarrow> dataSession list \<Rightarrow> goerror list load_act" where
  "closeDataChannels E ctx [] = ret []"
| "closeDataChannels E ctx (s # ss) =
     bnd (ctxErr ctx) (\<lambda>e.
     bnd (pure (ds_close E e s)) (\<lambda>(r, s).
     bnd (retire (ds_conn s)) (\<lambda>_.
     bnd (closeDataChannels E ctx ss) (\<lambda>errs.
     ret ((case r of Inl err \<Rightarrow> [err] | Inr _ \<Rightarrow> []) @ errs)))))"

fun openDataChannels ::
  "loadEnv \<Rightarrow> fctx \<Rightarrow> nat \<Rightarrow> fastLoadColumnEncoder list \<Rightarrow> dataSession list \<Rightarrow> dataSession list load_act" where
  "openDataChannels L ctx 0 encoders channels = ret channels"
| "openDataChannels L ctx (Suc n) encoders channels =
     bnd (gets fl_logonSeqNum) (\<lambda>lsn.
     attempt (openFastLoadConnection L fastLoadConnData lsn) (\<lambda>x.
     case x of
       Inl err \<Rightarrow> bnd (closeDataChannels (ld_env L) ctx channels) (\<lambda>_. fail err)
     | Inr conn \<Rightarrow>
         bnd (gets (ctr_config \<circ> fl_connector)) (\<lambda>config.
         bnd (pure (cn_capabilities conn)) (\<lambda>caps.
         case newFastLoadDataChannel caps encoders config of
           Inl err \<Rightarrow>
             bnd (closeSession (ld_env L) (Some conn)) (\<lambda>_.
             bnd (closeDataChannels (ld_env L) ctx channels) (\<lambda>_. fail err))
         | Inr ch \<Rightarrow>
             openDataChannels L ctx n encoders (channels @ [\<lparr>ds_chan = ch, ds_conn = conn, ds_closeErr = None\<rparr>])))))"

section \<open>Statements on the control session\<close>

definition controlExec :: "loadEnv \<Rightarrow> fctx \<Rightarrow> string \<Rightarrow> unit load_act" where
  "controlExec L ctx stmt =
     bnd (ctxErr ctx) (\<lambda>e.
     case e of
       Some err \<Rightarrow> fail err
     | None \<Rightarrow> bnd (on_control (execSessionSQL (ld_env L) stmt)) (\<lambda>_. ret ()))"

definition fastLoadBegin :: "loadEnv \<Rightarrow> unit load_act" where
  "fastLoadBegin L =
     on_control (bnd (gets cn_transactionInProgress) (\<lambda>inProgress.
       if inProgress then ret () else bnd (execSessionSQL (ld_env L) ''BT'') (\<lambda>_. ret ())))"

text \<open>The loop of \<open>fastLoadCommit\<close> is that of \<open>Commit\<close>.\<close>

definition fastLoadCommit :: "loadEnv \<Rightarrow> unit load_act" where
  "fastLoadCommit L = on_control (commitLoop (ld_env L))"

text \<open>Dropping one error table: \<open>n\<close> is the number of retries left after a deadlock (error 2631). The result is the
  error to collect, if any; the computation fails when the context ends during the pause.\<close>

primrec dropTable :: "loadEnv \<Rightarrow> fctx \<Rightarrow> string \<Rightarrow> nat \<Rightarrow> goerror list load_act" where
  "dropTable L ctx table 0 =
     attempt (controlExec L ctx (''DROP TABLE '' @ table)) (\<lambda>x.
     case x of
       Inr _ \<Rightarrow> ret []
     | Inl err \<Rightarrow> if isTeradataErrorCode err 3807 then ret [] else ret [Errorf ''dropping %s: %w'' [err]])"
| "dropTable L ctx table (Suc n) =
     attempt (controlExec L ctx (''DROP TABLE '' @ table)) (\<lambda>x.
     case x of
       Inr _ \<Rightarrow> ret []
     | Inl err \<Rightarrow>
         if isTeradataErrorCode err 3807 then ret []
         else if \<not> isTeradataErrorCode err 2631 then ret [Errorf ''dropping %s: %w'' [err]]
         else
           bnd (ctxErr ctx) (\<lambda>e.
           case e of Some err \<Rightarrow> fail err | None \<Rightarrow> dropTable L ctx table n))"

definition dropErrorTables :: "loadEnv \<Rightarrow> fctx \<Rightarrow> fastLoadTx \<Rightarrow> unit load_act" where
  "dropErrorTables L ctx t =
     attempt (dropTable L ctx (tx_errorTable1 t) 4) (\<lambda>x.
     case x of
       Inl err \<Rightarrow> joinErrs [err]
     | Inr errs1 \<Rightarrow>
         attempt (dropTable L ctx (tx_errorTable2 t) 4) (\<lambda>y.
         case y of
           Inl err \<Rightarrow> joinErrs (errs1 @ [err])
         | Inr errs2 \<Rightarrow> joinErrs (errs1 @ errs2)))"

definition releaseLoad :: "loadEnv \<Rightarrow> fctx \<Rightarrow> fastLoadTx \<Rightarrow> unit load_act" where
  "releaseLoad L ctx t =
     bnd (fastLoadCommit L) (\<lambda>_.
     bnd (controlExec L ctx (tx_beginLoading t)) (\<lambda>_.
     bnd (fastLoadBegin L) (\<lambda>_.
     bnd (controlExec L ctx ''END LOADING'') (\<lambda>_.
     bnd (fastLoadCommit L) (\<lambda>_.
     controlExec L ctx (''DELETE '' @ tx_target t @ '' ALL''))))))"

definition clearStaleLoad :: "loadEnv \<Rightarrow> fctx \<Rightarrow> fastLoadTx \<Rightarrow> unit load_act" where
  "clearStaleLoad L ctx t =
     bnd (ctxErr ctx) (\<lambda>e.
     case e of
       Some err \<Rightarrow> fail err
     | None \<Rightarrow>
         attempt (on_control (execSessionQuery (ld_env L) (''SELECT 1 FROM '' @ tx_target t @ '' WHERE 1=2''))) (\<lambda>x.
         bnd (case x of
                Inr _ \<Rightarrow> ret ()
              | Inl err \<Rightarrow>
                  if isTeradataErrorCode err 2652 then
                    attempt (releaseLoad L ctx t) (\<lambda>y.
                    case y of
                      Inl err \<Rightarrow> fail (Errorf ''releasing stale load of %s: %w'' [err])
                    | Inr _ \<Rightarrow> ret ())
                  else fail err) (\<lambda>_.
         dropErrorTables L ctx t)))"

section \<open>Rows\<close>

definition on_channel :: "nat \<Rightarrow> 'a ds_act \<Rightarrow> 'a tx_act" where
  "on_channel i m s =
     (let (t, c) = s in
      if i < length (tx_dataChannels t) then
        map_option (\<lambda>(r, d). (r, (t\<lparr>tx_dataChannels := (tx_dataChannels t)[i := d]\<rparr>, c))) (m (tx_dataChannels t ! i))
      else None)"

definition ifDone :: "'a tx_act \<Rightarrow> 'a tx_act" where
  "ifDone m = bnd (gets (tx_done \<circ> fst)) (\<lambda>done. if done then fail ErrFastLoadFinished else m)"

text \<open>\<open>int(t.rowNumber)%len(t.dataChannels)\<close> divides by zero without sessions and is negative for a row number that
  has wrapped; both panic.\<close>

definition channelFor :: "fastLoadTx \<Rightarrow> nat option" where
  "channelFor t =
     (let n = int (length (tx_dataChannels t)); i = rem (sint (tx_rowNumber t)) n
      in if n = 0 \<or> i < 0 then None else Some (nat i))"

definition AddRow :: "loadEnv \<Rightarrow> fctx \<Rightarrow> gvalue list \<Rightarrow> int tx_act" where
  "AddRow L ctx vals =
     ifDone (bnd (gets fst) (\<lambda>t.
     bnd (pure (channelFor t)) (\<lambda>i.
     let rowNumber = tx_rowNumber t + 1 in
     bnd (zoom (ctxErr ctx)) (\<lambda>e.
     bnd (on_channel i (pushRow (ld_env L) (ld_float L) e rowNumber vals)) (\<lambda>_.
     bnd (set_fst (\<lambda>t. t\<lparr>tx_rowNumber := rowNumber\<rparr>)) (\<lambda>_. ret (sint rowNumber)))))))"

fun dispatchAll :: "loadEnv \<Rightarrow> fctx \<Rightarrow> nat list \<Rightarrow> unit tx_act" where
  "dispatchAll L ctx [] = ret ()"
| "dispatchAll L ctx (i # is) =
     bnd (zoom (ctxErr ctx)) (\<lambda>e.
     bnd (on_channel i (dispatch (ld_env L) e)) (\<lambda>_. dispatchAll L ctx is))"

fun awaitAll :: "loadEnv \<Rightarrow> fctx \<Rightarrow> nat list \<Rightarrow> goerror list tx_act" where
  "awaitAll L ctx [] = ret []"
| "awaitAll L ctx (i # is) =
     bnd (zoom (ctxErr ctx)) (\<lambda>e.
     attempt (on_channel i (waitAll (ld_env L) e)) (\<lambda>x.
     bnd (awaitAll L ctx is) (\<lambda>errs.
     ret ((case x of Inl err \<Rightarrow> [Errorf ''data session %d: %w'' [err]] | Inr _ \<Rightarrow> []) @ errs))))"

definition Flush :: "loadEnv \<Rightarrow> fctx \<Rightarrow> unit tx_act" where
  "Flush L ctx =
     ifDone (bnd (gets (\<lambda>s. [0..<length (tx_dataChannels (fst s))])) (\<lambda>is.
     bnd (dispatchAll L ctx is) (\<lambda>_.
     bnd (awaitAll L ctx is) joinErrs)))"

section \<open>Ending and aborting\<close>

definition finish :: "loadEnv \<Rightarrow> fctx \<Rightarrow> unit tx_act" where
  "finish L ctx =
     bnd (gets fst) (\<lambda>t.
     bnd (zoom (closeDataChannels (ld_env L) ctx (tx_dataChannels t))) (\<lambda>_.
     bnd (set_fst (\<lambda>t. t\<lparr>tx_dataChannels := [], tx_done := True\<rparr>)) (\<lambda>_.
     zoom (modify (\<lambda>c. c\<lparr>fl_current := False\<rparr>)))))"

text \<open>A deferred call, whatever the body returned.\<close>

definition deferred :: "('s, unit) comp \<Rightarrow> ('s, 'a) comp \<Rightarrow> ('s, 'a) comp" where
  "deferred d m = attempt m (\<lambda>x. attempt d (\<lambda>_. case x of Inl err \<Rightarrow> fail err | Inr y \<Rightarrow> ret y))"

definition abortLoad :: "loadEnv \<Rightarrow> fctx \<Rightarrow> unit tx_act" where
  "abortLoad L ctx =
     bnd (gets fst) (\<lambda>t.
     bnd (zoom (closeDataChannels (ld_env L) ctx (tx_dataChannels t))) (\<lambda>_.
     bnd (set_fst (\<lambda>t. t\<lparr>tx_dataChannels := []\<rparr>)) (\<lambda>_.
     attempt (zoom (closeSessions (ld_env L))) (\<lambda>_.
     bnd (zoom (openSessions L)) (\<lambda>_.
     bnd (zoom (openDataChannels L ctx (nat (tx_sessionCount t)) (tx_encoders t) [])) (\<lambda>channels.
     bnd (set_fst (\<lambda>t. t\<lparr>tx_dataChannels := channels\<rparr>)) (\<lambda>_.
     bnd (zoom (releaseLoad L ctx t)) (\<lambda>_.
     zoom (dropErrorTables L ctx t)))))))))"

definition Abort :: "loadEnv \<Rightarrow> fctx \<Rightarrow> unit tx_act" where
  "Abort L ctx = ifDone (deferred (finish L ctx) (abortLoad L ctx))"

text \<open>\<open>fastLoadCleanupContext\<close>\<close>

definition cleanupContext :: "loadEnv \<Rightarrow> fctx \<Rightarrow> fctx load_act" where
  "cleanupContext L ctx = bnd (ctxErr ctx) (\<lambda>e. ret (if e = None then ctx else ld_cleanup L))"

definition endLoading :: "loadEnv \<Rightarrow> fctx \<Rightarrow> int tx_act" where
  "endLoading L ctx =
     bnd (Flush L ctx) (\<lambda>_.
     bnd (zoom (controlExec L ctx ''CHECKPOINT LOADING END'')) (\<lambda>_.
     bnd (zoom (fastLoadCommit L)) (\<lambda>_.
     bnd (zoom (fastLoadBegin L)) (\<lambda>_.
     bnd (zoom (ctxErr ctx)) (\<lambda>e.
     case e of
       Some err \<Rightarrow> fail err
     | None \<Rightarrow>
         bnd (zoom (on_control (execSessionUpdate (ld_env L) ''END LOADING''))) (\<lambda>loaded.
         bnd (zoom (fastLoadCommit L)) (\<lambda>_. ret (sint loaded))))))))"

text \<open>The result read after a load has ended: it is returned with the errors met.\<close>

definition readResult :: "loadEnv \<Rightarrow> fctx \<Rightarrow> int \<Rightarrow> int \<Rightarrow> (fastLoadResult \<times> goerror option) tx_act" where
  "readResult L ctx rowsSent loaded =
     bnd (gets fst) (\<lambda>t.
     bnd (zoom (ctxErr ctx)) (\<lambda>e.
     bnd (zoom (on_control (readFastLoadErrorTable1 (ld_fmt L) (ld_env L) (Cancellable e) (tx_errorTable1 t)))) (\<lambda>(rows, e1).
     attempt (zoom (on_control (countFastLoadErrorTable (ld_env L) (tx_errorTable2 t)))) (\<lambda>n.
     attempt (zoom (dropErrorTables L ctx t)) (\<lambda>d.
     let errs = (case e1 of Some err \<Rightarrow> [Errorf ''reading %s: %w'' [err]] | None \<Rightarrow> [])
              @ (case n of Inl err \<Rightarrow> [Errorf ''reading %s: %w'' [err]] | Inr _ \<Rightarrow> [])
              @ (case d of Inl err \<Rightarrow> [err] | Inr _ \<Rightarrow> [])
     in ret (\<lparr>rs_RowsSent = rowsSent, rs_RowsAccepted = loaded, rs_Errors = rows,
              rs_UniqueViolations = (case n of Inl _ \<Rightarrow> 0 | Inr n \<Rightarrow> n)\<rparr>,
             if errs = [] then None else Some (Errorf [] errs)))))))"

definition End :: "loadEnv \<Rightarrow> fctx \<Rightarrow> (fastLoadResult \<times> goerror option) tx_act" where
  "End L ctx =
     ifDone (bnd (gets (sint \<circ> tx_rowNumber \<circ> fst)) (\<lambda>rowsSent.
     attempt (endLoading L ctx) (\<lambda>x.
     case x of
       Inl err \<Rightarrow>
         bnd (zoom (cleanupContext L ctx)) (\<lambda>abortCtx.
         attempt (Abort L abortCtx) (\<lambda>a.
         fail (case a of
                 Inl abortErr \<Rightarrow> Errorf [] [err, Errorf ''abort after failed end: %w'' [abortErr]]
               | Inr _ \<Rightarrow> err)))
     | Inr loaded \<Rightarrow> deferred (finish L ctx) (readResult L ctx rowsSent loaded))))"

definition tx_Close :: "loadEnv \<Rightarrow> unit tx_act" where
  "tx_Close L = bnd (gets (tx_done \<circ> fst)) (\<lambda>over. if over then ret () else Abort L (\<lambda>_. None))"

definition fl_Close :: "loadEnv \<Rightarrow> unit tx_act" where
  "fl_Close L =
     bnd (gets (fl_current \<circ> snd)) (\<lambda>current.
     attempt (if current then tx_Close L else ret ()) (\<lambda>x.
     attempt (zoom (closeSessions (ld_env L))) (\<lambda>y.
     joinErrs ((case x of Inl err \<Rightarrow> [err] | Inr _ \<Rightarrow> []) @ (case y of Inl err \<Rightarrow> [err] | Inr _ \<Rightarrow> [])))))"

section \<open>Beginning\<close>

text \<open>The number of data sessions: what the server answers to CHECK WORKLOAD END would be used if it were a Go
  \<open>int\<close>.\<close>

definition workloadSessions :: "gvalue list \<Rightarrow> int" where
  "workloadSessions rowData =
     (case rowData of
        V_string flg # V_int n # _ \<Rightarrow> if flg = ''Y'' then sint n else 0
      | _ \<Rightarrow> 0)"

definition dataSessionCount :: "loadEnv \<Rightarrow> string \<Rightarrow> int load_act" where
  "dataSessionCount L beginLoading =
     bnd (on_control capabilities) (\<lambda>caps.
     bnd (if cap_checkWorkloadSupported caps then
            bnd (on_control (execSessionSQL (ld_env L) (''CHECK WORKLOAD FOR '' @ beginLoading))) (\<lambda>_.
            bnd (on_control (execSessionQuery (ld_env L) ''CHECK WORKLOAD END'')) (\<lambda>rowData.
            ret (workloadSessions rowData)))
          else ret 0) (\<lambda>n.
     bnd (gets (cfg_MaxFastLoadSessions \<circ> ctr_config \<circ> fl_connector)) (\<lambda>most.
     let n = (if n = 0 then cap_ampCount caps else n)
     in ret (if n \<le> 0 \<or> n > most then most else n))))"

definition newFastLoadTx ::
  "string \<Rightarrow> string \<Rightarrow> statementInfo option \<Rightarrow> fastLoadColumnEncoder list \<Rightarrow> int \<Rightarrow> dataSession list \<Rightarrow> fastLoadTx" where
  "newFastLoadTx database table info encoders n channels =
     (let e1 = database @ ''.'' @ table @ ''_ERR_1''; e2 = database @ ''.'' @ table @ ''_ERR_2''
      in \<lparr>tx_dataChannels = channels, tx_encoders = encoders, tx_sessionCount = n, tx_rowNumber = 0,
          tx_statementInfo = info, tx_target = database @ ''.'' @ table, tx_errorTable1 = e1, tx_errorTable2 = e2,
          tx_beginLoading = ''BEGIN LOADING '' @ database @ ''.'' @ table @ '' ERRORFILES '' @ e1 @ '', '' @ e2
            @ '' WITH INTERVAL'', tx_done = False\<rparr>)"

text \<open>The two halves of the set-up of a new transaction: before and after the load has begun on the server.\<close>

definition startLoading :: "loadEnv \<Rightarrow> fctx \<Rightarrow> string \<Rightarrow> string \<Rightarrow> string list \<Rightarrow> string tx_act" where
  "startLoading L ctx database table columns =
     bnd (gets fst) (\<lambda>t.
     bnd (zoom (on_control capabilities)) (\<lambda>caps.
     case buildFastLoadUsingInsert database table columns (tx_statementInfo t) caps of
       Inl err \<Rightarrow> fail err
     | Inr usingInsert \<Rightarrow>
         bnd (zoom (clearStaleLoad L ctx t)) (\<lambda>_.
         bnd (zoom (controlExec L ctx ''SET SESSION DateForm = IntegerDate'')) (\<lambda>_.
         bnd (zoom (controlExec L ctx (tx_beginLoading t))) (\<lambda>_.
         ret usingInsert)))))"

definition startInsert :: "loadEnv \<Rightarrow> fctx \<Rightarrow> string \<Rightarrow> unit tx_act" where
  "startInsert L ctx usingInsert =
     bnd (zoom (fastLoadBegin L)) (\<lambda>_. zoom (controlExec L ctx usingInsert))"

definition setUp :: "loadEnv \<Rightarrow> fctx \<Rightarrow> string \<Rightarrow> string \<Rightarrow> string list \<Rightarrow> unit tx_act" where
  "setUp L ctx database table columns =
     attempt (startLoading L ctx database table columns) (\<lambda>x.
     case x of
       Inl err \<Rightarrow>
         bnd (gets fst) (\<lambda>t.
         bnd (zoom (closeDataChannels (ld_env L) ctx (tx_dataChannels t))) (\<lambda>_.
         bnd (set_fst (\<lambda>t. t\<lparr>tx_dataChannels := []\<rparr>)) (\<lambda>_. fail err)))
     | Inr usingInsert \<Rightarrow>
         attempt (startInsert L ctx usingInsert) (\<lambda>y.
         case y of
           Inl err \<Rightarrow>
             bnd (zoom (cleanupContext L ctx)) (\<lambda>abortCtx.
             attempt (Abort L abortCtx) (\<lambda>_. fail err))
         | Inr _ \<Rightarrow> zoom (modify (\<lambda>c. c\<lparr>fl_current := True\<rparr>))))"

definition prepareInsert :: "loadEnv \<Rightarrow> string \<Rightarrow> statementInfo option load_act" where
  "prepareInsert L sql =
     bnd (on_control (prepare (ld_env L) sql)) (\<lambda>stmt.
     attempt (on_control (with_object stmt (stmt_Close (ld_env L)))) (\<lambda>_. ret (st_statementInfo stmt)))"

definition BeginFastLoad :: "loadEnv \<Rightarrow> fctx \<Rightarrow> string \<Rightarrow> string \<Rightarrow> string list \<Rightarrow> unit tx_act" where
  "BeginFastLoad L ctx database table columns =
     (if columns = [] then fail ErrFastLoadNoColumns
      else
        bnd (gets (fl_current \<circ> snd)) (\<lambda>current.
        if current then fail ErrFastLoadNotClosed
        else
          bnd (gets (fl_opened \<circ> snd)) (\<lambda>opened.
          bnd (if opened then ret () else zoom (openSessions L)) (\<lambda>_.
          bnd (gets (fl_control \<circ> snd)) (\<lambda>control.
          if control = None then fail ErrFastConnectFailed
          else
            bnd (zoom (prepareInsert L (buildFastLoadInsertStatement database table columns))) (\<lambda>info.
            let t0 = newFastLoadTx database table info [] 0 [] in
            bnd (zoom (dataSessionCount L (tx_beginLoading t0))) (\<lambda>n.
            bnd (zoom (on_control capabilities)) (\<lambda>caps.
            bnd (pure info) (\<lambda>si.
            case newFastLoadColumnEncoders si caps of
              Inl err \<Rightarrow> fail err
            | Inr encoders \<Rightarrow>
                bnd (zoom (openDataChannels L ctx (nat n) encoders [])) (\<lambda>channels.
                bnd (set_fst (\<lambda>_. newFastLoadTx database table info encoders n channels)) (\<lambda>_.
                setUp L ctx database table columns)))))))))))"

section \<open>A load that is over\<close>

lemma closeDataChannels_returns:
  "closeDataChannels E ctx ss c = Some (x, c') \<Longrightarrow> \<exists>errs. x = Inr errs"
proof (induction ss arbitrary: c x)
  case (Cons s ss)
  from Cons.prems show ?case
    unfolding closeDataChannels.simps
  proof (cases rule: bnd_SomeE)
    case (err e)
    then show ?thesis by (simp add: ctxErr_def)
  next
    case (ok e c1)
    then obtain r s' where "ds_close E e s = Some (r, s')"
      by (auto simp: bnd_def pure_def split: option.splits)
    then have "bnd (closeDataChannels E ctx ss) (\<lambda>errs. ret ((case r of Inl err \<Rightarrow> [err] | Inr _ \<Rightarrow> []) @ errs))
        (c1\<lparr>fl_retired := fl_retired c1 @ [ds_conn s']\<rparr>) = Some (x, c')"
      using ok(2) by (simp add: bnd_def [of "pure p" for p] pure_def retire_def bnd_def [of "modify g" for g] modify_def)
    then show ?thesis using Cons.IH by (cases rule: bnd_SomeE) (auto simp: ret_def)
  qed
qed (simp add: ret_def)

definition over :: "fastLoadTx \<times> fastLoadConnection \<Rightarrow> bool" where
  "over s \<longleftrightarrow> tx_done (fst s) \<and> tx_dataChannels (fst s) = [] \<and> \<not> fl_current (snd s)"

lemma finish_over: "finish L ctx s = Some (x, s') \<Longrightarrow> over s' \<and> x = Inr ()"
  using closeDataChannels_returns
  by (fastforce simp: finish_def bnd_def gets_def zoom_def set_fst_def modify_def over_def
      split: option.splits sum.splits prod.splits)

lemma deferred_finish_over:
  assumes "deferred (finish L ctx) m s = Some (x, s')"
  shows "over s'"
proof -
  obtain y s1 where "attempt (finish L ctx) (\<lambda>_. case y of Inl err \<Rightarrow> fail err | Inr z \<Rightarrow> ret z) s1 = Some (x, s')"
    using assms unfolding deferred_def by (rule attempt_SomeE)
  then obtain z s2 where "finish L ctx s1 = Some (z, s2)" "(case y of Inl err \<Rightarrow> fail err | Inr z \<Rightarrow> ret z) s2 = Some (x, s')"
    by (rule attempt_SomeE)
  then show ?thesis using finish_over by (cases y) (auto simp: fail_def ret_def)
qed

lemma ifDone_over:
  assumes "tx_done (fst s)" shows "ifDone m s = Some (Inl ErrFastLoadFinished, s)"
  using assms by (simp add: ifDone_def bnd_def gets_def fail_def)

lemma ifDone_live:
  assumes "\<not> tx_done (fst s)" shows "ifDone m s = m s"
  using assms by (simp add: ifDone_def bnd_def gets_def)

lemma Abort_over:
  "Abort L ctx s = Some (x, s') \<Longrightarrow> \<not> tx_done (fst s) \<Longrightarrow> over s'"
  unfolding Abort_def by (simp add: ifDone_live deferred_finish_over)

text \<open>Nothing else ends a transaction.\<close>

definition same_done :: "fastLoadTx \<times> fastLoadConnection \<Rightarrow> fastLoadTx \<times> fastLoadConnection \<Rightarrow> bool" where
  "same_done s s' \<longleftrightarrow> tx_done (fst s') = tx_done (fst s)"

interpretation doneness: kept_relation same_done
  by unfold_locales (simp_all add: same_done_def)

lemmas [keeps_intros] = doneness.bnd doneness.attempt doneness.basic

lemma keeps_done [keeps_intros]:
  "keeps same_done (zoom m)" "keeps same_done (on_channel i d)"
  "(\<And>t. tx_done (f t) = tx_done t) \<Longrightarrow> keeps same_done (set_fst f)"
  by (auto simp: keeps_def same_done_def zoom_def on_channel_def set_fst_def modify_def Let_def split: if_splits)

lemma keeps_dispatchAll [keeps_intros]: "keeps same_done (dispatchAll L ctx is)"
  by (induction "is") (auto intro!: keeps_intros)

lemma keeps_awaitAll [keeps_intros]: "keeps same_done (awaitAll L ctx is)"
  by (induction "is") (auto intro!: keeps_intros)

lemma keeps_ifDone [keeps_intros]: "keeps same_done m \<Longrightarrow> keeps same_done (ifDone m)"
  unfolding ifDone_def by (intro keeps_intros)

lemma keeps_Flush [keeps_intros]: "keeps same_done (Flush L ctx)"
  unfolding Flush_def joinErrs_def by (intro keeps_intros)

lemma keeps_endLoading [keeps_intros]: "keeps same_done (endLoading L ctx)"
  unfolding endLoading_def by (intro keeps_intros)

lemma End_over:
  assumes "End L ctx s = Some (x, s')" "\<not> tx_done (fst s)"
  shows "over s'"
proof -
  obtain rowsSent y s1 where e: "endLoading L ctx s = Some (y, s1)"
    and r: "(case y of
       Inl err \<Rightarrow>
         bnd (zoom (cleanupContext L ctx)) (\<lambda>abortCtx.
         attempt (Abort L abortCtx) (\<lambda>a.
         fail (case a of
                 Inl abortErr \<Rightarrow> Errorf [] [err, Errorf ''abort after failed end: %w'' [abortErr]]
               | Inr _ \<Rightarrow> err)))
     | Inr loaded \<Rightarrow> deferred (finish L ctx) (readResult L ctx rowsSent loaded)) s1 = Some (x, s')"
    using assms by (auto simp: End_def ifDone_live bnd_def [of "gets f" for f] gets_def elim!: attempt_SomeE)
  have d: "\<not> tx_done (fst s1)" using keepsD [OF keeps_endLoading e] assms(2) by (simp add: same_done_def)
  show ?thesis
  proof (cases y)
    case (Inr loaded)
    then show ?thesis using r by (simp add: deferred_finish_over)
  next
    case (Inl err)
    then obtain abortCtx s2 where c: "zoom (cleanupContext L ctx) s1 = Some (Inr abortCtx, s2)"
      and a: "attempt (Abort L abortCtx) (\<lambda>a. fail (case a of
                 Inl abortErr \<Rightarrow> Errorf [] [err, Errorf ''abort after failed end: %w'' [abortErr]]
               | Inr _ \<Rightarrow> err)) s2 = Some (x, s')"
      using r by (auto simp: cleanupContext_def ctxErr_def bnd_def ret_def zoom_def)
    have d2: "\<not> tx_done (fst s2)" using keepsD [OF keeps_done(1) c] d by (simp add: same_done_def)
    obtain a s3 where "Abort L abortCtx s2 = Some (a, s3)" "s3 = s'"
      using a by (rule attempt_SomeE) (auto simp: fail_def)
    then show ?thesis using Abort_over d2 by simp
  qed
qed

text \<open>The methods of a transaction.\<close>

datatype loadCall = CallAddRow fctx "gvalue list" | CallFlush fctx | CallEnd fctx | CallAbort fctx

fun txCall :: "loadEnv \<Rightarrow> loadCall \<Rightarrow> fastLoadTx \<times> fastLoadConnection \<Rightarrow> (goerror option \<times> fastLoadTx \<times> fastLoadConnection) option" where
  "txCall L (CallAddRow ctx vals) s = map_option (map_prod (case_sum Some (\<lambda>_. None)) id) (AddRow L ctx vals s)"
| "txCall L (CallFlush ctx) s = map_option (map_prod (case_sum Some (\<lambda>_. None)) id) (Flush L ctx s)"
| "txCall L (CallEnd ctx) s = map_option (map_prod (case_sum Some (\<lambda>_. None)) id) (End L ctx s)"
| "txCall L (CallAbort ctx) s = map_option (map_prod (case_sum Some (\<lambda>_. None)) id) (Abort L ctx s)"

lemma txCall_over: "tx_done (fst s) \<Longrightarrow> txCall L k s = Some (Some ErrFastLoadFinished, s)"
  by (cases k) (simp_all add: AddRow_def Flush_def End_def Abort_def ifDone_over)

end
