(* ===== verification/FastLoadDelivery.thy ===== *)
theory FastLoadDelivery
  imports FastLoad
begin

text \<open>
  What a bulk load promises, src/fastload_connection.go: where the rows of \<open>AddRow\<close> go, that a flush which succeeds
  has sent all of them, and that a transaction which has ended or been aborted stays over.
\<close>

section \<open>Where the rows go\<close>

lemma acquire_accepted:
  assumes r: "dc_sender (ds_chan s) = Receiving" and a: "acquire E ctx s = Some (x, s')"
  shows "dc_accepted (ds_chan s') = dc_accepted (ds_chan s)"
proof (cases ctx)
  case (Some err)
  then show ?thesis using a by (auto simp: acquire_def bnd_def on_chan_def modify_def fail_def)
next
  case None
  let ?m = "if dc_free (ds_chan s) = [] then drain E else ret ()"
  obtain v s1 where m: "?m s = Some (v, s1)"
    using a None by (auto simp: acquire_def bnd_def gets_def split: option.splits)
  have v: "dc_accepted (ds_chan s1) = dc_accepted (ds_chan s)" "v = Inr ()"
    using m drain_serves [OF r, of E v s1] by (auto simp: ret_def unmoved_def split: if_splits)
  then have "takeFree s1 = Some (x, s')" using a None m by (simp add: acquire_def bnd_def gets_def)
  then show ?thesis using v(1) by (auto simp: takeFree_def on_chan_def modify_def split: list.splits)
qed

lemma sendPending_accepted:
  assumes r: "dc_sender (ds_chan s) = Receiving" and a: "sendPending E b s = Some (x, s')"
  shows "dc_accepted (ds_chan s') = dc_accepted (ds_chan s)"
proof -
  let ?m = "if length (dc_pending (ds_chan s)) < fastLoadBuffersPerSession then ret () else drain E"
  obtain u s1 where m: "?m s = Some (u, s1)"
    using a by (auto simp: sendPending_def bnd_def gets_def split: option.splits)
  have u: "dc_accepted (ds_chan s1) = dc_accepted (ds_chan s)" "u = Inr ()"
    using m drain_serves [OF r, of E u s1] by (auto simp: ret_def unmoved_def split: if_splits)
  then show ?thesis using a m by (auto simp: sendPending_def bnd_def gets_def on_chan_def modify_def)
qed

lemma dispatch_accepted:
  assumes r: "dc_sender (ds_chan s) = Receiving" and a: "dispatch E ctx s = Some (x, s')"
  shows "dc_accepted (ds_chan s') = dc_accepted (ds_chan s)"
proof (cases "\<exists>b. dc_cur (ds_chan s) = Some b \<and> b_rows b \<noteq> 0")
  case False
  then show ?thesis using a by (auto simp: dispatch_def bnd_def gets_def ret_def split: option.splits if_splits)
next
  case True
  then obtain b where b: "dc_cur (ds_chan s) = Some b" "b_rows b \<noteq> 0" by blast
  then have "bnd (sendPending E b) (\<lambda>_. acquire E ctx) s = Some (x, s')" using a by (simp add: dispatch_def bnd_def gets_def)
  then show ?thesis
  proof (cases rule: bnd_SomeE)
    case (err e)
    then show ?thesis using sendPending_accepted [OF r] by blast
  next
    case (ok u s1)
    have "dc_sender (ds_chan s1) = Receiving"
      using sendPending_reaches [OF r b(1) ok(1), of OnFlush undefined] by (simp add: settled_def)
    then show ?thesis using sendPending_accepted [OF r ok(1)] acquire_accepted [OF _ ok(2)] by simp
  qed
qed

lemma waitAll_accepted:
  assumes r: "dc_sender (ds_chan s) = Receiving" and a: "waitAll E ctx s = Some (x, s')"
  shows "dc_accepted (ds_chan s') = dc_accepted (ds_chan s)"
proof (cases ctx)
  case (Some err)
  then show ?thesis using a by (auto simp: waitAll_def bnd_def on_chan_def modify_def fail_def)
next
  case None
  obtain v s1 where d: "drain E s = Some (v, s1)" using a None by (auto simp: waitAll_def bnd_def split: option.splits)
  have "dc_accepted (ds_chan s1) = dc_accepted (ds_chan s)" "v = Inr ()"
    using drain_serves [OF r d] by (simp_all add: unmoved_def)
  then show ?thesis using a None d
    by (auto simp: waitAll_def bnd_def gets_def pure_def on_chan_def modify_def fail_def ret_def Let_def
        split: if_splits option.splits)
qed

lemma dispatchIfFull_accepted:
  assumes r: "dc_sender (ds_chan s) = Receiving" and a: "dispatchIfFull E ctx s = Some (x, s')"
  shows "dc_accepted (ds_chan s') = dc_accepted (ds_chan s)"
  using a dispatch_accepted [OF r] by (auto simp: dispatchIfFull_def ret_def elim!: bind_SomeE split: if_splits)

lemma encodeRow_accepted:
  "encodeRow F n vs s = Some (x, s') \<Longrightarrow>
     length (dc_accepted (ds_chan s')) = length (dc_accepted (ds_chan s)) + (case x of Inl _ \<Rightarrow> 0 | Inr _ \<Rightarrow> 1)"
  by (auto simp: encodeRow_def Let_def ret_def fail_def elim!: bind_SomeE split: option.splits)

text \<open>A row is accepted exactly when \<open>pushRow\<close> returns nil.\<close>

lemma pushRow_accepted:
  assumes r: "resting (ds_chan s)" and a: "pushRow E F ctx n vs s = Some (x, s')"
  shows "length (dc_accepted (ds_chan s')) = length (dc_accepted (ds_chan s)) + (case x of Inl _ \<Rightarrow> 0 | Inr _ \<Rightarrow> 1)"
proof (cases "dc_err (ds_chan s)")
  case (Some e)
  then show ?thesis using a by (auto simp: pushRow_def bnd_def gets_def fail_def)
next
  case None
  let ?m = "if dc_cur (ds_chan s) = None then acquire E ctx else ret ()"
  have rc: "dc_sender (ds_chan s) = Receiving" using r by (simp add: resting_def)
  have "bnd ?m (\<lambda>_. bnd (dispatchIfFull E ctx) (\<lambda>_. encodeRow F n vs)) s = Some (x, s')"
    using a None by (simp add: pushRow_def bnd_def gets_def)
  then show ?thesis
  proof (cases rule: bnd_SomeE)
    case (err e)
    then show ?thesis using acquire_accepted [OF rc] by (auto simp: ret_def split: if_splits)
  next
    case (ok u s1)
    have s1: "dc_accepted (ds_chan s1) = dc_accepted (ds_chan s)" "dc_sender (ds_chan s1) = Receiving"
      using ok(1) acquire_accepted [OF rc] acquire_reaches [OF rc, of E ctx "Inr u" s1 undefined OnFlush] rc
      by (auto simp: ret_def settled_def split: if_splits)
    show ?thesis using ok(2)
    proof (cases rule: bnd_SomeE)
      case (err e)
      then show ?thesis using dispatchIfFull_accepted [OF s1(2)] s1(1) by auto
    next
      case d: (ok v s2)
      then show ?thesis using dispatchIfFull_accepted [OF s1(2) d(1)] s1(1) encodeRow_accepted [OF d(2)] by simp
    qed
  qed
qed


section \<open>Flushing keeps the rows, and delivers them\<close>

text \<open>What flushing leaves as it was, from well-formed sessions.\<close>

abbreviation channels :: "fastLoadTx \<times> fastLoadConnection \<Rightarrow> dataSession list" where
  "channels s \<equiv> tx_dataChannels (fst s)"

abbreviation accepted_by :: "fastLoadTx \<times> fastLoadConnection \<Rightarrow> byte list list list" where
  "accepted_by s \<equiv> map (dc_accepted \<circ> ds_chan) (channels s)"

definition same_rows :: "fastLoadTx \<times> fastLoadConnection \<Rightarrow> fastLoadTx \<times> fastLoadConnection \<Rightarrow> bool" where
  "same_rows s s' \<longleftrightarrow> (list_all session_ok (channels s) \<longrightarrow> list_all session_ok (channels s')
     \<and> accepted_by s' = accepted_by s \<and> tx_rowNumber (fst s') = tx_rowNumber (fst s))"

interpretation rows_kept: kept_relation same_rows
  by unfold_locales (simp_all add: same_rows_def)

lemmas rows_kept_intros = rows_kept.bnd rows_kept.attempt rows_kept.basic

lemma keeps_rows_check [keeps_intros]: "keeps same_rows (zoom m)"
  by (auto simp: keeps_def same_rows_def zoom_def)

lemma on_channel_rows:
  assumes "\<And>d x d'. session_ok d \<Longrightarrow> m d = Some (x, d') \<Longrightarrow> session_ok d' \<and> dc_accepted (ds_chan d') = dc_accepted (ds_chan d)"
  shows "keeps same_rows (on_channel i m)"
  using assms
  by (fastforce simp: keeps_def same_rows_def on_channel_def Let_def list_all_length nth_list_update
      intro!: nth_equalityI split: if_splits prod.splits)

lemma session_rests: "session_ok d \<Longrightarrow> dc_sender (ds_chan d) = Receiving"
  by (simp add: session_ok_def resting_def)

lemma keeps_rows_calls [keeps_intros]:
  shows "keeps same_rows (on_channel i (dispatch E ctx))" and "keeps same_rows (on_channel i (waitAll E ctx))"
proof -
  show "keeps same_rows (on_channel i (dispatch E ctx))"
    by (rule on_channel_rows) (meson session_ok_calls(2) dispatch_accepted session_rests)
  show "keeps same_rows (on_channel i (waitAll E ctx))"
    by (rule on_channel_rows) (meson session_ok_calls(3) waitAll_accepted session_rests)
qed

lemma keeps_rows_Flush:
  "keeps same_rows (dispatchAll L ctx is)" "keeps same_rows (awaitAll L ctx is)" "keeps same_rows (Flush L ctx)"
proof -
  show d: "keeps same_rows (dispatchAll L ctx is)" for "is" by (induction "is") (auto intro!: keeps_intros rows_kept_intros)
  show a: "keeps same_rows (awaitAll L ctx is)" for "is" by (induction "is") (auto intro!: keeps_intros rows_kept_intros)
  show "keeps same_rows (Flush L ctx)"
    unfolding Flush_def joinErrs_def ifDone_def by (intro keeps_intros rows_kept_intros d a)
qed

text \<open>A call on one session leaves the others alone.\<close>

lemma list_all_update: "list_all P xs \<Longrightarrow> P d \<Longrightarrow> list_all P (xs[i := d])"
  by (auto simp: list_all_iff dest: subsetD [OF set_update_subset_insert])

lemma on_channel_SomeE:
  assumes "on_channel i m s = Some (x, s')"
  obtains d where "i < length (channels s)" "m (channels s ! i) = Some (x, d)" "channels s' = (channels s)[i := d]"
    "snd s' = snd s" "tx_rowNumber (fst s') = tx_rowNumber (fst s)"
  using assms by (auto simp: on_channel_def Let_def split: if_splits prod.splits)

lemma check_SomeE:
  assumes "zoom (ctxErr ctx) s = Some (x, s')"
  obtains e where "x = Inr e" "fst s' = fst s"
  using assms by (auto simp: zoom_def ctxErr_def)

lemma dispatchAll_empties:
  assumes "dispatchAll L ctx is s = Some (Inr u, s')" "list_all session_ok (channels s)"
    "\<forall>i < length (channels s). i \<in> set is \<or> empty_hand (ds_chan (channels s ! i))"
  shows "\<forall>i < length (channels s'). empty_hand (ds_chan (channels s' ! i))"
  using assms
proof (induction "is" arbitrary: s)
  case Nil
  then show ?case by (simp add: ret_def)
next
  case (Cons i "is")
  obtain e s1 v s2 where s: "zoom (ctxErr ctx) s = Some (Inr e, s1)" "on_channel i (dispatch (ld_env L) e) s1 = Some (Inr v, s2)"
    "dispatchAll L ctx is s2 = Some (Inr u, s')"
    using Cons.prems(1) by (auto elim!: bnd_SomeE)
  have c1: "channels s1 = channels s" using s(1) by (rule check_SomeE) simp
  obtain d where d: "i < length (channels s)" "dispatch (ld_env L) e (channels s ! i) = Some (Inr v, d)"
    "channels s2 = (channels s)[i := d]"
    using s(2) unfolding c1 [symmetric] by (rule on_channel_SomeE)
  have ok: "session_ok (channels s ! i)" using Cons.prems(2) d(1) by (simp add: list_all_length)
  have "list_all session_ok (channels s2)"
    using Cons.prems(2) session_ok_calls(2) [OF ok d(2)] d(3) by (simp add: list_all_update)
  moreover have "\<forall>j < length (channels s2). j \<in> set is \<or> empty_hand (ds_chan (channels s2 ! j))"
    using Cons.prems(3) dispatch_empties [OF ok d(2)] d(1,3) by (auto simp: nth_list_update)
  ultimately show ?case using Cons.IH [OF s(3)] by blast
qed

definition delivered :: "dataSession \<Rightarrow> bool" where
  "delivered d \<longleftrightarrow> dc_sent (ds_chan d) = concat (dc_accepted (ds_chan d))"

lemma awaitAll_delivers:
  assumes "awaitAll L ctx is s = Some (Inr errs, s')" "list_all session_ok (channels s)" "distinct is" "errs = []"
    "\<forall>i \<in> set is. empty_hand (ds_chan (channels s ! i))"
  shows "length (channels s') = length (channels s) \<and> (\<forall>i \<in> set is. delivered (channels s' ! i))
    \<and> (\<forall>i < length (channels s). i \<notin> set is \<longrightarrow> channels s' ! i = channels s ! i)"
  using assms
proof (induction "is" arbitrary: s errs)
  case Nil
  then show ?case by (simp add: ret_def)
next
  case (Cons i "is")
  obtain e s1 x s2 errs' where s: "zoom (ctxErr ctx) s = Some (Inr e, s1)" "on_channel i (waitAll (ld_env L) e) s1 = Some (x, s2)"
    "awaitAll L ctx is s2 = Some (Inr errs', s')" "errs = (case x of Inl err \<Rightarrow> [Errorf ''data session %d: %w'' [err]] | Inr _ \<Rightarrow> []) @ errs'"
    using Cons.prems(1) by (auto simp: ret_def elim!: bnd_SomeE attempt_SomeE)
  obtain u where x: "x = Inr u" "errs' = []" using s(4) Cons.prems(4) by (cases x) auto
  have c1: "channels s1 = channels s" using s(1) by (rule check_SomeE) simp
  obtain d where d: "i < length (channels s)" "waitAll (ld_env L) e (channels s ! i) = Some (Inr u, d)"
    "channels s2 = (channels s)[i := d]"
    using s(2) unfolding c1 [symmetric] x by (rule on_channel_SomeE)
  have ok: "session_ok (channels s ! i)" using Cons.prems(2) d(1) by (simp add: list_all_length)
  have del: "delivered d" using waitAll_delivers [OF ok d(2)] Cons.prems(5) by (simp add: delivered_def)
  have "list_all session_ok (channels s2)"
    using Cons.prems(2) session_ok_calls(3) [OF ok d(2)] d(3) by (simp add: list_all_update)
  moreover have "\<forall>j \<in> set is. empty_hand (ds_chan (channels s2 ! j))"
    using Cons.prems(3,5) d(1,3) by (auto simp: nth_list_update)
  ultimately show ?case
    using Cons.IH [OF s(3)] Cons.prems(3) x(2) del d(1,3) by (auto simp: nth_list_update)
qed


section \<open>A load delivers its rows\<close>

text \<open>How many of \<open>n\<close> rows go to session \<open>i\<close> of \<open>k\<close>: they are dealt out in turn.\<close>

definition rowsFor :: "nat \<Rightarrow> nat \<Rightarrow> nat \<Rightarrow> nat" where
  "rowsFor n k i = length (filter (\<lambda>r. r mod k = i) [0..<n])"

lemma rowsFor_Suc: "rowsFor (Suc n) k i = rowsFor n k i + (if n mod k = i then 1 else 0)"
  by (simp add: rowsFor_def)

definition dealt :: "fastLoadTx \<times> fastLoadConnection \<Rightarrow> bool" where
  "dealt s \<longleftrightarrow> channels s \<noteq> [] \<and> list_all session_ok (channels s)
     \<and> (\<forall>i < length (channels s). length (dc_accepted (ds_chan (channels s ! i)))
          = rowsFor (unat (tx_rowNumber (fst s))) (length (channels s)) i)"

lemma sint_small:
  fixes w :: u32
  assumes "unat w < 2 ^ 31" shows "sint w = int (unat w)"
proof -
  have "sint (word_of_nat (unat w) :: u32) = signed_take_bit 31 (int (unat w))" by (simp only: signed_of_nat) simp
  also have "\<dots> = int (unat w)"
  proof (rule signed_take_bit_int_eq_self)
    show "- (2 ^ 31) \<le> int (unat w)" by (rule order_trans [of _ 0]) simp_all
    have "int (unat w) < int (2 ^ 31)" using assms by (simp only: of_nat_less_iff)
    then show "int (unat w) < 2 ^ 31" by (simp only: of_nat_power of_nat_numeral)
  qed
  finally show ?thesis by simp
qed

lemma unat_next: "unat (w :: u32) < 2 ^ 31 - 1 \<Longrightarrow> unat (w + 1) = unat w + 1"
  by (simp add: unat_word_ariths)

lemma channelFor_turn:
  assumes "channelFor t = Some i" "unat (tx_rowNumber t) < 2 ^ 31"
  shows "i = unat (tx_rowNumber t) mod length (tx_dataChannels t) \<and> i < length (tx_dataChannels t)"
proof -
  let ?n = "length (tx_dataChannels t)" and ?r = "unat (tx_rowNumber t)"
  have "sint (tx_rowNumber t) = int ?r"
    using assms(2) by (rule sint_small)
  then have "rem (sint (tx_rowNumber t)) (int ?n) = int (?r mod ?n)"
    by (simp add: rem_def quo_def zmod_int minus_div_mult_eq_mod)
  then show ?thesis using assms(1) by (auto simp: channelFor_def Let_def split: if_splits)
qed

lemma pushRow_session:
  assumes "session_ok d" "pushRow E F ctx n vs d = Some (x, d')"
  shows "session_ok d' \<and> length (dc_accepted (ds_chan d')) = length (dc_accepted (ds_chan d)) + (case x of Inl _ \<Rightarrow> 0 | Inr _ \<Rightarrow> 1)"
proof
  show "session_ok d'" by (rule session_ok_calls(1) [OF assms])
  show "length (dc_accepted (ds_chan d')) = length (dc_accepted (ds_chan d)) + (case x of Inl _ \<Rightarrow> 0 | Inr _ \<Rightarrow> 1)"
    using assms(1) by (intro pushRow_accepted [OF _ assms(2)]) (simp add: session_ok_def)
qed

lemma AddRow_dealt:
  assumes a: "AddRow L ctx vals s = Some (x, s')" and d: "dealt s" and n: "unat (tx_rowNumber (fst s)) < 2 ^ 31 - 1"
  shows "dealt s' \<and> length (channels s') = length (channels s)
    \<and> unat (tx_rowNumber (fst s')) = unat (tx_rowNumber (fst s)) + (case x of Inl _ \<Rightarrow> 0 | Inr _ \<Rightarrow> 1)"
proof (cases "tx_done (fst s)")
  case True
  then show ?thesis using a d by (auto simp: AddRow_def ifDone_over)
next
  case False
  let ?r = "tx_rowNumber (fst s)" and ?n = "length (channels s)"
  obtain i where i: "channelFor (fst s) = Some i"
    using a False by (auto simp: AddRow_def ifDone_live bnd_def gets_def pure_def split: option.splits)
  have turn: "i = unat ?r mod ?n" "i < ?n" using channelFor_turn [OF i] n by simp_all
  have r: "unat (?r + 1) = unat ?r + 1" using n by (rule unat_next)
  have "bnd (zoom (ctxErr ctx)) (\<lambda>e. bnd (on_channel i (pushRow (ld_env L) (ld_float L) e (?r + 1) vals)) (\<lambda>_.
      bnd (set_fst (\<lambda>t. t\<lparr>tx_rowNumber := ?r + 1\<rparr>)) (\<lambda>_. ret (sint (?r + 1))))) s = Some (x, s')"
    using a False i by (simp add: AddRow_def ifDone_live bnd_def [of "gets f" for f] bnd_def [of "pure f" for f] gets_def pure_def Let_def)
  then obtain e s1 where e: "fst s1 = fst s" "bnd (on_channel i (pushRow (ld_env L) (ld_float L) e (?r + 1) vals)) (\<lambda>_.
      bnd (set_fst (\<lambda>t. t\<lparr>tx_rowNumber := ?r + 1\<rparr>)) (\<lambda>_. ret (sint (?r + 1)))) s1 = Some (x, s')"
    by (cases rule: bnd_SomeE) (auto elim!: check_SomeE)
  obtain y s2 where y: "on_channel i (pushRow (ld_env L) (ld_float L) e (?r + 1) vals) s1 = Some (y, s2)"
    "case y of Inl err \<Rightarrow> x = Inl err \<and> s' = s2 | Inr _ \<Rightarrow> (\<exists>v. x = Inr v) \<and> channels s' = channels s2 \<and> tx_rowNumber (fst s') = ?r + 1"
    using e(2) by (cases rule: bnd_SomeE) (auto simp: bnd_def set_fst_def modify_def ret_def split: prod.splits)
  obtain d' where p: "pushRow (ld_env L) (ld_float L) e (?r + 1) vals (channels s ! i) = Some (y, d')"
    "channels s2 = (channels s)[i := d']" "tx_rowNumber (fst s2) = ?r"
    using y(1) unfolding e(1) [symmetric] by (rule on_channel_SomeE)
  have ok: "session_ok (channels s ! i)" using d turn(2) by (simp add: dealt_def list_all_length)
  note q = pushRow_session [OF ok p(1)]
  have c: "channels s' = (channels s)[i := d']" using y(2) p(2) by (cases y) auto
  have "list_all session_ok (channels s')" using d q by (simp add: dealt_def c list_all_update)
  moreover have u: "unat (tx_rowNumber (fst s')) = unat ?r + (case x of Inl _ \<Rightarrow> 0 | Inr _ \<Rightarrow> 1)"
    using y(2) p(3) r by (cases y) auto
  moreover have "length (dc_accepted (ds_chan (channels s' ! j))) = rowsFor (unat (tx_rowNumber (fst s'))) ?n j" if "j < ?n" for j
  proof -
    have "length (dc_accepted (ds_chan (channels s ! j))) = rowsFor (unat ?r) ?n j" using d that by (simp add: dealt_def)
    then have "length (dc_accepted (ds_chan (channels s' ! j)))
        = rowsFor (unat ?r) ?n j + (if j = i then case y of Inl _ \<Rightarrow> 0 | Inr _ \<Rightarrow> 1 else 0)"
      unfolding c using q that by (auto simp: nth_list_update)
    then show ?thesis unfolding u using y(2) turn(1) by (cases y) (auto simp: rowsFor_Suc)
  qed
  ultimately show ?thesis using d c by (simp add: dealt_def)
qed

lemma Flush_dealt:
  assumes "Flush L ctx s = Some (x, s')" "dealt s"
  shows "dealt s' \<and> accepted_by s' = accepted_by s \<and> tx_rowNumber (fst s') = tx_rowNumber (fst s)"
proof -
  have k: "list_all session_ok (channels s')" "accepted_by s' = accepted_by s" "tx_rowNumber (fst s') = tx_rowNumber (fst s)"
    using keepsD [OF keeps_rows_Flush(3) assms(1)] assms(2) by (simp_all add: same_rows_def dealt_def)
  have l: "length (channels s') = length (channels s)" using k(2) by (metis length_map)
  have "dc_accepted (ds_chan (channels s' ! i)) = dc_accepted (ds_chan (channels s ! i))" if "i < length (channels s)" for i
    using arg_cong [OF k(2), of "\<lambda>xs. xs ! i"] that l by simp
  then show ?thesis using k l assms(2) by (auto simp: dealt_def)
qed

lemma Flush_delivers:
  assumes f: "Flush L ctx s = Some (Inr u, s')" and ok: "list_all session_ok (channels s)"
  shows "list_all delivered (channels s')"
proof -
  have live: "\<not> tx_done (fst s)" using f by (cases "tx_done (fst s)") (auto simp: Flush_def ifDone_over)
  let ?is = "[0..<length (channels s)]"
  obtain v s1 errs s2 where s: "dispatchAll L ctx ?is s = Some (Inr v, s1)" "awaitAll L ctx ?is s1 = Some (Inr errs, s2)"
    "joinErrs errs s2 = Some (Inr u, s')"
    using f live by (auto simp: Flush_def ifDone_live bnd_def [of "gets f" for f] gets_def elim!: bnd_SomeE)
  have e: "errs = []" "s2 = s'" using s(3) by (auto simp: joinErrs_def ret_def fail_def split: if_splits)
  have k: "list_all session_ok (channels s1)" "accepted_by s1 = accepted_by s"
    using keepsD [OF keeps_rows_Flush(1) s(1)] ok by (simp_all add: same_rows_def)
  have l: "length (channels s1) = length (channels s)" using k(2) by (metis length_map)
  have h: "\<forall>i \<in> set ?is. empty_hand (ds_chan (channels s1 ! i))"
    using dispatchAll_empties [OF s(1) ok] l by simp
  then show ?thesis
    using awaitAll_delivers [OF s(2) k(1) distinct_upt e(1) h] l e(2) by (simp add: list_all_length)
qed

text \<open>The calls of a program on a transaction, until it looks at the outcome: the errors they return.\<close>

fun runCalls :: "loadEnv \<Rightarrow> loadCall list \<Rightarrow> fastLoadTx \<times> fastLoadConnection \<Rightarrow> (goerror option list \<times> fastLoadTx \<times> fastLoadConnection) option" where
  "runCalls L [] s = Some ([], s)"
| "runCalls L (k # ks) s = do {
     (e, s) \<leftarrow> txCall L k s;
     (es, s) \<leftarrow> runCalls L ks s;
     Some (e # es, s) }"

fun isAdd :: "loadCall \<Rightarrow> bool" where "isAdd (CallAddRow _ _) = True" | "isAdd _ = False"
fun loads :: "loadCall \<Rightarrow> bool" where "loads (CallAddRow _ _) = True" | "loads (CallFlush _) = True" | "loads _ = False"

definition rowsAdded :: "loadCall list \<Rightarrow> goerror option list \<Rightarrow> nat" where
  "rowsAdded ks es = length (filter (\<lambda>(k, e). isAdd k \<and> e = None) (zip ks es))"

lemma runCalls_dealt:
  assumes "runCalls L ks s = Some (es, s')" "list_all loads ks" "dealt s"
    "unat (tx_rowNumber (fst s)) + length ks < 2 ^ 31"
  shows "dealt s' \<and> length (channels s') = length (channels s)
    \<and> unat (tx_rowNumber (fst s')) = unat (tx_rowNumber (fst s)) + rowsAdded ks es"
  using assms
proof (induction ks arbitrary: s es)
  case Nil
  then show ?case by (simp add: rowsAdded_def)
next
  case (Cons k ks)
  obtain e s1 es1 where r: "txCall L k s = Some (e, s1)" "runCalls L ks s1 = Some (es1, s')" "es = e # es1"
    using Cons.prems(1) by (auto elim!: bind_SomeE)
  have k: "dealt s1 \<and> length (channels s1) = length (channels s)
    \<and> unat (tx_rowNumber (fst s1)) = unat (tx_rowNumber (fst s)) + (if isAdd k \<and> e = None then 1 else 0)"
  proof (cases k)
    case (CallAddRow ctx vals)
    then obtain x where "AddRow L ctx vals s = Some (x, s1)" "e = case_sum Some (\<lambda>_. None) x" using r(1) by auto
    with AddRow_dealt [OF this(1) Cons.prems(3)] Cons.prems(4) CallAddRow show ?thesis by (cases x) auto
  next
    case (CallFlush ctx)
    then obtain x where f: "Flush L ctx s = Some (x, s1)" using r(1) by auto
    note g = Flush_dealt [OF f Cons.prems(3)]
    then have "length (channels s1) = length (channels s)" by (metis length_map)
    then show ?thesis using g CallFlush by simp
  qed (use Cons.prems(2) in auto)
  then show ?case using Cons.IH [OF r(2)] Cons.prems(2,4) r(3) by (auto simp: rowsAdded_def)
qed


text \<open>A transaction as \<open>BeginFastLoad\<close> leaves it.\<close>

definition fresh_load :: "fastLoadTx \<times> fastLoadConnection \<Rightarrow> bool" where
  "fresh_load s \<longleftrightarrow> channels s \<noteq> [] \<and> tx_rowNumber (fst s) = 0
     \<and> list_all (\<lambda>d. session_ok d \<and> dc_accepted (ds_chan d) = []) (channels s)"

lemma fresh_dealt: "fresh_load s \<Longrightarrow> dealt s"
  by (auto simp: fresh_load_def dealt_def list_all_length rowsFor_def)

lemma openDataChannels_fresh:
  assumes "openDataChannels L ctx n encoders chs c = Some (Inr chs', c')"
    "newFastLoadColumnEncoders si k = Inr encoders"
    "list_all (\<lambda>item. 0 \<le> sint (getMaxLength item)) (paramMarkerMetaItems si)"
    "list_all (\<lambda>d. session_ok d \<and> dc_accepted (ds_chan d) = []) chs"
  shows "length chs' = length chs + n \<and> list_all (\<lambda>d. session_ok d \<and> dc_accepted (ds_chan d) = []) chs'"
  using assms(1,4)
proof (induction n arbitrary: chs c)
  case 0
  then show ?case by (simp add: ret_def)
next
  case (Suc n)
  obtain conn ch config caps c1 where
    ch: "newFastLoadDataChannel caps encoders config = Inr ch"
    and n: "openDataChannels L ctx n encoders (chs @ [\<lparr>ds_chan = ch, ds_conn = conn, ds_closeErr = None\<rparr>]) c1 = Some (Inr chs', c')"
    using Suc.prems(1)
    by (auto simp: gets_def pure_def fail_def elim!: bnd_SomeE attempt_SomeE split: sum.splits option.splits)
  have "dc_accepted ch = []"
    using ch by (auto simp: newFastLoadDataChannel_def startFastLoadDataChannel_def Let_def split: if_splits)
  then show ?case using Suc.IH [OF n] Suc.prems(2) session_ok_new [OF assms(2,3) ch] by simp
qed

lemma session_parcels: "session_ok d \<Longrightarrow> list_all row_parcel (dc_accepted (ds_chan d))"
  by (auto simp: session_ok_def chan_inv_def split_inv_def)

text \<open>C1: a bulk load delivers its rows. Whatever calls of \<open>AddRow\<close> and \<open>Flush\<close> a program makes on a new transaction,
  failing or not, and whatever the server and the contexts do: when a \<open>Flush\<close> then returns nil, every data session
  has been sent exactly the rows it accepted, in order; these are the rows whose \<open>AddRow\<close> returned nil, dealt out
  over the sessions in turn, each in a parcel with its right length.\<close>
theorem load_delivers_all_rows:
  assumes "fresh_load s" "list_all loads ks" "length ks < 2 ^ 31"
    and "runCalls L ks s = Some (es, s1)" "Flush L ctx s1 = Some (Inr (), s2)"
  shows "length (channels s2) = length (channels s)
    \<and> unat (tx_rowNumber (fst s2)) = rowsAdded ks es
    \<and> (\<forall>i < length (channels s). let c = ds_chan (channels s2 ! i)
         in dc_sent c = concat (dc_accepted c) \<and> list_all row_parcel (dc_accepted c)
           \<and> length (dc_accepted c) = rowsFor (rowsAdded ks es) (length (channels s)) i)"
proof -
  have r: "dealt s1" "length (channels s1) = length (channels s)" "unat (tx_rowNumber (fst s1)) = rowsAdded ks es"
    using runCalls_dealt [OF assms(4,2) fresh_dealt [OF assms(1)]] assms(1,3) by (simp_all add: fresh_load_def)
  note f = Flush_dealt [OF assms(5) r(1)]
  have l: "length (channels s2) = length (channels s)" using f r(2) by (metis length_map)
  have "list_all delivered (channels s2)" using Flush_delivers [OF assms(5)] r(1) by (simp add: dealt_def)
  then show ?thesis using f r(3) l session_parcels by (simp add: dealt_def list_all_length delivered_def Let_def)
qed

text \<open>C11: a transaction that has been ended or aborted is over for good, however the call went: it has no sessions
  left, the connection takes a new load, and every later call on it returns \<open>ErrFastLoadFinished\<close> and changes
  nothing.\<close>
theorem finished_for_good:
  assumes "\<not> tx_done (fst s)" "\<not> loads k" "txCall L k s = Some (e, s')"
  shows "over s' \<and> runCalls L ks s' = Some (replicate (length ks) (Some ErrFastLoadFinished), s')"
proof -
  have o: "over s'" using assms by (cases k) (auto dest: End_over Abort_over)
  then have "runCalls L ks s' = Some (replicate (length ks) (Some ErrFastLoadFinished), s')"
    by (induction ks) (simp_all add: txCall_over over_def)
  with o show ?thesis ..
qed

text \<open>A load of one row over one session whose server counts it.\<close>

definition demo_session :: dataSession where
  "demo_session = \<lparr>ds_chan = demo_chan, ds_conn = demo_exec, ds_closeErr = None\<rparr>"

definition demo_load :: loadEnv where
  "demo_load = \<lparr>ld_net = demo_net\<lparr>nt_lookup := \<lambda>_. None\<rparr>, ld_env = demo_env, ld_float = demo_float, ld_sys = demo_sys,
     ld_fmt = (\<lambda>_. []), ld_draws = (\<lambda>_. []), ld_cleanup = (\<lambda>_. None)\<rparr>"

definition demo_load_state :: "dataSession list \<Rightarrow> fastLoadTx \<times> fastLoadConnection" where
  "demo_load_state chs = (newFastLoadTx ''d'' ''t'' None demo_encoders (int (length chs)) chs,
     newFastLoadConnection (demo_connector ''DISABLE'' False))"

lemma demo_pushed:
  "pushRow E demo_float None 1 [V_int64 5, V_string ''ab''] \<lparr>ds_chan = demo_chan, ds_conn = d, ds_closeErr = e\<rparr> =
    Some (Inr (), \<lparr>ds_chan = demo_chan\<lparr>dc_cur := Some demo_batch, dc_accepted := [demo_row]\<rparr>, ds_conn = d, ds_closeErr = e\<rparr>)"
proof -
  have m: "pushed_parcel (newBatch 20) demo_batch = demo_row" by code_simp
  have c: "dc_err demo_chan = None" "dc_cur demo_chan = Some (newBatch 20)" "dc_encoders demo_chan = demo_encoders"
    "dc_accepted demo_chan = []"
    by (simp_all add: demo_chan_def)
  show ?thesis
    by (simp add: pushRow_def dispatchIfFull_def encodeRow_def bnd_def gets_def ret_def c demo_not_long demo_push m)
qed

lemma demo_sent: "\<exists>d. sendBatchIO demo_env demo_batch demo_exec = Some (Inr 1, d)"
proof -
  let ?ps = "[FastLoadRowsParcel (batch_body demo_batch), fastLoadRespondParcel]"
  let ?d = "demo_exec\<lparr>cn_requestNo := 1, cn_authNonce := 1\<rparr>"
  have c: "in_clear demo_exec demo_caps" "cn_requestNo demo_exec = 0" "cn_authNonce demo_exec = 0"
    by (simp_all add: in_clear_def usable_def encrypts_def demo_exec_def demo_tx_def demo_conn_def)
  have p: "list_all parcel_ok ?ps" "bodyLength ?ps < 2 ^ 31" by code_simp+
  from start_request [OF c(1) p, of demo_env] obtain h wb where
    h: "newLanHeaderStart demo_exec = Some (Inr h, ?d)"
    and w: "writeLanMessage demo_env h ?ps ?d = Some (Inr (), ?d\<lparr>cn_writeBuffer := wb,
       cn_written := cn_written demo_exec @ [startMessage demo_exec 1 ?ps]\<rparr>)"
    by (auto simp: c)
  let ?e = "?d\<lparr>cn_writeBuffer := wb, cn_written := cn_written demo_exec @ [startMessage demo_exec 1 ?ps]\<rparr>"
  have r: "receives ?e (answer_bytes (cn_isTlsConn ?e) zeroLanHeader demo_success @ [])"
    by (simp add: receives_def healthy_def incoming_def script_bytes_def demo_exec_def demo_tx_def demo_conn_def
        newReadBuffer_def)
  have z: "plain_header zeroLanHeader" by (simp add: plain_header_def wf_lanHeader_def zeroLanHeader_def)
  obtain hd b bs where "readLanMessage demo_env ?e = Some (Inr (demo_counted, hd),
      ?e\<lparr>cn_buffer := b, cn_script := bs, cn_transactionInProgress := (lh_byteVar zeroLanHeader AND 1 = 1)\<rparr>)"
    using readLanMessage_answer [OF r z demo_success_understood] by blast
  then show ?thesis using h w
    by (simp add: sendBatchIO_def bnd_def ret_def demo_counted_def activityCountFromStatusParcels_def)
qed


abbreviation demo_full :: fastLoadDataChannel where
  "demo_full \<equiv> demo_chan\<lparr>dc_cur := Some demo_batch, dc_accepted := [demo_row]\<rparr>"

abbreviation demo_queued :: fastLoadDataChannel where
  "demo_queued \<equiv> demo_chan\<lparr>dc_cur := Some (newBatch 20), dc_pending := [demo_batch], dc_free := [], dc_accepted := [demo_row]\<rparr>"

lemma demo_dispatched:
  "dispatch E None \<lparr>ds_chan = demo_full, ds_conn = d, ds_closeErr = e\<rparr> =
    Some (Inr (), \<lparr>ds_chan = demo_queued, ds_conn = d, ds_closeErr = e\<rparr>)"
  by (simp add: dispatch_def bnd_def gets_def demo_batch_def sendPending_def acquire_def takeFree_def on_chan_def
      modify_def ret_def demo_chan_def fastLoadBuffersPerSession_def)

lemma demo_waited:
  assumes "sendBatchIO E demo_batch d = Some (Inr n, d')"
  shows "\<exists>s. waitAll E None \<lparr>ds_chan = demo_queued, ds_conn = d, ds_closeErr = e\<rparr> = Some (Inr (), s)"
  using assms
  by (simp add: waitAll_def drain_def drainList.simps exchange_def giveBack_def inHand_def bnd_def gets_def pure_def ret_def
      on_chan_def modify_def demo_chan_def fastLoadBuffersPerSession_def Let_def)

lemma demo_AddRow:
  "\<exists>s1. txCall demo_load (CallAddRow (\<lambda>_. None) [V_int64 5, V_string ''ab'']) (demo_load_state [demo_session]) = Some (None, s1)
    \<and> tx_dataChannels (fst s1) = [demo_session\<lparr>ds_chan := demo_full\<rparr>] \<and> \<not> tx_done (fst s1)"
  using demo_pushed [of "ld_env demo_load" demo_exec None]
  by (simp add: AddRow_def ifDone_def bnd_def gets_def pure_def channelFor_def rem_def quo_def zoom_def ctxErr_def
      on_channel_def set_fst_def modify_def ret_def demo_load_state_def newFastLoadTx_def Let_def demo_session_def
      demo_load_def)

lemma demo_Flush:
  assumes "tx_dataChannels (fst s1) = [demo_session\<lparr>ds_chan := demo_full\<rparr>]" "\<not> tx_done (fst s1)"
  shows "\<exists>s2. Flush demo_load (\<lambda>_. None) s1 = Some (Inr (), s2)"
proof -
  obtain d where d: "sendBatchIO demo_env demo_batch demo_exec = Some (Inr 1, d)" using demo_sent by blast
  obtain s where w: "waitAll demo_env None \<lparr>ds_chan = demo_queued, ds_conn = demo_exec, ds_closeErr = None\<rparr> = Some (Inr (), s)"
    using demo_waited [OF d] by blast
  have e: "ld_env demo_load = demo_env" by (simp add: demo_load_def)
  obtain t c where s1: "s1 = (t, c)" by (cases s1)
  show ?thesis
    using assms unfolding s1
    by (simp add: Flush_def ifDone_def bnd_def gets_def dispatchAll.simps awaitAll.simps attempt_def zoom_def ctxErr_def
      on_channel_def demo_session_def e demo_dispatched w ret_def joinErrs_def)
qed

theorem load_delivers_all_rows_witness:
  "\<exists>s1 s2. runCalls demo_load [CallAddRow (\<lambda>_. None) [V_int64 5, V_string ''ab'']] (demo_load_state [demo_session]) = Some ([None], s1)
    \<and> Flush demo_load (\<lambda>_. None) s1 = Some (Inr (), s2)
    \<and> length (channels s2) = 1 \<and> length (dc_accepted (ds_chan (channels s2 ! 0))) = 1
    \<and> dc_sent (ds_chan (channels s2 ! 0)) = concat (dc_accepted (ds_chan (channels s2 ! 0)))"
proof -
  let ?k = "CallAddRow (\<lambda>_. None) [V_int64 5, V_string ''ab'']"
  have "chan_inv 20 demo_chan" using start_encoders [OF demo_columnEncoders demo_limits demo_start reaches_refl] .
  then have ok: "session_ok demo_session"
    by (auto simp: session_ok_def resting_def demo_session_def demo_chan_def)
  have f: "fresh_load (demo_load_state [demo_session])"
    using ok by (simp add: fresh_load_def demo_load_state_def newFastLoadTx_def Let_def) (simp add: demo_session_def demo_chan_def)
  obtain s1 s2 where r: "runCalls demo_load [?k] (demo_load_state [demo_session]) = Some ([None], s1)"
    "Flush demo_load (\<lambda>_. None) s1 = Some (Inr (), s2)"
  proof -
    obtain s1 where a: "txCall demo_load ?k (demo_load_state [demo_session]) = Some (None, s1)"
      "tx_dataChannels (fst s1) = [demo_session\<lparr>ds_chan := demo_full\<rparr>]" "\<not> tx_done (fst s1)"
      using demo_AddRow by blast
    then have "runCalls demo_load [?k] (demo_load_state [demo_session]) = Some ([None], s1)" by (simp del: txCall.simps)
    then show thesis using that demo_Flush [OF a(2,3)] by blast
  qed
  have l: "length (channels (demo_load_state [demo_session])) = 1" by (simp add: demo_load_state_def newFastLoadTx_def Let_def)
  have "list_all loads [?k]" "length [?k] < 2 ^ 31" by simp_all
  from load_delivers_all_rows [OF f this r]
  have "length (channels s2) = 1 \<and> length (dc_accepted (ds_chan (channels s2 ! 0))) = 1
    \<and> dc_sent (ds_chan (channels s2 ! 0)) = concat (dc_accepted (ds_chan (channels s2 ! 0)))"
    by (simp add: l Let_def rowsFor_def rowsAdded_def)
  then show ?thesis using r by blast
qed

theorem finished_for_good_witness:
  "\<exists>e s'. txCall demo_load (CallAbort (\<lambda>_. None)) (demo_load_state []) = Some (Some e, s')
    \<and> over s' \<and> runCalls demo_load [CallFlush (\<lambda>_. None), CallEnd (\<lambda>_. None)] s' =
        Some ([Some ErrFastLoadFinished, Some ErrFastLoadFinished], s')"
proof -
  have "map_option (isl \<circ> fst) (connect (ld_net demo_load) False (demo_connector ''DISABLE'' False)) = Some True" by code_simp
  then obtain e0 k where "connect (ld_net demo_load) False (demo_connector ''DISABLE'' False) = Some (Inl e0, k)"
    by (auto simp: isl_def)
  then have "\<exists>e s'. txCall demo_load (CallAbort (\<lambda>_. None)) (demo_load_state []) = Some (Some e, s')"
    by (auto simp: Abort_def ifDone_def deferred_def abortLoad_def finish_def closeSessions_def closeSession_def
      openSessions_def openFastLoadConnection_def on_connector_def joinErrs_def bnd_def attempt_def gets_def zoom_def
      set_fst_def modify_def ret_def fail_def demo_load_state_def newFastLoadTx_def newFastLoadConnection_def Let_def)
  moreover have "\<not> tx_done (fst (demo_load_state []))" "\<not> loads (CallAbort (\<lambda>_. None))"
    by (simp_all add: demo_load_state_def newFastLoadTx_def Let_def)
  ultimately show ?thesis
    using finished_for_good [of "demo_load_state []" "CallAbort (\<lambda>_. None)" demo_load _ _ "[CallFlush (\<lambda>_. None), CallEnd (\<lambda>_. None)]"]
    by (fastforce simp: numeral_2_eq_2)
qed

end
