(* ===== verification/Spec2Isabelle.thy ===== *)
theory Spec2Isabelle
  imports Prelude Errors BufferReader BufferWriter ReadBuffer LanHeader GoStrings Numbers DataTypes Dsn
    RequestParcels StatementForest ParcelWalk Der Td2 Rows RowTypes FastLoadChannel Connection Session Statement RowSet RowStream Api Auth
    Connector FastLoadQuery FastLoadSession FastLoad FastLoadDelivery
begin

text \<open>
  A model of the Teradata driver for Go's \<open>database/sql\<close> (package \<open>teradata\<close>, the files of src/).

  \<^bold>\<open>The program.\<close> The driver speaks the Teradata wire protocol. A \<^emph>\<open>message\<close> is a 52-byte LAN header and a body of
  \<^emph>\<open>parcels\<close>; over TLS it is wrapped in a WebSocket frame, and its body may be sealed by the security mechanism
  TD2. A \<^emph>\<open>connector\<close> finds and dials a host and logs on; the \<^emph>\<open>connection\<close> it returns runs SQL requests, each a
  start message followed by continue and cancel messages; \<^emph>\<open>statements\<close> bind parameters and yield results or
  \<^emph>\<open>rows\<close>, whose values may be \<^emph>\<open>LOBs\<close> that are fetched by locator. A \<^emph>\<open>bulk load\<close> has a control session, a
  diagnostic session and data sessions, each with a goroutine that sends batches of rows.

  \<^bold>\<open>Conventions.\<close> A Go byte slice is a list of 8-bit words, a sized integer a word of its width, Go's \<open>int\<close> an
  integer (with the wrap-around written out where a length field can overflow it), a string a list of characters,
  a pointer that may be nil an option. A Go error is \<open>Inl\<close> of a \<open>goerror\<close>. \<open>None\<close> is a panic, or a run that does
  not return: loops without a bound are partial functions, so there is no fuel anywhere, and a claim that
  a call returns is an equation with \<open>Some\<close>. A method is a function of the state of its receiver that returns a
  result and the state it leaves (\<open>comp\<close> of Connection); state kept by an owner is reached by \<open>zoom\<close> and its
  like. Record fields carry a prefix of their Go type. What the code takes from the Go library, from crypto
  packages and from the network is an argument: \<open>env\<close> (AES-GCM, asn1), \<open>floatOps\<close> and the formatting of floats,
  \<open>network\<close> and \<open>link\<close> (DNS, sockets and what the TLS handshake leads to), \<open>sysInfo\<close>, \<open>x509\<close>, lists of random
  draws. A connection's socket is a script: the pieces the network delivers with the errors that end them, and
  how many bytes each write takes. A context is the error it has at each moment the code looks at it.

  \<^bold>\<open>The theories\<close>, each after those it uses.

  \<^item> Prelude, GoStrings, GoValues, Errors: shared vocabulary and facts; the parts of \<open>strings\<close>, \<open>strconv\<close> and
    \<open>math/big\<close> that the driver calls; the values of \<open>driver.Value\<close>; errors.go.
  \<^item> BufferReader, BufferWriter, ReadBuffer: buffer_reader.go, buffer_writer.go and buffer.go. The locale
    \<open>wire_field\<close> states that a field read back is the field written, \<open>byte_source\<close> that a buffer hands out what its
    socket delivered, in order; both are interpreted on the code's operations. \<open>readNext\<close> is shown to cut the
    byte stream of the socket, however it arrives, and \<open>fill\<close> to return always.
  \<^item> LanHeader, Parcels, RequestParcels, StatementInfo, StatementForest, ResponseParcels, ParcelWalk: packet_header.go, the frames
    of tls.go, parcel.go, parcels_request.go, parcels_response.go, fastload_parcels.go. Round trips of headers and
    frames; what each request parcel writes, against what it announces (locale \<open>request_parcel\<close>); a
    message yields its parcels in order, its first error parcel is the error; every item of
    a statement info parcel is in one place, with its number, as a description without stack and counters says.
  \<^item> Numbers, DataTypes, Dsn: number.go, datatype.go, dsn.go. NUMBER and decimal text round trips; a parsed
    configuration is well formed and comes back from the data source name that is made of it.
  \<^item> Params, Lob, Rows, RowTypes: params.go, the values of lob.go, the column values of rows.go. What is written for
    a parameter reads back as the value; every value of a row has the Go type announced for its column.
  \<^item> Der, Td2, Auth: der.go, auth_td2.go, auth_td2tls.go, auth.go and the logon of connection.go and
    parcels_request.go. The locale \<open>gss_context\<close> is the contract of a security context, interpreted on TD2 and on
    its TLS bypass; nonces never repeat, the keys of one secret are disjoint, the key exchange ends with the
    same secret on both sides after any number of refusals.
  \<^item> Connection, Session, Statement, RowSet, RowStream, Api: packet.go, connection.go, context.go, statement.go, the result sets
    of rows.go and the fetching of lob.go. A message that is written is read by the peer as the same parcels, in
    the clear and sealed; an error of the socket marks the connection for good; a commit sends ET until the
    server says the transaction is over; an execution fills all the slots of its request and reports the
    server's count. RowStream says how parcels and messages make up the rows of a result, with their LOBs, and that
    \<open>Next\<close> gives these rows in order, then the end or, where a message stops inside a row, an error. Api runs
    arbitrary sequences of the calls of \<open>database/sql\<close>: a closed or bad connection never sends again.
  \<^item> Connector: connector.go, driver.go, the upgrade and certificates of tls.go. The locale \<open>kept_relation\<close> carries a
    relation between the states before and after through every combination of calls; it is interpreted here on
    the identity of a connection and on the log of dials, and by the bulk load on what a flush leaves alone. TLS
    that is required is never left out; a failed \<open>Connect\<close> leaves no socket open.
  \<^item> FastLoadEncode, FastLoadChannel, FastLoadQuery, FastLoadSession, FastLoad, FastLoadDelivery: fastload.go,
    fastload_encode.go, fastload_data_channel.go, fastload_query.go, fastload_connection.go. FastLoadChannel has the
    caller and the sender of a data session as interleaved steps: under every interleaving the rows that were
    accepted are sent in order, without loss, and the sender catches up. FastLoadSession has the same methods as
    calls of one goroutine in which the sender works when the caller waits for it; each is shown to be a run of
    the interleaved model, which is how its facts carry over. FastLoad is the load over several sessions;
    FastLoadDelivery shows that a \<open>Flush\<close> that returns nil has delivered every row, and that a load that has ended
    or been aborted stays over.

  \<^bold>\<open>Ghost state.\<close> \<open>dc_accepted\<close> and \<open>dc_sent\<close> of a data session, \<open>cn_written\<close> of a connection, \<open>ctr_dials\<close> and
  \<open>ctr_open\<close> of a connector and \<open>fl_retired\<close> and \<open>fl_checks\<close> of a bulk load record what has happened; the code does
  not have them and nothing depends on them but the index with which the network and the contexts are asked.

  \<^bold>\<open>Not modelled.\<close> logging.go, log calls and the \<open>String\<close> methods (text for people only); the arguments of
  error texts beyond the errors they wrap; deadlines and pauses as times (a deadline shows as an error of the
  socket); goroutines other than the sender of a data session: the context watcher of a query is the
  error of the context when an exchange fails; the registration of the driver with \<open>database/sql\<close>; concurrent use of
  one connection, which \<open>database/sql\<close> excludes.
\<close>

end
